(* ===== verification/Prelude.thy ===== *)
theory Prelude
  imports Main "HOL-Library.Word"
begin

unbundle bit_operations_syntax

text \<open>
  Shared vocabulary of the development: the machine integers of the Rust sources as words, the
  saturating and checked arithmetic of \<^verbatim>\<open>core::num\<close>, byte-order conversions, the slice and
  iterator idioms the tables are written with, and the \<^verbatim>\<open>named_theorems\<close> collections the
  component proofs are carried by.
\<close>

section \<open>Types and proof collections\<close>

type_synonym u8 = "8 word"
type_synonym u16 = "16 word"
type_synonym u32 = "32 word"
type_synonym u64 = "64 word"
type_synonym bytes = "u8 list"
type_synonym hash16 = bytes
type_synonym hash32 = bytes
type_synonym interface_id = u8

named_theorems slot_simps "facts on option slots and the iterator idioms over them"
named_theorems sat_simps "facts on saturating arithmetic"

section \<open>Constants of constants.rs\<close>

definition MTU :: nat where "MTU = 500"
definition HEADER_MINSIZE :: nat where "HEADER_MINSIZE = 19"
definition HEADER_MAXSIZE :: nat where "HEADER_MAXSIZE = 35"
definition MDU :: nat where "MDU = 464"
definition TRANSPORT_ID_LENGTH :: nat where "TRANSPORT_ID_LENGTH = 16"
definition LORA_FRAME_PAYLOAD_MAX :: nat where "LORA_FRAME_PAYLOAD_MAX = 254"
definition LORA_SPLIT_FRAME_PAYLOAD_MAX :: nat where
  "LORA_SPLIT_FRAME_PAYLOAD_MAX = LORA_FRAME_PAYLOAD_MAX * 2"
definition SIGNATURE_LENGTH :: nat where "SIGNATURE_LENGTH = 64"
definition WIRE_MTU_MAX :: nat where "WIRE_MTU_MAX = MTU + SIGNATURE_LENGTH"
definition PATHFINDER_M :: u8 where "PATHFINDER_M = 128"
definition PATHFINDER_R :: u8 where "PATHFINDER_R = 1"
definition PATHFINDER_G_SECS :: u64 where "PATHFINDER_G_SECS = 5"
definition LOCAL_REBROADCASTS_MAX :: u8 where "LOCAL_REBROADCASTS_MAX = 2"
definition PATHFINDER_E_SECS :: u64 where "PATHFINDER_E_SECS = 604800"
definition AP_PATH_TIME_SECS :: u64 where "AP_PATH_TIME_SECS = 86400"
definition ROAMING_PATH_TIME_SECS :: u64 where "ROAMING_PATH_TIME_SECS = 21600"
definition REVERSE_TIMEOUT_SECS :: u64 where "REVERSE_TIMEOUT_SECS = 480"
definition LINK_TIMEOUT_SECS :: u64 where "LINK_TIMEOUT_SECS = 900"
definition PATH_REQUEST_DUPLICATE_GATE_SECS :: u64 where
  "PATH_REQUEST_DUPLICATE_GATE_SECS = 120"
definition QUEUED_ANNOUNCE_LIFE_SECS :: u64 where "QUEUED_ANNOUNCE_LIFE_SECS = 86400"

lemmas size_consts = MTU_def HEADER_MINSIZE_def HEADER_MAXSIZE_def MDU_def
  TRANSPORT_ID_LENGTH_def LORA_FRAME_PAYLOAD_MAX_def LORA_SPLIT_FRAME_PAYLOAD_MAX_def
  SIGNATURE_LENGTH_def WIRE_MTU_MAX_def

lemmas time_consts = PATHFINDER_G_SECS_def PATHFINDER_E_SECS_def AP_PATH_TIME_SECS_def
  ROAMING_PATH_TIME_SECS_def REVERSE_TIMEOUT_SECS_def LINK_TIMEOUT_SECS_def
  PATH_REQUEST_DUPLICATE_GATE_SECS_def QUEUED_ANNOUNCE_LIFE_SECS_def

section \<open>Saturating and checked arithmetic\<close>

text \<open>Rust's \<^verbatim>\<open>saturating_add\<close>, \<^verbatim>\<open>saturating_sub\<close>, \<^verbatim>\<open>saturating_mul\<close>, \<^verbatim>\<open>checked_add\<close>
  and \<^verbatim>\<open>div_ceil\<close> on unsigned integers of any width.\<close>

definition sat_add :: "'a::len word \<Rightarrow> 'a word \<Rightarrow> 'a word" where
  "sat_add a b = (if unat a + unat b < 2 ^ LENGTH('a) then a + b else - 1)"

definition sat_sub :: "'a::len word \<Rightarrow> 'a word \<Rightarrow> 'a word" where
  "sat_sub a b = (if a < b then 0 else a - b)"

definition sat_mul :: "'a::len word \<Rightarrow> 'a word \<Rightarrow> 'a word" where
  "sat_mul a b = (if unat a * unat b < 2 ^ LENGTH('a) then a * b else - 1)"

definition checked_add :: "'a::len word \<Rightarrow> 'a word \<Rightarrow> 'a word option" where
  "checked_add a b = (if unat a + unat b < 2 ^ LENGTH('a) then Some (a + b) else None)"

definition div_ceil :: "'a::len word \<Rightarrow> 'a word \<Rightarrow> 'a word" where
  "div_ceil a b = (if a mod b > 0 then a div b + 1 else a div b)"

lemma unat_bound: "unat (a :: 'a::len word) < 2 ^ LENGTH('a)"
  by simp

lemma unat_le_max: "unat (a :: 'a::len word) \<le> 2 ^ LENGTH('a) - Suc 0"
  using unat_bound [of a] by linarith

lemma unat_max_word [sat_simps]: "unat (- 1 :: 'a::len word) = 2 ^ LENGTH('a) - 1"
  by (simp add: unsigned_minus_1_eq_mask mask_eq_exp_minus_1)

lemma unat_sat_add [sat_simps]:
  "unat (sat_add a (b :: 'a::len word)) = min (unat a + unat b) (2 ^ LENGTH('a) - 1)"
proof (cases "unat a + unat b < 2 ^ LENGTH('a)")
  case True
  then have "unat (a + b) = unat a + unat b"
    by (simp add: unat_word_ariths)
  with True show ?thesis by (simp add: sat_add_def)
next
  case False
  then show ?thesis by (simp add: sat_add_def unat_max_word)
qed

lemma unat_sat_sub [sat_simps]: "unat (sat_sub a (b :: 'a::len word)) = unat a - unat b"
proof (cases "a < b")
  case True
  then show ?thesis by (simp add: sat_sub_def word_less_nat_alt)
next
  case False
  then have "b \<le> a" by simp
  then show ?thesis using False by (simp add: sat_sub_def unat_sub)
qed

lemma unat_sat_mul [sat_simps]:
  "unat (sat_mul a (b :: 'a::len word)) = min (unat a * unat b) (2 ^ LENGTH('a) - 1)"
proof (cases "unat a * unat b < 2 ^ LENGTH('a)")
  case True
  then have "unat (a * b) = unat a * unat b"
    by (simp add: unat_word_ariths)
  with True show ?thesis by (simp add: sat_mul_def)
next
  case False
  then show ?thesis by (simp add: sat_mul_def unat_max_word)
qed

lemma le_sat_add [simp, intro]: "a \<le> sat_add a (b :: 'a::len word)"
  by (simp add: word_le_nat_alt unat_sat_add unat_le_max)

lemma sat_add_mono2: "b \<le> c \<Longrightarrow> sat_add a b \<le> sat_add a (c :: 'a::len word)"
  by (simp add: word_le_nat_alt unat_sat_add)

lemma sat_add_mono1: "a \<le> b \<Longrightarrow> sat_add a c \<le> sat_add b (c :: 'a::len word)"
  by (simp add: word_le_nat_alt unat_sat_add)

lemma sat_add_0 [simp]: "sat_add a 0 = (a :: 'a::len word)"
  using unat_bound [of a] by (simp add: sat_add_def)

lemma sat_sub_le [simp, intro]: "sat_sub a b \<le> (a :: 'a::len word)"
  by (simp add: word_le_nat_alt unat_sat_sub)

text \<open>A saturating sum lies strictly above its first summand unless that one is already the
  largest value: the fact every deadline in the node rests on.\<close>

lemma sat_add_gt:
  assumes "a \<noteq> - 1" and "b \<noteq> 0"
  shows "a < sat_add a (b :: 'a::len word)"
proof -
  have "unat a < 2 ^ LENGTH('a) - 1"
  proof (rule ccontr)
    assume "\<not> unat a < 2 ^ LENGTH('a) - 1"
    then have "unat a = unat (- 1 :: 'a word)"
      using unat_le_max [of a] by (simp add: unat_max_word)
    with assms(1) show False by (metis word_unat_eq_iff)
  qed
  moreover have "0 < unat b" using assms(2) by (simp add: unat_gt_0)
  ultimately show ?thesis by (simp add: word_less_nat_alt unat_sat_add)
qed

lemma checked_add_Some [sat_simps]:
  "checked_add a b = Some c \<longleftrightarrow> unat a + unat b < 2 ^ LENGTH('a) \<and> c = a + (b :: 'a::len word)"
  by (auto simp: checked_add_def)

lemma checked_add_one_gt: "checked_add a 1 = Some c \<Longrightarrow> (a :: 'a::len word) < c"
proof -
  assume "checked_add a 1 = Some c"
  then have lt: "unat a + unat (1 :: 'a word) < 2 ^ LENGTH('a)" and c: "c = a + 1"
    by (auto simp: checked_add_Some)
  then have "unat c = unat a + unat (1 :: 'a word)"
    by (simp add: unat_word_ariths)
  then show "a < c" by (simp add: word_less_nat_alt)
qed

text \<open>\<^verbatim>\<open>usize\<close> is a natural number; where the code checks for its overflow, the bound is that of the
  32-bit microcontrollers the crate targets.\<close>

definition USIZE_MAX :: nat where "USIZE_MAX = 4294967295"

definition usize_checked_add :: "nat \<Rightarrow> nat \<Rightarrow> nat option" where
  "usize_checked_add a b = (if a + b \<le> USIZE_MAX then Some (a + b) else None)"

section \<open>Slices and byte order\<close>

definition slice :: "nat \<Rightarrow> nat \<Rightarrow> 'a list \<Rightarrow> 'a list" where
  "slice a b xs = take (b - a) (drop a xs)"

lemma length_slice [simp]: "length (slice a b xs) = min (b - a) (length xs - a)"
  by (simp add: slice_def)

lemma slice_append_left [simp]: "b \<le> length xs \<Longrightarrow> slice a b (xs @ ys) = slice a b xs"
  by (simp add: slice_def)

lemma slice_append_right: "length xs \<le> a \<Longrightarrow>
  slice a b (xs @ ys) = slice (a - length xs) (b - length xs) ys"
  by (simp add: slice_def)

lemma slice_full [simp]: "length xs \<le> b \<Longrightarrow> slice 0 b xs = xs"
  by (simp add: slice_def)

lemma slice_Cons_Suc [simp]: "slice (Suc a) (Suc b) (x # xs) = slice a b xs"
  by (simp add: slice_def)

lemma slice_mid:
  "length a = i \<Longrightarrow> length b = j - i \<Longrightarrow> slice i j (a @ b @ c) = b"
  by (simp add: slice_def)

lemma slice_slice: "b \<le> n - m \<Longrightarrow> slice a b (slice m n xs) = slice (m + a) (m + b) xs"
  by (simp add: slice_def drop_take add.commute min_def)

lemma nth_slice: "i < b - a \<Longrightarrow> a + i < length xs \<Longrightarrow> slice a b xs ! i = xs ! (a + i)"
  by (simp add: slice_def)

text \<open>\<^verbatim>\<open>copy_from_slice\<close> into the range starting at \<open>i\<close>.\<close>

definition overwrite :: "'a list \<Rightarrow> nat \<Rightarrow> 'a list \<Rightarrow> 'a list" where
  "overwrite xs i ys = take i xs @ ys @ drop (i + length ys) xs"

lemma length_overwrite [simp]:
  "i + length ys \<le> length xs \<Longrightarrow> length (overwrite xs i ys) = length xs"
  by (simp add: overwrite_def)

lemma take_overwrite: "take (length ys) (overwrite xs 0 ys) = ys"
  by (simp add: overwrite_def)

primrec to_le_bytes :: "nat \<Rightarrow> 'a::len word \<Rightarrow> bytes" where
  "to_le_bytes 0 w = []"
| "to_le_bytes (Suc n) w = ucast w # to_le_bytes n (drop_bit 8 w)"

primrec from_le_bytes :: "bytes \<Rightarrow> 'a::len word" where
  "from_le_bytes [] = 0"
| "from_le_bytes (b # bs) = ucast b OR push_bit 8 (from_le_bytes bs)"

definition to_be_bytes :: "nat \<Rightarrow> 'a::len word \<Rightarrow> bytes" where
  "to_be_bytes n w = rev (to_le_bytes n w)"

definition from_be_bytes :: "bytes \<Rightarrow> 'a::len word" where
  "from_be_bytes bs = from_le_bytes (rev bs)"

lemma length_to_le_bytes [simp]: "length (to_le_bytes n w) = n"
  by (induction n arbitrary: w) auto

lemma length_to_be_bytes [simp]: "length (to_be_bytes n w) = n"
  by (simp add: to_be_bytes_def)

lemma from_to_le_bytes: "from_le_bytes (to_le_bytes n w) = take_bit (8 * n) (w :: 'a::len word)"
proof (induction n arbitrary: w)
  case 0
  then show ?case by simp
next
  case (Suc n)
  show ?case
    by (rule bit_word_eqI) (auto simp: Suc bit_simps)
qed

lemma from_to_be_bytes: "from_be_bytes (to_be_bytes n w) = take_bit (8 * n) (w :: 'a::len word)"
  by (simp add: from_be_bytes_def to_be_bytes_def from_to_le_bytes)

lemma bit_from_le_bytes: "bit (from_le_bytes bs :: 'a::len word) n \<Longrightarrow> n < 8 * length bs"
proof (induction bs arbitrary: n)
  case (Cons b bs)
  from Cons.prems have "bit b n \<or> 8 \<le> n \<and> bit (from_le_bytes bs :: 'a word) (n - 8)"
    by (auto simp: bit_simps)
  then show ?case
    using Cons.IH [of "n - 8"] by (auto dest: bit_imp_le_length)
qed simp

lemma to_from_le_bytes:
  "8 * length bs \<le> LENGTH('a) \<Longrightarrow> to_le_bytes (length bs) (from_le_bytes bs :: 'a::len word) = bs"
proof (induction bs)
  case Nil
  then show ?case by simp
next
  case (Cons b bs)
  let ?w = "from_le_bytes bs :: 'a word"
  have hd: "(ucast (ucast b OR push_bit 8 ?w) :: u8) = b"
    using Cons.prems by (intro bit_word_eqI) (auto simp: bit_simps)
  have tl: "drop_bit 8 (ucast b OR push_bit 8 ?w) = ?w"
  proof (rule bit_word_eqI)
    fix n assume n: "n < LENGTH('a)"
    have "bit ?w n \<Longrightarrow> n < 8 * length bs"
      by (rule bit_from_le_bytes)
    with n Cons.prems show "bit (drop_bit 8 (ucast b OR push_bit 8 ?w)) n = bit ?w n"
      by (auto simp: bit_simps dest: bit_imp_le_length)
  qed
  have "to_le_bytes (length (b # bs)) (from_le_bytes (b # bs) :: 'a word) =
    b # to_le_bytes (length bs) ?w"
    by (simp only: list.size to_le_bytes.simps from_le_bytes.simps hd tl add_0_right add_Suc_right)
  with Cons show ?case by simp
qed

lemma to_from_be_bytes:
  assumes "8 * length bs \<le> LENGTH('a)"
  shows "to_be_bytes (length bs) (from_be_bytes bs :: 'a::len word) = bs"
proof -
  have "to_le_bytes (length (rev bs)) (from_le_bytes (rev bs) :: 'a word) = rev bs"
    using assms by (intro to_from_le_bytes) simp
  then show ?thesis by (simp add: from_be_bytes_def to_be_bytes_def)
qed

section \<open>Option slots and iterator idioms\<close>

text \<open>
  The tables are arrays of \<^verbatim>\<open>Option<T>\<close>. \<open>somes\<close> is \<^verbatim>\<open>iter().flatten()\<close>, \<open>position\<close> is
  \<^verbatim>\<open>iter().position(..)\<close>, \<open>find_map\<close> is \<^verbatim>\<open>find_map\<close>, \<open>clear_where\<close> is the loop that sets
  the matching slots to \<^verbatim>\<open>None\<close>, and \<open>update_first\<close> a mutation through the reference that
  \<^verbatim>\<open>iter_mut().flatten().find(..)\<close> returns.
\<close>

definition is_some_and :: "'a option \<Rightarrow> ('a \<Rightarrow> bool) \<Rightarrow> bool" where
  "is_some_and s P = (case s of None \<Rightarrow> False | Some x \<Rightarrow> P x)"

primrec somes :: "'a option list \<Rightarrow> 'a list" where
  "somes [] = []"
| "somes (s # ss) = (case s of None \<Rightarrow> somes ss | Some x \<Rightarrow> x # somes ss)"

primrec position :: "('a \<Rightarrow> bool) \<Rightarrow> 'a list \<Rightarrow> nat option" where
  "position P [] = None"
| "position P (x # xs) = (if P x then Some 0 else map_option Suc (position P xs))"

primrec find_map :: "('a \<Rightarrow> 'b option) \<Rightarrow> 'a list \<Rightarrow> 'b option" where
  "find_map f [] = None"
| "find_map f (x # xs) = (case f x of None \<Rightarrow> find_map f xs | Some y \<Rightarrow> Some y)"

definition clear_where :: "('a \<Rightarrow> bool) \<Rightarrow> 'a option list \<Rightarrow> 'a option list" where
  "clear_where P ss = map (\<lambda>s. if is_some_and s P then None else s) ss"

primrec update_first :: "('a \<Rightarrow> bool) \<Rightarrow> ('a \<Rightarrow> 'a) \<Rightarrow> 'a option list \<Rightarrow> 'a option list" where
  "update_first P f [] = []"
| "update_first P f (s # ss) =
     (if is_some_and s P then map_option f s # ss else s # update_first P f ss)"

definition or_else :: "'a option \<Rightarrow> 'a option \<Rightarrow> 'a option" where
  "or_else a b = (case a of None \<Rightarrow> b | Some x \<Rightarrow> Some x)"

lemma is_some_and_simps [simp]:
  "is_some_and None P = False" "is_some_and (Some x) P = P x"
  by (simp_all add: is_some_and_def)

lemma is_some_andE [elim!]:
  assumes "is_some_and s P" obtains x where "s = Some x" "P x"
  using assms by (cases s) auto

lemma or_else_simps [simp]: "or_else None b = b" "or_else (Some x) b = Some x"
  by (simp_all add: or_else_def)

lemma set_somes [simp, slot_simps]: "x \<in> set (somes ss) \<longleftrightarrow> Some x \<in> set ss"
  by (induction ss) (auto split: option.splits)

lemma length_somes_le: "length (somes ss) \<le> length ss"
  by (induction ss) (auto split: option.splits)

lemma somes_replicate_None [simp]: "somes (replicate n None) = []"
  by (induction n) auto

lemma somes_map_Some [simp]: "somes (map Some xs) = xs"
  by (induction xs) auto

lemma length_clear_where [simp]: "length (clear_where P ss) = length ss"
  by (simp add: clear_where_def)

lemma somes_clear_where [slot_simps]: "somes (clear_where P ss) = filter (\<lambda>x. \<not> P x) (somes ss)"
  by (induction ss) (auto simp: clear_where_def split: option.splits)

lemma Some_in_clear_where [slot_simps]:
  "Some x \<in> set (clear_where P ss) \<longleftrightarrow> Some x \<in> set ss \<and> \<not> P x"
  by (induction ss) (auto simp: clear_where_def)

lemma nth_clear_where [slot_simps]:
  "i < length ss \<Longrightarrow> clear_where P ss ! i = (if is_some_and (ss ! i) P then None else ss ! i)"
  by (simp add: clear_where_def)

lemma clear_where_id: "(\<And>x. Some x \<in> set ss \<Longrightarrow> \<not> P x) \<Longrightarrow> clear_where P ss = ss"
  unfolding clear_where_def by (rule map_idI) (auto simp: is_some_and_def split: option.splits)

lemma clear_where_twice [simp]: "clear_where P (clear_where P ss) = clear_where P ss"
  by (rule clear_where_id) (simp add: Some_in_clear_where)

lemma position_Some:
  "position P xs = Some i \<longleftrightarrow> i < length xs \<and> P (xs ! i) \<and> (\<forall>j<i. \<not> P (xs ! j))"
proof (induction xs arbitrary: i)
  case Nil
  then show ?case by simp
next
  case (Cons x xs)
  show ?case by (cases i) (auto simp: Cons less_Suc_eq_0_disj)
qed

lemma position_SomeD:
  assumes "position P xs = Some i"
  shows "i < length xs" and "P (xs ! i)"
  using assms by (auto simp: position_Some)

lemma position_None: "position P xs = None \<longleftrightarrow> (\<forall>x \<in> set xs. \<not> P x)"
  by (induction xs) auto

lemma find_position: "List.find P xs = map_option (nth xs) (position P xs)"
  by (induction xs) (auto simp: option.map_comp o_def)

lemma find_map_Some_in: "find_map f xs = Some y \<Longrightarrow> \<exists>x \<in> set xs. f x = Some y"
  by (induction xs) (auto split: option.splits)

lemma find_map_None: "find_map f xs = None \<longleftrightarrow> (\<forall>x \<in> set xs. f x = None)"
  by (induction xs) (auto split: option.splits)

lemma length_update_first [simp]: "length (update_first P f ss) = length ss"
  by (induction ss) auto

lemma Some_in_update_first:
  "Some x \<in> set (update_first P f ss) \<Longrightarrow> Some x \<in> set ss \<or> (\<exists>y. Some y \<in> set ss \<and> P y \<and> x = f y)"
  by (induction ss) (auto split: if_splits)

lemma somes_Some_nth: "i < length ss \<Longrightarrow> ss ! i = Some x \<Longrightarrow> x \<in> set (somes ss)"
  by (metis nth_mem set_somes)

lemma find_SomeD: "List.find P xs = Some x \<Longrightarrow> x \<in> set xs \<and> P x"
  by (auto simp: find_Some_iff)

lemma find_NoneD: "List.find P xs = None \<Longrightarrow> x \<in> set xs \<Longrightarrow> \<not> P x"
  by (auto simp: find_None_iff)

text \<open>Blobs of records of one width: what a slice within a record, or a byte of it, is.\<close>

lemma slice_concat_const:
  assumes "\<forall>x \<in> set xs. length (f x) = n" "i < length xs"
  shows "slice (i * n) (i * n + n) (concat (map f xs)) = f (xs ! i)"
  using assms
proof (induction xs arbitrary: i)
  case (Cons x xs)
  show ?case
  proof (cases i)
    case 0
    with Cons.prems show ?thesis by simp
  next
    case (Suc j)
    with Cons.prems Cons.IH [of j] show ?thesis by (simp add: slice_append_right add.commute)
  qed
qed simp

lemma length_concat_const: "\<forall>x \<in> set xs. length (f x) = n \<Longrightarrow> length (concat (map f xs)) = length xs * n"
  by (induction xs) simp_all

lemma slice_record:
  assumes "length h = k" "\<forall>x \<in> set xs. length (f x) = n" "i < length xs" "b \<le> n"
  shows "slice (k + i * n + a) (k + i * n + b) (h @ concat (map f xs)) = slice a b (f (xs ! i))"
proof -
  have "slice (k + i * n + a) (k + i * n + b) (h @ concat (map f xs)) =
      slice a b (slice (i * n) (i * n + n) (concat (map f xs)))"
    using assms(1,4) by (simp add: slice_append_right slice_slice)
  then show ?thesis using slice_concat_const [OF assms(2,3)] by simp
qed

lemma nth_record:
  assumes "length h = k" "\<forall>x \<in> set xs. length (f x) = n" "i < length xs" "j < n"
  shows "(h @ concat (map f xs)) ! (k + i * n + j) = f (xs ! i) ! j"
proof -
  have "length (f (xs ! i)) = n" using assms(2,3) by simp
  moreover have "i * n + n \<le> length (concat (map f xs))"
    using assms(3) mult_le_mono1 [of "Suc i" "length xs" n] by (simp add: length_concat_const [OF assms(2)])
  ultimately show ?thesis
    using arg_cong [OF slice_concat_const [OF assms(2,3)], of "\<lambda>ys. ys ! j"] assms(1,4)
    by (simp add: nth_append nth_slice)
qed

text \<open>Rust's \<^verbatim>\<open>Result\<close> as a sum: \<open>Inl\<close> is \<^verbatim>\<open>Err\<close>. \<open>is_ok\<close> and \<open>map_err\<close> as in the source.\<close>

definition is_ok :: "'e + 'a \<Rightarrow> bool" where
  "is_ok r = (case r of Inl _ \<Rightarrow> False | Inr _ \<Rightarrow> True)"

lemma is_ok_simps [simp]: "is_ok (Inl e) = False" "is_ok (Inr x) = True"
  by (simp_all add: is_ok_def)

end
