(* ===== verification/Slots.thy ===== *)
theory Slots
  imports Prelude
begin

text \<open>
  What the bounded tables of \<^verbatim>\<open>src/tables.rs\<close> share: the victim searches \<^verbatim>\<open>oldest_index\<close> and
  \<^verbatim>\<open>class_victim\<close>, the arrays of entries with per-slot generations, and the two interfaces the
  tables implement. \<open>expiring_table\<close> is a keyed table with expiry; \<open>generation_table\<close> extends it
  with the promise that the identity of an entry is never given to another owner.
\<close>

section \<open>Victim search\<close>

text \<open>The search loops all keep the first best candidate of a slot array: \<open>better\<close> compares the
  value of the slot at hand with the best one so far.\<close>

primrec best_loop ::
  "('v \<Rightarrow> 'v \<Rightarrow> bool) \<Rightarrow> nat \<Rightarrow> (nat \<times> 'v) option \<Rightarrow> 'v option list \<Rightarrow> (nat \<times> 'v) option" where
  "best_loop better i acc [] = acc"
| "best_loop better i acc (s # ss) =
     best_loop better (Suc i)
       (case s of
          None \<Rightarrow> acc
        | Some x \<Rightarrow>
            (case acc of
               None \<Rightarrow> Some (i, x)
             | Some (_, b) \<Rightarrow> if better x b then Some (i, x) else acc)) ss"

definition best_slot :: "('v \<Rightarrow> 'v \<Rightarrow> bool) \<Rightarrow> 'v option list \<Rightarrow> (nat \<times> 'v) option" where
  "best_slot better ss = best_loop better 0 None ss"

definition filter_slot :: "('a \<Rightarrow> bool) \<Rightarrow> 'a option \<Rightarrow> 'a option" where
  "filter_slot P s = (if is_some_and s P then s else None)"

definition oldest_index :: "'a option list \<Rightarrow> ('a \<Rightarrow> u64) \<Rightarrow> nat option" where
  "oldest_index entries age = map_option fst (best_slot (<) (map (map_option age) entries))"

definition class_victim ::
  "'a option list \<Rightarrow> bool \<Rightarrow> ('a \<Rightarrow> bool) \<Rightarrow> ('a \<Rightarrow> u64) \<Rightarrow> nat option" where
  "class_victim entries newcomer_bulk bulk age =
     (let oldest_bulk =
            best_slot (<) (map (\<lambda>s. map_option age (filter_slot bulk s)) entries)
      in or_else (map_option fst oldest_bulk)
           (if \<not> newcomer_bulk then oldest_index entries age else None))"

lemma filter_slot_simps [simp]:
  "filter_slot P None = None" "filter_slot P (Some x) = (if P x then Some x else None)"
  by (simp_all add: filter_slot_def)

lemma filter_slot_eq_Some: "filter_slot P s = Some x \<longleftrightarrow> s = Some x \<and> P x"
  by (cases s) auto

lemma best_loop_None: "best_loop better i acc ss = None \<longleftrightarrow> acc = None \<and> somes ss = []"
  by (induction ss arbitrary: i acc) (auto split: option.splits)

lemma best_loop_origin:
  "best_loop better i acc ss = Some (j, x) \<Longrightarrow>
   acc = Some (j, x) \<or> (i \<le> j \<and> j - i < length ss \<and> ss ! (j - i) = Some x)"
proof (induction ss arbitrary: i acc)
  case (Cons s ss)
  from Cons.IH [OF Cons.prems [simplified]]
  show ?case
    by (fastforce simp: nth_Cons' Suc_diff_Suc split: option.splits if_splits)
qed simp

lemma best_loop_least:
  assumes nt: "\<And>x y z. \<not> better x y \<Longrightarrow> \<not> better y z \<Longrightarrow> \<not> better x z"
    and asym: "\<And>x y. better x y \<Longrightarrow> \<not> better y x"
  shows "best_loop better i acc ss = Some (j, x) \<Longrightarrow>
    (\<forall>k b. acc = Some (k, b) \<longrightarrow> \<not> better b x) \<and> (\<forall>y \<in> set (somes ss). \<not> better y x)"
proof (induction ss arbitrary: i acc)
  case Nil
  then show ?case using asym by auto
next
  case (Cons s ss)
  note IH = Cons.IH [OF Cons.prems [simplified]]
  show ?case
  proof (cases s)
    case None
    with IH show ?thesis by simp
  next
    case (Some v)
    show ?thesis
    proof (cases acc)
      case None
      with IH Some show ?thesis by simp
    next
      case acc: (Some p)
      obtain k b where p: "p = (k, b)" by (cases p)
      show ?thesis
      proof (cases "better v b")
        case True
        with IH Some acc p have "\<not> better v x" "\<forall>y \<in> set (somes ss). \<not> better y x" by auto
        moreover have "\<not> better b x" using nt [of b v x] asym True calculation by blast
        ultimately show ?thesis using Some acc p by simp
      next
        case False
        with IH Some acc p have "\<not> better b x" "\<forall>y \<in> set (somes ss). \<not> better y x" by auto
        moreover have "\<not> better v x" using nt [of v b x] False calculation by blast
        ultimately show ?thesis using Some acc p by simp
      qed
    qed
  qed
qed

lemma best_slot_None: "best_slot better ss = None \<longleftrightarrow> somes ss = []"
  by (simp add: best_slot_def best_loop_None)

lemma best_slot_Some:
  assumes "best_slot better ss = Some (j, x)"
  shows "j < length ss" "ss ! j = Some x"
  using best_loop_origin [of better 0 None ss j x] assms by (auto simp: best_slot_def)

lemmas best_slot_least = best_loop_least [where i = 0 and acc = None, folded best_slot_def]

lemma somes_map_option [simp]: "somes (map (map_option f) ss) = map f (somes ss)"
  by (induction ss) (auto split: option.splits)

lemma somes_map_filter: "somes (map (\<lambda>s. map_option f (filter_slot P s)) ss) =
    map f (filter P (somes ss))"
  by (induction ss) (auto split: option.splits)

text \<open>The oldest entry is found whenever the table holds an entry at all.\<close>

lemma oldest_index_Some:
  assumes "oldest_index entries age = Some i"
  shows "\<exists>e. i < length entries \<and> entries ! i = Some e \<and>
    (\<forall>e'. Some e' \<in> set entries \<longrightarrow> age e \<le> age e')"
proof -
  obtain v where b: "best_slot (<) (map (map_option age) entries) = Some (i, v)"
    using assms by (auto simp: oldest_index_def)
  from best_slot_Some [OF b] obtain e where e: "i < length entries" "entries ! i = Some e" "v = age e"
    by auto
  moreover have "\<forall>y \<in> set (somes (map (map_option age) entries)). \<not> y < v"
    by (rule best_slot_least [OF _ _ b, THEN conjunct2]) auto
  ultimately show ?thesis by (auto simp: not_less)
qed

lemma oldest_index_None: "oldest_index entries age = None \<longleftrightarrow> somes entries = []"
  by (simp add: oldest_index_def best_slot_None)

text \<open>A victim is never chosen outside the bulk class for a bulk newcomer.\<close>

lemma class_victim_Some:
  assumes "class_victim entries newcomer_bulk bulk age = Some i"
  shows "\<exists>e. i < length entries \<and> entries ! i = Some e \<and> (newcomer_bulk \<longrightarrow> bulk e) \<and>
    (\<not> bulk e \<longrightarrow> (\<forall>e'. Some e' \<in> set entries \<longrightarrow> \<not> bulk e'))"
proof (cases "best_slot (<) (map (\<lambda>s. map_option age (filter_slot bulk s)) entries)")
  case None
  then have "filter bulk (somes entries) = []"
    by (simp add: best_slot_None somes_map_filter)
  moreover obtain e where "i < length entries" "entries ! i = Some e" "\<not> newcomer_bulk"
    using assms None oldest_index_Some by (fastforce simp: class_victim_def split: if_splits)
  ultimately show ?thesis by (auto simp: filter_empty_conv)
next
  case (Some p)
  then obtain v where "best_slot (<) (map (\<lambda>s. map_option age (filter_slot bulk s)) entries) =
      Some (i, v)"
    using assms by (cases p) (auto simp: class_victim_def)
  from best_slot_Some [OF this] show ?thesis
    by (auto simp: filter_slot_eq_Some)
qed

section \<open>Keys in slots\<close>

definition uniq_keys :: "('e \<Rightarrow> 'k) \<Rightarrow> 'e option list \<Rightarrow> bool" where
  "uniq_keys key ss \<longleftrightarrow> distinct (map key (somes ss))"

lemma somes_append [simp]: "somes (xs @ ys) = somes xs @ somes ys"
  by (induction xs) (auto split: option.splits)

lemma somes_update:
  "i < length ss \<Longrightarrow> somes (ss[i := v]) =
     somes (take i ss) @ (case v of None \<Rightarrow> [] | Some e \<Rightarrow> [e]) @ somes (drop (Suc i) ss)"
  by (simp add: upd_conv_take_nth_drop split: option.split)

lemma somes_split:
  "i < length ss \<Longrightarrow> somes ss =
     somes (take i ss) @ (case ss ! i of None \<Rightarrow> [] | Some e \<Rightarrow> [e]) @ somes (drop (Suc i) ss)"
  using somes_update [of i ss "ss ! i"] by simp

lemma in_set_take_conv: "x \<in> set (take i ss) \<longleftrightarrow> (\<exists>j < length ss. j < i \<and> ss ! j = x)"
  by (auto simp: in_set_conv_nth)

lemma in_set_drop_conv: "x \<in> set (drop i ss) \<longleftrightarrow> (\<exists>j < length ss. i \<le> j \<and> ss ! j = x)"
proof
  assume "\<exists>j < length ss. i \<le> j \<and> ss ! j = x"
  then obtain j where "j < length ss" "i \<le> j" "ss ! j = x" by blast
  then show "x \<in> set (drop i ss)"
    by (auto simp: in_set_conv_nth intro!: exI [of _ "j - i"])
next
  assume "x \<in> set (drop i ss)"
  then obtain k where "k < length ss - i" "drop i ss ! k = x"
    by (auto simp: in_set_conv_nth)
  then show "\<exists>j < length ss. i \<le> j \<and> ss ! j = x"
    by (intro exI [of _ "i + k"]) auto
qed

lemma uniq_keys_update_None:
  assumes "uniq_keys key ss"
  shows "uniq_keys key (ss[i := None])"
proof (cases "i < length ss")
  case True
  have "distinct (map key (somes ss))" using assms by (simp add: uniq_keys_def)
  then have "distinct (map key (somes (take i ss) @ somes (drop (Suc i) ss)))"
    unfolding somes_split [OF True] by (cases "ss ! i") (simp_all del: set_somes)
  then show ?thesis
    using True by (simp add: uniq_keys_def somes_update del: set_somes)
next
  case False
  with assms show ?thesis by (simp add: list_update_beyond)
qed

lemma uniq_keys_update:
  assumes "uniq_keys key ss"
    and "\<And>j y. j < length ss \<Longrightarrow> j \<noteq> i \<Longrightarrow> ss ! j = Some y \<Longrightarrow> key y \<noteq> key e"
  shows "uniq_keys key (ss[i := Some e])"
proof (cases "i < length ss")
  case True
  have "key e \<notin> key ` set (somes (take i ss))"
    using assms(2) True by (force simp: in_set_take_conv)
  moreover have "key e \<notin> key ` set (somes (drop (Suc i) ss))"
    using assms(2) True by (force simp: in_set_drop_conv)
  moreover have "distinct (map key (somes (take i ss) @ somes (drop (Suc i) ss)))"
    using uniq_keys_update_None [OF assms(1), of i] True by (simp add: uniq_keys_def somes_update)
  ultimately show ?thesis
    using True by (simp add: uniq_keys_def somes_update del: set_somes)
next
  case False
  with assms(1) show ?thesis by (simp add: list_update_beyond)
qed

lemma uniq_keys_clear_where: "uniq_keys key ss \<Longrightarrow> uniq_keys key (clear_where P ss)"
  by (simp add: uniq_keys_def somes_clear_where distinct_map_filter)

lemma uniq_keysD:
  "uniq_keys key ss \<Longrightarrow> Some x \<in> set ss \<Longrightarrow> Some y \<in> set ss \<Longrightarrow> key x = key y \<Longrightarrow> x = y"
  by (auto simp: uniq_keys_def distinct_map dest: inj_onD)

lemma uniq_keys_index:
  assumes "uniq_keys key ss" "i < length ss" "j < length ss" "ss ! i = Some x" "ss ! j = Some y"
    and "key x = key y"
  shows "i = j"
proof (rule ccontr)
  assume "i \<noteq> j"
  then have "ss[i := None] ! j = Some y" "j < length (ss[i := None])"
    using assms by simp_all
  then have "y \<in> set (somes (ss[i := None]))"
    by (metis nth_mem set_somes)
  moreover have "distinct (map key (somes ss))" using assms(1) by (simp add: uniq_keys_def)
  then have "key x \<notin> key ` set (somes (ss[i := None]))"
    unfolding somes_split [OF assms(2)] using assms(2,4)
    by (simp add: somes_update image_Un del: set_somes)
  ultimately show False using assms(6) by (metis imageI)
qed

lemma uniq_keys_same_key:
  assumes u: "uniq_keys key ss" and i: "i < length ss" "ss ! i = Some x" and k: "key y = key x"
  shows "uniq_keys key (ss[i := Some y])"
proof (rule uniq_keys_update [OF u])
  fix j z assume "j < length ss" "j \<noteq> i" "ss ! j = Some z"
  then show "key z \<noteq> key y" using uniq_keys_index [OF u _ i(1) _ i(2)] k by auto
qed

lemma uniq_keys_replicate_None [simp]: "uniq_keys key (replicate n None)"
  by (simp add: uniq_keys_def)

lemma map_key_update_first:
  "(\<And>x. key (f x) = key x) \<Longrightarrow> map key (somes (update_first P f ss)) = map key (somes ss)"
  by (induction ss) (auto split: option.splits)

lemma uniq_keys_update_first:
  "(\<And>x. key (f x) = key x) \<Longrightarrow> uniq_keys key ss \<Longrightarrow> uniq_keys key (update_first P f ss)"
  by (simp add: uniq_keys_def map_key_update_first)

lemma find_uniq_key:
  assumes "uniq_keys key ss"
  shows "List.find (\<lambda>e. key e = k) (somes ss) = Some x \<longleftrightarrow> Some x \<in> set ss \<and> key x = k"
proof
  assume "List.find (\<lambda>e. key e = k) (somes ss) = Some x"
  then show "Some x \<in> set ss \<and> key x = k" by (auto dest: find_SomeD)
next
  assume R: "Some x \<in> set ss \<and> key x = k"
  show "List.find (\<lambda>e. key e = k) (somes ss) = Some x"
  proof (cases "List.find (\<lambda>e. key e = k) (somes ss)")
    case None
    with R show ?thesis by (auto dest: find_NoneD)
  next
    case (Some y)
    then show ?thesis using R uniq_keysD [OF assms, of y x] by (auto dest: find_SomeD)
  qed
qed

lemma uniq_keys_bind:
  assumes "\<And>x y. f x = Some y \<Longrightarrow> key y = key x" "uniq_keys key ss"
  shows "uniq_keys key (map (\<lambda>s. Option.bind s f) ss)"
proof -
  have "\<exists>zs. map key (somes (map (\<lambda>s. Option.bind s f) ss)) = zs \<and> set zs \<subseteq> set (map key (somes ss)) \<and>
      (distinct (map key (somes ss)) \<longrightarrow> distinct zs)"
  proof (induction ss)
    case (Cons s ss)
    then show ?case
      by (cases s; cases "Option.bind s f") (auto simp: assms(1) dest: assms(1) split: option.splits)
  qed simp
  with assms(2) show ?thesis by (auto simp: uniq_keys_def)
qed

text \<open>The placement of the keyed inserts: the slot of the key when it is present, else any
  index a search proposes.\<close>

lemma uniq_keys_place:
  assumes "uniq_keys key ss"
    and "position (\<lambda>s. is_some_and s (\<lambda>old. key old = key e)) ss = Some i \<or>
         position (\<lambda>s. is_some_and s (\<lambda>old. key old = key e)) ss = None"
  shows "uniq_keys key (ss[i := Some e])"
proof (rule uniq_keys_update [OF assms(1)])
  fix j y assume j: "j < length ss" "j \<noteq> i" "ss ! j = Some y"
  show "key y \<noteq> key e"
  proof
    assume eq: "key y = key e"
    have "ss ! j \<in> set ss" using j(1) by (rule nth_mem)
    moreover have "is_some_and (ss ! j) (\<lambda>old. key old = key e)"
      using j eq by simp
    ultimately have "position (\<lambda>s. is_some_and s (\<lambda>old. key old = key e)) ss \<noteq> None"
      by (metis position_None)
    with assms(2) have p: "position (\<lambda>s. is_some_and s (\<lambda>old. key old = key e)) ss = Some i" by auto
    from position_SomeD [OF p] obtain x where "i < length ss" "ss ! i = Some x" "key x = key e"
      by auto
    then show False using uniq_keys_index [OF assms(1) _ j(1) _ j(3)] j(2) eq by auto
  qed
qed

section \<open>The interface of a keyed table with expiry\<close>

locale expiring_table =
  fixes slots :: "'t \<Rightarrow> 'e option list"
    and key :: "'e \<Rightarrow> 'k"
    and expires :: "'e \<Rightarrow> u64"
    and expire :: "'t \<Rightarrow> u64 \<Rightarrow> 't"
    and insert :: "'t \<Rightarrow> 'e \<Rightarrow> u64 \<Rightarrow> 't"
  assumes expire_slots: "slots (expire t now) = clear_where (\<lambda>e. expires e \<le> now) (slots t)"
    and insert_length: "length (slots (insert t e now)) = length (slots t)"
    and insert_origin: "Some x \<in> set (slots (insert t e now)) \<Longrightarrow>
      x = e \<or> Some x \<in> set (slots t) \<and> now < expires x"
    and insert_uniq: "uniq_keys key (slots t) \<Longrightarrow> uniq_keys key (slots (insert t e now))"
begin

text \<open>A run of the table: inserts and expiry sweeps with the times they happen at.\<close>

primrec apply_op :: "'t \<Rightarrow> 'e option \<times> u64 \<Rightarrow> 't" where
  "apply_op t (op, now) = (case op of None \<Rightarrow> expire t now | Some e \<Rightarrow> insert t e now)"
 
fun run :: "'t \<Rightarrow> ('e option \<times> u64) list \<Rightarrow> 't" where
  "run t [] = t"
| "run t (op # ops) = run (apply_op t op) ops"

lemma apply_op_length: "length (slots (apply_op t op)) = length (slots t)"
  by (cases op) (auto simp: expire_slots insert_length split: option.split)

lemma apply_op_uniq: "uniq_keys key (slots t) \<Longrightarrow> uniq_keys key (slots (apply_op t op))"
  by (cases op) (auto simp: expire_slots insert_uniq uniq_keys_clear_where split: option.split)

lemma apply_op_origin:
  "Some x \<in> set (slots (apply_op t op)) \<Longrightarrow> Some x \<in> set (slots t) \<or> fst op = Some x"
  by (cases op) (auto simp: expire_slots Some_in_clear_where dest: insert_origin split: option.splits)

lemma run_length: "length (slots (run t ops)) = length (slots t)"
  by (induction t ops rule: run.induct) (simp_all add: apply_op_length)

lemma run_uniq: "uniq_keys key (slots t) \<Longrightarrow> uniq_keys key (slots (run t ops))"
  by (induction t ops rule: run.induct) (simp_all add: apply_op_uniq)

text \<open>No operation invents an entry, and what expired stays away until it is inserted again.\<close>

lemma run_origin:
  "Some x \<in> set (slots (run t ops)) \<Longrightarrow> Some x \<in> set (slots t) \<or> Some x \<in> fst ` set ops"
proof (induction t ops rule: run.induct)
  case (2 t op ops)
  then show ?case using apply_op_origin [of x t op] by force
qed simp

lemma run_never_inserted:
  assumes "Some x \<notin> set (slots t)" "Some x \<notin> fst ` set ops"
  shows "Some x \<notin> set (slots (run t ops))"
  using assms run_origin [of x t ops] by auto

lemma expire_live: "Some x \<in> set (slots (expire t now)) \<longleftrightarrow> Some x \<in> set (slots t) \<and> now < expires x"
  by (auto simp: expire_slots Some_in_clear_where not_le)

lemma insert_live:
  "now < expires e \<Longrightarrow> Some x \<in> set (slots (insert t e now)) \<Longrightarrow> now < expires x"
  by (auto dest: insert_origin)

end

section \<open>Entries with generations\<close>

text \<open>\<^verbatim>\<open>PathTable\<close>, \<^verbatim>\<open>ReverseTable\<close> and \<^verbatim>\<open>LinkTable\<close> have the same three fields; the operations on
  them that the source repeats for each table are stated once here.\<close>

record 'e gen_table =
  gt_entries :: "'e option list"
  gt_generations :: "u64 list"
  gt_last_generation :: u64

abbreviation gt_size :: "'e gen_table \<Rightarrow> nat" where
  "gt_size t \<equiv> length (gt_entries t)"

definition gt_new :: "nat \<Rightarrow> 'e gen_table" where
  "gt_new n =
     \<lparr>gt_entries = replicate n None, gt_generations = replicate n 0, gt_last_generation = 0\<rparr>"

definition gt_clear :: "'e gen_table \<Rightarrow> 'e gen_table" where
  "gt_clear t = t\<lparr>gt_entries := replicate (gt_size t) None\<rparr>"

definition gt_next_generation :: "'e gen_table \<Rightarrow> u64 option" where
  "gt_next_generation t =
     (if gt_size t = 0 then None else checked_add (gt_last_generation t) 1)"

definition gt_generation :: "('e \<Rightarrow> bool) \<Rightarrow> 'e gen_table \<Rightarrow> u64 option" where
  "gt_generation matches t =
     find_map (\<lambda>(slot, generation).
         case filter_slot matches slot of
           None \<Rightarrow> None
         | Some _ \<Rightarrow> if generation \<noteq> 0 then Some generation else None)
       (zip (gt_entries t) (gt_generations t))"

definition gt_get_generation :: "('e \<Rightarrow> bool) \<Rightarrow> 'e gen_table \<Rightarrow> u64 \<Rightarrow> 'e option" where
  "gt_get_generation live t generation =
     (if generation = 0 then None
      else find_map (\<lambda>(slot, current). filter_slot (\<lambda>e. current = generation \<and> live e) slot)
             (zip (gt_entries t) (gt_generations t)))"

definition gt_clear_where :: "('e \<Rightarrow> bool) \<Rightarrow> 'e gen_table \<Rightarrow> 'e gen_table" where
  "gt_clear_where P t = t\<lparr>gt_entries := clear_where P (gt_entries t)\<rparr>"

definition gt_put :: "'e gen_table \<Rightarrow> nat \<Rightarrow> 'e \<Rightarrow> u64 \<Rightarrow> 'e gen_table" where
  "gt_put t i e g =
     t\<lparr>gt_entries := (gt_entries t)[i := Some e],
       gt_generations := (gt_generations t)[i := g], gt_last_generation := g\<rparr>"

text \<open>The occupied slots with their generations.\<close>

definition gt_tagged :: "'e gen_table \<Rightarrow> (u64 \<times> 'e) option list" where
  "gt_tagged t = map2 (\<lambda>s g. map_option (Pair g) s) (gt_entries t) (gt_generations t)"

definition gt_inv :: "'e gen_table \<Rightarrow> bool" where
  "gt_inv t \<longleftrightarrow>
     length (gt_generations t) = gt_size t \<and> uniq_keys fst (gt_tagged t) \<and>
     (\<forall>(g, e) \<in> set (somes (gt_tagged t)). g \<noteq> 0 \<and> g \<le> gt_last_generation t)"

definition gt_held :: "'e gen_table \<Rightarrow> (u64 \<times> 'e) set" where
  "gt_held t = set (somes (gt_tagged t))"

lemma gt_inv_iff:
  "gt_inv t \<longleftrightarrow>
     length (gt_generations t) = gt_size t \<and> uniq_keys fst (gt_tagged t) \<and>
     (\<forall>g e. Some (g, e) \<in> set (gt_tagged t) \<longrightarrow> g \<noteq> 0 \<and> g \<le> gt_last_generation t)"
  unfolding gt_inv_def Ball_def set_somes split_paired_All prod.case ..

lemma in_gt_held: "(g, e) \<in> gt_held t \<longleftrightarrow> Some (g, e) \<in> set (gt_tagged t)"
  by (simp add: gt_held_def)

lemma length_gt_tagged: "gt_inv t \<Longrightarrow> length (gt_tagged t) = gt_size t"
  by (simp add: gt_tagged_def gt_inv_def)

lemma nth_gt_tagged:
  "gt_inv t \<Longrightarrow> i < gt_size t \<Longrightarrow>
   gt_tagged t ! i = map_option (Pair (gt_generations t ! i)) (gt_entries t ! i)"
  by (simp add: gt_tagged_def gt_inv_def)

lemma gt_held_iff:
  assumes "gt_inv t"
  shows "(g, e) \<in> gt_held t \<longleftrightarrow>
    (\<exists>i < gt_size t. gt_entries t ! i = Some e \<and> gt_generations t ! i = g)"
proof -
  have "(g, e) \<in> gt_held t \<longleftrightarrow> (\<exists>i < gt_size t. gt_tagged t ! i = Some (g, e))"
    unfolding in_gt_held in_set_conv_nth length_gt_tagged [OF assms] by blast
  then show ?thesis using nth_gt_tagged [OF assms] by auto
qed

lemma gt_held_unique:
  assumes "gt_inv t" "(g, e) \<in> gt_held t" "(g, e') \<in> gt_held t"
  shows "e = e'"
  using assms uniq_keysD [of fst "gt_tagged t" "(g, e)" "(g, e')"]
  by (simp add: gt_inv_iff in_gt_held)

text \<open>Looking a generation up finds its live holder, and only that.\<close>

lemma gt_get_generation_Some:
  assumes "gt_inv t"
  shows "gt_get_generation live t g = Some e \<longleftrightarrow> (g, e) \<in> gt_held t \<and> live e"
proof
  assume L: "gt_get_generation live t g = Some e"
  then obtain s c where "(s, c) \<in> set (zip (gt_entries t) (gt_generations t))"
      "filter_slot (\<lambda>e. c = g \<and> live e) s = Some e"
    by (auto simp: gt_get_generation_def split: if_splits dest!: find_map_Some_in)
  then show "(g, e) \<in> gt_held t \<and> live e"
    using assms by (auto simp: filter_slot_eq_Some gt_held_iff set_zip)
next
  assume R: "(g, e) \<in> gt_held t \<and> live e"
  then have nz: "g \<noteq> 0" using assms by (auto simp: gt_inv_iff in_gt_held)
  obtain i where i: "i < gt_size t" "gt_entries t ! i = Some e" "gt_generations t ! i = g"
    using R unfolding gt_held_iff [OF assms] by auto
  then have "zip (gt_entries t) (gt_generations t) ! i = (Some e, g)"
      "i < length (zip (gt_entries t) (gt_generations t))"
    using assms by (simp_all add: gt_inv_def)
  then have mem: "(Some e, g) \<in> set (zip (gt_entries t) (gt_generations t))"
    by (metis nth_mem)
  show "gt_get_generation live t g = Some e"
  proof (cases "gt_get_generation live t g")
    case None
    then have "filter_slot (\<lambda>e. g = g \<and> live e) (Some e) = None"
      using nz mem by (auto simp: gt_get_generation_def find_map_None)
    with R show ?thesis by simp
  next
    case (Some e')
    then obtain s c where "(s, c) \<in> set (zip (gt_entries t) (gt_generations t))"
        "filter_slot (\<lambda>e. c = g \<and> live e) s = Some e'"
      by (auto simp: gt_get_generation_def split: if_splits dest!: find_map_Some_in)
    then have "(g, e') \<in> gt_held t"
      using assms by (auto simp: filter_slot_eq_Some gt_held_iff set_zip)
    with R Some gt_held_unique [OF assms, of g e e'] show ?thesis by simp
  qed
qed

lemma gt_inv_clear_where:
  assumes "gt_inv t"
  shows "gt_inv (gt_clear_where P t)" "gt_held (gt_clear_where P t) = {(g, e) \<in> gt_held t. \<not> P e}"
    "gt_last_generation (gt_clear_where P t) = gt_last_generation t"
proof -
  have "gt_tagged (gt_clear_where P t) = clear_where (\<lambda>(g, e). P e) (gt_tagged t)"
    using assms
    by (intro nth_equalityI)
       (auto simp: gt_tagged_def gt_clear_where_def gt_inv_def nth_clear_where is_some_and_def
         split: option.splits)
  then show "gt_inv (gt_clear_where P t)" "gt_held (gt_clear_where P t) = {(g, e) \<in> gt_held t. \<not> P e}"
    using assms
    by (auto simp: gt_inv_def gt_held_def gt_clear_where_def uniq_keys_clear_where somes_clear_where
        Some_in_clear_where)
qed (simp add: gt_clear_where_def)

lemma gt_inv_new [simp]: "gt_inv (gt_new n)"
proof -
  have "gt_tagged (gt_new n :: 'a gen_table) = replicate n None"
    by (simp add: gt_tagged_def gt_new_def list_eq_iff_nth_eq)
  then show ?thesis by (simp add: gt_inv_def gt_new_def)
qed

lemma gt_tagged_put:
  assumes "gt_inv t" "i < gt_size t"
  shows "gt_tagged (gt_put t i e g) = (gt_tagged t)[i := Some (g, e)]"
  using assms
  by (intro nth_equalityI) (auto simp: gt_tagged_def gt_put_def gt_inv_def nth_list_update)

text \<open>Placing an entry under a fresh generation keeps the invariant, and every other holder.\<close>

lemma gt_inv_put:
  assumes "gt_inv t" "i < gt_size t" "gt_last_generation t < g"
  shows "gt_inv (gt_put t i e g)"
    "(g', e') \<in> gt_held (gt_put t i e g) \<Longrightarrow> (g', e') \<in> gt_held t \<or> g' = g \<and> e' = e"
proof -
  have tag: "gt_tagged (gt_put t i e g) = (gt_tagged t)[i := Some (g, e)]"
    by (rule gt_tagged_put [OF assms(1,2)])
  have old: "g0 \<noteq> 0 \<and> g0 \<le> gt_last_generation t" if "Some (g0, e0) \<in> set (gt_tagged t)" for g0 e0
    using assms(1) that by (auto simp: gt_inv_def)
  have "uniq_keys fst ((gt_tagged t)[i := Some (g, e)])"
  proof (rule uniq_keys_update)
    show "uniq_keys fst (gt_tagged t)" using assms(1) by (simp add: gt_inv_def)
    fix j y assume "j < length (gt_tagged t)" "gt_tagged t ! j = Some y"
    then have "Some y \<in> set (gt_tagged t)" by (metis nth_mem)
    then show "fst y \<noteq> fst (g, e)" using old [of "fst y" "snd y"] assms(3) by auto
  qed
  moreover have "g0 \<noteq> 0 \<and> g0 \<le> g" if "Some (g0, e0) \<in> set ((gt_tagged t)[i := Some (g, e)])" for g0 e0
  proof -
    have "Some (g0, e0) \<in> set (gt_tagged t) \<or> g0 = g"
      using set_update_subset_insert [of "gt_tagged t" i "Some (g, e)"] that by auto
    then show ?thesis using old [of g0 e0] assms(3) by (auto simp: word_less_def word_le_def)
  qed
  ultimately show "gt_inv (gt_put t i e g)"
    using assms(1) unfolding gt_inv_iff tag by (auto simp: gt_put_def)
  show "(g', e') \<in> gt_held t \<or> g' = g \<and> e' = e" if "(g', e') \<in> gt_held (gt_put t i e g)"
    using that set_update_subset_insert [of "gt_tagged t" i "Some (g, e)"]
    by (auto simp: gt_held_def tag)
qed

text \<open>An entry rewritten in place keeps its generation.\<close>

lemma gt_inv_rewrite:
  assumes "gt_inv t" "i < gt_size t" "gt_entries t ! i = Some old"
  shows "gt_inv (t\<lparr>gt_entries := (gt_entries t)[i := Some e]\<rparr>)"
    "(g, e') \<in> gt_held (t\<lparr>gt_entries := (gt_entries t)[i := Some e]\<rparr>) \<Longrightarrow>
       (g, e') \<in> gt_held t \<or> e' = e \<and> (g, old) \<in> gt_held t"
proof -
  let ?g = "gt_generations t ! i" and ?t = "t\<lparr>gt_entries := (gt_entries t)[i := Some e]\<rparr>"
  have tag: "gt_tagged ?t = (gt_tagged t)[i := Some (?g, e)]"
    using assms by (intro nth_equalityI) (auto simp: gt_tagged_def gt_inv_def nth_list_update)
  have held: "(?g, old) \<in> gt_held t"
    using assms by (auto simp: gt_held_iff)
  have "uniq_keys fst ((gt_tagged t)[i := Some (?g, e)])"
  proof (rule uniq_keys_update)
    show u: "uniq_keys fst (gt_tagged t)" using assms(1) by (simp add: gt_inv_def)
    fix j y assume j: "j < length (gt_tagged t)" "j \<noteq> i" "gt_tagged t ! j = Some y"
    have "gt_tagged t ! i = Some (?g, old)" "i < length (gt_tagged t)"
      using assms by (simp_all add: nth_gt_tagged length_gt_tagged)
    then show "fst y \<noteq> fst (?g, e)"
      using uniq_keys_index [OF u j(1) _ j(3)] j(2) by fastforce
  qed
  moreover have "g0 \<noteq> 0 \<and> g0 \<le> gt_last_generation t"
    if "Some (g0, e0) \<in> set ((gt_tagged t)[i := Some (?g, e)])" for g0 e0
  proof -
    have "Some (g0, e0) \<in> set (gt_tagged t) \<or> g0 = ?g"
      using set_update_subset_insert [of "gt_tagged t" i "Some (?g, e)"] that by auto
    then show ?thesis using held assms(1) unfolding gt_inv_iff in_gt_held by metis
  qed
  ultimately show "gt_inv ?t"
    using assms(1) unfolding gt_inv_iff tag by auto
  show "(g, e') \<in> gt_held t \<or> e' = e \<and> (g, old) \<in> gt_held t" if "(g, e') \<in> gt_held ?t"
    using that set_update_subset_insert [of "gt_tagged t" i "Some (?g, e)"] held
    by (auto simp: gt_held_def tag)
qed

text \<open>Entries mutated in place keep their generations, and emptied slots give theirs up.\<close>

lemma gt_inv_same_occupancy:
  assumes "gt_inv t" "length es = gt_size t"
    and "\<And>i. i < gt_size t \<Longrightarrow> es ! i = None \<longleftrightarrow> gt_entries t ! i = None"
  shows "gt_inv (t\<lparr>gt_entries := es\<rparr>)"
proof -
  let ?t = "t\<lparr>gt_entries := es\<rparr>"
  have keys: "map (map_option fst) (gt_tagged ?t) = map (map_option fst) (gt_tagged t)"
  proof (rule nth_equalityI)
    fix i assume "i < length (map (map_option fst) (gt_tagged ?t))"
    then have i: "i < gt_size t" "i < length (gt_generations t)"
      using assms by (simp_all add: gt_tagged_def gt_inv_def)
    then show "map (map_option fst) (gt_tagged ?t) ! i = map (map_option fst) (gt_tagged t) ! i"
      using assms(2) assms(3) [OF i(1)]
      by (cases "es ! i"; cases "gt_entries t ! i") (auto simp: gt_tagged_def)
  qed (use assms in \<open>simp add: gt_tagged_def gt_inv_def\<close>)
  then have "map fst (somes (gt_tagged ?t)) = map fst (somes (gt_tagged t))"
    by (metis somes_map_option)
  then have "uniq_keys fst (gt_tagged ?t)"
    "fst ` set (somes (gt_tagged ?t)) = fst ` set (somes (gt_tagged t))"
    using assms(1) unfolding gt_inv_def uniq_keys_def by (simp_all flip: set_map del: set_somes)
  moreover have "\<forall>g \<in> fst ` set (somes (gt_tagged t)). g \<noteq> 0 \<and> g \<le> gt_last_generation t"
    using assms(1) unfolding gt_inv_def by auto
  ultimately have "\<forall>(g, e) \<in> set (somes (gt_tagged ?t)). g \<noteq> 0 \<and> g \<le> gt_last_generation t"
    by (metis (mono_tags, lifting) case_prodI2 fst_conv imageI)
  with \<open>uniq_keys fst (gt_tagged ?t)\<close> show ?thesis
    using assms(1,2) unfolding gt_inv_def by simp
qed

lemma gt_inv_take:
  assumes "gt_inv t"
  shows "gt_inv (t\<lparr>gt_entries := (gt_entries t)[i := None]\<rparr>)"
proof -
  have tag: "gt_tagged (t\<lparr>gt_entries := (gt_entries t)[i := None]\<rparr>) = (gt_tagged t)[i := None]"
  proof (cases "i < gt_size t")
    case True
    with assms show ?thesis
      by (intro nth_equalityI) (auto simp: gt_tagged_def gt_inv_def nth_list_update)
  next
    case False
    with assms show ?thesis by (simp add: list_update_beyond length_gt_tagged)
  qed
  have "Some x \<in> set (gt_tagged t)" if "Some x \<in> set ((gt_tagged t)[i := None])" for x
    using that set_update_subset_insert [of "gt_tagged t" i None] by auto
  then show ?thesis
    using assms unfolding gt_inv_iff tag by (simp add: uniq_keys_update_None) blast
qed

lemma update_first_occupancy:
  "i < length ss \<Longrightarrow> update_first P f ss ! i = None \<longleftrightarrow> ss ! i = None"
proof (induction ss arbitrary: i)
  case (Cons s ss)
  then show ?case by (cases i) (auto split: if_splits)
qed simp

lemma gt_inv_update_first:
  "gt_inv t \<Longrightarrow> gt_inv (t\<lparr>gt_entries := update_first P f (gt_entries t)\<rparr>)"
  by (rule gt_inv_same_occupancy) (auto simp: update_first_occupancy)

lemma gt_inv_clear: "gt_inv t \<Longrightarrow> gt_inv (gt_clear t)"
proof -
  have "gt_clear t = gt_clear_where (\<lambda>_. True) t"
    by (auto simp: gt_clear_def gt_clear_where_def clear_where_def is_some_and_def list_eq_iff_nth_eq
        split: option.split)
  then show "gt_inv t \<Longrightarrow> gt_inv (gt_clear t)" by (simp add: gt_inv_clear_where)
qed

section \<open>The interface of a table whose identities are never recycled\<close>

locale generation_table = expiring_table slots key expires expire insert
  for slots :: "'t \<Rightarrow> 'e option list" and key :: "'e \<Rightarrow> 'k" and expires :: "'e \<Rightarrow> u64"
    and expire :: "'t \<Rightarrow> u64 \<Rightarrow> 't" and insert :: "'t \<Rightarrow> 'e \<Rightarrow> u64 \<Rightarrow> 't" +
  fixes ginv :: "'t \<Rightarrow> bool"
    and held :: "'t \<Rightarrow> (u64 \<times> 'e) set"
    and last :: "'t \<Rightarrow> u64"
    and same_owner :: "'e \<Rightarrow> 'e \<Rightarrow> bool"
  assumes held_bounds: "ginv t \<Longrightarrow> (g, e) \<in> held t \<Longrightarrow> g \<noteq> 0 \<and> g \<le> last t"
    and expire_held: "ginv t \<Longrightarrow>
      ginv (expire t now) \<and> last (expire t now) = last t \<and> held (expire t now) \<subseteq> held t"
    and insert_held: "ginv t \<Longrightarrow> ginv (insert t x now) \<and> last t \<le> last (insert t x now) \<and>
      (\<forall>g e. (g, e) \<in> held (insert t x now) \<longrightarrow>
         (\<exists>e0. (g, e0) \<in> held t \<and> same_owner e0 e) \<or> last t < g)"
    and owner_refl: "same_owner e e"
    and owner_trans: "same_owner a b \<Longrightarrow> same_owner b c \<Longrightarrow> same_owner a c"
begin

lemma apply_op_held:
  assumes "ginv t"
  shows "ginv (apply_op t op) \<and> last t \<le> last (apply_op t op) \<and>
    (\<forall>g e. (g, e) \<in> held (apply_op t op) \<longrightarrow>
      (\<exists>e0. (g, e0) \<in> held t \<and> same_owner e0 e) \<or> last t < g)"
proof (cases op)
  case (Pair x now)
  show ?thesis
  proof (cases x)
    case None
    with Pair expire_held [OF assms, of now] owner_refl show ?thesis by simp blast
  next
    case (Some y)
    with Pair insert_held [OF assms, of y now] show ?thesis by simp
  qed
qed

lemma run_ginv: "ginv t \<Longrightarrow> ginv (run t ops)"
  by (induction t ops rule: run.induct) (simp_all add: apply_op_held)

text \<open>Whoever holds a generation that already existed holds it for the same owner.\<close>

lemma run_owner:
  "ginv t \<Longrightarrow> (g, e) \<in> held (run t ops) \<Longrightarrow> g \<le> last t \<Longrightarrow>
   \<exists>e0. (g, e0) \<in> held t \<and> same_owner e0 e"
proof (induction t ops rule: run.induct)
  case (1 t)
  then show ?case using owner_refl by auto
next
  case (2 t op ops)
  note step = apply_op_held [OF "2.prems"(1), of op]
  have "g \<le> last (apply_op t op)" using step "2.prems"(3) by (meson order_trans)
  then obtain e1 where e1: "(g, e1) \<in> held (apply_op t op)" "same_owner e1 e"
    using "2.IH" step "2.prems"(2) by auto
  with step "2.prems"(3) obtain e0 where "(g, e0) \<in> held t" "same_owner e0 e1"
    by (meson leD)
  with e1(2) owner_trans show ?case by blast
qed

lemma run_retired:
  assumes "ginv t" "g \<le> last t" "g \<notin> fst ` held t"
  shows "g \<notin> fst ` held (run t ops)"
proof
  assume "g \<in> fst ` held (run t ops)"
  then obtain e where "(g, e) \<in> held (run t ops)" by force
  with run_owner [OF assms(1) this assms(2)] assms(3) show False by force
qed

end

end
