(* ===== verification/Hash_Tables.thy ===== *)
theory Hash_Tables
  imports Slots
begin

text \<open>
  \<^verbatim>\<open>PacketHashTable\<close> and \<^verbatim>\<open>RequestTagTable\<close> of \<^verbatim>\<open>src/tables.rs\<close>: the bounded memories of packet
  hashes (duplicate detection) and of path request tags. Both implement \<open>expiring_table\<close>.
\<close>

section \<open>Packet hashes\<close>

record packet_hash_entry =
  he_hash :: hash32
  he_expires_ms :: u64

type_synonym packet_hash_table = "packet_hash_entry option list"

definition pht_new :: "nat \<Rightarrow> packet_hash_table" where
  "pht_new n = replicate n None"

definition pht_clear :: "packet_hash_table \<Rightarrow> packet_hash_table" where
  "pht_clear t = replicate (length t) None"

definition pht_expire :: "packet_hash_table \<Rightarrow> u64 \<Rightarrow> packet_hash_table" where
  "pht_expire t now_ms = clear_where (\<lambda>entry. now_ms \<ge> he_expires_ms entry) t"

definition pht_insert :: "packet_hash_table \<Rightarrow> hash32 \<Rightarrow> u64 \<Rightarrow> u64 \<Rightarrow> bool \<times> packet_hash_table" where
  "pht_insert t hash expires_ms now_ms =
     (let t = pht_expire t now_ms
      in if list_ex (\<lambda>entry. he_hash entry = hash) (somes t) then (False, t)
         else let replacement =
                    or_else (position (\<lambda>s. s = None) t) (oldest_index t he_expires_ms)
              in (True, case replacement of
                          Some idx \<Rightarrow> t[idx := Some \<lparr>he_hash = hash, he_expires_ms = expires_ms\<rparr>]
                        | None \<Rightarrow> t))"

definition pht_contains :: "packet_hash_table \<Rightarrow> hash32 \<Rightarrow> u64 \<Rightarrow> bool \<times> packet_hash_table" where
  "pht_contains t hash now_ms =
     (let t = pht_expire t now_ms
      in (list_ex (\<lambda>entry. he_hash entry = hash) (somes t), t))"

section \<open>Request tags\<close>

record request_tag_entry =
  te_key :: bytes
  te_expires_ms :: u64

type_synonym request_tag_table = "request_tag_entry option list"

definition rtt_new :: "nat \<Rightarrow> request_tag_table" where
  "rtt_new n = replicate n None"

definition rtt_clear :: "request_tag_table \<Rightarrow> request_tag_table" where
  "rtt_clear t = replicate (length t) None"

definition rtt_expire :: "request_tag_table \<Rightarrow> u64 \<Rightarrow> request_tag_table" where
  "rtt_expire t now_ms = clear_where (\<lambda>entry. now_ms \<ge> te_expires_ms entry) t"

definition insert_if_new ::
  "request_tag_table \<Rightarrow> bytes \<Rightarrow> u64 \<Rightarrow> u64 \<Rightarrow> bool \<times> request_tag_table" where
  "insert_if_new t key expires_ms now_ms =
     (let t = rtt_expire t now_ms
      in if list_ex (\<lambda>entry. te_key entry = key) (somes t) then (False, t)
         else let replacement =
                    or_else (position (\<lambda>s. s = None) t) (oldest_index t te_expires_ms)
              in (True, case replacement of
                          Some idx \<Rightarrow> t[idx := Some \<lparr>te_key = key, te_expires_ms = expires_ms\<rparr>]
                        | None \<Rightarrow> t))"

section \<open>Placement of an absent key\<close>

text \<open>Both inserts put an absent key into a free slot, or over the oldest entry when there is
  none.\<close>

definition free_or_oldest :: "'e option list \<Rightarrow> ('e \<Rightarrow> u64) \<Rightarrow> nat option" where
  "free_or_oldest t age = or_else (position (\<lambda>s. s = None) t) (oldest_index t age)"

lemma free_or_oldest_None: "free_or_oldest t age = None \<longleftrightarrow> t = []"
proof
  assume N: "free_or_oldest t age = None"
  show "t = []"
  proof (cases t)
    case (Cons s ss)
    then have "s \<noteq> None"
      using N by (cases s) (auto simp: free_or_oldest_def)
    then have "somes t \<noteq> []" using Cons by auto
    moreover have "somes t = []"
      using N by (auto simp: free_or_oldest_def or_else_def oldest_index_None split: option.splits)
    ultimately show ?thesis by simp
  qed simp
qed (simp add: free_or_oldest_def oldest_index_def best_slot_def)

lemma free_or_oldest_Some:
  assumes "free_or_oldest t age = Some i"
  shows "i < length t"
    "t ! i = None \<or> (None \<notin> set t \<and> (\<exists>e. t ! i = Some e \<and> (\<forall>e'. Some e' \<in> set t \<longrightarrow> age e \<le> age e')))"
proof -
  have "i < length t \<and> (t ! i = None \<or> (None \<notin> set t \<and> (\<exists>e. t ! i = Some e \<and>
      (\<forall>e'. Some e' \<in> set t \<longrightarrow> age e \<le> age e'))))"
  proof (cases "position (\<lambda>s. s = None) t")
    case None
    then have "None \<notin> set t" by (auto simp: position_None)
    moreover have "oldest_index t age = Some i"
      using assms None by (simp add: free_or_oldest_def)
    ultimately show ?thesis using oldest_index_Some by blast
  next
    case (Some j)
    with assms show ?thesis using position_SomeD [OF Some] by (simp add: free_or_oldest_def)
  qed
  then show "i < length t"
    "t ! i = None \<or> (None \<notin> set t \<and> (\<exists>e. t ! i = Some e \<and> (\<forall>e'. Some e' \<in> set t \<longrightarrow> age e \<le> age e')))"
    by auto
qed

lemma Some_in_update: "Some x \<in> set (ss[i := Some e]) \<Longrightarrow> x = e \<or> Some x \<in> set ss"
  using set_update_subset_insert [of ss i "Some e"] by auto

lemma uniq_keys_put_new:
  assumes "uniq_keys key t" "\<not> list_ex (\<lambda>x. key x = key e) (somes t)"
  shows "uniq_keys key (t[i := Some e])"
proof (rule uniq_keys_update [OF assms(1)])
  fix j y assume "j < length t" "t ! j = Some y"
  then have "Some y \<in> set t" by (metis nth_mem)
  with assms(2) show "key y \<noteq> key e" by (auto simp: list_ex_iff)
qed

lemma list_ex_clear_where:
  "list_ex Q (somes (clear_where P t)) \<longleftrightarrow> (\<exists>x. Some x \<in> set t \<and> \<not> P x \<and> Q x)"
  by (auto simp: list_ex_iff Some_in_clear_where)

lemmas hash_table_defs = pht_insert_def pht_expire_def insert_if_new_def rtt_expire_def Let_def

interpretation pht: expiring_table "\<lambda>t. t" he_hash he_expires_ms pht_expire
  "\<lambda>t e now. snd (pht_insert t (he_hash e) (he_expires_ms e) now)"
proof unfold_locales
  show "Some x \<in> set (snd (pht_insert t (he_hash e) (he_expires_ms e) now)) \<Longrightarrow>
      x = e \<or> Some x \<in> set t \<and> now < he_expires_ms x" for x t e now
    by (auto simp: hash_table_defs Some_in_clear_where not_le dest!: Some_in_update
        split: if_splits option.splits)
  show "uniq_keys he_hash t \<Longrightarrow>
      uniq_keys he_hash (snd (pht_insert t (he_hash e) (he_expires_ms e) now))" for t e now
    by (auto simp: hash_table_defs uniq_keys_clear_where intro!: uniq_keys_put_new
        split: option.splits)
qed (auto simp: hash_table_defs split: option.split)

interpretation rtt: expiring_table "\<lambda>t. t" te_key te_expires_ms rtt_expire
  "\<lambda>t e now. snd (insert_if_new t (te_key e) (te_expires_ms e) now)"
proof unfold_locales
  show "Some x \<in> set (snd (insert_if_new t (te_key e) (te_expires_ms e) now)) \<Longrightarrow>
      x = e \<or> Some x \<in> set t \<and> now < te_expires_ms x" for x t e now
    by (auto simp: hash_table_defs Some_in_clear_where not_le dest!: Some_in_update
        split: if_splits option.splits)
  show "uniq_keys te_key t \<Longrightarrow>
      uniq_keys te_key (snd (insert_if_new t (te_key e) (te_expires_ms e) now))" for t e now
    by (auto simp: hash_table_defs uniq_keys_clear_where intro!: uniq_keys_put_new
        split: option.splits)
qed (auto simp: hash_table_defs split: option.split)

section \<open>Duplicate detection\<close>

text \<open>\<open>pht_has t hash now\<close>: the table holds the hash, unexpired at \<open>now\<close>.\<close>

definition pht_has :: "packet_hash_table \<Rightarrow> hash32 \<Rightarrow> u64 \<Rightarrow> bool" where
  "pht_has t hash now \<longleftrightarrow> list_ex (\<lambda>e. he_hash e = hash \<and> now < he_expires_ms e) (somes t)"

lemma pht_has_iff:
  "pht_has t hash now \<longleftrightarrow> (\<exists>e. Some e \<in> set t \<and> he_hash e = hash \<and> now < he_expires_ms e)"
  by (simp add: pht_has_def list_ex_iff Bex_def)

lemma pht_has_expire:
  "list_ex (\<lambda>e. he_hash e = hash) (somes (pht_expire t now)) \<longleftrightarrow> pht_has t hash now"
  unfolding pht_has_def pht_expire_def somes_clear_where list_ex_iff by (auto simp: not_le)

lemma pht_has_expire_self [simp]: "pht_has (pht_expire t now) hash now \<longleftrightarrow> pht_has t hash now"
  unfolding pht_has_def pht_expire_def somes_clear_where list_ex_iff by (auto simp: not_le)

lemma pht_contains_iff: "fst (pht_contains t hash now) \<longleftrightarrow> pht_has t hash now"
  by (simp add: pht_contains_def Let_def pht_has_expire)

lemma pht_insert_new_iff: "fst (pht_insert t hash exp now) \<longleftrightarrow> \<not> pht_has t hash now"
  by (simp add: pht_insert_def Let_def pht_has_expire)

lemma snd_pht_contains: "snd (pht_contains t hash now) = pht_expire t now"
  by (simp add: pht_contains_def Let_def)

lemma pht_insert_has:
  assumes "t \<noteq> []" "now < exp"
  shows "pht_has (snd (pht_insert t hash exp now)) hash now"
proof (cases "pht_has t hash now")
  case True
  then have "snd (pht_insert t hash exp now) = pht_expire t now"
    by (simp add: pht_insert_def Let_def pht_has_expire)
  with True show ?thesis by simp
next
  case False
  let ?t = "pht_expire t now"
  obtain i where i: "free_or_oldest ?t he_expires_ms = Some i" "i < length ?t"
    using assms(1) free_or_oldest_None [of ?t he_expires_ms] free_or_oldest_Some(1) [of ?t he_expires_ms]
    by (cases "free_or_oldest ?t he_expires_ms") (auto simp: pht_expire_def clear_where_def)
  have "snd (pht_insert t hash exp now) = ?t[i := Some \<lparr>he_hash = hash, he_expires_ms = exp\<rparr>]"
    using False i(1)
    by (simp add: pht_insert_def Let_def pht_has_expire free_or_oldest_def)
  then have "Some \<lparr>he_hash = hash, he_expires_ms = exp\<rparr> \<in> set (snd (pht_insert t hash exp now))"
    using i(2) by (simp add: set_update_memI)
  then show ?thesis
    using assms(2) unfolding pht_has_iff by force
qed

lemma pht_insert_keeps_other:
  assumes "pht_has t h now" "None \<in> set (pht_expire t now)"
  shows "pht_has (snd (pht_insert t hash exp now)) h now"
proof -
  obtain e where e: "Some e \<in> set (pht_expire t now)" "he_hash e = h" "now < he_expires_ms e"
    using assms(1) unfolding pht_has_iff pht_expire_def Some_in_clear_where not_le by blast
  obtain i where i: "position (\<lambda>s. s = None) (pht_expire t now) = Some i"
    using assms(2) by (cases "position (\<lambda>s. s = None) (pht_expire t now)") (auto simp: position_None)
  then have "i < length (pht_expire t now)" "pht_expire t now ! i = None"
    using position_SomeD [OF i] by auto
  then have "Some e \<in> set ((pht_expire t now)[i := v])" for v
    using e(1) by (metis in_set_conv_nth length_list_update nth_list_update_neq option.distinct(1))
  then have "Some e \<in> set (snd (pht_insert t hash exp now))"
    using e(1) i by (simp add: pht_insert_def Let_def)
  with e(2,3) show ?thesis unfolding pht_has_iff by blast
qed

end
