(* ===== verification/Ring_Queue.thy ===== *)
theory Ring_Queue
  imports Prelude
begin

text \<open>
  \<^verbatim>\<open>Queue\<close> of \<^verbatim>\<open>src/tables.rs\<close>: a FIFO queue in a ring of option slots. The representation is kept
  as written (slots, head, length); the theorems show that it refines a plain list through the
  interface \<open>fifo_queue\<close>, including removal from the middle, which shifts the later entries slot
  by slot.
\<close>

record 'a queue =
  q_entries :: "'a option list"
  q_head :: nat
  q_len :: nat

abbreviation q_cap :: "'a queue \<Rightarrow> nat" where
  "q_cap q \<equiv> length (q_entries q)"

definition q_new :: "nat \<Rightarrow> 'a queue" where
  "q_new n = \<lparr>q_entries = replicate n None, q_head = 0, q_len = 0\<rparr>"

definition q_clear :: "'a queue \<Rightarrow> 'a queue" where
  "q_clear q = q\<lparr>q_entries := replicate (q_cap q) None, q_head := 0, q_len := 0\<rparr>"

definition q_is_empty :: "'a queue \<Rightarrow> bool" where
  "q_is_empty q \<longleftrightarrow> q_len q = 0"

definition push_drop_oldest :: "'a queue \<Rightarrow> 'a \<Rightarrow> bool \<times> 'a queue" where
  "push_drop_oldest q v =
     (let n = q_cap q in
      if n = 0 then (False, q)
      else if q_len q = n then
        (True, q\<lparr>q_entries := (q_entries q)[q_head q := Some v],
                 q_head := (q_head q + 1) mod n\<rparr>)
      else
        (let idx = (q_head q + q_len q) mod n
         in (False, q\<lparr>q_entries := (q_entries q)[idx := Some v], q_len := q_len q + 1\<rparr>)))"

definition q_peek :: "'a queue \<Rightarrow> 'a option" where
  "q_peek q =
     (if q_len q = 0 \<or> q_cap q = 0 then None else q_entries q ! q_head q)"

definition q_iter :: "'a queue \<Rightarrow> 'a list" where
  "q_iter q =
     somes (map (\<lambda>offset. q_entries q ! ((q_head q + offset) mod max (q_cap q) 1)) [0..<q_len q])"

text \<open>A mutation \<open>f\<close> through each reference of \<^verbatim>\<open>iter_mut\<close>, and through the reference that
  \<^verbatim>\<open>get_mut\<close> returns.\<close>

definition q_iter_mut :: "('a \<Rightarrow> 'a) \<Rightarrow> 'a queue \<Rightarrow> 'a queue" where
  "q_iter_mut f q = q\<lparr>q_entries := map (map_option f) (q_entries q)\<rparr>"

definition q_get :: "'a queue \<Rightarrow> nat \<Rightarrow> 'a option" where
  "q_get q offset =
     (if offset \<ge> q_len q \<or> q_cap q = 0 then None
      else q_entries q ! ((q_head q + offset) mod q_cap q))"

definition q_get_mut :: "('a \<Rightarrow> 'a) \<Rightarrow> 'a queue \<Rightarrow> nat \<Rightarrow> 'a queue" where
  "q_get_mut f q offset =
     (if offset \<ge> q_len q \<or> q_cap q = 0 then q
      else let idx = (q_head q + offset) mod q_cap q
           in q\<lparr>q_entries := (q_entries q)[idx := map_option f (q_entries q ! idx)]\<rparr>)"

definition shift_step :: "nat \<Rightarrow> nat \<Rightarrow> 'a option list \<Rightarrow> 'a option list" where
  "shift_step head shift es =
     (let from = (head + shift + 1) mod length es; to = (head + shift) mod length es;
          taken = es ! from
      in (es[from := None])[to := taken])"

definition q_remove :: "'a queue \<Rightarrow> nat \<Rightarrow> 'a option \<times> 'a queue" where
  "q_remove q offset =
     (if offset \<ge> q_len q \<or> q_cap q = 0 then (None, q)
      else let idx = (q_head q + offset) mod q_cap q;
               value = q_entries q ! idx;
               es = fold (shift_step (q_head q)) [offset..<q_len q - 1] ((q_entries q)[idx := None])
           in (value, q\<lparr>q_entries := es, q_len := q_len q - 1\<rparr>))"

definition q_pop :: "'a queue \<Rightarrow> 'a option \<times> 'a queue" where
  "q_pop q =
     (if q_len q = 0 \<or> q_cap q = 0 then (None, q)
      else (q_entries q ! q_head q,
            q\<lparr>q_entries := (q_entries q)[q_head q := None],
              q_head := (q_head q + 1) mod q_cap q, q_len := q_len q - 1\<rparr>))"

section \<open>The interface: a bounded FIFO queue that drops its oldest entry\<close>

definition list_push :: "nat \<Rightarrow> 'a list \<Rightarrow> 'a \<Rightarrow> 'a list" where
  "list_push cap xs x =
     (if cap = 0 then xs else if length xs = cap then tl xs @ [x] else xs @ [x])"

definition list_remove :: "nat \<Rightarrow> 'a list \<Rightarrow> 'a list" where
  "list_remove i xs = take i xs @ drop (Suc i) xs"

lemma set_tl_subset: "set (tl xs) \<subseteq> set xs"
  by (cases xs) auto

locale fifo_queue =
  fixes inv :: "'q \<Rightarrow> bool"
    and cap :: "'q \<Rightarrow> nat"
    and abs :: "'q \<Rightarrow> 'a list"
    and push :: "'q \<Rightarrow> 'a \<Rightarrow> bool \<times> 'q"
    and pop :: "'q \<Rightarrow> 'a option \<times> 'q"
    and remove :: "'q \<Rightarrow> nat \<Rightarrow> 'a option \<times> 'q"
  assumes abs_le_cap: "inv q \<Longrightarrow> length (abs q) \<le> cap q"
    and push_law: "inv q \<Longrightarrow> push q x = (e, q') \<Longrightarrow>
      inv q' \<and> cap q' = cap q \<and> abs q' = list_push (cap q) (abs q) x \<and>
      e = (cap q \<noteq> 0 \<and> length (abs q) = cap q)"
    and pop_law: "inv q \<Longrightarrow> pop q = (r, q') \<Longrightarrow>
      inv q' \<and> cap q' = cap q \<and> abs q' = tl (abs q) \<and>
      r = (case abs q of [] \<Rightarrow> None | x # _ \<Rightarrow> Some x)"
    and remove_law: "inv q \<Longrightarrow> remove q i = (r, q') \<Longrightarrow>
      inv q' \<and> cap q' = cap q \<and> abs q' = list_remove i (abs q) \<and>
      r = (if i < length (abs q) then Some (abs q ! i) else None)"
begin

primrec push_all :: "'q \<Rightarrow> 'a list \<Rightarrow> 'q" where
  "push_all q [] = q"
| "push_all q (x # xs) = push_all (snd (push q x)) xs"

primrec pop_n :: "nat \<Rightarrow> 'q \<Rightarrow> 'a list" where
  "pop_n 0 q = []"
| "pop_n (Suc n) q = (case pop q of (None, _) \<Rightarrow> [] | (Some x, q') \<Rightarrow> x # pop_n n q')"

text \<open>Whatever is pushed, the queue holds the most recent entries in order.\<close>

lemma push_all_keeps_newest:
  "inv q \<Longrightarrow> cap q \<noteq> 0 \<Longrightarrow>
   inv (push_all q xs) \<and> cap (push_all q xs) = cap q \<and>
   abs (push_all q xs) = drop (length (abs q @ xs) - cap q) (abs q @ xs)"
proof (induction xs arbitrary: q)
  case Nil
  then show ?case using abs_le_cap [of q] by simp
next
  case (Cons x xs)
  obtain e q' where p: "push q x = (e, q')" by (cases "push q x")
  note L = push_law [OF Cons.prems(1) p]
  have "drop (length (abs q' @ xs) - cap q) (abs q' @ xs) =
      drop (length (abs q @ x # xs) - cap q) (abs q @ x # xs)"
  proof (cases "length (abs q) = cap q")
    case True
    with Cons.prems(2) obtain a list where "abs q = a # list" "cap q = Suc (length list)"
      by (cases "abs q") auto
    then show ?thesis using L by (simp add: list_push_def)
  next
    case False
    then show ?thesis using L Cons.prems(2) by (simp add: list_push_def)
  qed
  then show ?case
    using Cons.IH [of q'] L Cons.prems(2) p by simp
qed

lemma pop_n_prefix: "inv q \<Longrightarrow> pop_n n q = take n (abs q)"
proof (induction n arbitrary: q)
  case (Suc n)
  obtain r q' where p: "pop q = (r, q')" by (cases "pop q")
  note L = pop_law [OF Suc.prems p]
  show ?case
    using L Suc.IH [of q'] p by (cases "abs q") auto
qed simp

lemma pop_subset: "inv q \<Longrightarrow> set (abs (snd (pop q))) \<subseteq> set (abs q)"
  using pop_law [of q "fst (pop q)" "snd (pop q)"] set_tl_subset [of "abs q"] by simp

lemma remove_subset: "inv q \<Longrightarrow> set (abs (snd (remove q i))) \<subseteq> set (abs q)"
  using remove_law [of q i "fst (remove q i)" "snd (remove q i)"]
  by (auto simp: list_remove_def dest: in_set_takeD in_set_dropD)

lemma push_subset: "inv q \<Longrightarrow> set (abs (snd (push q x))) \<subseteq> insert x (set (abs q))"
  using push_law [of q x "fst (push q x)" "snd (push q x)"]
    set_tl_subset [of "abs q"] by (auto simp: list_push_def split: if_splits)

end

section \<open>The ring implements it\<close>

definition q_view :: "'a queue \<Rightarrow> 'a option list" where
  "q_view q = rotate (q_head q) (q_entries q)"

definition q_inv :: "'a queue \<Rightarrow> bool" where
  "q_inv q \<longleftrightarrow>
     q_len q \<le> q_cap q \<and> q_head q < max (q_cap q) 1 \<and>
     q_view q = map Some (q_iter q) @ replicate (q_cap q - q_len q) None"

lemma mod_add_inj: "i < n \<Longrightarrow> j < n \<Longrightarrow> (h + i) mod n = (h + j) mod n \<longleftrightarrow> i = (j::nat)"
proof -
  assume ij: "i < n" "j < n"
  have red: "(h + k) mod n = (if h mod n + k < n then h mod n + k else h mod n + k - n)"
    if "k < n" for k
  proof -
    have "h mod n < n" using that by simp
    then have "h mod n + k - n < n" using that by linarith
    then have "(h mod n + k) mod n = (if h mod n + k < n then h mod n + k else h mod n + k - n)"
      by (simp add: mod_if [of "h mod n + k"])
    then show ?thesis by (simp add: mod_add_left_eq)
  qed
  have "h mod n < n" using ij by simp
  then show ?thesis
    unfolding red [OF ij(1)] red [OF ij(2)] using ij by (auto split: if_splits)
qed

lemma rotate_update:
  assumes "i < length es"
  shows "rotate h (es[(h + i) mod length es := v]) = (rotate h es)[i := v]"
proof (rule nth_equalityI)
  fix j assume "j < length (rotate h (es[(h + i) mod length es := v]))"
  then have "j < length es" by simp
  moreover have "k mod length es < length es" for k
    using assms by (intro mod_less_divisor) linarith
  ultimately show "rotate h (es[(h + i) mod length es := v]) ! j = (rotate h es)[i := v] ! j"
    using assms by (simp add: nth_rotate nth_list_update mod_add_inj)
qed simp

lemma rotate_step: "rotate ((h + 1) mod length es) es = rotate1 (rotate h es)"
  by (metis Suc_eq_plus1 rotate_conv_mod rotate_Suc)

lemma q_iter_view:
  assumes "q_len q \<le> q_cap q"
  shows "q_iter q = somes (take (q_len q) (q_view q))"
proof -
  have "map (\<lambda>i. q_entries q ! ((q_head q + i) mod max (q_cap q) 1)) [0..<q_len q] =
      take (q_len q) (q_view q)"
  proof (cases "q_len q = 0")
    case False
    then have "max (q_cap q) 1 = q_cap q" using assms by simp
    then show ?thesis
      using assms by (intro nth_equalityI) (auto simp: q_view_def nth_rotate)
  qed simp
  then show ?thesis by (simp add: q_iter_def)
qed

lemma q_invI:
  assumes "q_view q = map Some xs @ replicate (q_cap q - q_len q) None"
    and "length xs = q_len q" "q_len q \<le> q_cap q" "q_head q < max (q_cap q) 1"
  shows "q_inv q \<and> q_iter q = xs"
  using assms by (simp add: q_inv_def q_iter_view)

lemma q_invD:
  assumes "q_inv q"
  shows "q_view q = map Some (q_iter q) @ replicate (q_cap q - q_len q) None"
    "length (q_iter q) = q_len q" "q_len q \<le> q_cap q" "q_head q < max (q_cap q) 1"
proof -
  show a: "q_view q = map Some (q_iter q) @ replicate (q_cap q - q_len q) None"
    and b: "q_len q \<le> q_cap q" and "q_head q < max (q_cap q) 1"
    using assms by (simp_all add: q_inv_def)
  have "length (q_view q) = q_cap q" by (simp add: q_view_def)
  then show "length (q_iter q) = q_len q"
    using a b by simp
qed

lemma length_q_view [simp]: "length (q_view q) = q_cap q"
  by (simp add: q_view_def)

lemma q_nth_view: "i < q_cap q \<Longrightarrow> q_entries q ! ((q_head q + i) mod q_cap q) = q_view q ! i"
  by (simp add: q_view_def nth_rotate)

lemma q_view_push_free:
  assumes "q_len q < q_cap q"
  shows "q_view (q\<lparr>q_entries := (q_entries q)[(q_head q + q_len q) mod q_cap q := v],
                   q_len := q_len q + 1\<rparr>) = (q_view q)[q_len q := v]"
  using assms by (simp add: q_view_def rotate_update)

lemma q_view_advance:
  assumes "q_head q < q_cap q" "q_entries q' = (q_entries q)[q_head q := v]"
    "q_head q' = (q_head q + 1) mod q_cap q"
  shows "q_view q' = tl (q_view q) @ [v]"
proof -
  have pos: "0 < q_cap q" using assms(1) by linarith
  have "rotate (q_head q) ((q_entries q)[q_head q := v]) = (q_view q)[0 := v]"
    using rotate_update [of 0 "q_entries q" "q_head q" v] assms(1) pos by (simp add: q_view_def)
  then have "q_view q' = rotate1 ((q_view q)[0 := v])"
    using rotate_step [of "q_head q" "(q_entries q)[q_head q := v]"] assms(2,3)
    by (simp add: q_view_def [of q'])
  moreover have "q_view q \<noteq> []"
    using pos by (metis length_q_view length_greater_0_conv)
  ultimately show ?thesis by (cases "q_view q") auto
qed

lemma list_update_replicate_0: "0 < n \<Longrightarrow> (replicate n x)[0 := y] = y # replicate (n - 1) x"
  by (cases n) auto

lemma push_drop_oldest_law:
  assumes "q_inv q" "push_drop_oldest q v = (e, q')"
  shows "q_inv q' \<and> q_cap q' = q_cap q \<and> q_iter q' = list_push (q_cap q) (q_iter q) v \<and>
    e = (q_cap q \<noteq> 0 \<and> length (q_iter q) = q_cap q)"
proof -
  note I = q_invD [OF assms(1)]
  consider "q_cap q = 0" | "q_cap q \<noteq> 0" "q_len q = q_cap q" | "q_len q < q_cap q"
    using I(3) by linarith
  then show ?thesis
  proof cases
    case 1
    with assms show ?thesis by (simp add: push_drop_oldest_def list_push_def)
  next
    case 2
    then have q': "q' = q\<lparr>q_entries := (q_entries q)[q_head q := Some v],
        q_head := (q_head q + 1) mod q_cap q\<rparr>" "e"
      using assms(2) by (auto simp: push_drop_oldest_def Let_def)
    have h: "q_head q < q_cap q" using I(4) 2(1) by simp
    have "q_view q' = tl (q_view q) @ [Some v]"
      using q' by (intro q_view_advance [OF h]) simp_all
    then have "q_inv q' \<and> q_iter q' = tl (q_iter q) @ [v]"
      using 2 I h q'(1) mod_less_divisor [of "q_cap q"]
      by (intro q_invI) (auto simp: map_tl)
    then show ?thesis using 2 I q' by (simp add: list_push_def)
  next
    case 3
    then have q': "q' = q\<lparr>q_entries := (q_entries q)[(q_head q + q_len q) mod q_cap q := Some v],
        q_len := q_len q + 1\<rparr>" "\<not> e"
      using assms(2) by (auto simp: push_drop_oldest_def Let_def split: if_splits)
    have "q_view q' = map Some (q_iter q @ [v]) @ replicate (q_cap q - (q_len q + 1)) None"
      unfolding q'(1) q_view_push_free [OF 3] using I 3
      by (simp add: list_update_append list_update_replicate_0)
    then have "q_inv q' \<and> q_iter q' = q_iter q @ [v]"
      using 3 I q'(1) by (intro q_invI) auto
    then show ?thesis using 3 I q' by (auto simp: list_push_def)
  qed
qed

lemma q_pop_law:
  assumes "q_inv q" "q_pop q = (r, q')"
  shows "q_inv q' \<and> q_cap q' = q_cap q \<and> q_iter q' = tl (q_iter q) \<and>
    r = (case q_iter q of [] \<Rightarrow> None | x # _ \<Rightarrow> Some x)"
proof -
  note I = q_invD [OF assms(1)]
  show ?thesis
  proof (cases "q_iter q")
    case Nil
    with assms I show ?thesis by (simp add: q_pop_def)
  next
    case (Cons x xs)
    then have pos: "q_len q = Suc (length xs)" "q_cap q \<noteq> 0" using I by auto
    then have h: "q_head q < q_cap q" using I(4) by linarith
    have q': "q' = q\<lparr>q_entries := (q_entries q)[q_head q := None],
        q_head := (q_head q + 1) mod q_cap q, q_len := q_len q - 1\<rparr>" "r = q_entries q ! q_head q"
      using assms(2) pos by (auto simp: q_pop_def)
    have "r = q_view q ! 0"
      using q_nth_view [of 0 q] q'(2) h pos(2) by simp
    then have r: "r = Some x" using I(1) Cons by simp
    have "q_view q' = tl (q_view q) @ [None]"
      using q' by (intro q_view_advance [OF h]) simp_all
    also have "\<dots> = map Some xs @ replicate (q_cap q - length xs) None"
      using I(1,3) Cons pos by (simp add: replicate_append_same Suc_diff_Suc flip: replicate_Suc)
    finally have "q_inv q' \<and> q_iter q' = xs"
      using pos I h q'(1) mod_less_divisor [of "q_cap q"] by (intro q_invI) auto
    then show ?thesis using r Cons q'(1) by simp
  qed
qed

text \<open>Removal from the middle: each step of the shift loop moves the hole one place on.\<close>

lemma shift_step_view:
  assumes "shift + 1 < length es"
  shows "rotate h (shift_step h shift es) =
    ((rotate h es)[shift + 1 := None])[shift := rotate h es ! (shift + 1)]"
proof -
  let ?e1 = "es[(h + (shift + 1)) mod length es := None]"
  have "rotate h (shift_step h shift es) =
      rotate h (?e1[(h + shift) mod length ?e1 := es ! ((h + (shift + 1)) mod length es)])"
    by (simp add: shift_step_def Let_def add.assoc)
  also have "\<dots> = (rotate h ?e1)[shift := es ! ((h + (shift + 1)) mod length es)]"
    using assms by (intro rotate_update) simp
  also have "\<dots> = ((rotate h es)[shift + 1 := None])[shift := rotate h es ! (shift + 1)]"
    using assms rotate_update [of "shift + 1" es h None] by (simp add: nth_rotate)
  finally show ?thesis .
qed

lemma length_shift_step [simp]: "length (shift_step h s es) = length es"
  by (simp add: shift_step_def Let_def)

lemma length_fold_shift [simp]: "length (fold (shift_step h) ss es) = length es"
  by (induction ss arbitrary: es) auto

lemma shift_loop_view:
  assumes "rotate h es = A @ None # map Some ys @ Z"
  shows "rotate h (fold (shift_step h) [length A..<length A + length ys] es) =
    A @ map Some ys @ None # Z"
  using assms
proof (induction ys arbitrary: A es)
  case (Cons y ys)
  have len: "length es = length A + length ys + 2 + length Z"
    using arg_cong [OF Cons.prems, of length] by simp
  have "rotate h (shift_step h (length A) es) = (A @ [Some y]) @ None # map Some ys @ Z"
    using len Cons.prems
    by (subst shift_step_view) (auto simp: list_update_append nth_append)
  from Cons.IH [OF this]
  have "rotate h (fold (shift_step h) [length A + 1..<length A + 1 + length ys]
      (shift_step h (length A) es)) = A @ map Some (y # ys) @ None # Z"
    by (simp del: upt_Suc)
  moreover have "[length A..<length A + length (y # ys)] =
      length A # [length A + 1..<length A + 1 + length ys]"
    by (simp add: upt_conv_Cons del: upt_Suc)
  ultimately show ?case by (simp only: fold_simps)
qed simp

lemma q_remove_law:
  assumes "q_inv q" "q_remove q i = (r, q')"
  shows "q_inv q' \<and> q_cap q' = q_cap q \<and> q_iter q' = list_remove i (q_iter q) \<and>
    r = (if i < length (q_iter q) then Some (q_iter q ! i) else None)"
proof (cases "i < q_len q")
  case False
  with assms q_invD [OF assms(1)] show ?thesis by (simp add: q_remove_def list_remove_def)
next
  case True
  note I = q_invD [OF assms(1)]
  let ?xs = "q_iter q" and ?h = "q_head q" and ?n = "q_cap q"
  let ?hole = "(q_entries q)[(?h + i) mod ?n := None]"
  have in_cap: "i < ?n" "?n \<noteq> 0" using True I(3) by linarith+
  have q': "q' = q\<lparr>q_entries := fold (shift_step ?h) [i..<q_len q - 1] ?hole,
      q_len := q_len q - 1\<rparr>" "r = q_entries q ! ((?h + i) mod ?n)"
    using assms(2) True in_cap by (auto simp: q_remove_def Let_def)
  have r: "r = Some (?xs ! i)"
    using q'(2) q_nth_view [OF in_cap(1)] I True by (simp add: nth_append)
  have "rotate ?h ?hole = (q_view q)[i := None]"
    using rotate_update [OF in_cap(1), of ?h None] by (simp add: q_view_def)
  also have "\<dots> = map Some (take i ?xs) @ None # map Some (drop (Suc i) ?xs) @
      replicate (?n - q_len q) None"
    using I(1,2) True by (simp add: list_update_append upd_conv_take_nth_drop take_map drop_map)
  finally have "rotate ?h (fold (shift_step ?h) [i..<i + length (drop (Suc i) ?xs)] ?hole) =
      map Some (take i ?xs) @ map Some (drop (Suc i) ?xs) @ None # replicate (?n - q_len q) None"
    using shift_loop_view [of ?h ?hole "map Some (take i ?xs)" "drop (Suc i) ?xs"] True I(2)
    by simp
  moreover have "i + length (drop (Suc i) ?xs) = q_len q - 1"
    using True I(2) by simp
  moreover have "q_view q' = rotate ?h (fold (shift_step ?h) [i..<q_len q - 1] ?hole)"
    by (simp add: q'(1) q_view_def)
  moreover have "q_cap q' - q_len q' = Suc (?n - q_len q)"
    using q'(1) True I(3) by simp
  ultimately have "q_view q' = map Some (list_remove i ?xs) @ replicate (q_cap q' - q_len q') None"
    by (simp add: list_remove_def)
  then have "q_inv q' \<and> q_iter q' = list_remove i ?xs"
    using q'(1) True I by (intro q_invI) (auto simp: list_remove_def)
  then show ?thesis using r True I q'(1) by simp
qed

interpretation ring: fifo_queue q_inv "\<lambda>q. q_cap q" q_iter push_drop_oldest q_pop q_remove
  by unfold_locales
    (use q_invD push_drop_oldest_law q_pop_law q_remove_law in \<open>metis | simp\<close>)+

lemma q_new_inv [simp]: "q_inv (q_new n)" "q_iter (q_new n) = []" "q_cap (q_new n) = n"
  by (simp_all add: q_new_def q_inv_def q_iter_def q_view_def)

lemma q_clear_inv [simp]: "q_inv (q_clear q)" "q_iter (q_clear q) = []" "q_cap (q_clear q) = q_cap q"
  by (simp_all add: q_clear_def q_inv_def q_iter_def q_view_def)

lemma q_peek_hd:
  assumes "q_inv q"
  shows "q_peek q = (case q_iter q of [] \<Rightarrow> None | x # _ \<Rightarrow> Some x)"
  using q_pop_law [OF assms, of "fst (q_pop q)" "snd (q_pop q)"]
  by (auto simp: q_peek_def q_pop_def split: list.splits if_splits)

lemma q_get_nth:
  assumes "q_inv q"
  shows "q_get q i = (if i < length (q_iter q) then Some (q_iter q ! i) else None)"
  using q_remove_law [OF assms, of i "fst (q_remove q i)" "snd (q_remove q i)"]
  by (auto simp: q_get_def q_remove_def Let_def split: if_splits)

lemma somes_map_map_option: "somes (map (map_option f) ss) = map f (somes ss)"
  by (induction ss) (auto split: option.splits)

lemma q_iter_mut_law:
  assumes "q_inv q"
  shows "q_inv (q_iter_mut f q) \<and> q_cap (q_iter_mut f q) = q_cap q \<and>
    q_iter (q_iter_mut f q) = map f (q_iter q)"
proof -
  note I = q_invD [OF assms]
  have "q_view (q_iter_mut f q) = map (map_option f) (q_view q)"
    by (simp add: q_view_def q_iter_mut_def rotate_map)
  then have "q_inv (q_iter_mut f q) \<and> q_iter (q_iter_mut f q) = map f (q_iter q)"
    using I by (intro q_invI) (auto simp: q_iter_mut_def)
  then show ?thesis by (simp add: q_iter_mut_def)
qed

lemma q_get_mut_law:
  assumes "q_inv q"
  shows "q_inv (q_get_mut f q i) \<and> q_cap (q_get_mut f q i) = q_cap q \<and>
    q_iter (q_get_mut f q i) =
      (if i < length (q_iter q) then (q_iter q)[i := f (q_iter q ! i)] else q_iter q)"
proof (cases "i < q_len q")
  case False
  with assms q_invD(2) [OF assms] show ?thesis by (simp add: q_get_mut_def)
next
  case True
  note I = q_invD [OF assms]
  have in_cap: "i < q_cap q" "q_entries q \<noteq> []" using True I(3) by auto
  have "q_view (q_get_mut f q i) = (q_view q)[i := map_option f (q_view q ! i)]"
    using True in_cap rotate_update [OF in_cap(1), of "q_head q"]
    by (simp add: q_view_def q_get_mut_def Let_def nth_rotate)
  also have "\<dots> = map Some ((q_iter q)[i := f (q_iter q ! i)]) @ replicate (q_cap q - q_len q) None"
    using I True by (simp add: list_update_append nth_append map_update)
  finally have "q_inv (q_get_mut f q i) \<and> q_iter (q_get_mut f q i) = (q_iter q)[i := f (q_iter q ! i)]"
    using I True by (intro q_invI) (auto simp: q_get_mut_def Let_def)
  then show ?thesis using True I by (simp add: q_get_mut_def Let_def)
qed



end
