(* ===== verification/Gen_Insert.thy ===== *)
theory Gen_Insert
  imports Hash_Tables
begin

text \<open>
  The insert that \<^verbatim>\<open>ReverseTable\<close> and \<^verbatim>\<open>LinkTable\<close> of \<^verbatim>\<open>src/tables.rs\<close> share: purge what has expired,
  mint a generation, and place the entry over its own key, else into a free slot, else over the
  entry that expires first.
\<close>

definition gt_insert ::
  "('e \<Rightarrow> 'k) \<Rightarrow> ('e \<Rightarrow> u64) \<Rightarrow> 'e gen_table \<Rightarrow> 'e \<Rightarrow> u64 \<Rightarrow> 'e gen_table" where
  "gt_insert key expires t entry now_ms =
     (let t = gt_clear_where (\<lambda>e. now_ms \<ge> expires e) t
      in case gt_next_generation t of
           None \<Rightarrow> t
         | Some generation \<Rightarrow>
             (case or_else (or_else
                      (position (\<lambda>s. is_some_and s (\<lambda>old. key old = key entry)) (gt_entries t))
                      (position (\<lambda>s. s = None) (gt_entries t)))
                    (oldest_index (gt_entries t) expires) of
                Some idx \<Rightarrow> gt_put t idx entry generation
              | None \<Rightarrow> t))"

lemma or_else_assoc: "or_else (or_else a b) c = or_else a (or_else b c)"
  by (cases a) auto

lemma gt_insert_cases:
  obtains (unchanged) "gt_insert key expires t e now = gt_clear_where (\<lambda>e. now \<ge> expires e) t"
      "gt_next_generation t = None"
  | (place) idx g where
      "gt_insert key expires t e now = gt_put (gt_clear_where (\<lambda>e. now \<ge> expires e) t) idx e g"
      "idx < gt_size t" "gt_last_generation t < g"
      "position (\<lambda>s. is_some_and s (\<lambda>old. key old = key e))
         (clear_where (\<lambda>e. now \<ge> expires e) (gt_entries t)) = Some idx \<or>
       position (\<lambda>s. is_some_and s (\<lambda>old. key old = key e))
         (clear_where (\<lambda>e. now \<ge> expires e) (gt_entries t)) = None \<and>
       free_or_oldest (clear_where (\<lambda>e. now \<ge> expires e) (gt_entries t)) expires = Some idx"
proof -
  let ?t = "gt_clear_where (\<lambda>e. now \<ge> expires e) t"
  let ?es = "clear_where (\<lambda>e. now \<ge> expires e) (gt_entries t)"
  let ?p = "position (\<lambda>s. is_some_and s (\<lambda>old. key old = key e)) ?es"
  have es: "gt_entries ?t = ?es" "gt_next_generation ?t = gt_next_generation t"
    by (simp_all add: gt_clear_where_def gt_next_generation_def clear_where_def)
  show thesis
  proof (cases "gt_next_generation t")
    case None
    then show thesis
      using es by (intro unchanged) (simp_all add: gt_insert_def Let_def)
  next
    case (Some g)
    then have ne: "?es \<noteq> []" and g: "gt_last_generation t < g"
      by (auto simp: gt_next_generation_def clear_where_def split: if_splits dest: checked_add_one_gt)
    obtain idx where idx: "or_else ?p (free_or_oldest ?es expires) = Some idx"
      using free_or_oldest_None [of ?es expires] ne
      by (cases ?p; cases "free_or_oldest ?es expires") auto
    have "gt_insert key expires t e now = gt_put ?t idx e g"
      using Some es idx by (simp add: gt_insert_def Let_def or_else_assoc free_or_oldest_def)
    moreover have "idx < gt_size t"
      using idx position_SomeD(1) [of _ ?es idx] free_or_oldest_Some(1) [of ?es expires idx]
      by (cases ?p) auto
    ultimately show thesis
      using g idx by (intro place [of idx g]) (auto simp: or_else_def split: option.splits)
  qed
qed

lemma gt_put_entries: "gt_entries (gt_put t i e g) = (gt_entries t)[i := Some e]"
  by (simp add: gt_put_def)

text \<open>The laws of the interface, for any key and expiry projection.\<close>

lemma gt_insert_length: "length (gt_entries (gt_insert key expires t e now)) = gt_size t"
  by (rule gt_insert_cases [of key expires t e now]) (auto simp: gt_put_entries gt_clear_where_def)

lemma gt_insert_origin:
  "Some x \<in> set (gt_entries (gt_insert key expires t e now)) \<Longrightarrow>
   x = e \<or> Some x \<in> set (gt_entries t) \<and> now < expires x"
  by (rule gt_insert_cases [of key expires t e now])
     (auto simp: gt_put_entries gt_clear_where_def Some_in_clear_where not_le dest!: Some_in_update)

lemma gt_insert_uniq:
  assumes "uniq_keys key (gt_entries t)"
  shows "uniq_keys key (gt_entries (gt_insert key expires t e now))"
proof -
  have u: "uniq_keys key (clear_where (\<lambda>e. now \<ge> expires e) (gt_entries t))"
    using assms by (rule uniq_keys_clear_where)
  show ?thesis
    by (rule gt_insert_cases [of key expires t e now])
       (use u uniq_keys_place [OF u] in \<open>auto simp: gt_put_entries gt_clear_where_def\<close>)
qed

lemma gt_insert_held:
  assumes "gt_inv t"
  shows "gt_inv (gt_insert key expires t x now)"
    "gt_last_generation t \<le> gt_last_generation (gt_insert key expires t x now)"
    "(g, e) \<in> gt_held (gt_insert key expires t x now) \<Longrightarrow>
       (g, e) \<in> gt_held t \<or> gt_last_generation t < g \<and> e = x"
proof -
  let ?t = "gt_clear_where (\<lambda>e. now \<ge> expires e) t"
  note E = gt_inv_clear_where [OF assms, of "\<lambda>e. now \<ge> expires e"]
  have sz: "gt_size ?t = gt_size t" by (simp add: gt_clear_where_def)
  have "gt_inv (gt_insert key expires t x now) \<and>
      gt_last_generation t \<le> gt_last_generation (gt_insert key expires t x now) \<and>
      (\<forall>g e. (g, e) \<in> gt_held (gt_insert key expires t x now) \<longrightarrow>
        (g, e) \<in> gt_held t \<or> gt_last_generation t < g \<and> e = x)"
  proof (rule gt_insert_cases [of key expires t x now])
    fix idx n
    assume p: "gt_insert key expires t x now = gt_put ?t idx x n" "idx < gt_size t"
      "gt_last_generation t < n"
    then have P: "gt_inv (gt_put ?t idx x n)"
      "\<And>g e. (g, e) \<in> gt_held (gt_put ?t idx x n) \<Longrightarrow> (g, e) \<in> gt_held ?t \<or> g = n \<and> e = x"
      using gt_inv_put [OF E(1), of idx n] sz E(3) by auto
    have "gt_last_generation (gt_put ?t idx x n) = n" by (simp add: gt_put_def)
    with P p E(2) show ?thesis by auto
  next
    assume u: "gt_insert key expires t x now = ?t"
    show ?thesis unfolding u using E by auto
  qed
  then show "gt_inv (gt_insert key expires t x now)"
    "gt_last_generation t \<le> gt_last_generation (gt_insert key expires t x now)"
    "(g, e) \<in> gt_held (gt_insert key expires t x now) \<Longrightarrow>
       (g, e) \<in> gt_held t \<or> gt_last_generation t < g \<and> e = x"
    by blast+
qed

text \<open>With a free slot after the purge, or over its own key, no live entry is displaced.\<close>

lemma gt_insert_keeps:
  assumes "Some x \<in> set (gt_entries t)" "now < expires x" "key x \<noteq> key e"
    and "None \<in> set (clear_where (\<lambda>e. now \<ge> expires e) (gt_entries t))"
  shows "Some x \<in> set (gt_entries (gt_insert key expires t e now))"
proof -
  let ?es = "clear_where (\<lambda>e. now \<ge> expires e) (gt_entries t)"
  have x: "Some x \<in> set ?es" using assms(1,2) by (simp add: Some_in_clear_where)
  have keep: "Some x \<in> set (?es[i := v])" if "?es ! i \<noteq> Some x" for i v
    using x that by (metis in_set_conv_nth length_list_update nth_list_update_neq)
  show ?thesis
  proof (rule gt_insert_cases [of key expires t e now])
    fix idx g
    assume p: "gt_insert key expires t e now = gt_put (gt_clear_where (\<lambda>e. now \<ge> expires e) t) idx e g"
      "position (\<lambda>s. is_some_and s (\<lambda>old. key old = key e)) ?es = Some idx \<or>
       position (\<lambda>s. is_some_and s (\<lambda>old. key old = key e)) ?es = None \<and>
       free_or_oldest ?es expires = Some idx"
    have "?es ! idx \<noteq> Some x"
      using p(2)
    proof
      assume "position (\<lambda>s. is_some_and s (\<lambda>old. key old = key e)) ?es = Some idx"
      from position_SomeD(2) [OF this] assms(3) show ?thesis by auto
    next
      assume "position (\<lambda>s. is_some_and s (\<lambda>old. key old = key e)) ?es = None \<and>
        free_or_oldest ?es expires = Some idx"
      with free_or_oldest_Some(2) [of ?es expires idx] assms(4) show ?thesis by auto
    qed
    then show ?thesis using keep [of idx "Some e"] p(1)
      by (simp add: gt_put_entries gt_clear_where_def)
  qed (use x in \<open>simp add: gt_clear_where_def\<close>)
qed

lemma gt_insert_present:
  assumes "gt_next_generation t \<noteq> None"
  shows "Some e \<in> set (gt_entries (gt_insert key expires t e now))"
  by (rule gt_insert_cases [of key expires t e now])
     (use assms in \<open>auto simp: gt_put_entries gt_clear_where_def intro: set_update_memI\<close>)

end
