(* ===== verification/Reverse_Table.thy ===== *)
theory Reverse_Table
  imports Gen_Insert
begin

text \<open>
  \<^verbatim>\<open>ReverseTable\<close> of \<^verbatim>\<open>src/tables.rs\<close>: where the proof of a forwarded packet travels back. Entries
  are consumed by the proof and put back when the proof could not be queued; the theorem on that
  undo shows that it restores every holder of an identity, even though the slot may change.
\<close>

record reverse_entry =
  re_proof_hash :: hash16
  re_receiving_interface :: interface_id
  re_outbound_interface :: interface_id
  re_expires_ms :: u64

type_synonym reverse_table = "reverse_entry gen_table"

definition rev_new :: "nat \<Rightarrow> reverse_table" where
  "rev_new n = gt_new n"

definition rev_clear :: "reverse_table \<Rightarrow> reverse_table" where
  "rev_clear t = gt_clear t"

definition rev_next_generation :: "reverse_table \<Rightarrow> u64 option" where
  "rev_next_generation t = gt_next_generation t"

definition rev_get_generation :: "reverse_table \<Rightarrow> u64 \<Rightarrow> u64 \<Rightarrow> reverse_entry option" where
  "rev_get_generation t generation now_ms =
     gt_get_generation (\<lambda>entry. now_ms < re_expires_ms entry) t generation"

definition rev_expire :: "reverse_table \<Rightarrow> u64 \<Rightarrow> reverse_table" where
  "rev_expire t now_ms = gt_clear_where (\<lambda>entry. now_ms \<ge> re_expires_ms entry) t"

definition rev_insert :: "reverse_table \<Rightarrow> reverse_entry \<Rightarrow> u64 \<Rightarrow> reverse_table" where
  "rev_insert t entry now_ms =
     (let t = rev_expire t now_ms
      in case rev_next_generation t of
           None \<Rightarrow> t
         | Some generation \<Rightarrow>
             (case or_else (or_else
                      (position (\<lambda>s. is_some_and s (\<lambda>old. re_proof_hash old = re_proof_hash entry))
                         (gt_entries t))
                      (position (\<lambda>s. s = None) (gt_entries t)))
                    (oldest_index (gt_entries t) re_expires_ms) of
                Some idx \<Rightarrow> gt_put t idx entry generation
              | None \<Rightarrow> t))"

definition rev_get :: "reverse_table \<Rightarrow> hash16 \<Rightarrow> u64 \<Rightarrow> reverse_entry option" where
  "rev_get t proof_hash now_ms =
     List.find (\<lambda>entry. re_proof_hash entry = proof_hash \<and> now_ms < re_expires_ms entry)
       (somes (gt_entries t))"

definition take_with_generation ::
  "reverse_table \<Rightarrow> hash16 \<Rightarrow> u64 \<Rightarrow> (reverse_entry \<times> u64) option \<times> reverse_table" where
  "take_with_generation t proof_hash now_ms =
     (let t = rev_expire t now_ms
      in case position (\<lambda>s. is_some_and s (\<lambda>entry. re_proof_hash entry = proof_hash))
                (gt_entries t) of
           None \<Rightarrow> (None, t)
         | Some idx \<Rightarrow>
             (map_option (\<lambda>entry. (entry, gt_generations t ! idx)) (gt_entries t ! idx),
              t\<lparr>gt_entries := (gt_entries t)[idx := None]\<rparr>))"

definition rev_remove ::
  "reverse_table \<Rightarrow> hash16 \<Rightarrow> u64 \<Rightarrow> reverse_entry option \<times> reverse_table" where
  "rev_remove t proof_hash now_ms =
     (case take_with_generation t proof_hash now_ms of (r, t') \<Rightarrow> (map_option fst r, t'))"

definition restore_consumed :: "reverse_table \<Rightarrow> reverse_entry \<Rightarrow> u64 \<Rightarrow> reverse_table" where
  "restore_consumed t entry generation =
     (case position (\<lambda>s. s = None) (gt_entries t) of
        Some idx \<Rightarrow>
          t\<lparr>gt_entries := (gt_entries t)[idx := Some entry],
            gt_generations := (gt_generations t)[idx := generation]\<rparr>
      | None \<Rightarrow> t)"

definition rev_remove_interface :: "reverse_table \<Rightarrow> interface_id \<Rightarrow> reverse_table" where
  "rev_remove_interface t interface =
     gt_clear_where (\<lambda>entry. re_receiving_interface entry = interface \<or>
                             re_outbound_interface entry = interface) t"

section \<open>The table implements its interface\<close>

lemma rev_insert_eq: "rev_insert = gt_insert re_proof_hash re_expires_ms"
  by (intro ext)
     (simp add: rev_insert_def gt_insert_def rev_expire_def rev_next_generation_def)

interpretation rev: generation_table gt_entries re_proof_hash re_expires_ms rev_expire rev_insert
  gt_inv gt_held gt_last_generation "(=)"
proof (unfold_locales, unfold rev_insert_eq)
  fix t :: reverse_table and e now
  show "length (gt_entries (gt_insert re_proof_hash re_expires_ms t e now)) = gt_size t"
    by (rule gt_insert_length)
  show "uniq_keys re_proof_hash (gt_entries t) \<Longrightarrow>
      uniq_keys re_proof_hash (gt_entries (gt_insert re_proof_hash re_expires_ms t e now))"
    by (rule gt_insert_uniq)
  show "x = e \<or> Some x \<in> set (gt_entries t) \<and> now < re_expires_ms x"
    if "Some x \<in> set (gt_entries (gt_insert re_proof_hash re_expires_ms t e now))" for x
    using that by (rule gt_insert_origin)
  assume I: "gt_inv t"
  show "gt_inv (gt_insert re_proof_hash re_expires_ms t e now) \<and>
      gt_last_generation t \<le> gt_last_generation (gt_insert re_proof_hash re_expires_ms t e now) \<and>
      (\<forall>g x. (g, x) \<in> gt_held (gt_insert re_proof_hash re_expires_ms t e now) \<longrightarrow>
        (\<exists>e0. (g, e0) \<in> gt_held t \<and> e0 = x) \<or> gt_last_generation t < g)"
    using gt_insert_held [OF I, where key = re_proof_hash and expires = re_expires_ms and x = e
        and now = now] by blast
  show "gt_inv (rev_expire t now) \<and> gt_last_generation (rev_expire t now) = gt_last_generation t \<and>
      gt_held (rev_expire t now) \<subseteq> gt_held t"
    using gt_inv_clear_where [OF I, of "\<lambda>e. re_expires_ms e \<le> now"] by (auto simp: rev_expire_def)
qed (auto simp: rev_expire_def gt_clear_where_def gt_inv_iff in_gt_held)

definition rev_inv :: "reverse_table \<Rightarrow> bool" where
  "rev_inv t \<longleftrightarrow> gt_inv t \<and> uniq_keys re_proof_hash (gt_entries t)"

lemma rev_inv_new [simp]: "rev_inv (rev_new n)"
  using gt_inv_new by (simp add: rev_inv_def rev_new_def) (simp add: gt_new_def)

lemma rev_inv_insert: "rev_inv t \<Longrightarrow> rev_inv (rev_insert t e now)"
  using rev.insert_held [of t e now] rev.insert_uniq by (simp add: rev_inv_def)

lemma rev_inv_expire: "rev_inv t \<Longrightarrow> rev_inv (rev_expire t now)"
  using rev.expire_held [of t now]
  by (simp add: rev_inv_def rev.expire_slots uniq_keys_clear_where)

lemma rev_inv_remove_interface: "rev_inv t \<Longrightarrow> rev_inv (rev_remove_interface t i)"
  by (simp add: rev_inv_def rev_remove_interface_def gt_inv_clear_where)
     (simp add: gt_clear_where_def uniq_keys_clear_where)

lemma rev_inv_clear: "rev_inv t \<Longrightarrow> rev_inv (rev_clear t)"
  by (simp add: rev_inv_def rev_clear_def gt_inv_clear) (simp add: gt_clear_def)

lemma rev_inv_take: "rev_inv t \<Longrightarrow> rev_inv (snd (take_with_generation t h now))"
  using rev_inv_expire [of t now]
  by (auto simp: rev_inv_def take_with_generation_def Let_def gt_inv_take uniq_keys_update_None
      split: option.split)

lemma take_with_generation_Some:
  assumes "take_with_generation t h now = (Some (e, g), t')"
  obtains idx where "position (\<lambda>s. is_some_and s (\<lambda>entry. re_proof_hash entry = h))
      (gt_entries (rev_expire t now)) = Some idx"
    "idx < gt_size t" "gt_entries (rev_expire t now) ! idx = Some e" "re_proof_hash e = h"
    "g = gt_generations t ! idx"
    "t' = (rev_expire t now)\<lparr>gt_entries := (gt_entries (rev_expire t now))[idx := None]\<rparr>"
proof -
  have gen: "gt_generations (rev_expire t now) = gt_generations t"
    by (simp add: rev_expire_def gt_clear_where_def)
  obtain idx where p: "position (\<lambda>s. is_some_and s (\<lambda>entry. re_proof_hash entry = h))
      (gt_entries (rev_expire t now)) = Some idx"
    using assms by (auto simp: take_with_generation_def Let_def split: option.splits)
  then show thesis
    using assms position_SomeD [OF p] gen
    by (intro that [of idx]) (auto simp: take_with_generation_def Let_def rev.expire_slots)
qed

section \<open>Undoing a consumed entry\<close>

lemma gt_tagged_restore:
  assumes "gt_inv t" "i < gt_size t"
  shows "gt_tagged (t\<lparr>gt_entries := (gt_entries t)[i := Some e],
      gt_generations := (gt_generations t)[i := g]\<rparr>) = (gt_tagged t)[i := Some (g, e)]"
  using assms
  by (intro nth_equalityI) (auto simp: gt_tagged_def gt_inv_def nth_list_update)

lemma gt_tagged_take:
  assumes "gt_inv t" "i < gt_size t"
  shows "gt_tagged (t\<lparr>gt_entries := (gt_entries t)[i := None]\<rparr>) = (gt_tagged t)[i := None]"
  using assms
  by (intro nth_equalityI) (auto simp: gt_tagged_def gt_inv_def nth_list_update)

lemma set_somes_update_None:
  assumes "i < length ss" "ss ! i = None"
  shows "set (somes (ss[i := Some x])) = insert x (set (somes ss))"
  unfolding somes_update [OF assms(1)] somes_split [OF assms(1)] by (simp add: assms(2) del: set_somes)

lemma set_somes_take_slot:
  assumes "i < length ss" "ss ! i = Some x"
  shows "insert x (set (somes (ss[i := None]))) = set (somes ss)"
  unfolding somes_update [OF assms(1)] somes_split [OF assms(1)] by (simp add: assms(2) del: set_somes)

lemma free_slot_after_take:
  assumes "idx < length es"
  obtains j where "position (\<lambda>s. s = None) (es[idx := None]) = Some j"
    "j < length es" "es[idx := None] ! j = None"
proof -
  have "es[idx := None] ! idx = None" "idx < length (es[idx := None])" using assms by simp_all
  then have "position (\<lambda>s. s = None) (es[idx := None]) \<noteq> None"
    unfolding position_None by (metis nth_mem)
  then obtain j where "position (\<lambda>s. s = None) (es[idx := None]) = Some j" by auto
  with position_SomeD [OF this] show thesis by (intro that) simp_all
qed

lemma uniq_keys_move:
  assumes u: "uniq_keys key ss" and idx: "idx < length ss" "ss ! idx = Some x"
  shows "uniq_keys key (ss[idx := None, j := Some x])"
proof (rule uniq_keys_update [OF uniq_keys_update_None [OF u]])
  fix k y assume k: "k < length (ss[idx := None])" "ss[idx := None] ! k = Some y"
  then have ne: "k \<noteq> idx" "ss ! k = Some y" "k < length ss"
    using idx by (auto simp: nth_list_update split: if_splits)
  show "key y \<noteq> key x"
    using uniq_keys_index [OF u idx(1) ne(3) idx(2) ne(2)] ne(1) by auto
qed

lemma gt_move:
  assumes I: "gt_inv t" and idx: "idx < gt_size t" "gt_entries t ! idx = Some e"
    and j: "j < gt_size t" "(gt_entries t)[idx := None] ! j = None"
    and r: "r = t\<lparr>gt_entries := (gt_entries t)[idx := None, j := Some e],
      gt_generations := (gt_generations t)[j := gt_generations t ! idx]\<rparr>"
  shows "gt_held r = gt_held t" "gt_inv r"
proof -
  let ?g = "gt_generations t ! idx" and ?t = "t\<lparr>gt_entries := (gt_entries t)[idx := None]\<rparr>"
  have I': "gt_inv ?t" by (rule gt_inv_take [OF I])
  have ti: "gt_tagged t ! idx = Some (?g, e)" "idx < length (gt_tagged t)"
    using idx I by (simp_all add: nth_gt_tagged length_gt_tagged)
  have tag': "gt_tagged ?t = (gt_tagged t)[idx := None]" by (rule gt_tagged_take [OF I idx(1)])
  have tj: "gt_tagged ?t ! j = None" "j < length (gt_tagged ?t)"
    using j I' nth_gt_tagged [OF I', of j] length_gt_tagged [OF I'] by simp_all
  have tag: "gt_tagged r = (gt_tagged ?t)[j := Some (?g, e)]"
    using gt_tagged_restore [OF I', of j ?g e] j(1) by (simp add: r)
  have "gt_held r = insert (?g, e) (set (somes (gt_tagged ?t)))"
    unfolding gt_held_def tag by (rule set_somes_update_None [OF tj(2,1)])
  also have "\<dots> = gt_held t"
    unfolding tag' gt_held_def by (rule set_somes_take_slot [OF ti(2,1)])
  finally show held: "gt_held r = gt_held t" .
  have "uniq_keys fst (gt_tagged r)"
    using uniq_keys_move [OF _ ti(2,1), of fst j] I unfolding tag tag' gt_inv_iff by simp
  moreover have "\<forall>g e. Some (g, e) \<in> set (gt_tagged r) \<longrightarrow> g \<noteq> 0 \<and> g \<le> gt_last_generation r"
    using held I unfolding gt_inv_iff by (simp add: set_eq_iff in_gt_held r)
  ultimately show "gt_inv r"
    using I unfolding gt_inv_iff by (simp add: r)
qed

lemma restore_take:
  assumes "rev_inv t" "take_with_generation t h now = (Some (e, g), t')"
  shows "gt_held (restore_consumed t' e g) = gt_held (rev_expire t now) \<and>
    rev_inv (restore_consumed t' e g)"
proof -
  let ?t = "rev_expire t now"
  have I: "gt_inv ?t" "uniq_keys re_proof_hash (gt_entries ?t)"
    using rev_inv_expire [OF assms(1), of now] by (simp_all add: rev_inv_def)
  obtain idx where idx: "idx < gt_size ?t" "gt_entries ?t ! idx = Some e" "g = gt_generations ?t ! idx"
      "t' = ?t\<lparr>gt_entries := (gt_entries ?t)[idx := None]\<rparr>"
    using assms(2)
    by (rule take_with_generation_Some) (auto simp: rev_expire_def gt_clear_where_def)
  obtain j where j: "position (\<lambda>s. s = None) (gt_entries t') = Some j" "j < gt_size ?t"
      "(gt_entries ?t)[idx := None] ! j = None"
    by (rule free_slot_after_take [OF idx(1)]) (simp add: idx(4))
  have r: "restore_consumed t' e g = ?t\<lparr>gt_entries := (gt_entries ?t)[idx := None, j := Some e],
      gt_generations := (gt_generations ?t)[j := gt_generations ?t ! idx]\<rparr>"
    using j(1) idx(3,4) by (simp add: restore_consumed_def)
  show ?thesis
    using gt_move [OF I(1) idx(1,2) j(2,3) r] uniq_keys_move [OF I(2) idx(1,2), of j]
    by (simp add: rev_inv_def r)
qed

text \<open>C25. When a proof cannot be queued, the reverse entry it consumed is put back: afterwards the
  table again holds exactly the unexpired entries it held before, each under its own identity,
  and the invariant of the table is kept. (The entry may sit in another slot.)\<close>

theorem restore_undoes_take:
  assumes "rev_inv t" "take_with_generation t h now = (Some (e, g), t')"
  shows "gt_held (restore_consumed t' e g) = gt_held (rev_expire t now) \<and>
    rev_inv (restore_consumed t' e g)"
  using assms by (rule restore_take)

definition sample_reverse :: reverse_entry where
  "sample_reverse = \<lparr>re_proof_hash = replicate 16 3, re_receiving_interface = 1,
     re_outbound_interface = 2, re_expires_ms = 500\<rparr>"

theorem restore_undoes_take_witness:
  "let t = \<lparr>gt_entries = [None, Some sample_reverse], gt_generations = [4, 9],
         gt_last_generation = 9\<rparr>;
       t' = \<lparr>gt_entries = [None, None], gt_generations = [4, 9], gt_last_generation = 9\<rparr>
   in take_with_generation t (replicate 16 3) 100 = (Some (sample_reverse, 9), t') \<and>
      gt_held (restore_consumed t' sample_reverse 9) = gt_held (rev_expire t 100)"
proof -
  let ?t = "\<lparr>gt_entries = [None, Some sample_reverse], gt_generations = [4, 9],
         gt_last_generation = 9\<rparr> :: reverse_table"
  let ?t' = "\<lparr>gt_entries = [None, None], gt_generations = [4, 9], gt_last_generation = 9\<rparr> :: reverse_table"
  have "rev_inv ?t"
    by (simp add: rev_inv_def gt_inv_def gt_tagged_def uniq_keys_def)
  moreover have "take_with_generation ?t (replicate 16 3) 100 = (Some (sample_reverse, 9), ?t')"
    by (simp add: take_with_generation_def rev_expire_def gt_clear_where_def clear_where_def
        sample_reverse_def)
  ultimately show ?thesis
    using restore_undoes_take [of ?t "replicate 16 3" 100 sample_reverse 9 ?t'] by (simp add: Let_def)
qed

end
