(* ===== verification/Link_Table.thy ===== *)
theory Link_Table
  imports Gen_Insert
begin

text \<open>
  \<^verbatim>\<open>LinkTable\<close> of \<^verbatim>\<open>src/tables.rs\<close>: the links this node carries for others. It implements
  \<open>generation_table\<close>, and the mutations in place (validation, refresh) keep the identity and the
  route of a link.
\<close>

record link_entry =
  le_link_id :: hash16
  le_destination_ed25519 :: "bytes option"
  le_receiving_interface :: interface_id
  le_outbound_interface :: interface_id
  le_remaining_hops :: u8
  le_taken_hops :: u8
  le_requested_mode :: u8
  le_accepted_mtu_ceiling :: u16
  le_validated :: bool
  le_expires_ms :: u64

type_synonym link_table = "link_entry gen_table"

definition lt_new :: "nat \<Rightarrow> link_table" where
  "lt_new n = gt_new n"

definition lt_clear :: "link_table \<Rightarrow> link_table" where
  "lt_clear t = gt_clear t"

definition lt_next_generation :: "link_table \<Rightarrow> u64 option" where
  "lt_next_generation t = gt_next_generation t"

definition lt_generation :: "link_table \<Rightarrow> hash16 \<Rightarrow> u64 \<Rightarrow> u64 option" where
  "lt_generation t key now_ms =
     gt_generation (\<lambda>entry. le_link_id entry = key \<and> now_ms < le_expires_ms entry) t"

definition lt_get_generation :: "link_table \<Rightarrow> u64 \<Rightarrow> u64 \<Rightarrow> link_entry option" where
  "lt_get_generation t generation now_ms =
     gt_get_generation (\<lambda>entry. now_ms < le_expires_ms entry) t generation"

definition lt_expire :: "link_table \<Rightarrow> u64 \<Rightarrow> link_table" where
  "lt_expire t now_ms = gt_clear_where (\<lambda>entry. now_ms \<ge> le_expires_ms entry) t"

definition lt_insert :: "link_table \<Rightarrow> link_entry \<Rightarrow> u64 \<Rightarrow> link_table" where
  "lt_insert t entry now_ms =
     (let t = lt_expire t now_ms
      in case lt_next_generation t of
           None \<Rightarrow> t
         | Some generation \<Rightarrow>
             (case or_else (or_else
                      (position (\<lambda>s. is_some_and s (\<lambda>old. le_link_id old = le_link_id entry))
                         (gt_entries t))
                      (position (\<lambda>s. s = None) (gt_entries t)))
                    (oldest_index (gt_entries t) le_expires_ms) of
                Some idx \<Rightarrow> gt_put t idx entry generation
              | None \<Rightarrow> t))"

definition has_free_slot :: "link_table \<Rightarrow> u64 \<Rightarrow> bool \<times> link_table" where
  "has_free_slot t now_ms =
     (let t = lt_expire t now_ms in (list_ex (\<lambda>s. s = None) (gt_entries t), t))"

definition lt_get :: "link_table \<Rightarrow> hash16 \<Rightarrow> u64 \<Rightarrow> link_entry option" where
  "lt_get t link_id now_ms =
     List.find (\<lambda>entry. le_link_id entry = link_id \<and> now_ms < le_expires_ms entry)
       (somes (gt_entries t))"

definition lt_remove_interface :: "link_table \<Rightarrow> interface_id \<Rightarrow> link_table" where
  "lt_remove_interface t interface =
     gt_clear_where (\<lambda>link. le_receiving_interface link = interface \<or>
                            le_outbound_interface link = interface) t"

definition contains_live :: "link_table \<Rightarrow> hash16 \<Rightarrow> u64 \<Rightarrow> bool" where
  "contains_live t link_id now_ms \<longleftrightarrow> lt_get t link_id now_ms \<noteq> None"

definition mark_validated :: "link_table \<Rightarrow> hash16 \<Rightarrow> u64 \<Rightarrow> u64 \<Rightarrow> link_table" where
  "mark_validated t link_id expires_ms now_ms =
     (let t = lt_expire t now_ms
      in t\<lparr>gt_entries := update_first (\<lambda>entry. le_link_id entry = link_id)
             (\<lambda>entry. entry\<lparr>le_validated := True, le_expires_ms := expires_ms\<rparr>) (gt_entries t)\<rparr>)"

definition lt_touch :: "link_table \<Rightarrow> hash16 \<Rightarrow> u64 \<Rightarrow> u64 \<Rightarrow> link_table" where
  "lt_touch t link_id expires_ms now_ms =
     (let t = lt_expire t now_ms
      in t\<lparr>gt_entries := update_first (\<lambda>entry. le_link_id entry = link_id)
             (\<lambda>entry. entry\<lparr>le_expires_ms := expires_ms\<rparr>) (gt_entries t)\<rparr>)"

section \<open>The table implements its interface\<close>

text \<open>What a link is, apart from its progress: everything but the validation flag and the
  expiry.\<close>

definition same_link :: "link_entry \<Rightarrow> link_entry \<Rightarrow> bool" where
  "same_link a b \<longleftrightarrow> b = a\<lparr>le_validated := le_validated b, le_expires_ms := le_expires_ms b\<rparr>"

lemma same_link_refl [simp]: "same_link a a"
  by (simp add: same_link_def)

lemma same_link_trans: "same_link a b \<Longrightarrow> same_link b c \<Longrightarrow> same_link a c"
  by (cases a; cases b; cases c) (simp add: same_link_def)

lemma same_link_id: "same_link a b \<Longrightarrow> le_link_id a = le_link_id b"
  by (cases a; cases b) (simp add: same_link_def)

lemma lt_insert_eq: "lt_insert = gt_insert le_link_id le_expires_ms"
  by (intro ext) (simp add: lt_insert_def gt_insert_def lt_expire_def lt_next_generation_def)

interpretation lt: generation_table gt_entries le_link_id le_expires_ms lt_expire lt_insert
  gt_inv gt_held gt_last_generation same_link
proof (unfold_locales, unfold lt_insert_eq)
  fix t :: link_table and e now
  show "length (gt_entries (gt_insert le_link_id le_expires_ms t e now)) = gt_size t"
    by (rule gt_insert_length)
  show "uniq_keys le_link_id (gt_entries t) \<Longrightarrow>
      uniq_keys le_link_id (gt_entries (gt_insert le_link_id le_expires_ms t e now))"
    by (rule gt_insert_uniq)
  show "x = e \<or> Some x \<in> set (gt_entries t) \<and> now < le_expires_ms x"
    if "Some x \<in> set (gt_entries (gt_insert le_link_id le_expires_ms t e now))" for x
    using that by (rule gt_insert_origin)
  assume I: "gt_inv t"
  show "gt_inv (gt_insert le_link_id le_expires_ms t e now) \<and>
      gt_last_generation t \<le> gt_last_generation (gt_insert le_link_id le_expires_ms t e now) \<and>
      (\<forall>g x. (g, x) \<in> gt_held (gt_insert le_link_id le_expires_ms t e now) \<longrightarrow>
        (\<exists>e0. (g, e0) \<in> gt_held t \<and> same_link e0 x) \<or> gt_last_generation t < g)"
    using gt_insert_held [OF I, where key = le_link_id and expires = le_expires_ms and x = e
        and now = now] same_link_refl by blast
  show "gt_inv (lt_expire t now) \<and> gt_last_generation (lt_expire t now) = gt_last_generation t \<and>
      gt_held (lt_expire t now) \<subseteq> gt_held t"
    using gt_inv_clear_where [OF I, of "\<lambda>e. le_expires_ms e \<le> now"] by (auto simp: lt_expire_def)
qed (auto simp: lt_expire_def gt_clear_where_def gt_inv_iff in_gt_held intro: same_link_trans)

definition lt_inv :: "link_table \<Rightarrow> bool" where
  "lt_inv t \<longleftrightarrow> gt_inv t \<and> uniq_keys le_link_id (gt_entries t)"

lemma lt_inv_new [simp]: "lt_inv (lt_new n)"
  using gt_inv_new by (simp add: lt_inv_def lt_new_def) (simp add: gt_new_def)

lemma lt_inv_insert: "lt_inv t \<Longrightarrow> lt_inv (lt_insert t e now)"
  using lt.insert_held [of t e now] lt.insert_uniq by (simp add: lt_inv_def)

lemma lt_inv_expire: "lt_inv t \<Longrightarrow> lt_inv (lt_expire t now)"
  using lt.expire_held [of t now]
  by (simp add: lt_inv_def lt.expire_slots uniq_keys_clear_where)

lemma lt_inv_remove_interface: "lt_inv t \<Longrightarrow> lt_inv (lt_remove_interface t i)"
  by (simp add: lt_inv_def lt_remove_interface_def gt_inv_clear_where)
     (simp add: gt_clear_where_def uniq_keys_clear_where)

lemma lt_inv_clear: "lt_inv t \<Longrightarrow> lt_inv (lt_clear t)"
  by (simp add: lt_inv_def lt_clear_def gt_inv_clear) (simp add: gt_clear_def)

lemma lt_inv_update_first:
  "(\<And>e. le_link_id (f e) = le_link_id e) \<Longrightarrow> lt_inv t \<Longrightarrow>
   lt_inv (t\<lparr>gt_entries := update_first P f (gt_entries t)\<rparr>)"
  by (simp add: lt_inv_def gt_inv_update_first uniq_keys_update_first)

lemma lt_inv_mark_validated: "lt_inv t \<Longrightarrow> lt_inv (mark_validated t l exp now)"
  by (simp add: mark_validated_def Let_def lt_inv_update_first lt_inv_expire)

lemma lt_inv_touch: "lt_inv t \<Longrightarrow> lt_inv (lt_touch t l exp now)"
  by (simp add: lt_touch_def Let_def lt_inv_update_first lt_inv_expire)

lemma lt_inv_has_free_slot: "lt_inv t \<Longrightarrow> lt_inv (snd (has_free_slot t now))"
  by (simp add: has_free_slot_def Let_def lt_inv_expire)

lemmas lt_inv_ops = lt_inv_insert lt_inv_expire lt_inv_remove_interface lt_inv_clear
  lt_inv_mark_validated lt_inv_touch lt_inv_has_free_slot

lemma lt_get_Some:
  assumes "lt_get t l now = Some e"
  shows "Some e \<in> set (gt_entries t)" "le_link_id e = l" "now < le_expires_ms e"
  using find_SomeD [OF assms [unfolded lt_get_def]] by auto

lemma lt_get_iff:
  assumes "lt_inv t"
  shows "lt_get t l now = Some e \<longleftrightarrow>
    Some e \<in> set (gt_entries t) \<and> le_link_id e = l \<and> now < le_expires_ms e"
proof
  assume R: "Some e \<in> set (gt_entries t) \<and> le_link_id e = l \<and> now < le_expires_ms e"
  show "lt_get t l now = Some e"
  proof (cases "lt_get t l now")
    case None
    with R show ?thesis
      using find_NoneD [OF None [unfolded lt_get_def], of e] by simp
  next
    case (Some y)
    with R lt_get_Some [OF Some] uniq_keysD [of le_link_id "gt_entries t" y e] assms
    show ?thesis by (simp add: lt_inv_def)
  qed
qed (use lt_get_Some in blast)

lemma has_free_slot_iff:
  "fst (has_free_slot t now) \<longleftrightarrow> None \<in> set (clear_where (\<lambda>e. now \<ge> le_expires_ms e) (gt_entries t))"
  by (simp add: has_free_slot_def Let_def lt.expire_slots list_ex_iff)

lemma lt_expire_twice [simp]: "lt_expire (lt_expire t now) now = lt_expire t now"
  by (simp add: lt_expire_def gt_clear_where_def)

lemma lt_insert_expired [simp]: "lt_insert (lt_expire t now) e now = lt_insert t e now"
  by (simp add: lt_insert_def Let_def)

text \<open>Admission after a successful \<^verbatim>\<open>has_free_slot\<close> displaces no live link.\<close>

lemma lt_insert_keeps:
  assumes "fst (has_free_slot t now)" "Some x \<in> set (gt_entries t)" "now < le_expires_ms x"
    and "le_link_id x \<noteq> le_link_id e"
  shows "Some x \<in> set (gt_entries (lt_insert t e now))"
  using assms unfolding lt_insert_eq has_free_slot_iff by (intro gt_insert_keeps)

lemma mark_validated_entries:
  "Some x \<in> set (gt_entries (mark_validated t l exp now)) \<Longrightarrow>
   Some x \<in> set (gt_entries t) \<and> now < le_expires_ms x \<or>
   (\<exists>y. Some y \<in> set (gt_entries t) \<and> now < le_expires_ms y \<and> le_link_id y = l \<and> same_link y x \<and>
      le_validated x \<and> le_expires_ms x = exp)"
  by (auto simp: mark_validated_def Let_def lt.expire_slots Some_in_clear_where not_le same_link_def
      dest!: Some_in_update_first)

lemma lt_touch_entries:
  "Some x \<in> set (gt_entries (lt_touch t l exp now)) \<Longrightarrow>
   Some x \<in> set (gt_entries t) \<and> now < le_expires_ms x \<or>
   (\<exists>y. Some y \<in> set (gt_entries t) \<and> now < le_expires_ms y \<and> le_link_id y = l \<and> same_link y x \<and>
      le_validated x = le_validated y \<and> le_expires_ms x = exp)"
  by (auto simp: lt_touch_def Let_def lt.expire_slots Some_in_clear_where not_le same_link_def
      dest!: Some_in_update_first)

end
