(* ===== verification/Packet_Buffer.thy ===== *)
theory Packet_Buffer
  imports Prelude
begin

text \<open>
  \<^verbatim>\<open>src/packet_buffer.rs\<close>: the fixed-capacity packet storage. A buffer is its backing array and
  a visible length; the const generic \<^verbatim>\<open>CAP\<close> is the length of the backing array. The theorems
  show that the buffer refines the plain byte list of its visible bytes under a capacity bound,
  stated as the interface \<open>byte_sink\<close> that the packet writer of \<^verbatim>\<open>src/wire.rs\<close> relies on.
\<close>

record packet_buffer =
  pb_bytes :: bytes
  pb_len :: nat

datatype buffer_error = InsufficientCapacity

definition pb_new :: "nat \<Rightarrow> packet_buffer" where
  "pb_new cap = \<lparr>pb_bytes = replicate cap 0, pb_len = 0\<rparr>"

definition pb_clear :: "packet_buffer \<Rightarrow> packet_buffer" where
  "pb_clear b = b\<lparr>pb_len := 0\<rparr>"

definition pb_is_empty :: "packet_buffer \<Rightarrow> bool" where
  "pb_is_empty b \<longleftrightarrow> pb_len b = 0"

definition pb_as_slice :: "packet_buffer \<Rightarrow> bytes" where
  "pb_as_slice b = take (pb_len b) (pb_bytes b)"

text \<open>A write of \<open>xs\<close>, as long as the visible bytes, through \<^verbatim>\<open>as_mut_slice\<close>.\<close>

definition pb_as_mut_slice :: "packet_buffer \<Rightarrow> bytes \<Rightarrow> packet_buffer" where
  "pb_as_mut_slice b xs = b\<lparr>pb_bytes := overwrite (pb_bytes b) 0 xs\<rparr>"

definition pb_push :: "packet_buffer \<Rightarrow> u8 \<Rightarrow> buffer_error + packet_buffer" where
  "pb_push b x =
     (if pb_len b = length (pb_bytes b) then Inl InsufficientCapacity
      else Inr (b\<lparr>pb_bytes := (pb_bytes b)[pb_len b := x], pb_len := pb_len b + 1\<rparr>))"

definition pb_extend_from_slice :: "packet_buffer \<Rightarrow> bytes \<Rightarrow> buffer_error + packet_buffer" where
  "pb_extend_from_slice b data =
     (if pb_len b + length data > length (pb_bytes b) then Inl InsufficientCapacity
      else Inr (b\<lparr>pb_bytes := overwrite (pb_bytes b) (pb_len b) data,
                  pb_len := pb_len b + length data\<rparr>))"

definition pb_from_slice :: "nat \<Rightarrow> bytes \<Rightarrow> buffer_error + packet_buffer" where
  "pb_from_slice cap data = pb_extend_from_slice (pb_new cap) data"

definition pb_set_len :: "packet_buffer \<Rightarrow> nat \<Rightarrow> buffer_error + packet_buffer" where
  "pb_set_len b n =
     (if n > length (pb_bytes b) then Inl InsufficientCapacity else Inr (b\<lparr>pb_len := n\<rparr>))"

definition pb_copy_with_hops :: "packet_buffer \<Rightarrow> u8 \<Rightarrow> packet_buffer" where
  "pb_copy_with_hops b hops =
     (if pb_len b > 1 then b\<lparr>pb_bytes := (pb_bytes b)[1 := hops]\<rparr> else b)"

definition pb_inv :: "packet_buffer \<Rightarrow> bool" where
  "pb_inv b \<longleftrightarrow> pb_len b \<le> length (pb_bytes b)"

abbreviation pb_cap :: "packet_buffer \<Rightarrow> nat" where
  "pb_cap b \<equiv> length (pb_bytes b)"

section \<open>The interface: an append-only byte sink of bounded capacity\<close>

datatype chunk = Byte u8 | Slice bytes

fun chunk_bytes :: "chunk \<Rightarrow> bytes" where
  "chunk_bytes (Byte x) = [x]"
| "chunk_bytes (Slice xs) = xs"

locale byte_sink =
  fixes inv :: "'b \<Rightarrow> bool"
    and cap :: "'b \<Rightarrow> nat"
    and visible :: "'b \<Rightarrow> bytes"
    and push :: "'b \<Rightarrow> u8 \<Rightarrow> 'e + 'b"
    and extend :: "'b \<Rightarrow> bytes \<Rightarrow> 'e + 'b"
    and full :: 'e
  assumes push_ok: "inv b \<Longrightarrow> length (visible b) < cap b \<Longrightarrow>
      \<exists>b'. push b x = Inr b' \<and> inv b' \<and> cap b' = cap b \<and> visible b' = visible b @ [x]"
    and push_full: "inv b \<Longrightarrow> cap b \<le> length (visible b) \<Longrightarrow> push b x = Inl full"
    and extend_ok: "inv b \<Longrightarrow> length (visible b) + length xs \<le> cap b \<Longrightarrow>
      \<exists>b'. extend b xs = Inr b' \<and> inv b' \<and> cap b' = cap b \<and> visible b' = visible b @ xs"
    and extend_full: "inv b \<Longrightarrow> cap b < length (visible b) + length xs \<Longrightarrow> extend b xs = Inl full"
begin

fun write_chunk :: "'b \<Rightarrow> chunk \<Rightarrow> 'e + 'b" where
  "write_chunk b (Byte x) = push b x"
| "write_chunk b (Slice xs) = extend b xs"

fun write_chunks :: "'b \<Rightarrow> chunk list \<Rightarrow> 'e + 'b" where
  "write_chunks b [] = Inr b"
| "write_chunks b (c # cs) =
     (case write_chunk b c of Inl e \<Rightarrow> Inl e | Inr b' \<Rightarrow> write_chunks b' cs)"

lemma write_chunk_ok:
  "inv b \<Longrightarrow> length (visible b) + length (chunk_bytes c) \<le> cap b \<Longrightarrow>
   \<exists>b'. write_chunk b c = Inr b' \<and> inv b' \<and> cap b' = cap b \<and> visible b' = visible b @ chunk_bytes c"
  by (cases c) (auto intro: push_ok extend_ok)

lemma write_chunk_full:
  "inv b \<Longrightarrow> cap b < length (visible b) + length (chunk_bytes c) \<Longrightarrow> write_chunk b c = Inl full"
  by (cases c) (auto intro: push_full extend_full)

text \<open>A sequence of writes succeeds exactly when everything fits, and then appends exactly the
  bytes written, in order.\<close>

lemma write_chunks_ok:
  "inv b \<Longrightarrow> length (visible b) + length (concat (map chunk_bytes cs)) \<le> cap b \<Longrightarrow>
   \<exists>b'. write_chunks b cs = Inr b' \<and> inv b' \<and> cap b' = cap b \<and>
        visible b' = visible b @ concat (map chunk_bytes cs)"
proof (induction cs arbitrary: b)
  case (Cons c cs)
  have "length (visible b) + length (chunk_bytes c) \<le> cap b"
    using Cons.prems(2) by simp
  then obtain b1 where b1: "write_chunk b c = Inr b1" "inv b1" "cap b1 = cap b"
      "visible b1 = visible b @ chunk_bytes c"
    using write_chunk_ok Cons.prems(1) by blast
  moreover have "length (visible b1) + length (concat (map chunk_bytes cs)) \<le> cap b1"
    using Cons.prems(2) b1 by simp
  ultimately show ?case using Cons.IH [of b1] by auto
qed simp

lemma write_chunks_full:
  "inv b \<Longrightarrow> length (visible b) \<le> cap b \<Longrightarrow>
   cap b < length (visible b) + length (concat (map chunk_bytes cs)) \<Longrightarrow>
   write_chunks b cs = Inl full"
proof (induction cs arbitrary: b)
  case (Cons c cs)
  show ?case
  proof (cases "length (visible b) + length (chunk_bytes c) \<le> cap b")
    case True
    then obtain b1 where b1: "write_chunk b c = Inr b1" "inv b1" "cap b1 = cap b"
        "visible b1 = visible b @ chunk_bytes c"
      using write_chunk_ok Cons.prems(1) by blast
    moreover have "write_chunks b1 cs = Inl full"
      using Cons.prems True b1 by (intro Cons.IH) auto
    ultimately show ?thesis by simp
  next
    case False
    then have "write_chunk b c = Inl full"
      using Cons.prems(1) by (intro write_chunk_full) auto
    then show ?thesis by simp
  qed
qed simp

end

section \<open>The packet buffer implements it\<close>

lemma pb_inv_new [simp]: "pb_inv (pb_new cap)"
  by (simp add: pb_inv_def pb_new_def)

lemma pb_slice_new [simp]: "pb_as_slice (pb_new cap) = []"
  by (simp add: pb_as_slice_def pb_new_def)

lemma pb_cap_new [simp]: "pb_cap (pb_new cap) = cap"
  by (simp add: pb_new_def)

lemma length_pb_as_slice: "pb_inv b \<Longrightarrow> length (pb_as_slice b) = pb_len b"
  by (simp add: pb_inv_def pb_as_slice_def)

interpretation pb: byte_sink pb_inv "\<lambda>b. pb_cap b" pb_as_slice pb_push pb_extend_from_slice
  InsufficientCapacity
proof (unfold_locales, goal_cases)
  case (1 b x)
  then have "pb_len b < pb_cap b" by (simp add: length_pb_as_slice)
  then show ?case
    by (simp add: pb_push_def pb_inv_def pb_as_slice_def take_Suc_conv_app_nth)
next
  case (2 b x)
  then show ?case
    by (simp add: pb_push_def pb_inv_def pb_as_slice_def)
next
  case (3 b xs)
  then have "pb_len b + length xs \<le> pb_cap b" by (simp add: length_pb_as_slice)
  then show ?case
    by (auto simp: pb_extend_from_slice_def pb_inv_def pb_as_slice_def overwrite_def)
next
  case (4 b xs)
  then show ?case
    by (simp add: pb_extend_from_slice_def pb_inv_def pb_as_slice_def)
qed

text \<open>The remaining operations on the visible bytes. \<open>buf_from_slice\<close> is \<^verbatim>\<open>from_slice\<close> seen
  through the refinement: the components above the buffer hold its visible bytes.\<close>

definition buf_from_slice :: "nat \<Rightarrow> bytes \<Rightarrow> buffer_error + bytes" where
  "buf_from_slice cap data = map_sum (\<lambda>e. e) pb_as_slice (pb_from_slice cap data)"

definition with_hops :: "bytes \<Rightarrow> u8 \<Rightarrow> bytes" where
  "with_hops p hops = (if length p > 1 then p[1 := hops] else p)"

lemma buf_from_slice_eq:
  "buf_from_slice cap data =
     (if length data \<le> cap then Inr data else Inl InsufficientCapacity)"
proof (cases "length data \<le> cap")
  case True
  then obtain b where "pb_extend_from_slice (pb_new cap) data = Inr b" "pb_as_slice b = data"
    using pb.extend_ok [of "pb_new cap" data] by auto
  with True show ?thesis by (simp add: buf_from_slice_def pb_from_slice_def)
next
  case False
  then have "pb_extend_from_slice (pb_new cap) data = Inl InsufficientCapacity"
    by (intro pb.extend_full) auto
  with False show ?thesis by (simp add: buf_from_slice_def pb_from_slice_def)
qed

lemma pb_slice_clear [simp]: "pb_as_slice (pb_clear b) = []"
  by (simp add: pb_as_slice_def pb_clear_def)

lemma pb_inv_clear [simp]: "pb_inv (pb_clear b)"
  by (simp add: pb_inv_def pb_clear_def)

lemma pb_slice_copy_with_hops:
  "pb_inv b \<Longrightarrow> pb_as_slice (pb_copy_with_hops b hops) = with_hops (pb_as_slice b) hops"
  by (auto simp: pb_copy_with_hops_def with_hops_def pb_as_slice_def pb_inv_def take_update_swap)

lemma pb_slice_set_len:
  "pb_inv b \<Longrightarrow> n \<le> pb_len b \<Longrightarrow>
   \<exists>b'. pb_set_len b n = Inr b' \<and> pb_inv b' \<and> pb_as_slice b' = take n (pb_as_slice b)"
  by (auto simp: pb_set_len_def pb_inv_def pb_as_slice_def min_def)

lemma pb_slice_as_mut:
  "pb_inv b \<Longrightarrow> length xs = pb_len b \<Longrightarrow> pb_as_slice (pb_as_mut_slice b xs) = xs"
  by (simp add: pb_as_mut_slice_def pb_as_slice_def overwrite_def)

lemma length_with_hops [simp]: "length (with_hops p h) = length p"
  by (simp add: with_hops_def)

text \<open>The packet buffer refines a bounded byte list: starting from an empty buffer of
  capacity \<open>cap\<close>, any sequence of pushes and slice writes succeeds exactly when all bytes fit,
  and the visible bytes are then exactly the bytes written, in order; when they do not fit the
  result is the capacity error.\<close>

theorem packet_buffer_refines_list:
  "case pb.write_chunks (pb_new cap) cs of
     Inr b \<Rightarrow> length (concat (map chunk_bytes cs)) \<le> cap \<and>
              pb_as_slice b = concat (map chunk_bytes cs) \<and> pb_inv b \<and> pb_cap b = cap
   | Inl e \<Rightarrow> cap < length (concat (map chunk_bytes cs)) \<and> e = InsufficientCapacity"
proof (cases "length (concat (map chunk_bytes cs)) \<le> cap")
  case True
  then obtain b where "pb.write_chunks (pb_new cap) cs = Inr b" "pb_inv b" "pb_cap b = cap"
      "pb_as_slice b = concat (map chunk_bytes cs)"
    using pb.write_chunks_ok [of "pb_new cap" cs] by auto
  with True show ?thesis by simp
next
  case False
  then have "pb.write_chunks (pb_new cap) cs = Inl InsufficientCapacity"
    by (intro pb.write_chunks_full) auto
  with False show ?thesis by simp
qed

end
