(* ===== verification/Lora.thy ===== *)
theory Lora
  imports Packet_Buffer
begin

text \<open>
  \<^verbatim>\<open>src/lora.rs\<close>: splitting a packet into one or two physical frames and reassembling it, the
  airtime estimates of a modem profile, and the fixed-window airtime limiter. Arithmetic is kept
  at the width of the source: \<^verbatim>\<open>u64\<close> values are 64-bit words and the \<^verbatim>\<open>i32\<close> intermediate values of
  the airtime formula are 32-bit words read as signed.
\<close>

section \<open>Frames\<close>

definition LORA_FRAME_MAX :: nat where "LORA_FRAME_MAX = LORA_FRAME_PAYLOAD_MAX + 1"
definition SPLIT_FLAG :: u8 where "SPLIT_FLAG = 0x01"
definition BASIS_POINTS_DENOMINATOR :: u64 where "BASIS_POINTS_DENOMINATOR = 10000"

record lora_frame =
  lf_bytes :: bytes
  lf_len :: nat

datatype lora_error = PacketTooLarge | FrameTooLarge | FrameTooShort | LoraBuffer buffer_error

definition lora_frame_new :: lora_frame where
  "lora_frame_new = \<lparr>lf_bytes = replicate LORA_FRAME_MAX 0, lf_len = 0\<rparr>"

definition lora_frame_as_slice :: "lora_frame \<Rightarrow> bytes" where
  "lora_frame_as_slice f = take (lf_len f) (lf_bytes f)"

definition lora_frame_set :: "lora_frame \<Rightarrow> u8 \<Rightarrow> bytes \<Rightarrow> lora_error + lora_frame" where
  "lora_frame_set f hdr data =
     (if length data > LORA_FRAME_PAYLOAD_MAX then Inl FrameTooLarge
      else Inr (f\<lparr>lf_bytes := overwrite ((lf_bytes f)[0 := hdr]) 1 data, lf_len := length data + 1\<rparr>))"

record pending_split =
  ps_sequence :: u8
  ps_first :: packet_buffer
  ps_expires_ms :: u64

record lora_framer =
  fr_pending :: "pending_split option"
  fr_split_timeout_ms :: u64

definition lora_framer_new :: "u64 \<Rightarrow> lora_framer" where
  "lora_framer_new split_timeout_ms =
     \<lparr>fr_pending = None, fr_split_timeout_ms = split_timeout_ms\<rparr>"

text \<open>The two output frames are passed in and handed back; an entry that is not used is left
  unchanged.\<close>

definition lora_encode ::
  "bytes \<Rightarrow> u8 \<Rightarrow> lora_frame \<times> lora_frame \<Rightarrow> (lora_error + nat) \<times> (lora_frame \<times> lora_frame)" where
  "lora_encode packet sequence_nibble out =
     (if length packet > LORA_SPLIT_FRAME_PAYLOAD_MAX then (Inl PacketTooLarge, out)
      else let sequence = push_bit 4 (sequence_nibble AND 0x0F) in
      if length packet \<le> LORA_FRAME_PAYLOAD_MAX then
        (case lora_frame_set (fst out) sequence packet of
           Inl e \<Rightarrow> (Inl e, out)
         | Inr f0 \<Rightarrow> (Inr 1, (f0, snd out)))
      else
        (case lora_frame_set (fst out) (sequence OR SPLIT_FLAG)
                (take LORA_FRAME_PAYLOAD_MAX packet) of
           Inl e \<Rightarrow> (Inl e, out)
         | Inr f0 \<Rightarrow>
             (case lora_frame_set (snd out) (sequence OR SPLIT_FLAG)
                     (drop LORA_FRAME_PAYLOAD_MAX packet) of
                Inl e \<Rightarrow> (Inl e, (f0, snd out))
              | Inr f1 \<Rightarrow> (Inr 2, (f0, f1)))))"

definition lora_framer_expire :: "lora_framer \<Rightarrow> u64 \<Rightarrow> lora_framer" where
  "lora_framer_expire fr now_ms =
     (if is_some_and (fr_pending fr) (\<lambda>pending. now_ms \<ge> ps_expires_ms pending)
      then fr\<lparr>fr_pending := None\<rparr> else fr)"

definition ingest_frame ::
  "lora_framer \<Rightarrow> bytes \<Rightarrow> u64 \<Rightarrow> (lora_error + packet_buffer option) \<times> lora_framer" where
  "ingest_frame fr frame now_ms =
     (let fr = lora_framer_expire fr now_ms in
      if frame = [] then (Inl FrameTooShort, fr)
      else let hdr = hd frame; sequence = drop_bit 4 hdr; split = (hdr AND SPLIT_FLAG \<noteq> 0);
               data = tl frame in
      if \<not> split then
        (map_sum LoraBuffer Some (pb_from_slice LORA_SPLIT_FRAME_PAYLOAD_MAX data),
         fr\<lparr>fr_pending := None\<rparr>)
      else
        let taken = fr_pending fr; fr = fr\<lparr>fr_pending := None\<rparr> in
        if is_some_and taken (\<lambda>pending. ps_sequence pending = sequence) then
          (map_sum LoraBuffer Some (pb_extend_from_slice (ps_first (the taken)) data), fr)
        else
          (case pb_from_slice LORA_SPLIT_FRAME_PAYLOAD_MAX data of
             Inl e \<Rightarrow> (Inl (LoraBuffer e), fr)
           | Inr first \<Rightarrow>
               (Inr None,
                fr\<lparr>fr_pending := Some \<lparr>ps_sequence = sequence, ps_first = first,
                     ps_expires_ms = sat_add now_ms (fr_split_timeout_ms fr)\<rparr>\<rparr>)))"

section \<open>Modem profile\<close>

record lora_modem_config =
  bandwidth_hz :: u32
  spreading_factor :: u8
  coding_rate_denominator :: u8
  preamble_symbols :: u16
  explicit_header :: bool
  crc :: bool
  low_data_rate_optimize :: bool

definition ceil_div_u64 :: "u64 \<Rightarrow> u64 \<Rightarrow> u64" where
  "ceil_div_u64 n d = (if d = 0 then 0 else sat_add n (d - 1) div d)"

definition nominal_bitrate_bps :: "lora_modem_config \<Rightarrow> u64" where
  "nominal_bitrate_bps m =
     (if bandwidth_hz m = 0 \<or> spreading_factor m = 0 \<or> coding_rate_denominator m = 0 then 0
      else if unat (spreading_factor m) \<ge> 64 then 0
      else let chips_per_symbol = push_bit (unat (spreading_factor m)) 1 :: u64
      in sat_mul (sat_mul (ucast (spreading_factor m)) 4) (ucast (bandwidth_hz m)) div
         sat_mul (ucast (coding_rate_denominator m)) chips_per_symbol)"

definition frame_airtime_ms :: "lora_modem_config \<Rightarrow> nat \<Rightarrow> u32" where
  "frame_airtime_ms m frame_len =
     (if bandwidth_hz m = 0 \<or> spreading_factor m = 0 then 0
      else let sf = ucast (spreading_factor m) :: 32 word;
               ldro = of_bool (low_data_rate_optimize m) :: 32 word;
               denominator = 4 * (sf - 2 * ldro)
      in if sint denominator \<le> 0 then 0
      else let symbol_us = ceil_div_u64
                 (push_bit (min (unat (spreading_factor m)) 31) 1 * 1000000) (ucast (bandwidth_hz m));
               crc_bits = (if crc m then 16 else 0) :: 32 word;
               implicit_header_bits = (if explicit_header m then 0 else 20) :: 32 word;
               numerator = 8 * of_nat frame_len - 4 * sf + 28 + crc_bits - implicit_header_bits;
               coded_payload_symbols =
                 (if sint numerator \<le> 0 then 0
                  else let coding_rate = ucast (min (max (coding_rate_denominator m) 5) 8) :: u64
                       in ceil_div_u64 (scast numerator) (scast denominator) * coding_rate);
               payload_symbols = 8 + coded_payload_symbols;
               preamble_symbols_x100 = ucast (preamble_symbols m) * 100 + 425;
               total_symbols_x100 = preamble_symbols_x100 + payload_symbols * 100
           in ucast (ceil_div_u64 (total_symbols_x100 * symbol_us) 100000))"

section \<open>Airtime limiter\<close>

record airtime_limiter =
  al_window_ms :: u64
  al_max_utilization_bps :: u16
  al_window_start_ms :: u64
  al_used_airtime_ms :: u64

definition airtime_limiter_new :: "u64 \<Rightarrow> u16 \<Rightarrow> airtime_limiter" where
  "airtime_limiter_new window_ms max_utilization_bps =
     \<lparr>al_window_ms = window_ms, al_max_utilization_bps = max_utilization_bps,
      al_window_start_ms = 0, al_used_airtime_ms = 0\<rparr>"

definition al_refresh :: "airtime_limiter \<Rightarrow> u64 \<Rightarrow> airtime_limiter" where
  "al_refresh l now_ms =
     (if al_window_ms l = 0 \<or> now_ms < al_window_start_ms l then
        l\<lparr>al_window_start_ms := now_ms, al_used_airtime_ms := 0\<rparr>
      else if sat_sub now_ms (al_window_start_ms l) \<ge> al_window_ms l then
        l\<lparr>al_window_start_ms := now_ms, al_used_airtime_ms := 0\<rparr>
      else l)"

definition al_budget_ms :: "airtime_limiter \<Rightarrow> u64" where
  "al_budget_ms l =
     sat_mul (al_window_ms l) (ucast (al_max_utilization_bps l)) div BASIS_POINTS_DENOMINATOR"

definition can_reserve :: "airtime_limiter \<Rightarrow> u32 \<Rightarrow> u64 \<Rightarrow> bool \<times> airtime_limiter" where
  "can_reserve l airtime_ms now_ms =
     (let l = al_refresh l now_ms; airtime_ms = ucast airtime_ms :: u64 in
      if airtime_ms = 0 then (True, l)
      else let budget = max (al_budget_ms l) 1
           in (sat_add (al_used_airtime_ms l) airtime_ms \<le> budget \<or>
               (al_used_airtime_ms l = 0 \<and> airtime_ms > budget), l))"

definition reserve :: "airtime_limiter \<Rightarrow> u32 \<Rightarrow> u64 \<Rightarrow> bool \<times> airtime_limiter" where
  "reserve l airtime_ms now_ms =
     (case can_reserve l airtime_ms now_ms of (ok, l) \<Rightarrow>
        if \<not> ok then (False, l)
        else (True, l\<lparr>al_used_airtime_ms := sat_add (al_used_airtime_ms l) (ucast airtime_ms)\<rparr>))"

definition utilization_bps :: "airtime_limiter \<Rightarrow> u64 \<Rightarrow> u16 \<times> airtime_limiter" where
  "utilization_bps l now_ms =
     (let l = al_refresh l now_ms in
      if al_window_ms l = 0 then (0, l)
      else let value = sat_mul (al_used_airtime_ms l) BASIS_POINTS_DENOMINATOR div al_window_ms l
           in (ucast (min value 0xFFFF), l))"

definition used_airtime_ms :: "airtime_limiter \<Rightarrow> u64 \<Rightarrow> u64 \<times> airtime_limiter" where
  "used_airtime_ms l now_ms = (let l = al_refresh l now_ms in (al_used_airtime_ms l, l))"

definition al_wait_ms :: "airtime_limiter \<Rightarrow> u32 \<Rightarrow> u64 \<Rightarrow> u64 \<times> airtime_limiter" where
  "al_wait_ms l airtime_ms now_ms =
     (case can_reserve l airtime_ms now_ms of (ok, l) \<Rightarrow>
        if ok then (0, l)
        else (sat_sub (sat_add (al_window_start_ms l) (al_window_ms l)) now_ms, l))"

section \<open>Split and reassembly\<close>

lemma lora_header_bits:
  "drop_bit 4 (push_bit 4 ((n :: u8) AND 0x0F)) = n AND 0x0F"
  "drop_bit 4 (push_bit 4 ((n :: u8) AND 0x0F) OR 1) = n AND 0x0F"
  "push_bit 4 ((n :: u8) AND 0x0F) AND 1 = 0"
  "(push_bit 4 ((n :: u8) AND 0x0F) OR 1) AND 1 = 1"
proof -
  have m: "(0x0F :: u8) = mask 4" by (simp add: mask_eq_exp_minus_1)
  show "drop_bit 4 (push_bit 4 (n AND 0x0F)) = n AND 0x0F"
    unfolding m by (rule bit_word_eqI) (auto simp: bit_simps)
  show "drop_bit 4 (push_bit 4 (n AND 0x0F) OR 1) = n AND 0x0F"
    unfolding m by (rule bit_word_eqI) (auto simp: bit_simps bit_1_iff)
  show "push_bit 4 (n AND 0x0F) AND 1 = 0"
    by (rule bit_word_eqI) (auto simp: bit_simps bit_1_iff)
  then show "(push_bit 4 (n AND 0x0F) OR 1) AND 1 = 1"
    by (simp add: bit.conj_disj_distrib2)
qed

lemma lora_frame_set_slice:
  assumes "length (lf_bytes f) = LORA_FRAME_MAX" "length d \<le> LORA_FRAME_PAYLOAD_MAX"
  shows "\<exists>f'. lora_frame_set f h d = Inr f' \<and> lora_frame_as_slice f' = h # d \<and>
    length (lf_bytes f') = LORA_FRAME_MAX"
  using assms
  by (cases "lf_bytes f")
     (auto simp: lora_frame_set_def lora_frame_as_slice_def LORA_FRAME_MAX_def overwrite_def)

lemma pb_from_slice_ok:
  assumes "length d \<le> cap"
  shows "\<exists>b. pb_from_slice cap d = Inr b \<and> pb_inv b \<and> pb_cap b = cap \<and> pb_as_slice b = d"
  using pb.extend_ok [of "pb_new cap" d] assms by (auto simp: pb_from_slice_def)

lemma ingest_whole_frame:
  assumes "length d \<le> LORA_SPLIT_FRAME_PAYLOAD_MAX" "h AND SPLIT_FLAG = 0"
  shows "\<exists>b fr'. ingest_frame fr (h # d) now = (Inr (Some b), fr') \<and> pb_as_slice b = d"
  using pb_from_slice_ok [OF assms(1)] assms(2) by (auto simp: ingest_frame_def Let_def)

lemma ingest_first_half:
  assumes "length d \<le> LORA_SPLIT_FRAME_PAYLOAD_MAX" "h AND SPLIT_FLAG \<noteq> 0"
    and "\<not> is_some_and (fr_pending (lora_framer_expire fr now)) (\<lambda>p. ps_sequence p = drop_bit 4 h)"
  shows "\<exists>b fr'. ingest_frame fr (h # d) now = (Inr None, fr') \<and>
    fr_pending fr' = Some \<lparr>ps_sequence = drop_bit 4 h, ps_first = b,
      ps_expires_ms = sat_add now (fr_split_timeout_ms fr)\<rparr> \<and>
    pb_inv b \<and> pb_cap b = LORA_SPLIT_FRAME_PAYLOAD_MAX \<and> pb_as_slice b = d"
proof -
  have "fr_split_timeout_ms (lora_framer_expire fr now) = fr_split_timeout_ms fr"
    by (simp add: lora_framer_expire_def)
  then show ?thesis
    using pb_from_slice_ok [OF assms(1)] assms(2,3) by (auto simp: ingest_frame_def Let_def)
qed

lemma ingest_second_half:
  assumes "fr_pending fr = Some \<lparr>ps_sequence = drop_bit 4 h, ps_first = b, ps_expires_ms = exp\<rparr>"
    and "now < exp" "h AND SPLIT_FLAG \<noteq> 0" "pb_inv b"
    and "length (pb_as_slice b) + length d \<le> pb_cap b"
  shows "\<exists>b' fr'. ingest_frame fr (h # d) now = (Inr (Some b'), fr') \<and>
    pb_as_slice b' = pb_as_slice b @ d"
proof -
  have "lora_framer_expire fr now = fr"
    using assms(1,2) by (simp add: lora_framer_expire_def not_le)
  then show ?thesis
    using pb.extend_ok [OF assms(4,5)] assms(1,3) by (auto simp: ingest_frame_def Let_def)
qed

lemma lora_packet_roundtrip:
  assumes "length packet \<le> LORA_SPLIT_FRAME_PAYLOAD_MAX"
    and "length (lf_bytes o0) = LORA_FRAME_MAX" "length (lf_bytes o1) = LORA_FRAME_MAX"
    and "\<not> is_some_and (fr_pending (lora_framer_expire fr t1))
           (\<lambda>p. ps_sequence p = sequence_nibble AND 0x0F)"
    and "t2 < sat_add t1 (fr_split_timeout_ms fr)"
  shows "\<exists>n f0 f1 b fr'. lora_encode packet sequence_nibble (o0, o1) = (Inr n, (f0, f1)) \<and>
    pb_as_slice b = packet \<and>
    (n = 1 \<and> ingest_frame fr (lora_frame_as_slice f0) t1 = (Inr (Some b), fr') \<or>
     n = 2 \<and> (\<exists>fr1. ingest_frame fr (lora_frame_as_slice f0) t1 = (Inr None, fr1) \<and>
                   ingest_frame fr1 (lora_frame_as_slice f1) t2 = (Inr (Some b), fr')))"
proof (cases "length packet \<le> LORA_FRAME_PAYLOAD_MAX")
  case True
  let ?h = "push_bit 4 (sequence_nibble AND 0x0F)"
  obtain f0 where f0: "lora_frame_set o0 ?h packet = Inr f0" "lora_frame_as_slice f0 = ?h # packet"
    using lora_frame_set_slice [OF assms(2) True] by blast
  obtain b fr' where "ingest_frame fr (?h # packet) t1 = (Inr (Some b), fr')" "pb_as_slice b = packet"
    using ingest_whole_frame [OF assms(1), of ?h fr t1] lora_header_bits(3) by (auto simp: SPLIT_FLAG_def)
  with f0 True assms(1) show ?thesis
    by (intro exI [of _ 1] exI [of _ f0] exI [of _ o1] exI [of _ b] exI [of _ fr'])
       (simp add: lora_encode_def Let_def)
next
  case False
  let ?h = "push_bit 4 (sequence_nibble AND 0x0F) OR SPLIT_FLAG"
  let ?p0 = "take LORA_FRAME_PAYLOAD_MAX packet" and ?p1 = "drop LORA_FRAME_PAYLOAD_MAX packet"
  have h: "?h AND SPLIT_FLAG \<noteq> 0" "drop_bit 4 ?h = sequence_nibble AND 0x0F"
    using lora_header_bits(2,4) by (simp_all add: SPLIT_FLAG_def)
  have len: "length ?p0 \<le> LORA_FRAME_PAYLOAD_MAX" "length ?p1 \<le> LORA_FRAME_PAYLOAD_MAX"
    "length ?p0 + length ?p1 \<le> LORA_SPLIT_FRAME_PAYLOAD_MAX" "length ?p0 \<le> LORA_SPLIT_FRAME_PAYLOAD_MAX"
    using assms(1) False by (simp_all add: LORA_SPLIT_FRAME_PAYLOAD_MAX_def)
  obtain f0 where f0: "lora_frame_set o0 ?h ?p0 = Inr f0" "lora_frame_as_slice f0 = ?h # ?p0"
    using lora_frame_set_slice [OF assms(2) len(1)] by blast
  obtain f1 where f1: "lora_frame_set o1 ?h ?p1 = Inr f1" "lora_frame_as_slice f1 = ?h # ?p1"
    using lora_frame_set_slice [OF assms(3) len(2)] by blast
  obtain b0 fr1 where fr1: "ingest_frame fr (?h # ?p0) t1 = (Inr None, fr1)"
      "fr_pending fr1 = Some \<lparr>ps_sequence = drop_bit 4 ?h, ps_first = b0,
        ps_expires_ms = sat_add t1 (fr_split_timeout_ms fr)\<rparr>"
      "pb_inv b0" "pb_cap b0 = LORA_SPLIT_FRAME_PAYLOAD_MAX" "pb_as_slice b0 = ?p0"
    using ingest_first_half [OF len(4) h(1), of fr t1] assms(4) h(2) by auto
  obtain b fr' where "ingest_frame fr1 (?h # ?p1) t2 = (Inr (Some b), fr')" "pb_as_slice b = packet"
    using ingest_second_half [OF fr1(2) assms(5) h(1) fr1(3), of ?p1] len(3) fr1(4,5) by auto
  with f0 f1 fr1(1) False assms(1) show ?thesis
    by (intro exI [of _ 2] exI [of _ f0] exI [of _ f1] exI [of _ b] exI [of _ fr'])
       (auto simp: lora_encode_def Let_def)
qed

text \<open>C27. Every packet of at most 508 bytes survives framing: encoding yields one or two frames,
  and feeding them in order to a framer that is not waiting for another packet of the same
  sequence number, the second before the split timeout, yields exactly the packet.\<close>

theorem lora_roundtrip:
  assumes "length packet \<le> LORA_SPLIT_FRAME_PAYLOAD_MAX"
    and "length (lf_bytes o0) = LORA_FRAME_MAX" "length (lf_bytes o1) = LORA_FRAME_MAX"
    and "\<not> is_some_and (fr_pending (lora_framer_expire fr t1))
           (\<lambda>p. ps_sequence p = sequence_nibble AND 0x0F)"
    and "t2 < sat_add t1 (fr_split_timeout_ms fr)"
  shows "\<exists>n f0 f1 b fr'. lora_encode packet sequence_nibble (o0, o1) = (Inr n, (f0, f1)) \<and>
    pb_as_slice b = packet \<and>
    (n = 1 \<and> ingest_frame fr (lora_frame_as_slice f0) t1 = (Inr (Some b), fr') \<or>
     n = 2 \<and> (\<exists>fr1. ingest_frame fr (lora_frame_as_slice f0) t1 = (Inr None, fr1) \<and>
                   ingest_frame fr1 (lora_frame_as_slice f1) t2 = (Inr (Some b), fr')))"
  using assms by (rule lora_packet_roundtrip)

theorem lora_roundtrip_witness:
  "\<exists>n f0 f1 b fr'. lora_encode (replicate 300 7) 5 (lora_frame_new, lora_frame_new) = (Inr n, (f0, f1)) \<and>
    pb_as_slice b = replicate 300 7 \<and>
    (n = 1 \<and> ingest_frame (lora_framer_new 5000) (lora_frame_as_slice f0) 100 = (Inr (Some b), fr') \<or>
     n = 2 \<and> (\<exists>fr1. ingest_frame (lora_framer_new 5000) (lora_frame_as_slice f0) 100 = (Inr None, fr1) \<and>
                   ingest_frame fr1 (lora_frame_as_slice f1) 200 = (Inr (Some b), fr')))"
  by (rule lora_roundtrip)
     (simp_all add: size_consts lora_frame_new_def lora_framer_new_def lora_framer_expire_def
       LORA_FRAME_MAX_def sat_add_def)

section \<open>The limiter keeps to its budget\<close>

lemma unat_ucast_up:
  "LENGTH('a::len) \<le> LENGTH('b::len) \<Longrightarrow> unat (ucast (a :: 'a word) :: 'b word) = unat a"
  by (simp add: unsigned_ucast_eq take_bit_nat_eq_self_iff)
     (metis unat_bound order_less_le_trans one_le_numeral power_increasing)

definition in_window :: "airtime_limiter \<Rightarrow> u64 \<Rightarrow> bool" where
  "in_window l now \<longleftrightarrow>
     al_window_ms l \<noteq> 0 \<and> al_window_start_ms l \<le> now \<and>
     unat now - unat (al_window_start_ms l) < unat (al_window_ms l)"

lemma al_refresh_in_window: "in_window l now \<Longrightarrow> al_refresh l now = l"
  by (auto simp: in_window_def al_refresh_def word_le_nat_alt unat_sat_sub word_less_nat_alt)

lemma al_budget_bound: "unat (al_budget_ms l) < 2 ^ 60"
proof -
  have "unat (sat_mul (al_window_ms l) (ucast (al_max_utilization_bps l))) < 2 ^ 64"
    using unat_bound [of "sat_mul (al_window_ms l) (ucast (al_max_utilization_bps l))"] by simp
  then show ?thesis
    by (simp add: al_budget_ms_def unat_div BASIS_POINTS_DENOMINATOR_def)
qed

text \<open>The positive airtimes that a sequence of reservation attempts is granted.\<close>

fun granted :: "airtime_limiter \<Rightarrow> (u32 \<times> u64) list \<Rightarrow> nat list" where
  "granted l [] = []"
| "granted l ((airtime, now) # xs) =
     (case reserve l airtime now of (ok, l') \<Rightarrow>
        (if ok \<and> airtime \<noteq> 0 then [unat airtime] else []) @ granted l' xs)"

abbreviation al_limit :: "airtime_limiter \<Rightarrow> nat" where
  "al_limit l \<equiv> max (unat (al_budget_ms l)) 1"

lemma unat_max: "unat (max a b) = max (unat a) (unat b)"
  by (simp add: max_def word_le_nat_alt)

lemma sat_add_left_0 [simp]: "sat_add 0 b = (b :: 'a::len word)"
  using unat_bound [of b] by (simp add: sat_add_def)

lemma can_reserve_in_window:
  assumes "in_window l now"
  shows "can_reserve l a now =
    (a = 0 \<or> unat (al_used_airtime_ms l) + unat a \<le> al_limit l \<or>
     al_used_airtime_ms l = 0 \<and> al_limit l < unat a, l)"
proof -
  have a: "unat (ucast a :: u64) = unat a" by (rule unat_ucast_up) simp
  have z: "(ucast a :: u64) = 0 \<longleftrightarrow> a = 0" using a by (metis unat_eq_0)
  have le: "sat_add (al_used_airtime_ms l) (ucast a) \<le> max (al_budget_ms l) 1 \<longleftrightarrow>
      unat (al_used_airtime_ms l) + unat a \<le> al_limit l"
    using al_budget_bound [of l] by (auto simp: word_le_nat_alt unat_sat_add unat_max a)
  have gt: "max (al_budget_ms l) 1 < (ucast a :: u64) \<longleftrightarrow> al_limit l < unat a"
    by (simp add: word_less_nat_alt unat_max a)
  show ?thesis
    unfolding can_reserve_def Let_def al_refresh_in_window [OF assms] z le gt by simp
qed

lemma reserve_cases:
  assumes "in_window l now"
  obtains (zero) "a = 0" "reserve l a now = (True, l)"
  | (refused) "a \<noteq> 0" "\<not> unat (al_used_airtime_ms l) + unat a \<le> al_limit l"
      "reserve l a now = (False, l)"
  | (granted) u where "a \<noteq> 0" "unat u = unat (al_used_airtime_ms l) + unat a"
      "unat u \<le> al_limit l \<or> al_used_airtime_ms l = 0 \<and> al_limit l < unat u"
      "reserve l a now = (True, l\<lparr>al_used_airtime_ms := u\<rparr>)"
proof -
  let ?u = "sat_add (al_used_airtime_ms l) (ucast a)"
  let ?A = "unat (al_used_airtime_ms l) + unat a \<le> al_limit l"
  let ?B = "al_used_airtime_ms l = 0 \<and> al_limit l < unat a"
  have r: "reserve l a now =
      (if a = 0 \<or> ?A \<or> ?B then (True, l\<lparr>al_used_airtime_ms := ?u\<rparr>) else (False, l))"
    by (simp add: reserve_def can_reserve_in_window [OF assms])
  have a: "unat (ucast a :: u64) = unat a" by (rule unat_ucast_up) simp
  have b: "unat a < 2 ^ 32" using unat_bound [of a] by simp
  consider "a = 0" | "a \<noteq> 0" "?A \<or> ?B" | "a \<noteq> 0" "\<not> (?A \<or> ?B)" by blast
  then show thesis
  proof cases
    case 1
    then show thesis using zero r by simp
  next
    case 2
    have "unat ?u = unat (al_used_airtime_ms l) + unat a"
      using 2(2) al_budget_bound [of l] b unfolding unat_sat_add a by auto
    then show thesis using 2 r by (intro granted [of ?u]) auto
  next
    case 3
    then show thesis using r by (intro refused) auto
  qed
qed

lemma granted_bound:
  assumes "\<forall>(a, now) \<in> set xs. in_window l now"
  shows "(al_limit l < unat (al_used_airtime_ms l) \<longrightarrow> granted l xs = []) \<and>
    (unat (al_used_airtime_ms l) \<le> al_limit l \<longrightarrow>
       unat (al_used_airtime_ms l) + sum_list (granted l xs) \<le> al_limit l \<or>
       al_used_airtime_ms l = 0 \<and> (\<exists>a. granted l xs = [a]))"
  using assms
proof (induction xs arbitrary: l)
  case Nil
  then show ?case by simp
next
  case (Cons x xs)
  obtain a now where x: "x = (a, now)" by (cases x)
  have w: "in_window l now" using Cons.prems x by simp
  show ?case
  proof (rule reserve_cases [OF w, of a])
    assume "reserve l a now = (True, l)" "a = 0"
    then show ?thesis using Cons.IH [of l] Cons.prems x by simp
  next
    assume "reserve l a now = (False, l)"
    then show ?thesis using Cons.IH [of l] Cons.prems x by simp
  next
    fix u
    let ?l = "l\<lparr>al_used_airtime_ms := u\<rparr>"
    assume u: "a \<noteq> 0" "unat u = unat (al_used_airtime_ms l) + unat a"
      "unat u \<le> al_limit l \<or> al_used_airtime_ms l = 0 \<and> al_limit l < unat u"
      "reserve l a now = (True, ?l)"
    have same: "in_window ?l t = in_window l t" "al_budget_ms ?l = al_budget_ms l" for t
      by (simp_all add: in_window_def al_budget_ms_def)
    have IH: "(al_limit l < unat u \<longrightarrow> granted ?l xs = []) \<and>
      (unat u \<le> al_limit l \<longrightarrow> unat u + sum_list (granted ?l xs) \<le> al_limit l \<or>
         u = 0 \<and> (\<exists>a. granted ?l xs = [a]))"
      using Cons.IH [of ?l] Cons.prems same by simp
    have "0 < unat a" using u(1) by (simp add: unat_gt_0)
    then have "u \<noteq> 0" using u(2) by auto
    moreover have "granted l (x # xs) = unat a # granted ?l xs" using u(1,4) x by simp
    ultimately show ?thesis using IH u(2,3) by auto
  qed
qed

text \<open>C28. The airtime limiter keeps to its budget: whatever is attempted within one window that
  starts empty, the airtimes it grants sum up to at most the budget (at least one millisecond),
  unless the only positive grant is a single frame that alone exceeds the budget.\<close>

theorem airtime_budget_kept:
  assumes "al_used_airtime_ms l = 0" "\<forall>(a, now) \<in> set xs. in_window l now"
  shows "sum_list (granted l xs) \<le> max (unat (al_budget_ms l)) 1 \<or> (\<exists>a. granted l xs = [a])"
  using granted_bound [OF assms(2)] assms(1) by auto

theorem airtime_budget_kept_witness:
  "sum_list (granted (airtime_limiter_new 10000 100) [(60, 5), (50, 6), (40, 7)]) \<le> 100 \<or>
   (\<exists>a. granted (airtime_limiter_new 10000 100) [(60, 5), (50, 6), (40, 7)] = [a])"
  using airtime_budget_kept [of "airtime_limiter_new 10000 100" "[(60, 5), (50, 6), (40, 7)]"]
  by (simp add: airtime_limiter_new_def in_window_def al_budget_ms_def sat_mul_def
      BASIS_POINTS_DENOMINATOR_def)

text \<open>A refused reservation succeeds after the announced wait, as long as the end of the window
  is representable.\<close>

lemma wait_then_reserve:
  assumes "al_wait_ms l a now = (w, l')" "\<not> fst (can_reserve l a now)"
    and "unat now + unat (al_window_ms l) < 2 ^ 64"
  shows "fst (can_reserve l' a (now + w))"
proof -
  let ?l = "al_refresh l now"
  have cr: "can_reserve l a now = (False, ?l)"
    using assms(2) by (auto simp: can_reserve_def Let_def)
  then have l': "l' = ?l" and w: "w = sat_sub (sat_add (al_window_start_ms ?l) (al_window_ms ?l)) now"
    using assms(1) by (auto simp: al_wait_ms_def)
  have win: "al_window_ms ?l = al_window_ms l" by (simp add: al_refresh_def)
  have start: "al_window_start_ms ?l \<le> now" by (auto simp: al_refresh_def)
  have "al_window_ms l = 0 \<or> unat now < unat (al_window_start_ms ?l) + unat (al_window_ms l)"
    by (auto simp: al_refresh_def word_le_nat_alt word_less_nat_alt unat_sat_sub unat_gt_0)
  then have "al_window_ms ?l = 0 \<or>
      unat (now + w) = unat (al_window_start_ms ?l) + unat (al_window_ms l)"
    using assms(3) start win
    by (auto simp: w unat_word_ariths unat_sat_sub unat_sat_add word_le_nat_alt)
  then have "al_used_airtime_ms (al_refresh ?l (now + w)) = 0"
    using win by (auto simp: al_refresh_def [of ?l] word_le_nat_alt word_less_nat_alt unat_sat_sub)
  then show ?thesis
    by (auto simp: l' can_reserve_def Let_def not_le)
qed

end
