(* ===== verification/Path_Table.thy ===== *)
theory Path_Table
  imports Hash_Tables
begin

text \<open>
  \<^verbatim>\<open>PathTable\<close> of \<^verbatim>\<open>src/tables.rs\<close>: the learned routes. The table implements \<open>generation_table\<close>,
  admits a replacement for a retained destination only when its announce was emitted later, and
  never lets a bulk newcomer displace a route outside the bulk class.
\<close>

record path_entry =
  pe_destination_hash :: hash16
  pe_next_hop :: "hash16 option"
  pe_hops :: u8
  pe_interface_id :: interface_id
  pe_expires_ms :: u64
  pe_last_seen_ms :: u64
  pe_packet_hash :: hash32
  pe_random_hash :: bytes
  pe_public_key :: bytes
  pe_bulk :: bool

type_synonym path_table = "path_entry gen_table"

definition path_is_live :: "path_entry \<Rightarrow> u64 \<Rightarrow> bool" where
  "path_is_live e now_ms \<longleftrightarrow> now_ms < pe_expires_ms e"

definition announce_emitted :: "bytes \<Rightarrow> u64" where
  "announce_emitted random_hash = from_be_bytes (replicate 3 0 @ slice 5 10 random_hash)"

definition path_new :: "nat \<Rightarrow> path_table" where
  "path_new n = gt_new n"

definition path_clear :: "path_table \<Rightarrow> path_table" where
  "path_clear t = gt_clear t"

definition path_next_generation :: "path_table \<Rightarrow> u64 option" where
  "path_next_generation t = gt_next_generation t"

definition path_generation :: "path_table \<Rightarrow> hash16 \<Rightarrow> u64 \<Rightarrow> u64 option" where
  "path_generation t key now_ms =
     gt_generation (\<lambda>entry. pe_destination_hash entry = key \<and> now_ms < pe_expires_ms entry) t"

definition path_get_generation :: "path_table \<Rightarrow> u64 \<Rightarrow> u64 \<Rightarrow> path_entry option" where
  "path_get_generation t generation now_ms =
     gt_get_generation (\<lambda>entry. now_ms < pe_expires_ms entry) t generation"

definition path_get :: "path_table \<Rightarrow> hash16 \<Rightarrow> path_entry option" where
  "path_get t destination_hash =
     List.find (\<lambda>entry. pe_destination_hash entry = destination_hash) (somes (gt_entries t))"

definition path_get_live :: "path_table \<Rightarrow> hash16 \<Rightarrow> u64 \<Rightarrow> path_entry option" where
  "path_get_live t destination_hash now_ms =
     (case path_get t destination_hash of
        None \<Rightarrow> None
      | Some entry \<Rightarrow> if path_is_live entry now_ms then Some entry else None)"

definition path_touch_entry :: "u64 \<Rightarrow> path_entry \<Rightarrow> path_entry" where
  "path_touch_entry now_ms entry =
     (let lifetime = sat_sub (pe_expires_ms entry) (pe_last_seen_ms entry)
      in entry\<lparr>pe_last_seen_ms := now_ms, pe_expires_ms := sat_add now_ms lifetime\<rparr>)"

definition path_touch :: "path_table \<Rightarrow> hash16 \<Rightarrow> u64 \<Rightarrow> path_table" where
  "path_touch t destination_hash now_ms =
     t\<lparr>gt_entries := update_first
         (\<lambda>entry. pe_destination_hash entry = destination_hash \<and> path_is_live entry now_ms)
         (path_touch_entry now_ms) (gt_entries t)\<rparr>"

definition path_known_public_key :: "path_table \<Rightarrow> hash16 \<Rightarrow> bytes option" where
  "path_known_public_key t destination_hash =
     map_option pe_public_key (path_get t destination_hash)"

definition path_drop :: "path_table \<Rightarrow> hash16 \<Rightarrow> bool \<times> path_table" where
  "path_drop t destination_hash =
     (case position (\<lambda>s. is_some_and s (\<lambda>entry. pe_destination_hash entry = destination_hash))
             (gt_entries t) of
        Some idx \<Rightarrow> (True, t\<lparr>gt_entries := (gt_entries t)[idx := None]\<rparr>)
      | None \<Rightarrow> (False, t))"

definition path_remove_interface :: "path_table \<Rightarrow> interface_id \<Rightarrow> path_table" where
  "path_remove_interface t interface = gt_clear_where (\<lambda>entry. pe_interface_id entry = interface) t"

definition path_live_count :: "path_table \<Rightarrow> u64 \<Rightarrow> nat" where
  "path_live_count t now_ms =
     length (filter (\<lambda>entry. path_is_live entry now_ms) (somes (gt_entries t)))"

definition path_expire :: "path_table \<Rightarrow> u64 \<Rightarrow> path_table" where
  "path_expire t now_ms = gt_clear_where (\<lambda>entry. \<not> path_is_live entry now_ms) t"

definition path_same_route :: "path_entry \<Rightarrow> path_entry \<Rightarrow> bool" where
  "path_same_route old entry \<longleftrightarrow>
     pe_destination_hash old = pe_destination_hash entry \<and>
     pe_interface_id old = pe_interface_id entry \<and>
     pe_next_hop old = pe_next_hop entry \<and> pe_hops old = pe_hops entry"

definition path_replace_entry :: "path_table \<Rightarrow> nat \<Rightarrow> path_entry \<Rightarrow> bool \<times> path_table" where
  "path_replace_entry t idx entry =
     (if is_some_and (gt_entries t ! idx) (\<lambda>old. path_same_route old entry)
      then (True, t\<lparr>gt_entries := (gt_entries t)[idx := Some entry]\<rparr>)
      else case path_next_generation t of
             None \<Rightarrow> (False, t)
           | Some generation \<Rightarrow> (True, gt_put t idx entry generation))"

definition path_should_replace :: "path_entry \<Rightarrow> path_entry \<Rightarrow> u64 \<Rightarrow> bool" where
  "path_should_replace old entry now_ms =
     (let new_emitted = announce_emitted (pe_random_hash entry);
          old_emitted = announce_emitted (pe_random_hash old);
          random_seen = (pe_random_hash entry = pe_random_hash old)
      in if pe_hops entry \<le> pe_hops old then \<not> random_seen \<and> new_emitted > old_emitted
         else if \<not> path_is_live old now_ms \<or> new_emitted > old_emitted then \<not> random_seen
         else False)"

definition path_insert_or_update :: "path_table \<Rightarrow> path_entry \<Rightarrow> u64 \<Rightarrow> bool \<times> path_table" where
  "path_insert_or_update t entry now_ms =
     (let t = path_expire t now_ms
      in case position (\<lambda>s. is_some_and s (\<lambda>old. pe_destination_hash old = pe_destination_hash entry))
                (gt_entries t) of
           Some idx \<Rightarrow>
             (case gt_entries t ! idx of
                None \<Rightarrow> (False, t)
              | Some old \<Rightarrow>
                  if path_should_replace old entry now_ms then path_replace_entry t idx entry
                  else (False, t))
         | None \<Rightarrow>
             (case or_else (position (\<lambda>s. s = None) (gt_entries t))
                     (class_victim (gt_entries t) (pe_bulk entry) pe_bulk pe_expires_ms) of
                Some idx \<Rightarrow> path_replace_entry t idx entry
              | None \<Rightarrow> (False, t)))"

section \<open>The table implements its interface\<close>

lemma checked_add_Some_less:
  "checked_add (a :: u64) 1 = Some g \<Longrightarrow> a < g"
  by (rule checked_add_one_gt)

lemma path_replace_entry_law:
  assumes "path_replace_entry t idx e = (b, t')" "gt_inv t" "idx < gt_size t"
  shows "gt_inv t'" "gt_last_generation t \<le> gt_last_generation t'"
    "(g, x) \<in> gt_held t' \<Longrightarrow>
       (\<exists>x0. (g, x0) \<in> gt_held t \<and> path_same_route x0 x) \<or> gt_last_generation t < g"
proof -
  have "gt_inv t' \<and> gt_last_generation t \<le> gt_last_generation t' \<and> (\<forall>g x. (g, x) \<in> gt_held t' \<longrightarrow>
      (\<exists>x0. (g, x0) \<in> gt_held t \<and> path_same_route x0 x) \<or> gt_last_generation t < g)"
  proof (cases "is_some_and (gt_entries t ! idx) (\<lambda>old. path_same_route old e)")
    case True
    then obtain old where old: "gt_entries t ! idx = Some old" "path_same_route old e" by auto
    have t': "t' = t\<lparr>gt_entries := (gt_entries t)[idx := Some e]\<rparr>"
      using assms(1) True by (simp add: path_replace_entry_def)
    note R = gt_inv_rewrite [OF assms(2,3) old(1), where e = e]
    have "path_same_route x x" for x by (simp add: path_same_route_def)
    then show ?thesis using R old(2) unfolding t' by (auto dest!: R(2))
  next
    case False
    show ?thesis
    proof (cases "path_next_generation t")
      case None
      with assms False have "t' = t" by (simp add: path_replace_entry_def)
      then show ?thesis using assms(2) by (auto simp: path_same_route_def)
    next
      case (Some n)
      then have lt: "gt_last_generation t < n"
        by (auto simp: path_next_generation_def gt_next_generation_def checked_add_Some_less
            split: if_splits)
      have t': "t' = gt_put t idx e n"
        using assms(1) False Some by (simp add: path_replace_entry_def)
      note P = gt_inv_put [OF assms(2,3) lt, where e = e]
      have "gt_last_generation t' = n" by (simp add: t' gt_put_def)
      then show ?thesis
        using P lt unfolding t' by (auto dest!: P(2) simp: path_same_route_def)
    qed
  qed
  then show "gt_inv t'" "gt_last_generation t \<le> gt_last_generation t'"
    "(g, x) \<in> gt_held t' \<Longrightarrow>
       (\<exists>x0. (g, x0) \<in> gt_held t \<and> path_same_route x0 x) \<or> gt_last_generation t < g"
    by blast+
qed

lemma path_replace_entry_slots:
  "path_replace_entry t idx e = (b, t') \<Longrightarrow>
   gt_entries t' = (if b then (gt_entries t)[idx := Some e] else gt_entries t)"
  by (auto simp: path_replace_entry_def gt_put_def split: if_splits option.splits)

text \<open>What \<^verbatim>\<open>insert_or_update\<close> does to the unexpired table: nothing, or one placement, over the
  retained entry of the destination or, for a new destination, into a free or victim slot.\<close>

lemma path_insert_cases:
  assumes "path_insert_or_update t entry now = (b, t')"
  obtains (unchanged) "\<not> b" "t' = path_expire t now"
  | (update) idx old where "b" "position (\<lambda>s. is_some_and s
        (\<lambda>old. pe_destination_hash old = pe_destination_hash entry)) (gt_entries (path_expire t now)) = Some idx"
      "idx < gt_size t" "gt_entries (path_expire t now) ! idx = Some old"
      "pe_destination_hash old = pe_destination_hash entry" "path_should_replace old entry now"
      "path_replace_entry (path_expire t now) idx entry = (True, t')"
  | (place) idx where "b" "position (\<lambda>s. is_some_and s
        (\<lambda>old. pe_destination_hash old = pe_destination_hash entry)) (gt_entries (path_expire t now)) = None"
      "idx < gt_size t"
      "gt_entries (path_expire t now) ! idx = None \<or>
        (\<exists>v. gt_entries (path_expire t now) ! idx = Some v \<and> (pe_bulk entry \<longrightarrow> pe_bulk v))"
      "path_replace_entry (path_expire t now) idx entry = (True, t')"
proof -
  let ?t = "path_expire t now"
  let ?same = "\<lambda>s. is_some_and s (\<lambda>old. pe_destination_hash old = pe_destination_hash entry)"
  have sz: "gt_size ?t = gt_size t" by (simp add: path_expire_def gt_clear_where_def)
  have repl: "t'' = ?t" if "path_replace_entry ?t idx entry = (False, t'')" for idx t''
    using that by (auto simp: path_replace_entry_def split: if_splits option.splits)
  show thesis
  proof (cases "position ?same (gt_entries ?t)")
    case (Some idx)
    from position_SomeD [OF Some] obtain old where old: "idx < gt_size t"
      "gt_entries ?t ! idx = Some old" "pe_destination_hash old = pe_destination_hash entry"
      using sz by auto
    show thesis
    proof (cases "path_should_replace old entry now \<and> b")
      case True
      with assms Some old have "path_replace_entry ?t idx entry = (True, t')"
        by (simp add: path_insert_or_update_def Let_def)
      with True Some old show thesis by (intro update [of idx old]) auto
    next
      case False
      with assms Some old have "\<not> b" "t' = ?t"
        by (auto simp: path_insert_or_update_def Let_def repl split: if_splits)
      then show thesis by (rule unchanged)
    qed
  next
    case None
    let ?r = "or_else (position (\<lambda>s. s = None) (gt_entries ?t))
      (class_victim (gt_entries ?t) (pe_bulk entry) pe_bulk pe_expires_ms)"
    show thesis
    proof (cases "?r = None \<or> \<not> b")
      case True
      with assms None have "\<not> b" "t' = ?t"
        by (auto simp: path_insert_or_update_def Let_def repl split: option.splits)
      then show thesis by (rule unchanged)
    next
      case False
      then obtain idx where r: "?r = Some idx" and b by auto
      then have "path_replace_entry ?t idx entry = (True, t')"
        using assms None by (simp add: path_insert_or_update_def Let_def)
      moreover have "idx < gt_size t \<and> (gt_entries ?t ! idx = None \<or>
          (\<exists>v. gt_entries ?t ! idx = Some v \<and> (pe_bulk entry \<longrightarrow> pe_bulk v)))"
      proof (cases "position (\<lambda>s. s = None) (gt_entries ?t)")
        case None
        with r class_victim_Some [of "gt_entries ?t" "pe_bulk entry" pe_bulk pe_expires_ms idx]
        show ?thesis using sz by auto
      next
        case (Some j)
        with r position_SomeD [OF Some] show ?thesis using sz by auto
      qed
      ultimately show thesis using None \<open>b\<close> by (intro place [of idx]) auto
    qed
  qed
qed

lemma path_expire_slots:
  "gt_entries (path_expire t now) = clear_where (\<lambda>e. pe_expires_ms e \<le> now) (gt_entries t)"
  by (simp add: path_expire_def gt_clear_where_def path_is_live_def not_less)

interpretation path: generation_table gt_entries pe_destination_hash pe_expires_ms path_expire
  "\<lambda>t e now. snd (path_insert_or_update t e now)"
  gt_inv gt_held gt_last_generation path_same_route
proof unfold_locales
  fix t e now
  obtain b t' where r: "path_insert_or_update t e now = (b, t')" by fastforce
  have sz: "gt_size (path_expire t now) = gt_size t" by (simp add: path_expire_slots)
  show "length (gt_entries (snd (path_insert_or_update t e now))) = gt_size t"
    using r by (rule path_insert_cases) (auto simp: r sz dest: path_replace_entry_slots)
  show "x = e \<or> Some x \<in> set (gt_entries t) \<and> now < pe_expires_ms x"
    if "Some x \<in> set (gt_entries (snd (path_insert_or_update t e now)))" for x
    using r
    by (rule path_insert_cases; use that r in \<open>auto simp: path_expire_slots Some_in_clear_where not_le
        dest!: path_replace_entry_slots Some_in_update\<close>)
  show "uniq_keys pe_destination_hash (gt_entries (snd (path_insert_or_update t e now)))"
    if u: "uniq_keys pe_destination_hash (gt_entries t)"
  proof -
    have "uniq_keys pe_destination_hash (gt_entries (path_expire t now))"
      using u by (simp add: path_expire_slots uniq_keys_clear_where)
    note place = uniq_keys_place [OF this]
    show ?thesis
      using r
    proof (rule path_insert_cases)
      show ?thesis if "t' = path_expire t now"
        using that r u by (simp add: path_expire_slots uniq_keys_clear_where)
    qed (use r place in \<open>auto dest!: path_replace_entry_slots\<close>)
  qed
next
  fix t :: path_table and x now
  assume I: "gt_inv t"
  note E = gt_inv_clear_where [OF I, of "\<lambda>e. \<not> path_is_live e now", folded path_expire_def]
  show "gt_inv (path_expire t now) \<and> gt_last_generation (path_expire t now) = gt_last_generation t \<and>
      gt_held (path_expire t now) \<subseteq> gt_held t"
    using E by auto
  obtain b t' where r: "path_insert_or_update t x now = (b, t')" by fastforce
  have sz: "gt_size (path_expire t now) = gt_size t" by (simp add: path_expire_slots)
  have held: "(g, e) \<in> gt_held (path_expire t now) \<Longrightarrow> (g, e) \<in> gt_held t" for g e
    using E(2) by auto
  have refl: "path_same_route e e" for e by (simp add: path_same_route_def)
  have step: "gt_inv t' \<and> gt_last_generation t \<le> gt_last_generation t' \<and> (\<forall>g e. (g, e) \<in> gt_held t' \<longrightarrow>
      (\<exists>e0. (g, e0) \<in> gt_held t \<and> path_same_route e0 e) \<or> gt_last_generation t < g)"
    if "path_replace_entry (path_expire t now) idx x = (True, t')" "idx < gt_size t" for idx
    using path_replace_entry_law [OF that(1) E(1)] that(2) sz E(3) held by metis
  show "gt_inv (snd (path_insert_or_update t x now)) \<and>
      gt_last_generation t \<le> gt_last_generation (snd (path_insert_or_update t x now)) \<and>
      (\<forall>g e. (g, e) \<in> gt_held (snd (path_insert_or_update t x now)) \<longrightarrow>
        (\<exists>e0. (g, e0) \<in> gt_held t \<and> path_same_route e0 e) \<or> gt_last_generation t < g)"
    using r
  proof (rule path_insert_cases)
    show ?thesis if "t' = path_expire t now"
      using that r E held refl by auto
  qed (use r step in auto)
qed (auto simp: path_expire_slots gt_inv_iff in_gt_held path_same_route_def)

section \<open>The table invariant\<close>

definition path_inv :: "path_table \<Rightarrow> bool" where
  "path_inv t \<longleftrightarrow> gt_inv t \<and> uniq_keys pe_destination_hash (gt_entries t)"

lemma path_inv_new [simp]: "path_inv (path_new n)"
  using gt_inv_new by (simp add: path_inv_def path_new_def) (simp add: gt_new_def)

lemma path_inv_insert: "path_inv t \<Longrightarrow> path_inv (snd (path_insert_or_update t e now))"
  using path.insert_held [of t e now] path.insert_uniq by (simp add: path_inv_def)

lemma path_inv_expire: "path_inv t \<Longrightarrow> path_inv (path_expire t now)"
  using path.expire_held [of t now]
  by (simp add: path_inv_def path_expire_slots uniq_keys_clear_where)

lemma path_inv_touch: "path_inv t \<Longrightarrow> path_inv (path_touch t d now)"
  by (auto simp: path_inv_def path_touch_def gt_inv_update_first path_touch_entry_def Let_def
      intro!: uniq_keys_update_first)

lemma path_inv_drop: "path_inv t \<Longrightarrow> path_inv (snd (path_drop t d))"
  by (auto simp: path_inv_def path_drop_def gt_inv_take uniq_keys_update_None split: option.split)

lemma path_inv_remove_interface: "path_inv t \<Longrightarrow> path_inv (path_remove_interface t i)"
  by (simp add: path_inv_def path_remove_interface_def gt_inv_clear_where)
     (simp add: gt_clear_where_def uniq_keys_clear_where)

lemma path_inv_clear: "path_inv t \<Longrightarrow> path_inv (path_clear t)"
  by (simp add: path_inv_def path_clear_def gt_inv_clear) (simp add: gt_clear_def)

lemmas path_inv_ops = path_inv_insert path_inv_expire path_inv_touch path_inv_drop
  path_inv_remove_interface path_inv_clear

lemma path_get_iff:
  "path_inv t \<Longrightarrow> path_get t d = Some e \<longleftrightarrow> Some e \<in> set (gt_entries t) \<and> pe_destination_hash e = d"
  by (simp add: path_get_def path_inv_def find_uniq_key)

lemma path_get_live_iff:
  "path_inv t \<Longrightarrow> path_get_live t d now = Some e \<longleftrightarrow>
     Some e \<in> set (gt_entries t) \<and> pe_destination_hash e = d \<and> now < pe_expires_ms e"
  using path_get_iff [of t d e]
  by (auto simp: path_get_live_def path_is_live_def split: option.splits)

section \<open>Properties\<close>

text \<open>C23. Anti-replay: while a destination's route is retained and live, an announce can only
  replace it by one that was emitted strictly later and carries a different random hash; every
  other outcome leaves the route as it was. So a replayed announce never changes a live route.\<close>

theorem path_update_strictly_newer:
  assumes "path_inv t" and "path_get_live t d now = Some old"
    and "path_insert_or_update t entry now = (b, t')"
    and "path_get t' d = Some new"
  shows "new = old \<or>
    b \<and> new = entry \<and> pe_random_hash new \<noteq> pe_random_hash old \<and>
    announce_emitted (pe_random_hash old) < announce_emitted (pe_random_hash new)"
proof -
  have old: "Some old \<in> set (gt_entries t)" "pe_destination_hash old = d" "now < pe_expires_ms old"
    using assms(1,2) by (simp_all add: path_get_live_iff)
  have inv': "path_inv t'" using path_inv_insert [OF assms(1), of entry now] assms(3) by simp
  have new: "Some new \<in> set (gt_entries t')" "pe_destination_hash new = d"
    using assms(4) inv' by (simp_all add: path_get_iff)
  have uniq: "x = old" if "Some x \<in> set (gt_entries t)" "pe_destination_hash x = d" for x
    using assms(1) that old uniq_keysD unfolding path_inv_def by metis
  show ?thesis
  proof (cases "new = entry")
    case False
    then have "Some new \<in> set (gt_entries t)"
      using path.insert_origin [of new t entry now] assms(3) new by simp
    with uniq new show ?thesis by simp
  next
    case True
    from assms(3) show ?thesis
    proof (rule path_insert_cases)
      assume "t' = path_expire t now"
      then have "Some new \<in> set (gt_entries t)"
        using new by (simp add: path_expire_slots Some_in_clear_where)
      with uniq new show ?thesis by simp
    next
      fix idx o'
      assume u: "b" "idx < gt_size t" "gt_entries (path_expire t now) ! idx = Some o'"
        "pe_destination_hash o' = pe_destination_hash entry" "path_should_replace o' entry now"
      have "Some o' \<in> set (gt_entries (path_expire t now))"
        using u(2,3) by (metis nth_mem length_clear_where path_expire_slots)
      then have "Some o' \<in> set (gt_entries t)" by (simp add: path_expire_slots Some_in_clear_where)
      then have "o' = old" using uniq u(4) True new by simp
      then show ?thesis
        using u True old(3)
        by (auto simp: path_should_replace_def Let_def path_is_live_def split: if_splits)
    next
      assume "position (\<lambda>s. is_some_and s
        (\<lambda>old. pe_destination_hash old = pe_destination_hash entry)) (gt_entries (path_expire t now)) = None"
      moreover have "Some old \<in> set (gt_entries (path_expire t now))"
        using old by (simp add: path_expire_slots Some_in_clear_where)
      ultimately show ?thesis
        using True new old by (force simp: position_None)
    qed
  qed
qed

text \<open>A bulk newcomer never displaces a live route outside the bulk class.\<close>

theorem bulk_never_evicts_non_bulk:
  assumes "Some x \<in> set (gt_entries t)" "now < pe_expires_ms x" "\<not> pe_bulk x"
    and "pe_destination_hash x \<noteq> pe_destination_hash entry" "pe_bulk entry"
  shows "Some x \<in> set (gt_entries (snd (path_insert_or_update t entry now)))"
proof -
  obtain b t' where r: "path_insert_or_update t entry now = (b, t')" by fastforce
  have x: "Some x \<in> set (gt_entries (path_expire t now))"
    using assms by (simp add: path_expire_slots Some_in_clear_where)
  have sz: "gt_size (path_expire t now) = gt_size t" by (simp add: path_expire_slots)
  have keep: "Some x \<in> set ((gt_entries (path_expire t now))[idx := v])"
    if "gt_entries (path_expire t now) ! idx \<noteq> Some x" for idx v
    using x that by (metis in_set_conv_nth length_list_update nth_list_update_neq)
  from r show ?thesis
  proof (rule path_insert_cases)
    fix idx o'
    assume "b" "gt_entries (path_expire t now) ! idx = Some o'"
      "pe_destination_hash o' = pe_destination_hash entry"
      "path_replace_entry (path_expire t now) idx entry = (True, t')"
    moreover from this have "o' \<noteq> x" using assms(4) by auto
    ultimately show ?thesis
      using keep [of idx "Some entry"] r by (auto dest!: path_replace_entry_slots)
  next
    fix idx
    assume p: "b" "path_replace_entry (path_expire t now) idx entry = (True, t')"
      "gt_entries (path_expire t now) ! idx = None \<or>
        (\<exists>v. gt_entries (path_expire t now) ! idx = Some v \<and> (pe_bulk entry \<longrightarrow> pe_bulk v))"
    then have "gt_entries (path_expire t now) ! idx \<noteq> Some x" using assms(3,5) by auto
    then show ?thesis
      using keep [of idx "Some entry"] r p by (auto dest!: path_replace_entry_slots)
  qed (use x r in auto)
qed


section \<open>Witnesses\<close>

definition sample_path :: "u8 \<Rightarrow> u8 \<Rightarrow> bool \<Rightarrow> path_entry" where
  "sample_path d emitted bulk =
     \<lparr>pe_destination_hash = replicate 16 d, pe_next_hop = None, pe_hops = 1, pe_interface_id = 0,
      pe_expires_ms = 1000, pe_last_seen_ms = 0, pe_packet_hash = replicate 32 0,
      pe_random_hash = replicate 9 0 @ [emitted], pe_public_key = replicate 64 0, pe_bulk = bulk\<rparr>"

definition sample_table :: path_table where
  "sample_table = snd (path_insert_or_update (path_new 1) (sample_path 7 5 False) 0)"

lemma sample_path_sel [simp]:
  "pe_destination_hash (sample_path d m b) = replicate 16 d" "pe_expires_ms (sample_path d m b) = 1000"
  "pe_bulk (sample_path d m b) = b" "pe_hops (sample_path d m b) = 1"
  "path_same_route (sample_path d m b) (sample_path d m' b')"
  by (simp_all add: sample_path_def path_same_route_def)

lemma sample_table_eq:
  "sample_table = \<lparr>gt_entries = [Some (sample_path 7 5 False)], gt_generations = [1],
     gt_last_generation = 1\<rparr>"
  by (simp add: sample_table_def path_insert_or_update_def path_new_def gt_new_def path_expire_def
      gt_clear_where_def clear_where_def path_replace_entry_def path_next_generation_def
      gt_next_generation_def gt_put_def checked_add_def)

lemma sample_table_inv: "path_inv sample_table"
  by (simp add: sample_table_eq path_inv_def gt_inv_def gt_tagged_def uniq_keys_def)

lemma announce_emitted_sample: "announce_emitted (pe_random_hash (sample_path d m b)) = ucast m"
  by (simp add: announce_emitted_def sample_path_def slice_def from_be_bytes_def numeral_eq_Suc)

lemma sample_update:
  "path_insert_or_update sample_table (sample_path 7 6 False) 10 =
     (True, \<lparr>gt_entries = [Some (sample_path 7 6 False)], gt_generations = [1],
       gt_last_generation = 1\<rparr>)"
proof -
  have "pe_random_hash (sample_path 7 6 False) \<noteq> pe_random_hash (sample_path 7 5 False)"
    by (simp add: sample_path_def)
  then show ?thesis
    by (simp add: sample_table_eq path_insert_or_update_def path_expire_def gt_clear_where_def
        clear_where_def path_is_live_def path_should_replace_def announce_emitted_sample Let_def
        path_replace_entry_def)
qed

theorem path_update_strictly_newer_witness:
  "path_get (snd (path_insert_or_update sample_table (sample_path 7 6 False) 10)) (replicate 16 7) =
     Some (sample_path 7 6 False) \<and>
   announce_emitted (pe_random_hash (sample_path 7 5 False)) <
     announce_emitted (pe_random_hash (sample_path 7 6 False))"
proof -
  have "path_get_live sample_table (replicate 16 7) 10 = Some (sample_path 7 5 False)"
    by (simp add: sample_table_eq path_get_live_def path_get_def path_is_live_def)
  moreover have "path_get (snd (path_insert_or_update sample_table (sample_path 7 6 False) 10))
      (replicate 16 7) = Some (sample_path 7 6 False)"
    by (simp add: sample_update path_get_def)
  moreover have "sample_path 7 6 False \<noteq> sample_path 7 5 False" by (simp add: sample_path_def)
  ultimately show ?thesis
    using path_update_strictly_newer [OF sample_table_inv _ sample_update,
        of "replicate 16 7" "sample_path 7 5 False" "sample_path 7 6 False"]
    by (simp add: sample_update)
qed

theorem bulk_never_evicts_non_bulk_witness:
  "Some (sample_path 7 5 False) \<in>
     set (gt_entries (snd (path_insert_or_update sample_table (sample_path 8 9 True) 10)))"
  by (rule bulk_never_evicts_non_bulk) (simp_all add: sample_table_eq)


end
