(* ===== verification/Codec.thy ===== *)
theory Codec
  imports Prelude
begin

text \<open>
  The contract every encoder and decoder pair of the program is held to: decoding the encoding of
  a well-formed value gives the value back. The theories of the wire formats interpret it on their
  own pairs.
\<close>

locale codec =
  fixes wf :: "'a \<Rightarrow> bool"
    and encode :: "'a \<Rightarrow> 'b"
    and decode :: "'b \<Rightarrow> 'a option"
  assumes decode_encode: "wf x \<Longrightarrow> decode (encode x) = Some x"
begin

lemma encode_eq_iff: "wf x \<Longrightarrow> wf y \<Longrightarrow> encode x = encode y \<longleftrightarrow> x = y"
  by (metis decode_encode option.inject)

lemma inj_on_encode: "inj_on encode {x. wf x}"
  by (rule inj_onI) (simp add: encode_eq_iff)

end

text \<open>A codec that is also canonical: what decodes is the encoding of a well-formed value, so
  that no two encodings stand for the same value.\<close>

locale canonical_codec = codec wf encode decode
  for wf :: "'a \<Rightarrow> bool" and encode :: "'a \<Rightarrow> 'b" and decode :: "'b \<Rightarrow> 'a option" +
  assumes encode_decode: "decode y = Some x \<Longrightarrow> wf x \<and> encode x = y"
begin

lemma decode_eq_Some_iff: "decode y = Some x \<longleftrightarrow> wf x \<and> encode x = y"
  using decode_encode encode_decode by blast

lemma decode_inj: "decode y = Some x \<Longrightarrow> decode z = Some x \<Longrightarrow> y = z"
  using encode_decode by metis

end

section \<open>Truncated big-endian fields\<close>

lemma take_to_le_bytes: "m \<le> n \<Longrightarrow> take m (to_le_bytes n w) = to_le_bytes m w"
proof (induction n arbitrary: m w)
  case (Suc n)
  then show ?case by (cases m) simp_all
qed simp

lemma from_le_bytes_append_zeros: "from_le_bytes (bs @ replicate k 0) = from_le_bytes bs"
proof -
  have "from_le_bytes (replicate k 0) = (0 :: 'a::len word)" by (induction k) simp_all
  then show "from_le_bytes (bs @ replicate k 0) = (from_le_bytes bs :: 'a word)"
    by (induction bs) simp_all
qed

lemma drop_to_be_bytes: "m \<le> n \<Longrightarrow> drop (n - m) (to_be_bytes n w) = to_be_bytes m w"
  by (simp add: to_be_bytes_def drop_rev take_to_le_bytes)

lemma from_be_bytes_zeros_append: "from_be_bytes (replicate k 0 @ bs) = from_be_bytes bs"
  by (simp add: from_be_bytes_def from_le_bytes_append_zeros)

lemma to_le_bytes_0: "to_le_bytes n (0 :: 'a::len word) = replicate n 0"
  by (induction n) simp_all

lemma to_be_bytes_0: "to_be_bytes n (0 :: 'a::len word) = replicate n 0"
  by (simp add: to_be_bytes_def to_le_bytes_0)

lemma from_le_bytes_take_bit:
  "take_bit (8 * length bs) (from_le_bytes bs) = (from_le_bytes bs :: 'a::len word)"
  by (rule bit_word_eqI) (auto simp: bit_take_bit_iff dest: bit_from_le_bytes)

lemma from_be_bytes_take_bit:
  "take_bit (8 * length bs) (from_be_bytes bs) = (from_be_bytes bs :: 'a::len word)"
  using from_le_bytes_take_bit [of "rev bs"] by (simp add: from_be_bytes_def)

end
