(* ===== verification/Announce_Control.thy ===== *)
theory Announce_Control
  imports Lora Codec
begin

text \<open>
  The announce regulators: \<^verbatim>\<open>src/announce_cap.rs\<close> (per-interface gate and release order),
  \<^verbatim>\<open>src/announce_admission.rs\<close> (token bucket for received announces) and
  \<^verbatim>\<open>src/announce_state.rs\<close> (the durable, strictly increasing 40-bit ordering value of locally
  created announces).
\<close>

section \<open>Announce cap\<close>

definition ANNOUNCE_CAP_PERMILLE :: u16 where "ANNOUNCE_CAP_PERMILLE = 20"

definition cap_floor :: "u16 \<Rightarrow> u64" where
  "cap_floor cap_permille = (if cap_permille = 0 then 1 else ucast cap_permille)"

definition spacing_ms :: "u32 \<Rightarrow> u16 \<Rightarrow> u64" where
  "spacing_ms tx_ms cap_permille = div_ceil (ucast tx_ms * 1000) (cap_floor cap_permille)"

definition bitrate_spacing_ms :: "nat \<Rightarrow> u64 \<Rightarrow> u16 \<Rightarrow> u64 option" where
  "bitrate_spacing_ms wire_len bitrate_bps cap_permille =
     (if bitrate_bps = 0 then None
      else let scaled_bits = sat_mul (of_nat wire_len) 8000000
           in Some (div_ceil scaled_bits (sat_mul bitrate_bps (cap_floor cap_permille))))"

definition lora_tx_ms :: "nat \<Rightarrow> lora_modem_config \<Rightarrow> u32" where
  "lora_tx_ms wire_len modem =
     (if wire_len \<le> LORA_FRAME_PAYLOAD_MAX then frame_airtime_ms modem (wire_len + 1)
      else sat_add (frame_airtime_ms modem (LORA_FRAME_PAYLOAD_MAX + 1))
             (frame_airtime_ms modem (wire_len - LORA_FRAME_PAYLOAD_MAX + 1)))"

definition lora_spacing_ms :: "nat \<Rightarrow> lora_modem_config \<Rightarrow> u16 \<Rightarrow> u64" where
  "lora_spacing_ms wire_len modem cap_permille = spacing_ms (lora_tx_ms wire_len modem) cap_permille"

definition release_precedes :: "u8 \<Rightarrow> u64 \<Rightarrow> u8 \<Rightarrow> u64 \<Rightarrow> bool" where
  "release_precedes h queued_ms other_hops other_queued_ms \<longleftrightarrow>
     h < other_hops \<or> (h = other_hops \<and> queued_ms < other_queued_ms)"

record announce_gate =
  gate_allowed_at_ms :: u64

definition GATE_OPEN :: announce_gate where
  "GATE_OPEN = \<lparr>gate_allowed_at_ms = 0\<rparr>"

definition gate_is_open :: "announce_gate \<Rightarrow> u64 \<Rightarrow> bool" where
  "gate_is_open g now_ms \<longleftrightarrow> now_ms \<ge> gate_allowed_at_ms g"

definition gate_charge :: "announce_gate \<Rightarrow> u64 \<Rightarrow> u64 \<Rightarrow> announce_gate" where
  "gate_charge g now_ms spacing = g\<lparr>gate_allowed_at_ms := sat_add now_ms spacing\<rparr>"

text \<open>The release order is a linear order on hop count and queueing time.\<close>

datatype release_key = ReleaseKey (rk_hops: u8) (rk_queued_ms: u64)

instantiation release_key :: linorder
begin

definition less_release_key :: "release_key \<Rightarrow> release_key \<Rightarrow> bool" where
  "less_release_key a b =
     release_precedes (rk_hops a) (rk_queued_ms a) (rk_hops b) (rk_queued_ms b)"

definition less_eq_release_key :: "release_key \<Rightarrow> release_key \<Rightarrow> bool" where
  "less_eq_release_key a b = (a = b \<or> a < b)"

instance
proof
  fix a b c :: release_key
  show "a < b \<longleftrightarrow> a \<le> b \<and> \<not> b \<le> a"
    by (cases a; cases b)
       (auto simp: less_eq_release_key_def less_release_key_def release_precedes_def)
  show "a \<le> a" by (simp add: less_eq_release_key_def)
  show "a \<le> b \<Longrightarrow> b \<le> c \<Longrightarrow> a \<le> c"
    by (cases a; cases b; cases c)
       (auto simp: less_eq_release_key_def less_release_key_def release_precedes_def)
  show "a \<le> b \<Longrightarrow> b \<le> a \<Longrightarrow> a = b"
    by (cases a; cases b)
       (auto simp: less_eq_release_key_def less_release_key_def release_precedes_def)
  show "a \<le> b \<or> b \<le> a"
    by (cases a; cases b)
       (auto simp: less_eq_release_key_def less_release_key_def release_precedes_def)
qed

end

lemma release_precedes_key:
  "release_precedes h q h' q' \<longleftrightarrow> ReleaseKey h q < ReleaseKey h' q'"
  by (simp add: less_release_key_def)

lemma div_ceil_mult_ge:
  assumes "b \<noteq> 0"
  shows "unat a \<le> unat (div_ceil a b) * unat (b :: 'a::len word)"
proof (cases "a mod b = 0")
  case True
  have "unat a = unat (a div b) * unat b + unat (a mod b)"
    by (simp add: unat_div unat_mod)
  with True show ?thesis by (simp add: div_ceil_def)
next
  case False
  have eq: "unat a = unat (a div b) * unat b + unat a mod unat b"
    by (simp add: unat_div)
  have pos: "0 < unat b" using assms by (simp add: unat_gt_0)
  then have r: "unat a mod unat b < unat b" by simp
  have "0 < a mod b" using False by (simp add: word_gt_0)
  have "unat (a div b) + 1 \<le> unat a"
  proof -
    have "unat a mod unat b \<noteq> 0" using False by (metis unat_mod unat_eq_0)
    moreover have "unat (a div b) \<le> unat (a div b) * unat b" using pos by simp
    ultimately show ?thesis using eq by linarith
  qed
  then have "unat (a div b) + 1 < 2 ^ LENGTH('a)"
    using unat_bound [of a] by linarith
  then have "unat (a div b + 1) = unat (a div b) + 1"
    by (simp only: unat_word_ariths(1) unat_1 mod_less)
  then have "unat (div_ceil a b) = unat (a div b) + 1"
    using \<open>0 < a mod b\<close> by (simp add: div_ceil_def)
  with eq r show ?thesis by simp
qed

text \<open>C29. The announce cap is respected: charging a gate for an announce that occupies its
  interface for \<open>tx\<close> milliseconds keeps the gate closed long enough that \<open>tx\<close> is at most the
  capped share (in permille, at least one) of the time until it reopens.\<close>

theorem announce_cap_respected:
  assumes "gate_is_open (gate_charge g now (spacing_ms tx cap)) later"
    and "unat now + unat (spacing_ms tx cap) < 2 ^ 64"
  shows "unat tx * 1000 \<le> (unat later - unat now) * unat (cap_floor cap)"
proof -
  have tx: "unat (ucast tx * 1000 :: u64) = unat tx * 1000"
  proof -
    have "unat tx < 2 ^ 32" using unat_bound [of tx] by simp
    then show ?thesis
      using unat_ucast_up [where 'a = 32 and 'b = 64, of tx] by (simp add: unat_word_ariths)
  qed
  have nz: "cap_floor cap \<noteq> 0"
    using unat_ucast_up [where 'a = 16 and 'b = 64, of cap]
    by (auto simp: cap_floor_def) (metis unat_eq_0)
  have "unat now + unat (spacing_ms tx cap) \<le> unat later"
    using assms by (simp add: gate_is_open_def gate_charge_def word_le_nat_alt unat_sat_add)
  then have "unat (spacing_ms tx cap) \<le> unat later - unat now" by linarith
  moreover have "unat tx * 1000 \<le> unat (spacing_ms tx cap) * unat (cap_floor cap)"
    using div_ceil_mult_ge [OF nz, of "ucast tx * 1000"] tx by (simp add: spacing_ms_def)
  ultimately show ?thesis by (meson le_trans mult_le_mono1)
qed

theorem announce_cap_respected_witness:
  "gate_is_open (gate_charge GATE_OPEN 100 (spacing_ms 37 20)) 1950 \<and>
   (37 :: nat) * 1000 \<le> (1950 - 100) * 20"
proof -
  have "gate_is_open (gate_charge GATE_OPEN 100 (spacing_ms 37 20)) 1950"
    by (simp add: gate_is_open_def gate_charge_def spacing_ms_def cap_floor_def div_ceil_def sat_add_def)
  then show ?thesis
    using announce_cap_respected [of GATE_OPEN 100 37 20 1950]
    by (simp add: spacing_ms_def cap_floor_def div_ceil_def)
qed

section \<open>Announce admission\<close>

record announce_admission_config =
  ac_steady_per_sec :: u16
  ac_grace_per_sec :: u16
  ac_grace_secs :: u32

definition ADMISSION_DISABLED :: announce_admission_config where
  "ADMISSION_DISABLED = \<lparr>ac_steady_per_sec = 0, ac_grace_per_sec = 0, ac_grace_secs = 0\<rparr>"

record announce_admission =
  aa_last_refill_ms :: u64
  aa_credit_milli :: u64
  aa_initialized :: bool

definition admission_new :: announce_admission where
  "admission_new = \<lparr>aa_last_refill_ms = 0, aa_credit_milli = 0, aa_initialized = False\<rparr>"

definition admission_rate :: "announce_admission_config \<Rightarrow> u64 \<Rightarrow> u16" where
  "admission_rate config now_ms =
     (let in_grace = now_ms < sat_mul (ucast (ac_grace_secs config)) 1000
      in if in_grace then ac_grace_per_sec config else ac_steady_per_sec config)"

definition admit ::
  "announce_admission \<Rightarrow> announce_admission_config \<Rightarrow> bool \<Rightarrow> u64 \<Rightarrow> bool \<times> announce_admission" where
  "admit a config path_response now_ms =
     (if path_response then (True, a)
      else let is_first = \<not> aa_initialized a;
               a = (if is_first then a\<lparr>aa_last_refill_ms := now_ms, aa_initialized := True\<rparr> else a);
               rate = admission_rate config now_ms
      in if rate = 0 then (True, a\<lparr>aa_last_refill_ms := now_ms, aa_credit_milli := 0\<rparr>)
      else let capacity = sat_mul (ucast rate) 1000;
               credit = (if is_first then capacity
                         else let elapsed = sat_sub now_ms (aa_last_refill_ms a)
                              in min (sat_add (aa_credit_milli a) (sat_mul elapsed (ucast rate))) capacity);
               a = a\<lparr>aa_credit_milli := credit, aa_last_refill_ms := now_ms\<rparr>
           in if aa_credit_milli a < 1000 then (False, a)
              else (True, a\<lparr>aa_credit_milli := aa_credit_milli a - 1000\<rparr>))"

text \<open>The number of announces admitted at the given times, path responses aside.\<close>

fun admitted :: "announce_admission \<Rightarrow> announce_admission_config \<Rightarrow> u64 list \<Rightarrow> nat" where
  "admitted a config [] = 0"
| "admitted a config (now # ts) =
     (case admit a config False now of (ok, a') \<Rightarrow> of_bool ok + admitted a' config ts)"

lemma admit_step:
  assumes "aa_initialized a" "admission_rate config now = rate" "rate \<noteq> 0"
    and "aa_last_refill_ms a \<le> now" "admit a config False now = (ok, a')"
  shows "aa_initialized a' \<and> aa_last_refill_ms a' = now \<and>
    unat (aa_credit_milli a') + 1000 * of_bool ok \<le>
      unat (aa_credit_milli a) + (unat now - unat (aa_last_refill_ms a)) * unat rate"
proof -
  let ?credit = "min (sat_add (aa_credit_milli a)
      (sat_mul (sat_sub now (aa_last_refill_ms a)) (ucast rate))) (sat_mul (ucast rate) 1000)"
  have "admit a config False now =
      (if ?credit < 1000 then (False, a\<lparr>aa_credit_milli := ?credit, aa_last_refill_ms := now\<rparr>)
       else (True, a\<lparr>aa_credit_milli := ?credit - 1000, aa_last_refill_ms := now\<rparr>))"
    by (auto simp: admit_def Let_def assms(1-3))
  then have r: "(ok, a') =
      (if ?credit < 1000 then (False, a\<lparr>aa_credit_milli := ?credit, aa_last_refill_ms := now\<rparr>)
       else (True, a\<lparr>aa_credit_milli := ?credit - 1000, aa_last_refill_ms := now\<rparr>))"
    using assms(5) by simp
  have "?credit \<le> sat_add (aa_credit_milli a) (sat_mul (sat_sub now (aa_last_refill_ms a)) (ucast rate))"
    by (rule min.cobounded1)
  then have c: "unat ?credit \<le>
      unat (aa_credit_milli a) + (unat now - unat (aa_last_refill_ms a)) * unat rate"
    using unat_ucast_up [where 'a = 16 and 'b = 64, of rate]
    by (simp add: word_le_nat_alt unat_sat_add unat_sat_mul unat_sat_sub) linarith
  show ?thesis
  proof (cases "?credit < 1000")
    case True
    with r c assms(1) show ?thesis by simp
  next
    case False
    then have "1000 \<le> ?credit" by (simp add: not_less)
    then have "unat (?credit - 1000) + 1000 = unat ?credit"
      by (simp add: unat_sub word_le_nat_alt)
    with False r c assms(1) show ?thesis by simp
  qed
qed

lemma admitted_bound:
  assumes "aa_initialized a" "sorted (aa_last_refill_ms a # ts)"
    and "\<forall>t \<in> set ts. admission_rate config t = rate" "rate \<noteq> 0"
  shows "1000 * admitted a config ts \<le> unat (aa_credit_milli a) +
    (unat (last (aa_last_refill_ms a # ts)) - unat (aa_last_refill_ms a)) * unat rate"
  using assms(1-3)
proof (induction ts arbitrary: a)
  case (Cons t ts)
  obtain ok a' where ad: "admit a config False t = (ok, a')" by fastforce
  note step = admit_step [OF Cons.prems(1) _ assms(4) _ ad]
  have s: "aa_initialized a'" "aa_last_refill_ms a' = t"
    "unat (aa_credit_milli a') + 1000 * of_bool ok \<le>
      unat (aa_credit_milli a) + (unat t - unat (aa_last_refill_ms a)) * unat rate"
    using step Cons.prems by auto
  have IH: "1000 * admitted a' config ts \<le>
      unat (aa_credit_milli a') + (unat (last (t # ts)) - unat t) * unat rate"
    using Cons.IH [of a'] s(1,2) Cons.prems(2,3) by simp
  have le: "unat (aa_last_refill_ms a) \<le> unat t" "unat t \<le> unat (last (t # ts))"
    using Cons.prems(2) by (cases ts rule: rev_cases; auto simp: word_le_nat_alt)+
  then have "(unat t - unat (aa_last_refill_ms a)) * unat rate +
      (unat (last (t # ts)) - unat t) * unat rate =
      (unat (last (t # ts)) - unat (aa_last_refill_ms a)) * unat rate"
    by (simp flip: add_mult_distrib)
  moreover have "1000 * admitted a config (t # ts) = 1000 * of_bool ok + 1000 * admitted a' config ts"
    by (simp add: ad)
  ultimately show ?case using s(3) IH by simp
qed simp

text \<open>C30. The announce admission is a token bucket: from any reachable state, while the rate in
  force is \<open>rate\<close> per second, the number of announces admitted up to a time is bounded by the
  credit in hand plus the rate times the time elapsed since the last refill.\<close>

theorem announce_admission_bounded:
  assumes "aa_initialized a" "sorted (aa_last_refill_ms a # ts)" "ts \<noteq> []"
    and "\<forall>t \<in> set ts. admission_rate config t = rate" "rate \<noteq> 0"
  shows "1000 * admitted a config ts \<le> unat (aa_credit_milli a) +
    (unat (last ts) - unat (aa_last_refill_ms a)) * unat rate"
  using admitted_bound [OF assms(1,2,4,5)] assms(3) by simp

theorem announce_admission_bounded_witness:
  "1000 * admitted \<lparr>aa_last_refill_ms = 100, aa_credit_milli = 2000, aa_initialized = True\<rparr>
     \<lparr>ac_steady_per_sec = 2, ac_grace_per_sec = 0, ac_grace_secs = 0\<rparr> [100, 100, 100, 1100] \<le>
   2000 + (1100 - 100) * 2"
  using announce_admission_bounded
    [of "\<lparr>aa_last_refill_ms = 100, aa_credit_milli = 2000, aa_initialized = True\<rparr>"
      "[100, 100, 100, 1100]" "\<lparr>ac_steady_per_sec = 2, ac_grace_per_sec = 0, ac_grace_secs = 0\<rparr>" 2]
  by (simp add: admission_rate_def sat_mul_def)

section \<open>Ordering state of local announces\<close>

definition ANNOUNCE_TIME_MAX :: u64 where "ANNOUNCE_TIME_MAX = push_bit 40 1 - 1"
definition ANNOUNCE_WIRE_STATE_BLOB_LEN :: nat where "ANNOUNCE_WIRE_STATE_BLOB_LEN = 7"
definition ANNOUNCE_WIRE_STATE_VERSION :: u8 where "ANNOUNCE_WIRE_STATE_VERSION = 1"
definition HAS_LAST_VALUE :: u8 where "HAS_LAST_VALUE = 0x01"

lemmas wire_state_consts = ANNOUNCE_TIME_MAX_def ANNOUNCE_WIRE_STATE_BLOB_LEN_def
  ANNOUNCE_WIRE_STATE_VERSION_def HAS_LAST_VALUE_def

datatype announce_wire_error = InvalidBlob | OutputTooSmall | Exhausted | StaleCandidate

record announce_wire_state =
  aw_last_value :: "u64 option"

definition wire_state_new :: announce_wire_state where
  "wire_state_new = \<lparr>aw_last_value = None\<rparr>"

definition prepare_next ::
  "announce_wire_state \<Rightarrow> u64 option \<Rightarrow> announce_wire_error + announce_wire_state option" where
  "prepare_next s wall_secs =
     (case wall_secs of
        Some now \<Rightarrow>
          if now > ANNOUNCE_TIME_MAX then Inl Exhausted
          else if is_some_and (aw_last_value s) (\<lambda>prev. now \<le> prev) then Inr None
          else Inr (Some \<lparr>aw_last_value = Some now\<rparr>)
      | None \<Rightarrow>
          (case aw_last_value s of
             Some prev \<Rightarrow>
               (case checked_add prev 1 of
                  None \<Rightarrow> Inl Exhausted
                | Some v \<Rightarrow> if v \<le> ANNOUNCE_TIME_MAX then Inr (Some \<lparr>aw_last_value = Some v\<rparr>)
                             else Inl Exhausted)
           | None \<Rightarrow> Inr (Some \<lparr>aw_last_value = Some 0\<rparr>)))"

definition commit_prepared ::
  "announce_wire_state \<Rightarrow> announce_wire_state \<Rightarrow> (announce_wire_error + u64) \<times> announce_wire_state" where
  "commit_prepared s prepared =
     (case aw_last_value prepared of
        None \<Rightarrow> (Inl StaleCandidate, s)
      | Some next \<Rightarrow>
          if is_some_and (aw_last_value s) (\<lambda>prev. next \<le> prev) then (Inl StaleCandidate, s)
          else (Inr next, s\<lparr>aw_last_value := Some next\<rparr>))"

definition wire_state_serialize_into ::
  "announce_wire_state \<Rightarrow> bytes \<Rightarrow> (announce_wire_error + nat) \<times> bytes" where
  "wire_state_serialize_into s out =
     (if length out < ANNOUNCE_WIRE_STATE_BLOB_LEN then (Inl OutputTooSmall, out)
      else let out = out[0 := ANNOUNCE_WIRE_STATE_VERSION,
                         1 := (if aw_last_value s \<noteq> None then HAS_LAST_VALUE else 0)];
               value = (case aw_last_value s of Some v \<Rightarrow> v | None \<Rightarrow> 0)
           in if value > ANNOUNCE_TIME_MAX then (Inl InvalidBlob, out)
              else (Inr ANNOUNCE_WIRE_STATE_BLOB_LEN, overwrite out 2 (drop 3 (to_be_bytes 8 value))))"

definition wire_state_deserialize :: "bytes \<Rightarrow> announce_wire_error + announce_wire_state" where
  "wire_state_deserialize blob =
     (if length blob \<noteq> ANNOUNCE_WIRE_STATE_BLOB_LEN \<or> blob ! 0 \<noteq> ANNOUNCE_WIRE_STATE_VERSION \<or>
         blob ! 1 AND NOT HAS_LAST_VALUE \<noteq> 0
      then Inl InvalidBlob
      else let value = from_be_bytes (replicate 3 0 @ slice 2 7 blob) :: u64
           in if blob ! 1 AND HAS_LAST_VALUE \<noteq> 0 then Inr \<lparr>aw_last_value = Some value\<rparr>
              else if value \<noteq> 0 then Inl InvalidBlob
              else Inr \<lparr>aw_last_value = None\<rparr>)"

text \<open>The values a sequence of commit attempts puts on the air.\<close>

fun committed :: "announce_wire_state \<Rightarrow> announce_wire_state list \<Rightarrow> u64 list" where
  "committed s [] = []"
| "committed s (p # ps) =
     (case commit_prepared s p of
        (Inr v, s') \<Rightarrow> v # committed s' ps
      | (Inl _, s') \<Rightarrow> committed s' ps)"

lemma committed_above:
  "v \<in> set (committed s ps) \<Longrightarrow> is_some_and (aw_last_value s) (\<lambda>prev. prev < v) \<or> aw_last_value s = None"
proof (induction ps arbitrary: s)
  case (Cons p ps)
  then show ?case
    by (cases "aw_last_value s"; fastforce simp: commit_prepared_def split: option.splits if_splits)
qed simp

text \<open>Local announces are strictly ordered: whatever candidates are offered, the values that
  are committed form a strictly increasing sequence, above the value the state started from.\<close>

theorem committed_strictly_increasing:
  "sorted_wrt (<) (committed s ps) \<and>
   (\<forall>prev. aw_last_value s = Some prev \<longrightarrow> (\<forall>v \<in> set (committed s ps). prev < v))"
proof (induction ps arbitrary: s)
  case Nil
  then show ?case by simp
next
  case (Cons p ps)
  have above: "\<forall>v \<in> set (committed s (p # ps)). prev < v" if "aw_last_value s = Some prev" for prev
    using committed_above [of _ s "p # ps"] that by auto
  show ?case
  proof (cases "commit_prepared s p")
    case (Pair r s')
    show ?thesis
    proof (cases r)
      case (Inr v)
      then have "aw_last_value s' = Some v"
        using Pair by (auto simp: commit_prepared_def split: option.splits if_splits)
      with Cons.IH [of s'] Pair Inr above show ?thesis by simp
    next
      case (Inl e)
      with Cons.IH [of s'] Pair above show ?thesis by simp
    qed
  qed
qed

theorem committed_strictly_increasing_witness:
  "committed wire_state_new [\<lparr>aw_last_value = Some 5\<rparr>, \<lparr>aw_last_value = Some 3\<rparr>, \<lparr>aw_last_value = Some 9\<rparr>] =
     [5, 9] \<and>
   sorted_wrt (<) (committed wire_state_new
     [\<lparr>aw_last_value = Some 5\<rparr>, \<lparr>aw_last_value = Some 3\<rparr>, \<lparr>aw_last_value = Some 9\<rparr>])"
  using committed_strictly_increasing [of wire_state_new
      "[\<lparr>aw_last_value = Some 5\<rparr>, \<lparr>aw_last_value = Some 3\<rparr>, \<lparr>aw_last_value = Some 9\<rparr>]"]
  by (simp add: wire_state_new_def commit_prepared_def)

section \<open>The stored form of the ordering state\<close>

definition wire_state_wf :: "announce_wire_state \<Rightarrow> bool" where
  "wire_state_wf s \<longleftrightarrow> \<not> is_some_and (aw_last_value s) (\<lambda>v. v > ANNOUNCE_TIME_MAX)"

definition wire_state_blob :: "announce_wire_state \<Rightarrow> bytes" where
  "wire_state_blob s = snd (wire_state_serialize_into s (replicate ANNOUNCE_WIRE_STATE_BLOB_LEN 0))"

definition wire_state_of_blob :: "bytes \<Rightarrow> announce_wire_state option" where
  "wire_state_of_blob b = (case wire_state_deserialize b of Inl _ \<Rightarrow> None | Inr s \<Rightarrow> Some s)"

lemma announce_time_max: "(v :: u64) \<le> ANNOUNCE_TIME_MAX \<longleftrightarrow> take_bit 40 v = v"
proof -
  have "v \<le> ANNOUNCE_TIME_MAX \<longleftrightarrow> unat v < 2 ^ 40"
    by (auto simp: word_le_nat_alt ANNOUNCE_TIME_MAX_def)
  also have "\<dots> \<longleftrightarrow> take_bit 40 v = v"
    by (metis take_bit_nat_eq_self_iff unsigned_take_bit_eq word_unat_eq_iff)
  finally show ?thesis .
qed

lemma wire_state_blob_eq:
  assumes "wire_state_wf s"
  shows "wire_state_blob s =
    [1, if aw_last_value s \<noteq> None then 1 else 0] @
    to_be_bytes 5 (case aw_last_value s of Some v \<Rightarrow> v | None \<Rightarrow> 0)"
proof -
  have d: "drop 3 (to_be_bytes 8 v) = to_be_bytes 5 v" for v :: u64
    using drop_to_be_bytes [of 5 8 v] by simp
  have "\<not> (case aw_last_value s of Some v \<Rightarrow> v | None \<Rightarrow> 0) > ANNOUNCE_TIME_MAX"
    using assms by (cases "aw_last_value s") (auto simp: wire_state_wf_def wire_state_consts)
  moreover have "replicate 7 (0 :: u8) = [0, 0, 0, 0, 0, 0, 0]" by (simp add: numeral_eq_Suc)
  ultimately show ?thesis
    by (simp add: wire_state_blob_def wire_state_serialize_into_def Let_def d overwrite_def
        ANNOUNCE_WIRE_STATE_BLOB_LEN_def ANNOUNCE_WIRE_STATE_VERSION_def HAS_LAST_VALUE_def)
qed

lemma flag_byte_cases: "(b :: u8) AND NOT 1 = 0 \<longleftrightarrow> b = 0 \<or> b = 1"
proof
  assume "b AND NOT 1 = 0"
  then have "\<not> bit b n" if "n \<noteq> 0" for n
    using that by (metis bit_0_eq bit_1_iff bit_and_iff bit_not_iff bot_apply bot_bool_def
        impossible_bit mult_cancel_left1 possible_bit_word)
  then have "bit b n = bit (of_bool (bit b 0) :: u8) n" for n
    by (cases n) (auto simp: bit_1_iff)
  then have "b = of_bool (bit b 0)" by (intro bit_word_eqI) blast
  then show "b = 0 \<or> b = 1" by (cases "bit b 0") auto
qed auto

interpretation wire_state: canonical_codec wire_state_wf wire_state_blob wire_state_of_blob
proof unfold_locales
  fix s assume wf: "wire_state_wf s"
  let ?v = "case aw_last_value s of Some v \<Rightarrow> v | None \<Rightarrow> 0"
  have v: "take_bit 40 ?v = ?v"
    using wf announce_time_max by (cases "aw_last_value s") (auto simp: wire_state_wf_def not_less)
  have "from_be_bytes (replicate 3 0 @ to_be_bytes 5 ?v) = ?v"
    using v by (simp only: from_be_bytes_zeros_append from_to_be_bytes) simp
  moreover have "slice 2 7 (wire_state_blob s) = to_be_bytes 5 ?v"
    by (simp add: wire_state_blob_eq [OF wf] slice_def)
  moreover have "length (wire_state_blob s) = 7" "wire_state_blob s ! 0 = 1"
    "wire_state_blob s ! 1 = (if aw_last_value s \<noteq> None then 1 else 0)"
    by (simp_all add: wire_state_blob_eq [OF wf])
  ultimately have "wire_state_deserialize (wire_state_blob s) = Inr \<lparr>aw_last_value = aw_last_value s\<rparr>"
    by (cases "aw_last_value s")
       (simp_all add: wire_state_deserialize_def Let_def ANNOUNCE_WIRE_STATE_BLOB_LEN_def
         ANNOUNCE_WIRE_STATE_VERSION_def HAS_LAST_VALUE_def)
  then show "wire_state_of_blob (wire_state_blob s) = Some s"
    by (simp add: wire_state_of_blob_def)
next
  fix b s assume "wire_state_of_blob b = Some s"
  then have d: "wire_state_deserialize b = Inr s"
    by (auto simp: wire_state_of_blob_def split: sum.splits)
  let ?v = "from_be_bytes (slice 2 7 b) :: u64"
  have len: "length b = 7" "b ! 0 = 1" "b ! 1 AND NOT 1 = 0"
    using d by (auto simp: wire_state_deserialize_def ANNOUNCE_WIRE_STATE_BLOB_LEN_def
        ANNOUNCE_WIRE_STATE_VERSION_def HAS_LAST_VALUE_def split: if_splits)
  have l5: "length (slice 2 7 b) = 5" using len by simp
  have b: "b = [b ! 0, b ! 1] @ slice 2 7 b"
    using len(1) by (cases b; cases "tl b") (auto simp: slice_def)
  have enc: "to_be_bytes 5 ?v = slice 2 7 b"
    using to_from_be_bytes [where 'a = 64, of "slice 2 7 b"] l5 by simp
  have v40: "take_bit 40 ?v = ?v"
    using from_be_bytes_take_bit [where 'a = 64, of "slice 2 7 b"] l5 by simp
  have s: "s = (if b ! 1 = 1 then \<lparr>aw_last_value = Some ?v\<rparr> else \<lparr>aw_last_value = None\<rparr>)"
    "b ! 1 = 0 \<longrightarrow> ?v = 0"
    using d len flag_byte_cases [of "b ! 1"]
    by (auto simp: wire_state_deserialize_def Let_def HAS_LAST_VALUE_def from_be_bytes_zeros_append
        simp flip: replicate_Suc split: if_splits)
  have wf: "wire_state_wf s"
    using s(1) v40 announce_time_max by (simp add: wire_state_wf_def not_less)
  have "wire_state_blob s = [b ! 0, b ! 1] @ slice 2 7 b"
    unfolding wire_state_blob_eq [OF wf] using s enc len flag_byte_cases [of "b ! 1"] by auto
  then have "wire_state_blob s = b" using b by simp
  with wf show "wire_state_wf s \<and> wire_state_blob s = b" by simp
qed

end
