(* ===== verification/Announce_Tables.thy ===== *)
theory Announce_Tables
  imports Path_Table Announce_Control
begin

text \<open>
  \<^verbatim>\<open>AnnounceCache\<close> and \<^verbatim>\<open>AnnounceSchedule\<close> of \<^verbatim>\<open>src/tables.rs\<close>: the announces kept to answer path
  requests, and the rebroadcasts still to be sent. A packet buffer inside an entry is represented
  by its visible bytes.
\<close>

section \<open>Announce cache\<close>

record cached_announce =
  ca_destination_hash :: hash16
  ca_raw :: bytes
  ca_hops :: u8
  ca_expires_ms :: u64
  ca_bulk :: bool

type_synonym announce_cache = "cached_announce option list"

definition ac_new :: "nat \<Rightarrow> announce_cache" where
  "ac_new n = replicate n None"

definition ac_clear :: "announce_cache \<Rightarrow> announce_cache" where
  "ac_clear t = replicate (length t) None"

definition ac_get :: "announce_cache \<Rightarrow> hash16 \<Rightarrow> u64 \<Rightarrow> cached_announce option" where
  "ac_get t destination_hash now_ms =
     List.find (\<lambda>entry. ca_destination_hash entry = destination_hash \<and> now_ms < ca_expires_ms entry)
       (somes t)"

definition ac_expire :: "announce_cache \<Rightarrow> u64 \<Rightarrow> announce_cache" where
  "ac_expire t now_ms = clear_where (\<lambda>entry. now_ms \<ge> ca_expires_ms entry) t"

definition ac_insert :: "announce_cache \<Rightarrow> cached_announce \<Rightarrow> u64 \<Rightarrow> announce_cache" where
  "ac_insert t entry now_ms =
     (let t = ac_expire t now_ms
      in case position (\<lambda>s. is_some_and s (\<lambda>old. ca_destination_hash old = ca_destination_hash entry)) t of
           Some idx \<Rightarrow> t[idx := Some entry]
         | None \<Rightarrow>
             (case or_else (position (\<lambda>s. s = None) t)
                     (class_victim t (ca_bulk entry) ca_bulk ca_expires_ms) of
                Some idx \<Rightarrow> t[idx := Some entry]
              | None \<Rightarrow> t))"

definition ac_retain_paths :: "announce_cache \<Rightarrow> path_table \<Rightarrow> u64 \<Rightarrow> announce_cache" where
  "ac_retain_paths t paths now_ms =
     clear_where (\<lambda>entry. path_get_live paths (ca_destination_hash entry) now_ms = None) t"

section \<open>Announce schedule\<close>

record scheduled_announce =
  sa_destination_hash :: hash16
  sa_packet :: bytes
  sa_interface_id :: interface_id
  sa_due_ms :: u64
  sa_expires_ms :: u64
  sa_block_rebroadcast :: bool
  sa_hops :: u8
  sa_retries :: u8
  sa_local_rebroadcasts :: u8
  sa_pending_targets :: u8

type_synonym announce_schedule = "scheduled_announce option list"

definition PENDING_ONLY :: u64 where "PENDING_ONLY = - 1"

definition pending_only :: "scheduled_announce \<Rightarrow> bool" where
  "pending_only s \<longleftrightarrow> sa_due_ms s = PENDING_ONLY"

definition as_new :: "nat \<Rightarrow> announce_schedule" where
  "as_new n = replicate n None"

definition as_clear :: "announce_schedule \<Rightarrow> announce_schedule" where
  "as_clear t = replicate (length t) None"

definition as_expire :: "announce_schedule \<Rightarrow> u64 \<Rightarrow> announce_schedule" where
  "as_expire t now_ms = clear_where (\<lambda>entry. now_ms \<ge> sa_expires_ms entry) t"

definition last_released_pending :: "announce_schedule \<Rightarrow> nat option" where
  "last_released_pending t =
     map_option fst (best_slot
       (\<lambda>entry worst. release_precedes (sa_hops worst) (sa_expires_ms worst)
                        (sa_hops entry) (sa_expires_ms entry))
       (map (filter_slot pending_only) t))"

definition as_insert :: "announce_schedule \<Rightarrow> scheduled_announce \<Rightarrow> u64 \<Rightarrow> announce_schedule" where
  "as_insert t entry now_ms =
     (let t = as_expire t now_ms
      in case position (\<lambda>s. is_some_and s (\<lambda>old. sa_destination_hash old = sa_destination_hash entry)) t of
           Some idx \<Rightarrow> t[idx := Some entry]
         | None \<Rightarrow>
             (case or_else (or_else (position (\<lambda>s. s = None) t) (last_released_pending t))
                     (oldest_index t sa_expires_ms) of
                Some idx \<Rightarrow> t[idx := Some entry]
              | None \<Rightarrow> t))"

definition slot_bit :: "nat \<Rightarrow> u8 option" where
  "slot_bit slot = (if slot < 8 then Some (push_bit slot 1) else None)"

definition owed :: "u8 \<Rightarrow> scheduled_announce \<Rightarrow> bool" where
  "owed b entry \<longleftrightarrow> sa_pending_targets entry AND b \<noteq> 0"

definition release_pending ::
  "announce_schedule \<Rightarrow> nat \<Rightarrow> u64 \<Rightarrow> scheduled_announce option \<times> announce_schedule" where
  "release_pending t slot now_ms =
     (let t = as_expire t now_ms
      in case slot_bit slot of
           None \<Rightarrow> (None, t)
         | Some b \<Rightarrow>
             (case best_slot
                     (\<lambda>entry best. release_precedes (sa_hops entry) (sa_expires_ms entry)
                                     (sa_hops best) (sa_expires_ms best))
                     (map (filter_slot (owed b)) t) of
                None \<Rightarrow> (None, t)
              | Some (idx, entry) \<Rightarrow>
                  let released = entry\<lparr>sa_pending_targets := sa_pending_targets entry AND NOT b\<rparr>
                  in (Some released,
                      t[idx := (if sa_pending_targets released \<noteq> 0 \<or> \<not> pending_only released
                                then Some released else None)])))"

definition clear_target_entry :: "u8 \<Rightarrow> scheduled_announce \<Rightarrow> scheduled_announce option" where
  "clear_target_entry b scheduled =
     (let scheduled = scheduled\<lparr>sa_pending_targets := sa_pending_targets scheduled AND NOT b\<rparr>
      in if sa_pending_targets scheduled = 0 \<and> pending_only scheduled then None else Some scheduled)"

definition clear_target :: "announce_schedule \<Rightarrow> nat \<Rightarrow> announce_schedule" where
  "clear_target t slot =
     (case slot_bit slot of
        None \<Rightarrow> t
      | Some b \<Rightarrow> map (\<lambda>s. Option.bind s (clear_target_entry b)) t)"

definition pop_due :: "announce_schedule \<Rightarrow> u64 \<Rightarrow> scheduled_announce option \<times> announce_schedule" where
  "pop_due t now_ms =
     (let t = as_expire t now_ms
      in case position (\<lambda>s. is_some_and s (\<lambda>entry. now_ms \<ge> sa_due_ms entry)) t of
           None \<Rightarrow> (None, t)
         | Some idx \<Rightarrow> (t ! idx, t[idx := None]))"

text \<open>A mutation \<open>f\<close> through the reference that \<^verbatim>\<open>get_mut\<close> returns.\<close>

definition as_get :: "announce_schedule \<Rightarrow> hash16 \<Rightarrow> scheduled_announce option" where
  "as_get t destination_hash =
     List.find (\<lambda>entry. sa_destination_hash entry = destination_hash) (somes t)"

definition as_get_mut ::
  "(scheduled_announce \<Rightarrow> scheduled_announce) \<Rightarrow> announce_schedule \<Rightarrow> hash16 \<Rightarrow> announce_schedule" where
  "as_get_mut f t destination_hash =
     update_first (\<lambda>entry. sa_destination_hash entry = destination_hash) f t"

definition as_remove :: "announce_schedule \<Rightarrow> hash16 \<Rightarrow> announce_schedule" where
  "as_remove t destination_hash =
     clear_where (\<lambda>entry. sa_destination_hash entry = destination_hash) t"

definition as_remove_interface :: "announce_schedule \<Rightarrow> interface_id \<Rightarrow> announce_schedule" where
  "as_remove_interface t interface = clear_where (\<lambda>entry. sa_interface_id entry = interface) t"

section \<open>The tables implement their interface\<close>

interpretation ac: expiring_table "\<lambda>t. t" ca_destination_hash ca_expires_ms ac_expire ac_insert
proof unfold_locales
  show "Some x \<in> set (ac_insert t e now) \<Longrightarrow> x = e \<or> Some x \<in> set t \<and> now < ca_expires_ms x"
    for x t e now
    by (auto simp: ac_insert_def ac_expire_def Let_def Some_in_clear_where not_le
        dest!: Some_in_update split: option.splits)
  show "uniq_keys ca_destination_hash t \<Longrightarrow> uniq_keys ca_destination_hash (ac_insert t e now)" for t e now
    by (auto simp: ac_insert_def ac_expire_def Let_def uniq_keys_clear_where
        intro!: uniq_keys_place split: option.splits)
qed (auto simp: ac_insert_def ac_expire_def Let_def split: option.split)

interpretation as: expiring_table "\<lambda>t. t" sa_destination_hash sa_expires_ms as_expire as_insert
proof unfold_locales
  show "Some x \<in> set (as_insert t e now) \<Longrightarrow> x = e \<or> Some x \<in> set t \<and> now < sa_expires_ms x"
    for x t e now
    by (auto simp: as_insert_def as_expire_def Let_def Some_in_clear_where not_le
        dest!: Some_in_update split: option.splits)
  show "uniq_keys sa_destination_hash t \<Longrightarrow> uniq_keys sa_destination_hash (as_insert t e now)" for t e now
    by (auto simp: as_insert_def as_expire_def Let_def uniq_keys_clear_where
        intro!: uniq_keys_place split: option.splits)
qed (auto simp: as_insert_def as_expire_def Let_def split: option.split)

section \<open>Release of owed announces\<close>

abbreviation sa_key :: "scheduled_announce \<Rightarrow> release_key" where
  "sa_key e \<equiv> ReleaseKey (sa_hops e) (sa_expires_ms e)"

lemma release_pending_cases:
  obtains (none) "release_pending t slot now = (None, as_expire t now)"
      "\<And>b e. slot_bit slot = Some b \<Longrightarrow> Some e \<in> set (as_expire t now) \<Longrightarrow> \<not> owed b e"
  | (some) b idx e r where "slot_bit slot = Some b" "idx < length t" "as_expire t now ! idx = Some e"
      "owed b e" "r = e\<lparr>sa_pending_targets := sa_pending_targets e AND NOT b\<rparr>"
      "\<And>x. Some x \<in> set (as_expire t now) \<Longrightarrow> owed b x \<Longrightarrow> sa_key e \<le> sa_key x"
      "release_pending t slot now = (Some r, (as_expire t now)[idx :=
         (if sa_pending_targets r \<noteq> 0 \<or> \<not> pending_only r then Some r else None)])"
proof -
  let ?t = "as_expire t now"
  let ?better = "\<lambda>entry best. release_precedes (sa_hops entry) (sa_expires_ms entry)
                                (sa_hops best) (sa_expires_ms best)"
  have len: "length ?t = length t" by (simp add: as_expire_def)
  show thesis
  proof (cases "slot_bit slot")
    case None
    then show thesis by (intro none) (simp_all add: release_pending_def Let_def)
  next
    case b: (Some b)
    let ?c = "map (filter_slot (owed b)) ?t"
    have in_c: "Some x \<in> set ?c \<longleftrightarrow> Some x \<in> set ?t \<and> owed b x" for x
      by (force simp: filter_slot_eq_Some image_iff dest: sym)
    show thesis
    proof (cases "best_slot ?better ?c")
      case None
      then have "somes ?c = []" by (simp add: best_slot_None)
      then have "Some x \<notin> set ?c" for x by (metis empty_iff list.set(1) set_somes)
      then show thesis
        using None b in_c by (intro none) (auto simp: release_pending_def Let_def)
    next
      case (Some p)
      obtain idx e where p: "p = (idx, e)" by (cases p)
      have B: "best_slot ?better ?c = Some (idx, e)" using Some p by simp
      have idx: "idx < length t" "?t ! idx = Some e" "owed b e"
        using best_slot_Some [OF B] len by (auto simp: filter_slot_eq_Some)
      have "\<forall>y \<in> set (somes ?c). \<not> ?better y e"
        by (rule best_slot_least [OF _ _ B, THEN conjunct2])
           (auto simp: release_precedes_key)
      then have "sa_key e \<le> sa_key x" if "Some x \<in> set ?t" "owed b x" for x
        using in_c [of x] that by (simp add: release_precedes_key not_less)
      with idx b B show thesis
        by (intro some [of b idx e]) (auto simp: release_pending_def Let_def)
    qed
  qed
qed

lemma release_pending_uniq:
  assumes "uniq_keys sa_destination_hash t"
  shows "uniq_keys sa_destination_hash (snd (release_pending t slot now))"
proof -
  have u: "uniq_keys sa_destination_hash (as_expire t now)"
    using assms by (simp add: as_expire_def uniq_keys_clear_where)
  show ?thesis
  proof (rule release_pending_cases [of t slot now])
    fix b idx e r
    assume r: "idx < length t" "as_expire t now ! idx = Some e"
      "r = e\<lparr>sa_pending_targets := sa_pending_targets e AND NOT b\<rparr>"
      "release_pending t slot now = (Some r, (as_expire t now)[idx :=
         (if sa_pending_targets r \<noteq> 0 \<or> \<not> pending_only r then Some r else None)])"
    have len: "length (as_expire t now) = length t" by (simp add: as_expire_def)
    have "uniq_keys sa_destination_hash ((as_expire t now)[idx := Some r])"
    proof (rule uniq_keys_update [OF u])
      fix j y assume j: "j < length (as_expire t now)" "j \<noteq> idx" "as_expire t now ! j = Some y"
      show "sa_destination_hash y \<noteq> sa_destination_hash r"
        using uniq_keys_index [OF u j(1) _ j(3) r(2)] j(2) r(1,3) len by auto
    qed
    then show ?thesis using r(4) uniq_keys_update_None [OF u] by simp
  qed (simp add: u)
qed

text \<open>How many announces are still owed to a slot, and how many are due.\<close>

definition owed_count :: "announce_schedule \<Rightarrow> u8 \<Rightarrow> nat" where
  "owed_count t b = length (filter (owed b) (somes t))"

definition due_count :: "announce_schedule \<Rightarrow> u64 \<Rightarrow> nat" where
  "due_count t now = length (filter (\<lambda>e. sa_due_ms e \<le> now \<and> now < sa_expires_ms e) (somes t))"

lemma owed_cleared: "\<not> owed b (e\<lparr>sa_pending_targets := sa_pending_targets e AND NOT b\<rparr>)"
  by (simp add: owed_def and.assoc)

lemma filter_somes_update:
  assumes "i < length ss" "ss ! i = Some e" "P e" "\<And>x. v = Some x \<Longrightarrow> \<not> P x"
  shows "length (filter P (somes (ss[i := v]))) < length (filter P (somes ss))"
  unfolding somes_update [OF assms(1)] somes_split [OF assms(1)]
  using assms(2-4) by (simp split: option.split)

lemma length_filter_clear_where:
  "length (filter P (somes (clear_where Q ss))) \<le> length (filter P (somes ss))"
proof -
  have "filter P (somes (clear_where Q ss)) = filter (\<lambda>x. \<not> Q x) (filter P (somes ss))"
    by (simp add: somes_clear_where conj_commute)
  then show ?thesis by (metis length_filter_le)
qed

lemma release_pending_decreases:
  assumes "slot_bit slot = Some b" "release_pending t slot now = (Some r, t')"
  shows "owed_count t' b < owed_count t b"
proof (rule release_pending_cases [of t slot now])
  fix b' idx e r'
  assume p: "slot_bit slot = Some b'" "idx < length t" "as_expire t now ! idx = Some e" "owed b' e"
    "r' = e\<lparr>sa_pending_targets := sa_pending_targets e AND NOT b'\<rparr>"
    "release_pending t slot now = (Some r', (as_expire t now)[idx :=
       (if sa_pending_targets r' \<noteq> 0 \<or> \<not> pending_only r' then Some r' else None)])"
  have "b' = b" using p(1) assms(1) by simp
  have "owed_count t' b < owed_count (as_expire t now) b"
    using assms(2) p \<open>b' = b\<close> owed_cleared [of b e] unfolding owed_count_def
    by (auto intro!: filter_somes_update simp: as_expire_def split: if_splits)
  also have "\<dots> \<le> owed_count t b"
    by (simp add: owed_count_def as_expire_def length_filter_clear_where)
  finally show ?thesis .
qed (use assms in auto)

lemma pop_due_cases:
  obtains (none) "pop_due t now = (None, as_expire t now)"
      "\<And>e. Some e \<in> set (as_expire t now) \<Longrightarrow> now < sa_due_ms e"
  | (some) idx e where "idx < length t" "as_expire t now ! idx = Some e" "sa_due_ms e \<le> now"
      "now < sa_expires_ms e" "Some e \<in> set t"
      "pop_due t now = (Some e, (as_expire t now)[idx := None])"
proof -
  let ?t = "as_expire t now"
  let ?p = "position (\<lambda>s. is_some_and s (\<lambda>entry. now \<ge> sa_due_ms entry)) ?t"
  show thesis
  proof (cases ?p)
    case None
    then have "now < sa_due_ms e" if "Some e \<in> set ?t" for e
      using that unfolding position_None by (metis is_some_and_simps(2) not_less)
    then show thesis using None by (intro none) (simp_all add: pop_due_def Let_def)
  next
    case (Some idx)
    from position_SomeD [OF Some] obtain e where e: "idx < length ?t" "?t ! idx = Some e"
      "sa_due_ms e \<le> now" by auto
    then have "Some e \<in> set ?t" by (metis nth_mem)
    then have "Some e \<in> set t \<and> now < sa_expires_ms e" by (simp add: as.expire_live)
    with e Some show thesis
      by (intro some [of idx e]) (auto simp: pop_due_def Let_def as_expire_def)
  qed
qed

lemma pop_due_decreases:
  assumes "pop_due t now = (Some e, t')"
  shows "due_count t' now < due_count t now"
proof (rule pop_due_cases [of t now])
  fix idx e'
  assume p: "idx < length t" "as_expire t now ! idx = Some e'" "sa_due_ms e' \<le> now"
    "now < sa_expires_ms e'" "pop_due t now = (Some e', (as_expire t now)[idx := None])"
  then have "due_count t' now < due_count (as_expire t now) now"
    using assms unfolding due_count_def
    by (auto intro!: filter_somes_update simp: as_expire_def)
  also have "\<dots> \<le> due_count t now"
    by (simp add: due_count_def as_expire_def length_filter_clear_where)
  finally show ?thesis .
qed (use assms in auto)

lemma pop_due_uniq:
  "uniq_keys sa_destination_hash t \<Longrightarrow> uniq_keys sa_destination_hash (snd (pop_due t now))"
  by (rule pop_due_cases [of t now])
     (simp_all add: as_expire_def uniq_keys_clear_where uniq_keys_update_None)

lemma clear_target_uniq:
  "uniq_keys sa_destination_hash t \<Longrightarrow> uniq_keys sa_destination_hash (clear_target t slot)"
  by (auto simp: clear_target_def clear_target_entry_def Let_def intro!: uniq_keys_bind
      split: option.split if_splits)

text \<open>Owed rebroadcasts are released in order: the announce released for an interface slot is,
  among all live announces still owed to that slot, one with the fewest hops and, among those,
  the earliest expiry; afterwards it is no longer owed to the slot and fewer announces are.\<close>

theorem release_pending_least_owed:
  assumes "slot_bit slot = Some b" "release_pending t slot now = (Some r, t')"
  shows "\<exists>e. Some e \<in> set t \<and> now < sa_expires_ms e \<and> owed b e \<and>
      r = e\<lparr>sa_pending_targets := sa_pending_targets e AND NOT b\<rparr> \<and> \<not> owed b r \<and>
      (\<forall>x. Some x \<in> set t \<and> now < sa_expires_ms x \<and> owed b x \<longrightarrow>
         \<not> release_precedes (sa_hops x) (sa_expires_ms x) (sa_hops e) (sa_expires_ms e)) \<and>
      owed_count t' b < owed_count t b"
proof (rule release_pending_cases [of t slot now])
  fix b' idx e r'
  assume p: "slot_bit slot = Some b'" "idx < length t" "as_expire t now ! idx = Some e" "owed b' e"
    "r' = e\<lparr>sa_pending_targets := sa_pending_targets e AND NOT b'\<rparr>"
    "\<And>x. Some x \<in> set (as_expire t now) \<Longrightarrow> owed b' x \<Longrightarrow> sa_key e \<le> sa_key x"
    "release_pending t slot now = (Some r', (as_expire t now)[idx :=
       (if sa_pending_targets r' \<noteq> 0 \<or> \<not> pending_only r' then Some r' else None)])"
  have "Some e \<in> set (as_expire t now)" using p(2,3) by (metis nth_mem as_expire_def length_clear_where)
  then have "Some e \<in> set t \<and> now < sa_expires_ms e" by (simp add: as.expire_live)
  moreover have "b' = b" "r' = r" using p(1,7) assms by simp_all
  moreover have "\<not> release_precedes (sa_hops x) (sa_expires_ms x) (sa_hops e) (sa_expires_ms e)"
    if "Some x \<in> set t" "now < sa_expires_ms x" "owed b x" for x
    using p(6) [of x] that \<open>b' = b\<close> by (simp add: as.expire_live release_precedes_key not_less)
  ultimately show ?thesis
    using p(4,5) owed_cleared [of b e] release_pending_decreases [OF assms] by blast
qed (use assms in auto)

definition sample_scheduled :: "u8 \<Rightarrow> scheduled_announce" where
  "sample_scheduled h =
     \<lparr>sa_destination_hash = replicate 16 h, sa_packet = [], sa_interface_id = 0, sa_due_ms = PENDING_ONLY,
      sa_expires_ms = 1000, sa_block_rebroadcast = False, sa_hops = h, sa_retries = 0,
      sa_local_rebroadcasts = 0, sa_pending_targets = 1\<rparr>"

theorem release_pending_least_owed_witness:
  "let t = [Some (sample_scheduled 3), Some (sample_scheduled 1)];
       r = (sample_scheduled 1)\<lparr>sa_pending_targets := 0\<rparr>; t' = [Some (sample_scheduled 3), None]
   in release_pending t 0 10 = (Some r, t') \<and> owed_count t' 1 < owed_count t 1"
proof -
  let ?t = "[Some (sample_scheduled 3), Some (sample_scheduled 1)]"
  have "release_pending ?t 0 10 =
      (Some ((sample_scheduled 1)\<lparr>sa_pending_targets := 0\<rparr>), [Some (sample_scheduled 3), None])"
    by (simp add: release_pending_def as_expire_def clear_where_def slot_bit_def best_slot_def
        owed_def release_precedes_def sample_scheduled_def pending_only_def)
  then show ?thesis
    using release_pending_least_owed [of 0 1 ?t 10] by (auto simp: slot_bit_def Let_def)
qed

end
