(* ===== verification/Discovery.thy ===== *)
theory Discovery
  imports Slots
begin

text \<open>
  \<^verbatim>\<open>src/discovery.rs\<close>: the bounded record of path discoveries in progress. An entry collects the
  interface slots that asked for a destination; its identity is what queued path requests refer
  to. The theorems show that identities are never reused, that a requester that was accepted is
  recorded, and that joining does not extend a discovery.
\<close>

definition REQUESTERS :: nat where "REQUESTERS = 8"
definition REQUEST_GATE_MS :: u64 where "REQUEST_GATE_MS = 15000"

definition round_trip_ms :: "u64 \<Rightarrow> u64" where
  "round_trip_ms bitrate_bps =
     (if bitrate_bps = 0 then 0
      else let rate = (if bitrate_bps < 5 then 5 else bitrate_bps);
               bits_ms = 2 * of_nat MTU * 8 * 1000
           in div_ceil bits_ms rate)"

definition link_deadline :: "u64 \<Rightarrow> u8 \<Rightarrow> u64 \<Rightarrow> u64" where
  "link_deadline now h bitrate_bps =
     (let h = (if h = 0 then 1 else h)
      in sat_add (sat_add now (6000 * ucast h)) (round_trip_ms bitrate_bps))"

definition discovery_timeout :: "u64 \<Rightarrow> u64" where
  "discovery_timeout bitrate_bps =
     (let sampled = sat_add 6000 (round_trip_ms bitrate_bps)
      in if sampled > REQUEST_GATE_MS then sampled else REQUEST_GATE_MS)"

record discovery_entry =
  de_destination :: hash16
  de_expires_ms :: u64
  de_identity :: u64
  de_requesters :: u8

definition DE_EMPTY :: discovery_entry where
  "DE_EMPTY = \<lparr>de_destination = replicate 16 0, de_expires_ms = 0, de_identity = 0, de_requesters = 0\<rparr>"

definition de_live :: "discovery_entry \<Rightarrow> u64 \<Rightarrow> bool" where
  "de_live e now \<longleftrightarrow> de_identity e \<noteq> 0 \<and> de_requesters e \<noteq> 0 \<and> now < de_expires_ms e"

datatype begin_discovery = BeginNew u64 | BeginJoined | BeginRefused

record discoveries =
  dc_entries :: "discovery_entry list"
  dc_last_identity :: u64

definition dc_new :: "nat \<Rightarrow> discoveries" where
  "dc_new n = \<lparr>dc_entries = replicate n DE_EMPTY, dc_last_identity = 0\<rparr>"

definition dc_clear :: "discoveries \<Rightarrow> discoveries" where
  "dc_clear d = d\<lparr>dc_entries := replicate (length (dc_entries d)) DE_EMPTY\<rparr>"

definition dc_expire :: "discoveries \<Rightarrow> u64 \<Rightarrow> discoveries" where
  "dc_expire d now = d\<lparr>dc_entries := map (\<lambda>e. if \<not> de_live e now then DE_EMPTY else e) (dc_entries d)\<rparr>"

definition retire_requester :: "discoveries \<Rightarrow> nat \<Rightarrow> discoveries" where
  "retire_requester d slot =
     (if slot \<ge> REQUESTERS then d
      else d\<lparr>dc_entries := map (\<lambda>e.
               let e = e\<lparr>de_requesters := de_requesters e AND NOT (push_bit slot 1)\<rparr>
               in if de_requesters e = 0 then DE_EMPTY else e) (dc_entries d)\<rparr>)"

definition dc_begin ::
  "discoveries \<Rightarrow> hash16 \<Rightarrow> nat \<Rightarrow> u64 \<Rightarrow> u64 \<Rightarrow> begin_discovery \<times> discoveries" where
  "dc_begin d destination slot now timeout =
     (if slot \<ge> REQUESTERS then (BeginRefused, d)
      else let d = dc_expire d now in
      case position (\<lambda>e. de_identity e \<noteq> 0 \<and> de_destination e = destination) (dc_entries d) of
        Some i \<Rightarrow>
          (BeginJoined,
           d\<lparr>dc_entries := (dc_entries d)[i := (dc_entries d ! i)
               \<lparr>de_requesters := de_requesters (dc_entries d ! i) OR push_bit slot 1\<rparr>]\<rparr>)
      | None \<Rightarrow>
          (case position (\<lambda>e. de_identity e = 0) (dc_entries d) of
             None \<Rightarrow> (BeginRefused, d)
           | Some i \<Rightarrow>
               (case checked_add (dc_last_identity d) 1 of
                  None \<Rightarrow> (BeginRefused, d)
                | Some identity \<Rightarrow>
                    let expires_ms = sat_add now timeout
                    in if expires_ms \<le> now then (BeginRefused, d)
                       else (BeginNew identity,
                             d\<lparr>dc_last_identity := identity,
                               dc_entries := (dc_entries d)[i :=
                                 \<lparr>de_destination = destination, de_expires_ms = expires_ms,
                                  de_identity = identity, de_requesters = push_bit slot 1\<rparr>]\<rparr>))))"

definition dc_live :: "discoveries \<Rightarrow> u64 \<Rightarrow> u64 \<Rightarrow> bool" where
  "dc_live d identity now \<longleftrightarrow>
     list_ex (\<lambda>e. de_identity e = identity \<and> de_live e now) (dc_entries d)"

definition dc_deadline :: "discoveries \<Rightarrow> u64 \<Rightarrow> u64 option" where
  "dc_deadline d identity =
     map_option de_expires_ms
       (List.find (\<lambda>e. de_identity e \<noteq> 0 \<and> de_identity e = identity) (dc_entries d))"

definition dc_take :: "discoveries \<Rightarrow> hash16 \<Rightarrow> u64 \<Rightarrow> discovery_entry option \<times> discoveries" where
  "dc_take d destination now =
     (case position (\<lambda>e. de_identity e \<noteq> 0 \<and> de_destination e = destination) (dc_entries d) of
        None \<Rightarrow> (None, d)
      | Some i \<Rightarrow>
          let taken = dc_entries d ! i
          in (if de_live taken now then Some taken else None,
              d\<lparr>dc_entries := (dc_entries d)[i := DE_EMPTY]\<rparr>))"

section \<open>Invariant\<close>

text \<open>An entry whose identity is zero is a free slot.\<close>

definition dc_slot :: "discovery_entry \<Rightarrow> discovery_entry option" where
  "dc_slot e = (if de_identity e = 0 then None else Some e)"

definition dc_slots :: "discoveries \<Rightarrow> discovery_entry option list" where
  "dc_slots d = map dc_slot (dc_entries d)"

definition dc_inv :: "discoveries \<Rightarrow> bool" where
  "dc_inv d \<longleftrightarrow>
     uniq_keys de_identity (dc_slots d) \<and> uniq_keys de_destination (dc_slots d) \<and>
     list_all (\<lambda>e. de_identity e \<le> dc_last_identity d) (dc_entries d)"

lemma dc_slot_empty [simp]: "dc_slot DE_EMPTY = None"
  by (simp add: dc_slot_def DE_EMPTY_def)

lemma in_dc_slots: "Some e \<in> set (dc_slots d) \<longleftrightarrow> e \<in> set (dc_entries d) \<and> de_identity e \<noteq> 0"
  by (auto simp: dc_slots_def dc_slot_def)

lemma dc_slots_update [simp]:
  "dc_slots (d\<lparr>dc_entries := (dc_entries d)[i := e]\<rparr>) = (dc_slots d)[i := dc_slot e]"
  by (simp add: dc_slots_def map_update)

lemma dc_slots_expire: "dc_slots (dc_expire d now) = clear_where (\<lambda>e. \<not> de_live e now) (dc_slots d)"
  by (auto simp: dc_slots_def dc_expire_def clear_where_def dc_slot_def de_live_def DE_EMPTY_def)

lemma dc_inv_new [simp]: "dc_inv (dc_new n)"
  by (simp add: dc_inv_def dc_slots_def dc_new_def list_all_iff DE_EMPTY_def dc_slot_def uniq_keys_def)

lemma dc_inv_clear [simp]: "dc_inv (dc_clear d)"
  by (simp add: dc_inv_def dc_slots_def dc_clear_def list_all_iff DE_EMPTY_def dc_slot_def uniq_keys_def)

lemma dc_inv_expire: "dc_inv d \<Longrightarrow> dc_inv (dc_expire d now)"
  by (auto simp: dc_inv_def dc_slots_expire uniq_keys_clear_where)
     (auto simp: list_all_iff dc_expire_def DE_EMPTY_def)

lemma dc_inv_retire:
  assumes "dc_inv d"
  shows "dc_inv (retire_requester d slot)"
proof (cases "slot \<ge> REQUESTERS")
  case False
  let ?f = "\<lambda>e. let e = e\<lparr>de_requesters := de_requesters e AND NOT (push_bit slot 1)\<rparr>
               in if de_requesters e = 0 then DE_EMPTY else e"
  let ?g = "\<lambda>e. dc_slot (?f e)"
  have d: "retire_requester d slot = d\<lparr>dc_entries := map ?f (dc_entries d)\<rparr>"
    using False by (simp add: retire_requester_def)
  have slots: "dc_slots (retire_requester d slot) = map (\<lambda>s. Option.bind s ?g) (dc_slots d)"
    by (auto simp: d dc_slots_def dc_slot_def DE_EMPTY_def)
  have keep: "de_identity y = de_identity x \<and> de_destination y = de_destination x" if "?g x = Some y" for x y
    using that by (auto simp: dc_slot_def DE_EMPTY_def Let_def split: if_splits)
  have bound: "list_all (\<lambda>e. de_identity e \<le> dc_last_identity d) (map ?f (dc_entries d))"
    using assms by (auto simp: dc_inv_def list_all_iff DE_EMPTY_def Let_def)
  show ?thesis
    using assms uniq_keys_bind [of ?g de_identity "dc_slots d"] keep bound
      uniq_keys_bind [of ?g de_destination "dc_slots d"]
    unfolding dc_inv_def slots by (simp add: d)
qed (use assms in \<open>simp add: retire_requester_def\<close>)

lemma dc_begin_cases:
  assumes "dc_begin d dst slot now timeout = (r, d')"
  obtains (refused) "r = BeginRefused" "d' = d \<or> d' = dc_expire d now"
  | (joined) i e where "r = BeginJoined" "slot < REQUESTERS" "i < length (dc_entries d)"
      "dc_entries (dc_expire d now) ! i = e" "de_identity e \<noteq> 0" "de_destination e = dst" "de_live e now"
      "d' = (dc_expire d now)\<lparr>dc_entries := (dc_entries (dc_expire d now))[i :=
        e\<lparr>de_requesters := de_requesters e OR push_bit slot 1\<rparr>]\<rparr>"
  | (new) i g where "r = BeginNew g" "slot < REQUESTERS" "i < length (dc_entries d)"
      "de_identity (dc_entries (dc_expire d now) ! i) = 0" "dc_last_identity d < g"
      "\<forall>e \<in> set (dc_entries (dc_expire d now)). de_identity e \<noteq> 0 \<longrightarrow> de_destination e \<noteq> dst"
      "now < sat_add now timeout"
      "d' = (dc_expire d now)\<lparr>dc_last_identity := g, dc_entries := (dc_entries (dc_expire d now))[i :=
        \<lparr>de_destination = dst, de_expires_ms = sat_add now timeout, de_identity = g,
         de_requesters = push_bit slot 1\<rparr>]\<rparr>"
proof -
  let ?d = "dc_expire d now"
  let ?p = "position (\<lambda>e. de_identity e \<noteq> 0 \<and> de_destination e = dst) (dc_entries ?d)"
  let ?q = "position (\<lambda>e. de_identity e = 0) (dc_entries ?d)"
  have len: "length (dc_entries ?d) = length (dc_entries d)" by (simp add: dc_expire_def)
  have last: "dc_last_identity ?d = dc_last_identity d" by (simp add: dc_expire_def)
  show thesis
  proof (cases "slot \<ge> REQUESTERS")
    case True
    with assms show thesis by (intro refused) (auto simp: dc_begin_def)
  next
    case False
    show thesis
    proof (cases ?p)
      case (Some i)
      have i: "i < length (dc_entries ?d)" "de_identity (dc_entries ?d ! i) \<noteq> 0"
        "de_destination (dc_entries ?d ! i) = dst"
        using position_SomeD [OF Some] by simp_all
      have "de_live (dc_entries ?d ! i) now"
        using i(1,2) len by (auto simp: dc_expire_def DE_EMPTY_def split: if_splits)
      with Some i False assms len show thesis
        by (intro joined [of i "dc_entries ?d ! i"]) (auto simp: dc_begin_def Let_def)
    next
      case None
      then have none: "\<forall>e \<in> set (dc_entries ?d). de_identity e \<noteq> 0 \<longrightarrow> de_destination e \<noteq> dst"
        by (auto simp: position_None)
      show thesis
      proof (cases "?q = None \<or> checked_add (dc_last_identity ?d) 1 = None \<or> sat_add now timeout \<le> now")
        case True
        with assms None False show thesis
          by (intro refused) (auto simp: dc_begin_def Let_def split: option.splits if_splits)
      next
        case ok: False
        then obtain i g where ig: "?q = Some i" "checked_add (dc_last_identity ?d) 1 = Some g" by auto
        have "dc_last_identity d < g" using checked_add_one_gt [OF ig(2)] last by simp
        with position_SomeD [OF ig(1)] ok ig None False assms none len show thesis
          by (intro new [of g i]) (auto simp: dc_begin_def Let_def not_le split: if_splits)
      qed
    qed
  qed
qed

lemma dc_inv_begin:
  assumes "dc_inv d" "dc_begin d dst slot now timeout = (r, d')"
  shows "dc_inv d'"
proof -
  let ?d = "dc_expire d now"
  have I: "dc_inv ?d" by (rule dc_inv_expire [OF assms(1)])
  have len: "length (dc_entries ?d) = length (dc_entries d)" by (simp add: dc_expire_def)
  have last: "dc_last_identity ?d = dc_last_identity d" by (simp add: dc_expire_def)
  from assms(2) show ?thesis
  proof (rule dc_begin_cases)
    assume "d' = d \<or> d' = ?d" then show ?thesis using assms(1) I by auto
  next
    fix i :: nat and e :: discovery_entry
    let ?e = "e\<lparr>de_requesters := de_requesters e OR push_bit slot 1\<rparr>"
    assume j: "i < length (dc_entries d)" "dc_entries ?d ! i = e" "de_identity e \<noteq> 0"
      "d' = ?d\<lparr>dc_entries := (dc_entries ?d)[i := ?e]\<rparr>"
    have slot: "dc_slots ?d ! i = Some e" "i < length (dc_slots ?d)"
      using j len by (simp_all add: dc_slots_def dc_slot_def)
    have "list_all (\<lambda>e. de_identity e \<le> dc_last_identity ?d) ((dc_entries ?d)[i := ?e])"
      using I j len set_update_subset_insert [of "dc_entries ?d" i ?e]
      by (auto simp: dc_inv_def list_all_iff)
    moreover have "dc_slot ?e = Some ?e" using j(3) by (simp add: dc_slot_def)
    moreover have "uniq_keys de_identity ((dc_slots ?d)[i := Some ?e])"
      using I by (intro uniq_keys_same_key [OF _ slot(2,1)]) (simp_all add: dc_inv_def)
    moreover have "uniq_keys de_destination ((dc_slots ?d)[i := Some ?e])"
      using I by (intro uniq_keys_same_key [OF _ slot(2,1)]) (simp_all add: dc_inv_def)
    ultimately show ?thesis by (simp add: dc_inv_def j(4))
  next
    fix i g
    let ?e = "\<lparr>de_destination = dst, de_expires_ms = sat_add now timeout, de_identity = g,
         de_requesters = push_bit slot 1\<rparr>"
    assume n: "i < length (dc_entries d)" "dc_last_identity d < g"
      "\<forall>e \<in> set (dc_entries ?d). de_identity e \<noteq> 0 \<longrightarrow> de_destination e \<noteq> dst"
      "d' = ?d\<lparr>dc_last_identity := g, dc_entries := (dc_entries ?d)[i := ?e]\<rparr>"
    have bound: "de_identity e < g" if "e \<in> set (dc_entries ?d)" for e
      using I that n(2) last by (auto simp: dc_inv_def list_all_iff intro: le_less_trans)
    have "g \<noteq> 0" using n(2) by auto
    then have slots: "dc_slots d' = (dc_slots ?d)[i := Some ?e]"
      by (simp add: n(4) dc_slots_def map_update dc_slot_def)
    have new: "de_identity y \<noteq> g \<and> de_destination y \<noteq> dst"
      if "j < length (dc_slots ?d)" "dc_slots ?d ! j = Some y" for j y
    proof -
      have "Some y \<in> set (dc_slots ?d)" using that by (metis nth_mem)
      then show ?thesis using bound n(3) by (auto simp: in_dc_slots)
    qed
    have "list_all (\<lambda>e. de_identity e \<le> g) ((dc_entries ?d)[i := ?e])"
      using bound set_update_subset_insert [of "dc_entries ?d" i ?e]
      by (fastforce simp: list_all_iff)
    moreover have "uniq_keys de_identity ((dc_slots ?d)[i := Some ?e])"
      using I new by (intro uniq_keys_update) (auto simp: dc_inv_def)
    moreover have "uniq_keys de_destination ((dc_slots ?d)[i := Some ?e])"
      using I new by (intro uniq_keys_update) (auto simp: dc_inv_def)
    ultimately show ?thesis by (simp add: dc_inv_def slots) (simp add: n(4))
  qed
qed

lemma dc_inv_take: "dc_inv d \<Longrightarrow> dc_inv (snd (dc_take d dst now))"
proof -
  assume I: "dc_inv d"
  have "list_all (\<lambda>e. de_identity e \<le> dc_last_identity d) ((dc_entries d)[i := DE_EMPTY])" for i
    using I set_update_subset_insert [of "dc_entries d" i DE_EMPTY]
    by (fastforce simp: dc_inv_def list_all_iff DE_EMPTY_def)
  then show ?thesis
    using I by (auto simp: dc_take_def dc_inv_def Let_def uniq_keys_update_None split: option.split)
qed

text \<open>Path discovery: a new discovery gets an identity that no earlier discovery of this table
  had and lives for exactly the given timeout; a second requester for the same destination joins
  the discovery in progress without extending it, and its interface slot is recorded beside the
  earlier ones; a refusal records nothing.\<close>

theorem discovery_begin_spec:
  assumes "dc_inv d" "dc_begin d dst slot now timeout = (r, d')"
  shows "dc_inv d' \<and> dc_last_identity d \<le> dc_last_identity d' \<and>
    (case r of
       BeginNew g \<Rightarrow> (\<forall>e \<in> set (dc_entries d). de_identity e < g) \<and> g = dc_last_identity d' \<and>
         \<lparr>de_destination = dst, de_expires_ms = sat_add now timeout, de_identity = g,
          de_requesters = push_bit slot 1\<rparr> \<in> set (dc_entries d')
     | BeginJoined \<Rightarrow> (\<exists>e \<in> set (dc_entries d). de_destination e = dst \<and> de_live e now \<and>
         e\<lparr>de_requesters := de_requesters e OR push_bit slot 1\<rparr> \<in> set (dc_entries d'))
     | BeginRefused \<Rightarrow> d' = d \<or> d' = dc_expire d now)"
proof -
  let ?d = "dc_expire d now"
  have len: "length (dc_entries ?d) = length (dc_entries d)" by (simp add: dc_expire_def)
  have last: "dc_last_identity ?d = dc_last_identity d" by (simp add: dc_expire_def)
  have I: "dc_inv d'" by (rule dc_inv_begin [OF assms])
  from assms(2) show ?thesis
  proof (rule dc_begin_cases)
    assume "r = BeginRefused" "d' = d \<or> d' = ?d"
    then show ?thesis using I last by auto
  next
    fix i :: nat and e :: discovery_entry
    assume j: "r = BeginJoined" "i < length (dc_entries d)" "dc_entries ?d ! i = e" "de_live e now"
      "de_destination e = dst" "d' = ?d\<lparr>dc_entries := (dc_entries ?d)[i :=
        e\<lparr>de_requesters := de_requesters e OR push_bit slot 1\<rparr>]\<rparr>"
    have "e \<in> set (dc_entries d)"
      using j(2-4) nth_mem [OF j(2)] by (auto simp: dc_expire_def de_live_def DE_EMPTY_def split: if_splits)
    then show ?thesis using I j last len by (auto intro!: bexI [of _ e] set_update_memI)
  next
    fix i g
    assume n: "r = BeginNew g" "i < length (dc_entries d)" "dc_last_identity d < g"
      "d' = ?d\<lparr>dc_last_identity := g, dc_entries := (dc_entries ?d)[i :=
        \<lparr>de_destination = dst, de_expires_ms = sat_add now timeout, de_identity = g,
         de_requesters = push_bit slot 1\<rparr>]\<rparr>"
    have "de_identity e < g" if "e \<in> set (dc_entries d)" for e
      using assms(1) that n(3) by (auto simp: dc_inv_def list_all_iff intro: le_less_trans)
    then show ?thesis using I n len by (auto intro!: set_update_memI)
  qed
qed

theorem discovery_begin_spec_witness:
  "let d = snd (dc_begin (dc_new 2) (replicate 16 5) 3 100 15000)
   in dc_begin d (replicate 16 5) 2 200 15000 =
        (BeginJoined, snd (dc_begin d (replicate 16 5) 2 200 15000)) \<and>
      dc_inv (snd (dc_begin d (replicate 16 5) 2 200 15000)) \<and>
      dc_deadline (snd (dc_begin d (replicate 16 5) 2 200 15000)) 1 = Some 15100"
proof -
  let ?d = "snd (dc_begin (dc_new 2) (replicate 16 5) 3 100 15000)"
  let ?r = "dc_begin ?d (replicate 16 5) 2 200 15000"
  have two: "replicate 2 DE_EMPTY = [DE_EMPTY, DE_EMPTY]" by (simp add: numeral_2_eq_2)
  have d: "?d = \<lparr>dc_entries = [\<lparr>de_destination = replicate 16 5, de_expires_ms = 15100, de_identity = 1,
      de_requesters = 8\<rparr>, DE_EMPTY], dc_last_identity = 1\<rparr>"
    by (simp add: dc_begin_def dc_new_def dc_expire_def de_live_def REQUESTERS_def
        checked_add_def sat_add_def two) (simp add: DE_EMPTY_def)
  have r: "?r = (BeginJoined, \<lparr>dc_entries = [\<lparr>de_destination = replicate 16 5, de_expires_ms = 15100,
      de_identity = 1, de_requesters = 12\<rparr>, DE_EMPTY], dc_last_identity = 1\<rparr>)"
    unfolding d by (simp add: dc_begin_def dc_expire_def de_live_def REQUESTERS_def DE_EMPTY_def)
  have "dc_inv ?d"
    by (rule dc_inv_begin [OF dc_inv_new, of 2 "replicate 16 5" 3 100 15000
          "fst (dc_begin (dc_new 2) (replicate 16 5) 3 100 15000)"]) simp
  then have "dc_inv (snd ?r)"
    using discovery_begin_spec [of ?d "replicate 16 5" 2 200 15000 "fst ?r" "snd ?r"] by simp
  then show ?thesis by (simp add: Let_def r dc_deadline_def)
qed

end
