(* ===== verification/Wire.thy ===== *)
theory Wire
  imports Packet_Buffer Codec
begin

text \<open>
  \<^verbatim>\<open>src/wire.rs\<close>: packet flags, contexts and headers, the parser and the writer, and the packet
  hashes. The hash function SHA-256 belongs to a third-party crate, so the hashes take it as the
  parameter \<open>sha\<close>. The theorems show that parser and writer invert each other, and that the
  hashes do not depend on the fields a transport node rewrites.
\<close>

section \<open>Packet vocabulary\<close>

datatype packet_type = PtData | PtAnnounce | PtLinkRequest | PtProof

datatype destination_type = DtSingle | DtGroup | DtPlain | DtLink

datatype header_type = Header1 | Header2

datatype transport_type = TtBroadcast | TtTransport

record packet_flags =
  pf_header_type :: header_type
  pf_context_flag :: bool
  pf_transport_type :: transport_type
  pf_destination_type :: destination_type
  pf_packet_type :: packet_type

fun packet_type_u8 :: "packet_type \<Rightarrow> u8" where
  "packet_type_u8 PtData = 0"
| "packet_type_u8 PtAnnounce = 1"
| "packet_type_u8 PtLinkRequest = 2"
| "packet_type_u8 PtProof = 3"

fun destination_type_u8 :: "destination_type \<Rightarrow> u8" where
  "destination_type_u8 DtSingle = 0"
| "destination_type_u8 DtGroup = 1"
| "destination_type_u8 DtPlain = 2"
| "destination_type_u8 DtLink = 3"

fun header_type_u8 :: "header_type \<Rightarrow> u8" where
  "header_type_u8 Header1 = 0"
| "header_type_u8 Header2 = 1"

fun transport_type_u8 :: "transport_type \<Rightarrow> u8" where
  "transport_type_u8 TtBroadcast = 0"
| "transport_type_u8 TtTransport = 1"

definition flags_pack :: "packet_flags \<Rightarrow> u8" where
  "flags_pack f =
     push_bit 6 (header_type_u8 (pf_header_type f))
     OR push_bit 5 (of_bool (pf_context_flag f))
     OR push_bit 4 (transport_type_u8 (pf_transport_type f))
     OR push_bit 2 (destination_type_u8 (pf_destination_type f))
     OR packet_type_u8 (pf_packet_type f)"

definition flags_unpack :: "u8 \<Rightarrow> packet_flags" where
  "flags_unpack b =
     (let d = drop_bit 2 (b AND 12); p = b AND 3
      in \<lparr>pf_header_type = (if b AND 64 = 0 then Header1 else Header2),
          pf_context_flag = (b AND 32 \<noteq> 0),
          pf_transport_type = (if b AND 16 = 0 then TtBroadcast else TtTransport),
          pf_destination_type = (if d = 0 then DtSingle else if d = 1 then DtGroup
                              else if d = 2 then DtPlain else DtLink),
          pf_packet_type = (if p = 0 then PtData else if p = 1 then PtAnnounce
                         else if p = 2 then PtLinkRequest else PtProof)\<rparr>)"

datatype packet_context = CtxNone | CtxResource | CtxResourceAdv | CtxResourceReq | CtxResourceHmu
  | CtxResourcePrf | CtxResourceIcl | CtxResourceRcl | CtxCacheRequest | CtxRequest | CtxResponse
  | CtxPathResponse | CtxCommand | CtxCommandStatus | CtxChannel | CtxKeepalive | CtxLinkIdentify
  | CtxLinkClose | CtxLinkProof | CtxLrrtt | CtxLrproof | CtxUnknown u8

definition context_from_byte :: "u8 \<Rightarrow> packet_context" where
  "context_from_byte b =
     (if b = 0x00 then CtxNone else if b = 0x01 then CtxResource
      else if b = 0x02 then CtxResourceAdv else if b = 0x03 then CtxResourceReq
      else if b = 0x04 then CtxResourceHmu else if b = 0x05 then CtxResourcePrf
      else if b = 0x06 then CtxResourceIcl else if b = 0x07 then CtxResourceRcl
      else if b = 0x08 then CtxCacheRequest else if b = 0x09 then CtxRequest
      else if b = 0x0A then CtxResponse else if b = 0x0B then CtxPathResponse
      else if b = 0x0C then CtxCommand else if b = 0x0D then CtxCommandStatus
      else if b = 0x0E then CtxChannel else if b = 0xFA then CtxKeepalive
      else if b = 0xFB then CtxLinkIdentify else if b = 0xFC then CtxLinkClose
      else if b = 0xFD then CtxLinkProof else if b = 0xFE then CtxLrrtt
      else if b = 0xFF then CtxLrproof else CtxUnknown b)"

fun context_to_byte :: "packet_context \<Rightarrow> u8" where
  "context_to_byte CtxNone = 0x00"
| "context_to_byte CtxResource = 0x01"
| "context_to_byte CtxResourceAdv = 0x02"
| "context_to_byte CtxResourceReq = 0x03"
| "context_to_byte CtxResourceHmu = 0x04"
| "context_to_byte CtxResourcePrf = 0x05"
| "context_to_byte CtxResourceIcl = 0x06"
| "context_to_byte CtxResourceRcl = 0x07"
| "context_to_byte CtxCacheRequest = 0x08"
| "context_to_byte CtxRequest = 0x09"
| "context_to_byte CtxResponse = 0x0A"
| "context_to_byte CtxPathResponse = 0x0B"
| "context_to_byte CtxCommand = 0x0C"
| "context_to_byte CtxCommandStatus = 0x0D"
| "context_to_byte CtxChannel = 0x0E"
| "context_to_byte CtxKeepalive = 0xFA"
| "context_to_byte CtxLinkIdentify = 0xFB"
| "context_to_byte CtxLinkClose = 0xFC"
| "context_to_byte CtxLinkProof = 0xFD"
| "context_to_byte CtxLrrtt = 0xFE"
| "context_to_byte CtxLrproof = 0xFF"
| "context_to_byte (CtxUnknown b) = b"

definition skip_hashlist :: "packet_context \<Rightarrow> bool" where
  "skip_hashlist c \<longleftrightarrow> c \<in> {CtxResource, CtxResourceReq, CtxResourcePrf, CtxCacheRequest,
     CtxChannel, CtxKeepalive}"

section \<open>Headers\<close>

record packet_header =
  ph_flags :: packet_flags
  ph_hops :: u8
  ph_transport_id :: "hash16 option"
  ph_destination_hash :: hash16
  ph_context :: packet_context

datatype wire_error = TooShort | ExceedsMtu | WireBuffer buffer_error

definition header_size :: "packet_header \<Rightarrow> nat" where
  "header_size h =
     (case pf_header_type (ph_flags h) of Header1 \<Rightarrow> HEADER_MINSIZE | Header2 \<Rightarrow> HEADER_MAXSIZE)"

definition header_parse :: "bytes \<Rightarrow> wire_error + (packet_header \<times> nat)" where
  "header_parse raw =
     (if length raw < HEADER_MINSIZE then Inl TooShort
      else if length raw > MTU then Inl ExceedsMtu
      else let fl = flags_unpack (raw ! 0); hp = raw ! 1
      in case pf_header_type fl of
           Header1 \<Rightarrow>
             Inr (\<lparr>ph_flags = fl, ph_hops = hp, ph_transport_id = None,
                   ph_destination_hash = slice 2 18 raw,
                   ph_context = context_from_byte (raw ! 18)\<rparr>, HEADER_MINSIZE)
         | Header2 \<Rightarrow>
             if length raw < HEADER_MAXSIZE then Inl TooShort
             else Inr (\<lparr>ph_flags = fl, ph_hops = hp, ph_transport_id = Some (slice 2 18 raw),
                        ph_destination_hash = slice 18 34 raw,
                        ph_context = context_from_byte (raw ! 34)\<rparr>, HEADER_MAXSIZE))"

definition header_write_into ::
  "packet_header \<Rightarrow> packet_buffer \<Rightarrow> buffer_error + packet_buffer" where
  "header_write_into h out =
     (case pb_push out (flags_pack (ph_flags h)) of Inl e \<Rightarrow> Inl e | Inr out \<Rightarrow>
      case pb_push out (ph_hops h) of Inl e \<Rightarrow> Inl e | Inr out \<Rightarrow>
      case (case ph_transport_id h of
              Some tid \<Rightarrow> pb_extend_from_slice out tid
            | None \<Rightarrow> Inr out) of Inl e \<Rightarrow> Inl e | Inr out \<Rightarrow>
      case pb_extend_from_slice out (ph_destination_hash h) of Inl e \<Rightarrow> Inl e | Inr out \<Rightarrow>
      pb_push out (context_to_byte (ph_context h)))"

record packet_view =
  pv_header :: packet_header
  pv_payload :: bytes
  pv_raw :: bytes
  pv_payload_offset :: nat

definition packet_parse :: "bytes \<Rightarrow> wire_error + packet_view" where
  "packet_parse r =
     (case header_parse r of
        Inl e \<Rightarrow> Inl e
      | Inr (h, off) \<Rightarrow> Inr \<lparr>pv_header = h, pv_payload = drop off r, pv_raw = r, pv_payload_offset = off\<rparr>)"

definition build_packet :: "packet_header \<Rightarrow> bytes \<Rightarrow> wire_error + packet_buffer" where
  "build_packet h p =
     (case header_write_into h (pb_new MTU) of
        Inl e \<Rightarrow> Inl (WireBuffer e)
      | Inr out \<Rightarrow> map_sum WireBuffer (\<lambda>b. b) (pb_extend_from_slice out p))"

definition rewrite_with_header ::
  "bytes \<Rightarrow> packet_header \<Rightarrow> packet_header \<Rightarrow> wire_error + packet_buffer" where
  "rewrite_with_header r old new =
     (let off = header_size old
      in if length r < off then Inl TooShort else build_packet new (drop off r))"

section \<open>Hashes\<close>

definition truncated_hash :: "(bytes \<Rightarrow> bytes) \<Rightarrow> bytes \<Rightarrow> hash16" where
  "truncated_hash sha d = take TRANSPORT_ID_LENGTH (sha d)"

definition packet_hash :: "(bytes \<Rightarrow> bytes) \<Rightarrow> bytes \<Rightarrow> header_type \<Rightarrow> hash32" where
  "packet_hash sha r ht =
     (if r = [] then replicate 32 0
      else let skip = (case ht of Header1 \<Rightarrow> 2 | Header2 \<Rightarrow> 2 + TRANSPORT_ID_LENGTH)
           in sha ((r ! 0 AND 0x0F) # (if length r > skip then drop skip r else [])))"

definition truncated_packet_hash :: "(bytes \<Rightarrow> bytes) \<Rightarrow> bytes \<Rightarrow> header_type \<Rightarrow> hash16" where
  "truncated_packet_hash sha r ht = take TRANSPORT_ID_LENGTH (packet_hash sha r ht)"

definition LINK_REQUEST_KEY_BYTES :: nat where "LINK_REQUEST_KEY_BYTES = 64"

definition link_id_from_raw :: "(bytes \<Rightarrow> bytes) \<Rightarrow> bytes \<Rightarrow> header_type \<Rightarrow> hash16" where
  "link_id_from_raw sha r ht =
     (if r = [] then replicate TRANSPORT_ID_LENGTH 0
      else take TRANSPORT_ID_LENGTH (sha ((r ! 0 AND 0x0F) #
        (case ht of
           Header1 \<Rightarrow>
             (if length r > 2 then
                let header_end = min HEADER_MINSIZE (length r); p = drop header_end r
                in slice 2 header_end r @ take (min (length p) LINK_REQUEST_KEY_BYTES) p
              else [])
         | Header2 \<Rightarrow>
             (if length r > 2 + TRANSPORT_ID_LENGTH then
                let dest_start = 2 + TRANSPORT_ID_LENGTH;
                    header_end = min HEADER_MAXSIZE (length r); p = drop header_end r
                in slice dest_start header_end r @ take (min (length p) LINK_REQUEST_KEY_BYTES) p
              else [])))))"

section \<open>Codecs of flags and contexts\<close>

lemma flags_unpack_pack [simp]: "flags_unpack (flags_pack f) = f"
  by (cases f; rename_tac ht cf tt dt pt; case_tac ht; case_tac cf; case_tac tt; case_tac dt;
      case_tac pt; simp add: flags_pack_def flags_unpack_def)

lemma u8_bits_eqI: "(\<And>n. n < 8 \<Longrightarrow> bit a n = bit b n) \<Longrightarrow> a = (b :: u8)"
  by (rule bit_word_eqI) simp

lemma less_8_cases: "n < (8::nat) \<longleftrightarrow> n \<in> {0, 1, 2, 3, 4, 5, 6, 7}"
  by auto

lemma and_3_cases: "(b :: u8) AND 3 = of_bool (bit b 0) + 2 * of_bool (bit b 1)"
proof -
  have "b AND 3 = take_bit 2 b" by (simp add: take_bit_eq_mask mask_eq_exp_minus_1 and.commute)
  then show ?thesis
    by (simp add: take_bit_Suc bit_0 bit_Suc numeral_2_eq_2 mod2_eq_if)
qed

lemma and_12_cases: "drop_bit 2 ((b :: u8) AND 12) = of_bool (bit b 2) + 2 * of_bool (bit b 3)"
proof -
  have "drop_bit 2 (b AND 12) = drop_bit 2 b AND 3" by simp
  then show ?thesis by (simp add: and_3_cases bit_drop_bit_eq numeral_3_eq_3 numeral_2_eq_2)
qed

lemma and_bit_eq_0: 
  "(b :: u8) AND 64 = 0 \<longleftrightarrow> \<not> bit b 6" "b AND 32 = 0 \<longleftrightarrow> \<not> bit b 5" "b AND 16 = 0 \<longleftrightarrow> \<not> bit b 4"
  using and_exp_eq_0_iff_not_bit [of b 6] and_exp_eq_0_iff_not_bit [of b 5]
    and_exp_eq_0_iff_not_bit [of b 4] by simp_all

lemma flags_pack_unpack: "flags_pack (flags_unpack b) = b AND 127"
proof (rule u8_bits_eqI)
  fix n :: nat
  assume "n < 8"
  then show "bit (flags_pack (flags_unpack b)) n = bit (b AND 127) n"
    unfolding flags_unpack_def flags_pack_def Let_def and_bit_eq_0 and_3_cases and_12_cases
    by (cases "bit b 0"; cases "bit b 1"; cases "bit b 2"; cases "bit b 3"; cases "bit b 4";
        cases "bit b 5"; cases "bit b 6"; auto simp: less_8_cases bit_and_iff)
qed

fun context_wf :: "packet_context \<Rightarrow> bool" where
  "context_wf (CtxUnknown b) \<longleftrightarrow> context_from_byte b = CtxUnknown b"
| "context_wf _ \<longleftrightarrow> True"

lemma context_from_to_byte [simp]:
  "context_wf c \<Longrightarrow> context_from_byte (context_to_byte c) = c"
  by (cases c) (simp_all add: context_from_byte_def)

lemma context_to_from_byte [simp]: "context_to_byte (context_from_byte b) = b"
  by (simp add: context_from_byte_def)

lemma context_wf_from_byte [simp]: "context_wf (context_from_byte b)"
  by (simp add: context_from_byte_def)

interpretation context_codec: canonical_codec context_wf context_to_byte
  "\<lambda>b. Some (context_from_byte b)"
  by unfold_locales auto

section \<open>The writer\<close>

definition header_bytes :: "packet_header \<Rightarrow> bytes" where
  "header_bytes h =
     [flags_pack (ph_flags h), ph_hops h] @ (case ph_transport_id h of None \<Rightarrow> [] | Some t \<Rightarrow> t) @
     ph_destination_hash h @ [context_to_byte (ph_context h)]"

definition header_wf :: "packet_header \<Rightarrow> bool" where
  "header_wf h \<longleftrightarrow>
     length (ph_destination_hash h) = TRANSPORT_ID_LENGTH \<and> context_wf (ph_context h) \<and>
     (case ph_transport_id h of
        None \<Rightarrow> pf_header_type (ph_flags h) = Header1
      | Some t \<Rightarrow> pf_header_type (ph_flags h) = Header2 \<and> length t = TRANSPORT_ID_LENGTH)"

text \<open>The visible bytes of a built and of a rewritten packet.\<close>

definition packet_bytes :: "packet_header \<Rightarrow> bytes \<Rightarrow> wire_error + bytes" where
  "packet_bytes h p = map_sum (\<lambda>e. e) pb_as_slice (build_packet h p)"

definition rewrite_bytes :: "bytes \<Rightarrow> packet_header \<Rightarrow> packet_header \<Rightarrow> wire_error + bytes" where
  "rewrite_bytes r old new = map_sum (\<lambda>e. e) pb_as_slice (rewrite_with_header r old new)"

definition header_chunks :: "packet_header \<Rightarrow> chunk list" where
  "header_chunks h =
     [Byte (flags_pack (ph_flags h)), Byte (ph_hops h)] @
     (case ph_transport_id h of None \<Rightarrow> [] | Some t \<Rightarrow> [Slice t]) @
     [Slice (ph_destination_hash h), Byte (context_to_byte (ph_context h))]"

lemma concat_header_chunks: "concat (map chunk_bytes (header_chunks h)) = header_bytes h"
  by (simp add: header_chunks_def header_bytes_def split: option.split)

lemma build_packet_chunks:
  "build_packet h p =
     map_sum WireBuffer (\<lambda>b. b) (pb.write_chunks (pb_new MTU) (header_chunks h @ [Slice p]))"
  by (simp add: build_packet_def header_write_into_def header_chunks_def split: option.split sum.split)

text \<open>Building a packet never fails for a reason other than its size, and then the visible bytes
  are the header followed by the payload.\<close>

lemma packet_bytes_eq:
  "packet_bytes h p =
     (if length (header_bytes h) + length p \<le> MTU then Inr (header_bytes h @ p)
      else Inl (WireBuffer InsufficientCapacity))"
proof (cases "length (header_bytes h) + length p \<le> MTU")
  case True
  then obtain b where "pb.write_chunks (pb_new MTU) (header_chunks h @ [Slice p]) = Inr b"
      "pb_as_slice b = header_bytes h @ p"
    using pb.write_chunks_ok [of "pb_new MTU" "header_chunks h @ [Slice p]"]
    by (auto simp: concat_header_chunks)
  with True show ?thesis by (simp add: packet_bytes_def build_packet_chunks)
next
  case False
  then have "pb.write_chunks (pb_new MTU) (header_chunks h @ [Slice p]) = Inl InsufficientCapacity"
    by (intro pb.write_chunks_full) (auto simp: concat_header_chunks)
  with False show ?thesis by (simp add: packet_bytes_def build_packet_chunks)
qed

lemma rewrite_bytes_eq:
  "rewrite_bytes r old new =
     (if length r < header_size old then Inl TooShort else packet_bytes new (drop (header_size old) r))"
  by (simp add: rewrite_bytes_def rewrite_with_header_def packet_bytes_def)

lemma length_header_bytes: "header_wf h \<Longrightarrow> length (header_bytes h) = header_size h"
  by (auto simp: header_wf_def header_bytes_def header_size_def size_consts split: option.splits)

section \<open>The parser\<close>

lemma header_parse_bytes:
  assumes "header_wf h" "length (header_bytes h) + length p \<le> MTU"
  shows "header_parse (header_bytes h @ p) = Inr (h, header_size h)"
  using assms
  by (cases h; cases "ph_transport_id h")
     (auto simp: header_parse_def header_wf_def header_bytes_def header_size_def size_consts
        slice_def nth_append numeral_eq_Suc Let_def split: option.splits)

lemma split_header1:
  assumes "19 \<le> length r"
  shows "r = [r ! 0, r ! 1] @ slice 2 18 r @ [r ! 18] @ drop 19 r"
proof -
  obtain a b t where r: "r = a # b # t" "17 \<le> length t"
    using assms by (cases r; cases "tl r") auto
  have "t = take 16 t @ t ! 16 # drop 17 t"
    using r(2) id_take_nth_drop [of 16 t] by (simp add: numeral_eq_Suc)
  then show ?thesis using r by (simp add: slice_def numeral_eq_Suc)
qed

lemma split_header2:
  assumes "35 \<le> length r"
  shows "r = [r ! 0, r ! 1] @ slice 2 18 r @ slice 18 34 r @ [r ! 34] @ drop 35 r"
proof -
  obtain a b t where r: "r = a # b # t" "33 \<le> length t"
    using assms by (cases r; cases "tl r") auto
  have "drop 16 t = take 16 (drop 16 t) @ drop 16 t ! 16 # drop 17 (drop 16 t)"
    using r(2) id_take_nth_drop [of 16 "drop 16 t"] by (simp add: numeral_eq_Suc)
  then have "drop 16 t = take 16 (drop 16 t) @ t ! 32 # drop 33 t"
    using r(2) by (simp add: nth_drop)
  then have "t = take 16 t @ take 16 (drop 16 t) @ t ! 32 # drop 33 t"
    using append_take_drop_id [of 16 t] by argo
  then show ?thesis using r by (simp add: slice_def numeral_eq_Suc)
qed

text \<open>What the parser accepts is a well-formed header and the packet is its encoding followed by
  the payload, up to the reserved top bit of the flag byte, which the parser ignores.\<close>

lemma header_parse_Inr:
  assumes "header_parse r = Inr (h, n)"
  shows "header_wf h" "n = header_size h" "n \<le> length r" "length r \<le> MTU"
    "header_bytes h @ drop n r = r[0 := r ! 0 AND 127]"
proof -
  have len: "19 \<le> length r" "length r \<le> 500"
    using assms by (auto simp: header_parse_def size_consts split: if_splits)
  have "header_wf h \<and> n = header_size h \<and> n \<le> length r \<and>
      header_bytes h @ drop n r = r[0 := r ! 0 AND 127]"
  proof (cases "pf_header_type (flags_unpack (r ! 0))")
    case Header1
    then have "h = \<lparr>ph_flags = flags_unpack (r ! 0), ph_hops = r ! 1, ph_transport_id = None,
        ph_destination_hash = slice 2 18 r, ph_context = context_from_byte (r ! 18)\<rparr>" "n = 19"
      using assms len by (auto simp: header_parse_def size_consts Let_def)
    then show ?thesis
      using Header1 len arg_cong [OF split_header1 [OF len(1)], of "\<lambda>s. s[0 := r ! 0 AND 127]"]
      by (simp add: header_wf_def header_size_def size_consts header_bytes_def flags_pack_unpack)
  next
    case Header2
    then have l: "35 \<le> length r" and h: "h = \<lparr>ph_flags = flags_unpack (r ! 0), ph_hops = r ! 1,
        ph_transport_id = Some (slice 2 18 r), ph_destination_hash = slice 18 34 r,
        ph_context = context_from_byte (r ! 34)\<rparr>" "n = 35"
      using assms len by (auto simp: header_parse_def size_consts Let_def split: if_splits)
    then show ?thesis
      using Header2 arg_cong [OF split_header2 [OF l], of "\<lambda>s. s[0 := r ! 0 AND 127]"]
      by (simp add: header_wf_def header_size_def size_consts header_bytes_def flags_pack_unpack)
  qed
  then show "header_wf h" "n = header_size h" "n \<le> length r" "length r \<le> MTU"
    "header_bytes h @ drop n r = r[0 := r ! 0 AND 127]"
    using len by (auto simp: size_consts)
qed

section \<open>The hashes on encoded packets\<close>

lemma flags_pack_nibble:
  "flags_pack f AND 0x0F =
     push_bit 2 (destination_type_u8 (pf_destination_type f)) OR packet_type_u8 (pf_packet_type f)"
  by (cases f; rename_tac ht cf tt dt pt; case_tac ht; case_tac cf; case_tac tt; case_tac dt;
      case_tac pt; simp add: flags_pack_def)

lemma packet_hash_bytes:
  assumes "header_wf h"
  shows "packet_hash sha (header_bytes h @ p) (pf_header_type (ph_flags h)) =
    sha ((flags_pack (ph_flags h) AND 0x0F) #
         ph_destination_hash h @ context_to_byte (ph_context h) # p)"
  using assms
  by (auto simp: packet_hash_def header_bytes_def header_wf_def size_consts Let_def
      split: option.splits)

lemma link_id_bytes:
  assumes "header_wf h"
  shows "link_id_from_raw sha (header_bytes h @ p) (pf_header_type (ph_flags h)) =
    take TRANSPORT_ID_LENGTH (sha ((flags_pack (ph_flags h) AND 0x0F) #
         ph_destination_hash h @ context_to_byte (ph_context h) # take LINK_REQUEST_KEY_BYTES p))"
  using assms
  by (auto simp: link_id_from_raw_def header_bytes_def header_wf_def size_consts Let_def slice_def
      min_def split: option.splits)

text \<open>Both hashes ignore the reserved top bit of the flag byte.\<close>

lemma hash_mask_flags:
  assumes "r \<noteq> []"
  shows "packet_hash sha (r[0 := r ! 0 AND 127]) ht = packet_hash sha r ht"
    "link_id_from_raw sha (r[0 := r ! 0 AND 127]) ht = link_id_from_raw sha r ht"
proof -
  obtain a t where r: "r = a # t" using assms by (cases r) auto
  have "(a AND 127) AND 0x0F = a AND 0x0F"
    by (simp add: and.assoc)
  then show "packet_hash sha (r[0 := r ! 0 AND 127]) ht = packet_hash sha r ht"
    "link_id_from_raw sha (r[0 := r ! 0 AND 127]) ht = link_id_from_raw sha r ht"
    by (simp_all add: r packet_hash_def link_id_from_raw_def size_consts slice_def
        split: header_type.split)
qed

lemma packet_parse_InrD:
  assumes "packet_parse r = Inr v"
  shows "header_parse r = Inr (pv_header v, pv_payload_offset v)" "pv_raw v = r"
    "pv_payload v = drop (header_size (pv_header v)) r"
    "pv_payload_offset v = header_size (pv_header v)" "header_wf (pv_header v)"
    "header_bytes (pv_header v) @ pv_payload v = r[0 := r ! 0 AND 127]"
    "header_size (pv_header v) \<le> length r" "length r \<le> MTU" "r \<noteq> []"
proof -
  show hp: "header_parse r = Inr (pv_header v, pv_payload_offset v)"
    using assms by (auto simp: packet_parse_def split: sum.splits)
  note P = header_parse_Inr [OF hp]
  show raw: "pv_raw v = r" and pl: "pv_payload v = drop (header_size (pv_header v)) r"
    using assms P(2) by (auto simp: packet_parse_def split: sum.splits)
  show "pv_payload_offset v = header_size (pv_header v)" "header_wf (pv_header v)"
    "header_bytes (pv_header v) @ pv_payload v = r[0 := r ! 0 AND 127]"
    "header_size (pv_header v) \<le> length r" "length r \<le> MTU"
    using P pl by simp_all
  show "r \<noteq> []"
    using hp by (auto simp: header_parse_def size_consts)
qed

lemma parsed_hashes:
  assumes "packet_parse r = Inr v"
  shows "packet_hash sha r (pf_header_type (ph_flags (pv_header v))) =
      sha ((flags_pack (ph_flags (pv_header v)) AND 0x0F) #
        ph_destination_hash (pv_header v) @ context_to_byte (ph_context (pv_header v)) # pv_payload v)"
    "link_id_from_raw sha r (pf_header_type (ph_flags (pv_header v))) =
      take TRANSPORT_ID_LENGTH (sha ((flags_pack (ph_flags (pv_header v)) AND 0x0F) #
        ph_destination_hash (pv_header v) @ context_to_byte (ph_context (pv_header v)) #
        take LINK_REQUEST_KEY_BYTES (pv_payload v)))"
proof -
  note P = packet_parse_InrD [OF assms]
  show "packet_hash sha r (pf_header_type (ph_flags (pv_header v))) =
      sha ((flags_pack (ph_flags (pv_header v)) AND 0x0F) #
        ph_destination_hash (pv_header v) @ context_to_byte (ph_context (pv_header v)) # pv_payload v)"
    using packet_hash_bytes [OF P(5), of sha "pv_payload v"] hash_mask_flags(1) [OF P(9)]
    by (simp add: P(6))
  show "link_id_from_raw sha r (pf_header_type (ph_flags (pv_header v))) =
      take TRANSPORT_ID_LENGTH (sha ((flags_pack (ph_flags (pv_header v)) AND 0x0F) #
        ph_destination_hash (pv_header v) @ context_to_byte (ph_context (pv_header v)) #
        take LINK_REQUEST_KEY_BYTES (pv_payload v)))"
    using link_id_bytes [OF P(5), of sha "pv_payload v"] hash_mask_flags(2) [OF P(9)]
    by (simp add: P(6))
qed

section \<open>Properties\<close>

text \<open>C20. Round trip from values: a packet built from a well-formed header and a payload parses
  back to exactly that header and that payload.\<close>

theorem build_then_parse:
  assumes "header_wf h" "packet_bytes h p = Inr r"
  shows "packet_parse r =
    Inr \<lparr>pv_header = h, pv_payload = p, pv_raw = r, pv_payload_offset = header_size h\<rparr>"
proof -
  have "length (header_bytes h) + length p \<le> MTU" "r = header_bytes h @ p"
    using assms(2) by (auto simp: packet_bytes_eq split: if_splits)
  then show ?thesis
    using header_parse_bytes [OF assms(1)] length_header_bytes [OF assms(1)]
    by (simp add: packet_parse_def)
qed

definition sample_header :: packet_header where
  "sample_header =
     \<lparr>ph_flags = \<lparr>pf_header_type = Header2, pf_context_flag = True, pf_transport_type = TtTransport,
        pf_destination_type = DtLink, pf_packet_type = PtProof\<rparr>,
      ph_hops = 7, ph_transport_id = Some (replicate 16 1), ph_destination_hash = replicate 16 2,
      ph_context = CtxLrproof\<rparr>"

theorem build_then_parse_witness:
  "packet_parse (header_bytes sample_header @ [5, 6]) =
    Inr \<lparr>pv_header = sample_header, pv_payload = [5, 6],
         pv_raw = header_bytes sample_header @ [5, 6], pv_payload_offset = 35\<rparr>"
proof -
  have "header_wf sample_header" "header_size sample_header = 35"
    "length (header_bytes sample_header) = 35"
    by (simp_all add: header_wf_def sample_header_def size_consts header_size_def header_bytes_def)
  then show ?thesis
    using build_then_parse [of sample_header "[5, 6]" "header_bytes sample_header @ [5, 6]"]
    by (simp add: packet_bytes_eq size_consts)
qed

text \<open>C21. Round trip from bytes: whatever the parser accepts, rewriting the packet with its own
  parsed header reproduces the packet byte for byte, except that the reserved top bit of the flag
  byte is cleared.\<close>

theorem parse_then_rewrite:
  assumes "packet_parse r = Inr v"
  shows "rewrite_bytes r (pv_header v) (pv_header v) = Inr (r[0 := r ! 0 AND 127])"
proof -
  note P = packet_parse_InrD [OF assms]
  have "length (header_bytes (pv_header v)) + length (pv_payload v) = length r"
    using arg_cong [OF P(6), of length] by simp
  then show ?thesis
    using P by (simp add: rewrite_bytes_eq packet_bytes_eq)
qed

theorem parse_then_rewrite_witness:
  "let r = replicate 20 (131 :: u8);
       v = \<lparr>pv_header = \<lparr>ph_flags = flags_unpack 131, ph_hops = 131, ph_transport_id = None,
              ph_destination_hash = replicate 16 131, ph_context = CtxUnknown 131\<rparr>,
            pv_payload = [131], pv_raw = r, pv_payload_offset = 19\<rparr>
   in packet_parse r = Inr v \<and> rewrite_bytes r (pv_header v) (pv_header v) = Inr (r[0 := 3])"
proof -
  let ?r = "replicate 20 (131 :: u8)"
  have "packet_parse ?r = Inr \<lparr>pv_header = \<lparr>ph_flags = flags_unpack 131, ph_hops = 131,
      ph_transport_id = None, ph_destination_hash = replicate 16 131, ph_context = CtxUnknown 131\<rparr>,
      pv_payload = [131], pv_raw = ?r, pv_payload_offset = 19\<rparr>"
    by code_simp
  then show ?thesis
    using parse_then_rewrite [of ?r] by (simp add: Let_def)
qed

text \<open>C22. A transport node may rewrite flags, hop count and transport id of a packet it forwards;
  as long as destination type, packet type, destination and context stay, neither the packet hash
  used for duplicate detection nor the link id derived from a link request changes.\<close>

theorem hashes_invariant_under_rewrite:
  assumes "packet_parse r = Inr v" and "header_wf new"
    and "pf_destination_type (ph_flags new) = pf_destination_type (ph_flags (pv_header v))"
    and "pf_packet_type (ph_flags new) = pf_packet_type (ph_flags (pv_header v))"
    and "ph_destination_hash new = ph_destination_hash (pv_header v)"
    and "ph_context new = ph_context (pv_header v)"
    and "rewrite_bytes r (pv_header v) new = Inr r'"
  shows "packet_hash sha r' (pf_header_type (ph_flags new)) =
      packet_hash sha r (pf_header_type (ph_flags (pv_header v))) \<and>
    link_id_from_raw sha r' (pf_header_type (ph_flags new)) =
      link_id_from_raw sha r (pf_header_type (ph_flags (pv_header v)))"
proof -
  note P = packet_parse_InrD [OF assms(1)]
  have "r' = header_bytes new @ pv_payload v"
    using assms(7) P(3,7) by (auto simp: rewrite_bytes_eq packet_bytes_eq split: if_splits)
  then show ?thesis
    using assms(3-6)
    by (simp add: packet_hash_bytes [OF assms(2)] link_id_bytes [OF assms(2)]
        parsed_hashes [OF assms(1)] flags_pack_nibble)
qed

theorem hashes_invariant_under_rewrite_witness:
  "let r = replicate 20 (131 :: u8); new = \<lparr>ph_flags = (flags_unpack 131)\<lparr>pf_header_type := Header2,
         pf_transport_type := TtTransport\<rparr>, ph_hops = 9, ph_transport_id = Some (replicate 16 7),
         ph_destination_hash = replicate 16 131, ph_context = CtxUnknown 131\<rparr>
   in packet_hash id (header_bytes new @ [131]) Header2 = packet_hash id r Header1"
proof -
  let ?r = "replicate 20 (131 :: u8)"
  let ?v = "\<lparr>pv_header = \<lparr>ph_flags = flags_unpack 131, ph_hops = 131,
      ph_transport_id = None, ph_destination_hash = replicate 16 131, ph_context = CtxUnknown 131\<rparr>,
      pv_payload = [131], pv_raw = ?r, pv_payload_offset = 19\<rparr>"
  let ?new = "\<lparr>ph_flags = (flags_unpack 131)\<lparr>pf_header_type := Header2,
         pf_transport_type := TtTransport\<rparr>, ph_hops = 9, ph_transport_id = Some (replicate 16 7),
         ph_destination_hash = replicate 16 131, ph_context = CtxUnknown 131\<rparr>"
  have "packet_parse ?r = Inr ?v" by code_simp
  moreover have "header_wf ?new" by code_simp
  moreover have "rewrite_bytes ?r (pv_header ?v) ?new = Inr (header_bytes ?new @ [131])"
    by code_simp
  moreover have "pf_header_type (flags_unpack 131) = Header1" by code_simp
  ultimately show ?thesis
    using hashes_invariant_under_rewrite [of ?r ?v ?new "header_bytes ?new @ [131]" id]
    by (simp add: Let_def)
qed

end
