(* ===== verification/Crypto_Env.thy ===== *)
theory Crypto_Env
  imports Prelude
begin

text \<open>
  The cryptographic primitives of the crates the program depends on (\<^verbatim>\<open>sha2\<close>, \<^verbatim>\<open>ed25519_dalek\<close>,
  \<^verbatim>\<open>x25519_dalek\<close>, \<^verbatim>\<open>hkdf\<close>, \<^verbatim>\<open>hmac\<close>, \<^verbatim>\<open>aes\<close>, \<^verbatim>\<open>cbc\<close>): a parameter of the definitions that use them. What the program relies
  on is stated as named laws, each the documented behaviour of the primitive; theorems that need a
  law have it as a hypothesis. \<open>toy_crypto\<close> is a concrete instance that satisfies all of them.
\<close>

record crypto =
  cr_sha256 :: "bytes \<Rightarrow> bytes"
  cr_ed_key_ok :: "bytes \<Rightarrow> bool"
  cr_ed_verify :: "bytes \<Rightarrow> bytes \<Rightarrow> bytes \<Rightarrow> bool"
  cr_ed_sign :: "bytes \<Rightarrow> bytes \<Rightarrow> bytes"
  cr_ed_public :: "bytes \<Rightarrow> bytes"
  cr_x_public :: "bytes \<Rightarrow> bytes"
  cr_x_shared :: "bytes \<Rightarrow> bytes \<Rightarrow> bytes"
  cr_hkdf :: "bytes \<Rightarrow> bytes \<Rightarrow> nat \<Rightarrow> bytes option"
  cr_hmac :: "bytes \<Rightarrow> bytes \<Rightarrow> bytes"
  cr_aes_cbc_encrypt :: "bytes \<Rightarrow> bytes \<Rightarrow> bytes \<Rightarrow> bytes"
  cr_aes_cbc_decrypt :: "bytes \<Rightarrow> bytes \<Rightarrow> bytes \<Rightarrow> bytes"

definition sha_law :: "crypto \<Rightarrow> bool" where
  "sha_law C \<longleftrightarrow> (\<forall>d. length (cr_sha256 C d) = 32)"

definition ed_law :: "crypto \<Rightarrow> bool" where
  "ed_law C \<longleftrightarrow>
     (\<forall>seed. length (cr_ed_public C seed) = 32 \<and> cr_ed_key_ok C (cr_ed_public C seed)) \<and>
     (\<forall>seed m. length (cr_ed_sign C seed m) = 64 \<and>
        cr_ed_verify C (cr_ed_public C seed) m (cr_ed_sign C seed m))"

definition x_law :: "crypto \<Rightarrow> bool" where
  "x_law C \<longleftrightarrow>
     (\<forall>a. length (cr_x_public C a) = 32) \<and>
     (\<forall>a b. cr_x_shared C a (cr_x_public C b) = cr_x_shared C b (cr_x_public C a))"

text \<open>HKDF-SHA256 expands to at most 255 blocks of 32 bytes.\<close>

definition hkdf_law :: "crypto \<Rightarrow> bool" where
  "hkdf_law C \<longleftrightarrow>
     (\<forall>salt ikm n. n \<le> 8160 \<longrightarrow>
        (case cr_hkdf C salt ikm n of None \<Rightarrow> False | Some okm \<Rightarrow> length okm = n))"

definition hmac_law :: "crypto \<Rightarrow> bool" where
  "hmac_law C \<longleftrightarrow> (\<forall>key m. length (cr_hmac C key m) = 32)"

text \<open>AES-256-CBC without padding maps whole blocks to as many blocks and is undone by decryption
  with the same key and initialisation vector.\<close>

definition aes_law :: "crypto \<Rightarrow> bool" where
  "aes_law C \<longleftrightarrow>
     (\<forall>key iv d. length d mod 16 = 0 \<longrightarrow>
        length (cr_aes_cbc_encrypt C key iv d) = length d \<and>
        length (cr_aes_cbc_decrypt C key iv d) = length d \<and>
        cr_aes_cbc_decrypt C key iv (cr_aes_cbc_encrypt C key iv d) = d)"

lemma hmac_lawD: "hmac_law C \<Longrightarrow> length (cr_hmac C key m) = 32"
  by (simp add: hmac_law_def)

lemma aes_lawD:
  assumes "aes_law C" "length d mod 16 = 0"
  shows "length (cr_aes_cbc_encrypt C key iv d) = length d"
    "length (cr_aes_cbc_decrypt C key iv d) = length d"
    "cr_aes_cbc_decrypt C key iv (cr_aes_cbc_encrypt C key iv d) = d"
  using assms by (simp_all add: aes_law_def)

lemma sha_lawD: "sha_law C \<Longrightarrow> length (cr_sha256 C d) = 32"
  by (simp add: sha_law_def)

lemma ed_lawD:
  assumes "ed_law C"
  shows "length (cr_ed_public C seed) = 32" "cr_ed_key_ok C (cr_ed_public C seed)"
    "length (cr_ed_sign C seed m) = 64"
    "cr_ed_verify C (cr_ed_public C seed) m (cr_ed_sign C seed m)"
  using assms by (simp_all add: ed_law_def)

lemma hkdf_lawD:
  assumes "hkdf_law C" "n \<le> 8160"
  obtains okm where "cr_hkdf C salt ikm n = Some okm" "length okm = n"
proof -
  have "case cr_hkdf C salt ikm n of None \<Rightarrow> False | Some okm \<Rightarrow> length okm = n"
    using assms by (simp add: hkdf_law_def)
  then show ?thesis
    by (cases "cr_hkdf C salt ikm n") (auto intro: that)
qed

section \<open>A concrete instance\<close>

definition fit :: "nat \<Rightarrow> bytes \<Rightarrow> bytes" where
  "fit n bs = take n (bs @ replicate n 0)"

lemma length_fit [simp]: "length (fit n bs) = n"
  by (simp add: fit_def)

definition toy_shared :: "bytes \<Rightarrow> bytes \<Rightarrow> bytes" where
  "toy_shared a b = map2 (XOR) (fit 32 a) (fit 32 b)"

definition toy_crypto :: crypto where
  "toy_crypto =
     \<lparr>cr_sha256 = fit 32, cr_ed_key_ok = (\<lambda>_. True),
      cr_ed_verify = (\<lambda>pk m s. s = fit 64 (fit 32 pk @ m)),
      cr_ed_sign = (\<lambda>seed m. fit 64 (fit 32 seed @ m)), cr_ed_public = fit 32,
      cr_x_public = fit 32, cr_x_shared = toy_shared,
      cr_hkdf = (\<lambda>salt ikm n. Some (fit n (salt @ ikm))),
      cr_hmac = (\<lambda>key m. fit 32 (key @ m)),
      cr_aes_cbc_encrypt = (\<lambda>key iv d. d), cr_aes_cbc_decrypt = (\<lambda>key iv d. d)\<rparr>"

lemma fit_fit [simp]: "fit n (fit n bs) = fit n bs"
  by (simp add: fit_def)

lemma map2_xor_commute: "map2 (XOR) a b = map2 (XOR) b (a :: bytes)"
  by (induction a b rule: list_induct2') (simp_all add: xor.commute)

lemma toy_shared_commute: "toy_shared a (fit 32 b) = toy_shared b (fit 32 a)"
  unfolding toy_shared_def fit_fit by (rule map2_xor_commute)

lemma toy_sha_law [simp]: "sha_law toy_crypto"
  by (simp add: sha_law_def toy_crypto_def)

lemma toy_ed_law [simp]: "ed_law toy_crypto"
  by (simp add: ed_law_def toy_crypto_def)

lemma toy_x_law [simp]: "x_law toy_crypto"
  unfolding x_law_def toy_crypto_def crypto.select_convs length_fit
  using toy_shared_commute by blast

lemma toy_hmac_law [simp]: "hmac_law toy_crypto"
  by (simp add: hmac_law_def toy_crypto_def)

lemma toy_aes_law [simp]: "aes_law toy_crypto"
  by (simp add: aes_law_def toy_crypto_def)

lemma toy_hkdf_law [simp]: "hkdf_law toy_crypto"
  by (simp add: hkdf_law_def toy_crypto_def)

end
