(* ===== verification/Identity.thy ===== *)
theory Identity
  imports Wire Path_Table Crypto_Env
begin

text \<open>
  Identities and announces (\<^verbatim>\<open>identity.rs\<close>): parsing an announce payload, binding it to its
  destination and checking its signature, and the endpoint side that derives keys and creates
  signed announces. A scratch slice is represented by its length, since only the signed prefix that
  is assembled in it is read.
\<close>

section \<open>Parsing and validation\<close>

definition PUBLIC_KEY_LENGTH :: nat where "PUBLIC_KEY_LENGTH = 64"
definition NAME_HASH_LENGTH :: nat where "NAME_HASH_LENGTH = 10"
definition RANDOM_HASH_LENGTH :: nat where "RANDOM_HASH_LENGTH = 10"
definition RATCHET_SIZE :: nat where "RATCHET_SIZE = 32"
definition ANNOUNCE_BASE_SIZE :: nat where
  "ANNOUNCE_BASE_SIZE =
     PUBLIC_KEY_LENGTH + NAME_HASH_LENGTH + RANDOM_HASH_LENGTH + SIGNATURE_LENGTH"
definition MAX_ANNOUNCE_APP_DATA :: nat where
  "MAX_ANNOUNCE_APP_DATA = MTU - HEADER_MINSIZE - ANNOUNCE_BASE_SIZE"
definition SIGNED_DATA_MAX :: nat where
  "SIGNED_DATA_MAX = TRANSPORT_ID_LENGTH + PUBLIC_KEY_LENGTH + NAME_HASH_LENGTH +
     RANDOM_HASH_LENGTH + RATCHET_SIZE + MAX_ANNOUNCE_APP_DATA"

lemmas announce_consts = PUBLIC_KEY_LENGTH_def NAME_HASH_LENGTH_def RANDOM_HASH_LENGTH_def
  RATCHET_SIZE_def ANNOUNCE_BASE_SIZE_def MAX_ANNOUNCE_APP_DATA_def SIGNED_DATA_MAX_def size_consts

record announce_view =
  av_public_key :: bytes
  av_name_hash :: bytes
  av_random_hash :: bytes
  av_ratchet :: "bytes option"
  av_signature :: bytes
  av_app_data :: bytes

datatype announce_error = AeTooShort | AeAppDataTooLong | AeScratchTooSmall | AeOutputTooSmall
  | AeInvalidPublicKey | AeSignatureInvalid | AeDestinationHashMismatch | AePublicKeyChanged

definition announce_parse :: "bytes \<Rightarrow> bool \<Rightarrow> nat \<Rightarrow> announce_error + announce_view" where
  "announce_parse payload has_ratchet max_app_data =
     (let min_size = ANNOUNCE_BASE_SIZE + (if has_ratchet then RATCHET_SIZE else 0) in
      if length payload < min_size then Inl AeTooShort
      else if length payload - min_size > max_app_data then Inl AeAppDataTooLong
      else
        let p1 = PUBLIC_KEY_LENGTH; p2 = p1 + NAME_HASH_LENGTH; p3 = p2 + RANDOM_HASH_LENGTH;
            p4 = (if has_ratchet then p3 + RATCHET_SIZE else p3); p5 = p4 + SIGNATURE_LENGTH in
        Inr \<lparr>av_public_key = slice 0 p1 payload, av_name_hash = slice p1 p2 payload,
             av_random_hash = slice p2 p3 payload,
             av_ratchet = (if has_ratchet then Some (slice p3 p4 payload) else None),
             av_signature = slice p4 p5 payload, av_app_data = drop p5 payload\<rparr>)"

definition identity_hash :: "crypto \<Rightarrow> bytes \<Rightarrow> hash16" where
  "identity_hash C public_key = truncated_hash (cr_sha256 C) public_key"

definition name_hash :: "crypto \<Rightarrow> bytes \<Rightarrow> bytes" where
  "name_hash C name = take NAME_HASH_LENGTH (cr_sha256 C name)"

definition destination_hash_from_parts :: "crypto \<Rightarrow> bytes \<Rightarrow> hash16 option \<Rightarrow> hash16" where
  "destination_hash_from_parts C nh ident =
     (case ident of
        Some ih \<Rightarrow> truncated_hash (cr_sha256 C) (nh @ ih)
      | None \<Rightarrow> truncated_hash (cr_sha256 C) nh)"

definition destination_hash_from_name :: "crypto \<Rightarrow> bytes \<Rightarrow> hash16 option \<Rightarrow> hash16" where
  "destination_hash_from_name C name ident = destination_hash_from_parts C (name_hash C name) ident"

definition ratchet_len :: "bytes option \<Rightarrow> nat" where
  "ratchet_len r = (case r of None \<Rightarrow> 0 | Some _ \<Rightarrow> RATCHET_SIZE)"

definition ratchet_bytes :: "bytes option \<Rightarrow> bytes" where
  "ratchet_bytes r = (case r of None \<Rightarrow> [] | Some b \<Rightarrow> b)"

definition verify_signature ::
  "crypto \<Rightarrow> announce_view \<Rightarrow> hash16 \<Rightarrow> nat \<Rightarrow> announce_error + unit" where
  "verify_signature C v destination_hash scratch_len =
     (let signed_len = TRANSPORT_ID_LENGTH + PUBLIC_KEY_LENGTH + NAME_HASH_LENGTH +
            RANDOM_HASH_LENGTH + ratchet_len (av_ratchet v) + length (av_app_data v) in
      if scratch_len < signed_len then Inl AeScratchTooSmall
      else
        let signed = destination_hash @ av_public_key v @ av_name_hash v @ av_random_hash v @
              ratchet_bytes (av_ratchet v) @ av_app_data v;
            ed_pub = drop 32 (av_public_key v) in
        if \<not> cr_ed_key_ok C ed_pub then Inl AeInvalidPublicKey
        else if cr_ed_verify C ed_pub signed (av_signature v) then Inr ()
        else Inl AeSignatureInvalid)"

definition announce_validate ::
  "crypto \<Rightarrow> announce_view \<Rightarrow> hash16 \<Rightarrow> bytes option \<Rightarrow> nat \<Rightarrow> announce_error + hash16" where
  "announce_validate C v destination_hash known_public_key scratch_len =
     (let ih = identity_hash C (av_public_key v);
          expected_dest = destination_hash_from_parts C (av_name_hash v) (Some ih) in
      if expected_dest \<noteq> destination_hash then Inl AeDestinationHashMismatch
      else if is_some_and known_public_key (\<lambda>k. k \<noteq> av_public_key v) then Inl AePublicKeyChanged
      else case verify_signature C v destination_hash scratch_len of
        Inl e \<Rightarrow> Inl e | Inr _ \<Rightarrow> Inr ih)"

section \<open>Endpoint identity\<close>

definition compose_random_hash :: "bytes \<Rightarrow> u64 \<Rightarrow> bytes" where
  "compose_random_hash rng unix_secs = rng @ drop 3 (to_be_bytes 8 unix_secs)"

record local_identity =
  li_private_key :: bytes
  li_public_key :: bytes
  li_identity_hash :: hash16

definition derive_public_key :: "crypto \<Rightarrow> bytes \<Rightarrow> bytes" where
  "derive_public_key C private_key =
     cr_x_public C (take 32 private_key) @ cr_ed_public C (drop 32 private_key)"

definition from_private_key :: "crypto \<Rightarrow> bytes \<Rightarrow> local_identity" where
  "from_private_key C private_key =
     (let public_key = derive_public_key C private_key in
      \<lparr>li_private_key = private_key, li_public_key = public_key,
       li_identity_hash = identity_hash C public_key\<rparr>)"

definition li_destination_hash :: "crypto \<Rightarrow> local_identity \<Rightarrow> bytes \<Rightarrow> hash16" where
  "li_destination_hash C self name =
     destination_hash_from_name C name (Some (li_identity_hash self))"

definition li_sign :: "crypto \<Rightarrow> local_identity \<Rightarrow> bytes \<Rightarrow> bytes" where
  "li_sign C self message = cr_ed_sign C (drop 32 (li_private_key self)) message"

definition create_announce_with_name_hash ::
  "crypto \<Rightarrow> local_identity \<Rightarrow> bytes \<Rightarrow> bytes \<Rightarrow> bytes option \<Rightarrow> bytes \<Rightarrow> bytes
   \<Rightarrow> (announce_error + nat) \<times> bytes" where
  "create_announce_with_name_hash C self nh random_hash ratchet app_data out =
     (if length app_data > MAX_ANNOUNCE_APP_DATA then (Inl AeAppDataTooLong, out)
      else
        let announce_len = PUBLIC_KEY_LENGTH + NAME_HASH_LENGTH + RANDOM_HASH_LENGTH +
              ratchet_len ratchet + SIGNATURE_LENGTH + length app_data in
        if length out < announce_len then (Inl AeOutputTooSmall, out)
        else
          let dest_hash = destination_hash_from_parts C nh (Some (li_identity_hash self));
              signed = dest_hash @ li_public_key self @ nh @ random_hash @
                ratchet_bytes ratchet @ app_data;
              signature = li_sign C self signed in
          (Inr announce_len,
           overwrite out 0 (li_public_key self @ nh @ random_hash @ ratchet_bytes ratchet @
             signature @ app_data)))"

definition create_announce_named ::
  "crypto \<Rightarrow> local_identity \<Rightarrow> bytes \<Rightarrow> bytes \<Rightarrow> bytes option \<Rightarrow> bytes \<Rightarrow> bytes
   \<Rightarrow> (announce_error + nat) \<times> bytes" where
  "create_announce_named C self name random_hash ratchet app_data out =
     create_announce_with_name_hash C self (name_hash C name) random_hash ratchet app_data out"

section \<open>Facts\<close>

lemma identity_hash_length: "sha_law C \<Longrightarrow> length (identity_hash C k) = 16"
  by (simp add: identity_hash_def truncated_hash_def sha_lawD size_consts)

lemma name_hash_length: "sha_law C \<Longrightarrow> length (name_hash C k) = 10"
  by (simp add: name_hash_def sha_lawD announce_consts)

lemma derive_public_key_length:
  "x_law C \<Longrightarrow> ed_law C \<Longrightarrow> length (derive_public_key C sk) = 64"
  by (simp add: derive_public_key_def x_law_def ed_lawD)

lemma derive_public_key_ed:
  "x_law C \<Longrightarrow> drop 32 (derive_public_key C sk) = cr_ed_public C (drop 32 sk)"
  by (simp add: derive_public_key_def x_law_def)

text \<open>The fields of a payload laid out as the announce format prescribes are recovered by the
  parser.\<close>

lemma announce_parse_layout:
  assumes "length pk = 64" "length nh = 10" "length rh = 10" "length sig = 64"
    and "pred_option (\<lambda>r. length r = 32) ratchet" "length app \<le> max_app_data"
  shows "announce_parse (pk @ nh @ rh @ ratchet_bytes ratchet @ sig @ app) (ratchet \<noteq> None)
      max_app_data =
    Inr \<lparr>av_public_key = pk, av_name_hash = nh, av_random_hash = rh, av_ratchet = ratchet,
      av_signature = sig, av_app_data = app\<rparr>"
proof -
  let ?p = "pk @ nh @ rh @ ratchet_bytes ratchet @ sig @ app"
  let ?r = "if ratchet \<noteq> None then 32 else 0 :: nat"
  have r: "length (ratchet_bytes ratchet) = ?r"
    using assms(5) by (cases ratchet) (simp_all add: ratchet_bytes_def)
  have "slice 0 64 ?p = pk" "slice 64 74 ?p = nh" "slice 74 84 ?p = rh"
    "slice 84 (84 + ?r) ?p = ratchet_bytes ratchet" "slice (84 + ?r) (148 + ?r) ?p = sig"
    "drop (148 + ?r) ?p = app"
    using slice_mid [of "[]" 0 pk 64 "drop 64 ?p"] slice_mid [of pk 64 nh 74 "drop 74 ?p"]
      slice_mid [of "pk @ nh" 74 rh 84 "drop 84 ?p"]
      slice_mid [of "pk @ nh @ rh" 84 "ratchet_bytes ratchet" "84 + ?r" "sig @ app"]
      slice_mid [of "pk @ nh @ rh @ ratchet_bytes ratchet" "84 + ?r" sig "148 + ?r" app]
      assms(1-4) r
    by simp_all
  moreover have "length ?p = 148 + ?r + length app"
    using assms(1-4) r by simp
  moreover have "ratchet \<noteq> None \<Longrightarrow> Some (ratchet_bytes ratchet) = ratchet"
    by (cases ratchet) (simp_all add: ratchet_bytes_def)
  ultimately show ?thesis
    using assms(6) unfolding announce_parse_def announce_consts Let_def
    by (cases "ratchet = None") simp_all
qed

lemma announce_parse_InrD:
  assumes "announce_parse p has_ratchet m = Inr v"
  shows "length (av_public_key v) = 64" "length (av_name_hash v) = 10"
    "length (av_random_hash v) = 10" "length (av_signature v) = 64"
    "length (av_app_data v) \<le> m" "(av_ratchet v \<noteq> None) = has_ratchet"
    "pred_option (\<lambda>r. length r = 32) (av_ratchet v)"
  using assms
  by (auto simp: announce_parse_def announce_consts Let_def split: if_splits)

lemma announce_validate_InrD:
  assumes "announce_validate C v d known n = Inr ih"
  shows "ih = identity_hash C (av_public_key v)"
    "d = destination_hash_from_parts C (av_name_hash v) (Some ih)"
    "\<And>k. known = Some k \<Longrightarrow> k = av_public_key v"
    "cr_ed_verify C (drop 32 (av_public_key v))
       (d @ av_public_key v @ av_name_hash v @ av_random_hash v @
        ratchet_bytes (av_ratchet v) @ av_app_data v) (av_signature v)"
  using assms
  by (auto simp: announce_validate_def verify_signature_def Let_def split: if_splits sum.splits)

text \<open>An ordering value placed in a random hash is what every relay reads back from it.\<close>

lemma announce_emitted_compose:
  assumes "length rng = 5"
  shows "announce_emitted (compose_random_hash rng t) = take_bit 40 t"
proof -
  have "drop 3 (to_be_bytes 8 t) = to_be_bytes 5 t"
    using drop_to_be_bytes [of 5 8 t] by simp
  then have "slice 5 10 (compose_random_hash rng t) = to_be_bytes 5 t"
    using assms by (simp add: compose_random_hash_def slice_def)
  then show ?thesis
    unfolding announce_emitted_def
    by (simp add: from_be_bytes_zeros_append from_to_be_bytes)
qed

lemma create_announce_result:
  assumes "length app \<le> MAX_ANNOUNCE_APP_DATA"
    and "ANNOUNCE_BASE_SIZE + ratchet_len ratchet + length app \<le> length out"
  shows "create_announce_with_name_hash C self nh rh ratchet app out =
    (Inr (ANNOUNCE_BASE_SIZE + ratchet_len ratchet + length app),
     overwrite out 0 (li_public_key self @ nh @ rh @ ratchet_bytes ratchet @
       li_sign C self (destination_hash_from_parts C nh (Some (li_identity_hash self)) @
         li_public_key self @ nh @ rh @ ratchet_bytes ratchet @ app) @ app))"
  using assms by (simp add: create_announce_with_name_hash_def ANNOUNCE_BASE_SIZE_def Let_def)

lemma create_announce_errors:
  "fst (create_announce_with_name_hash C self nh rh ratchet app out) = Inl AeAppDataTooLong
     \<longleftrightarrow> MAX_ANNOUNCE_APP_DATA < length app"
  "fst (create_announce_with_name_hash C self nh rh ratchet app out) = Inl AeOutputTooSmall
     \<longleftrightarrow> length app \<le> MAX_ANNOUNCE_APP_DATA \<and>
       length out < ANNOUNCE_BASE_SIZE + ratchet_len ratchet + length app"
  by (auto simp: create_announce_with_name_hash_def ANNOUNCE_BASE_SIZE_def Let_def)

lemma ratchet_len_bytes:
  "pred_option (\<lambda>r. length r = 32) ratchet \<Longrightarrow> length (ratchet_bytes ratchet) = ratchet_len ratchet"
  by (cases ratchet) (simp_all add: ratchet_bytes_def ratchet_len_def RATCHET_SIZE_def)

lemma signed_fits_scratch:
  assumes "pred_option (\<lambda>r. length r = 32) ratchet" "length app \<le> MAX_ANNOUNCE_APP_DATA"
  shows "TRANSPORT_ID_LENGTH + PUBLIC_KEY_LENGTH + NAME_HASH_LENGTH + RANDOM_HASH_LENGTH +
    ratchet_len ratchet + length app \<le> SIGNED_DATA_MAX"
  using assms by (cases ratchet) (simp_all add: SIGNED_DATA_MAX_def ratchet_len_def)

text \<open>The payload an identity writes for its own announce, and what a receiver reads from it.\<close>

definition announce_payload ::
  "crypto \<Rightarrow> local_identity \<Rightarrow> bytes \<Rightarrow> bytes \<Rightarrow> bytes option \<Rightarrow> bytes \<Rightarrow> bytes" where
  "announce_payload C self nh rh ratchet app =
     li_public_key self @ nh @ rh @ ratchet_bytes ratchet @
     li_sign C self (destination_hash_from_parts C nh (Some (li_identity_hash self)) @
       li_public_key self @ nh @ rh @ ratchet_bytes ratchet @ app) @ app"

lemma announce_payload_valid:
  assumes laws: "sha_law C" "ed_law C" "x_law C"
    and nh: "length nh = 10" and rh: "length rh = 10"
    and rt: "pred_option (\<lambda>r. length r = 32) ratchet"
    and app: "length app \<le> MAX_ANNOUNCE_APP_DATA" "length app \<le> max_app_data"
    and self: "self = from_private_key C sk"
    and known: "known = None \<or> known = Some (li_public_key self)"
  obtains v where "length (announce_payload C self nh rh ratchet app) =
      ANNOUNCE_BASE_SIZE + ratchet_len ratchet + length app"
    "announce_parse (announce_payload C self nh rh ratchet app) (ratchet \<noteq> None) max_app_data = Inr v"
    "av_public_key v = li_public_key self" "av_name_hash v = nh" "av_random_hash v = rh"
    "av_ratchet v = ratchet" "av_app_data v = app"
    "announce_validate C v (destination_hash_from_parts C nh (Some (li_identity_hash self))) known
      SIGNED_DATA_MAX = Inr (li_identity_hash self)"
proof -
  let ?d = "destination_hash_from_parts C nh (Some (li_identity_hash self))"
  let ?signed = "?d @ li_public_key self @ nh @ rh @ ratchet_bytes ratchet @ app"
  let ?sig = "li_sign C self ?signed"
  let ?v = "\<lparr>av_public_key = li_public_key self, av_name_hash = nh, av_random_hash = rh,
    av_ratchet = ratchet, av_signature = ?sig, av_app_data = app\<rparr>"
  have pk: "li_public_key self = derive_public_key C sk" "li_private_key self = sk"
    "li_identity_hash self = identity_hash C (derive_public_key C sk)"
    by (simp_all add: self from_private_key_def Let_def)
  have pk64: "length (li_public_key self) = 64"
    using laws by (simp add: pk derive_public_key_length)
  have sig64: "length ?sig = 64"
    using laws by (simp add: li_sign_def ed_lawD)
  have len: "length (announce_payload C self nh rh ratchet app) = ANNOUNCE_BASE_SIZE + ratchet_len ratchet + length app"
    using pk64 sig64 nh rh ratchet_len_bytes [OF rt] by (simp add: announce_payload_def announce_consts)
  have parsed: "announce_parse (announce_payload C self nh rh ratchet app) (ratchet \<noteq> None) max_app_data = Inr ?v"
    unfolding announce_payload_def
    by (rule announce_parse_layout) (use pk64 nh rh sig64 rt app in simp_all)
  have "cr_ed_verify C (drop 32 (li_public_key self)) ?signed ?sig"
    using laws by (simp add: pk li_sign_def derive_public_key_ed ed_lawD)
  moreover have "cr_ed_key_ok C (drop 32 (li_public_key self))"
    using laws by (simp add: pk derive_public_key_ed ed_lawD)
  ultimately have "verify_signature C ?v ?d SIGNED_DATA_MAX = Inr ()"
    using signed_fits_scratch [OF rt app(1)] by (simp add: verify_signature_def Let_def)
  then have "announce_validate C ?v ?d known SIGNED_DATA_MAX = Inr (li_identity_hash self)"
    using known by (auto simp: announce_validate_def Let_def pk)
  with len parsed show ?thesis by (intro that [of ?v]) simp_all
qed

text \<open>Announce round trip: for every identity derived from a private key, every name hash,
  random hash, optional ratchet and application data within the limit, and every output slice that
  is large enough, creating an announce succeeds; the bytes it wrote parse back to exactly those
  fields; and they validate against the identity's destination hash, with no known key or with the
  identity's own key known, within the scratch the crate reserves.\<close>

theorem created_announce_validates:
  assumes laws: "sha_law C" "ed_law C" "x_law C"
    and nh: "length nh = 10" and rh: "length rh = 10"
    and rt: "pred_option (\<lambda>r. length r = 32) ratchet"
    and app: "length app \<le> MAX_ANNOUNCE_APP_DATA"
    and out: "ANNOUNCE_BASE_SIZE + ratchet_len ratchet + length app \<le> length out"
    and self: "self = from_private_key C sk"
    and known: "known = None \<or> known = Some (li_public_key self)"
  shows "\<exists>n out' v.
    create_announce_with_name_hash C self nh rh ratchet app out = (Inr n, out') \<and>
    announce_parse (take n out') (ratchet \<noteq> None) MAX_ANNOUNCE_APP_DATA = Inr v \<and>
    av_public_key v = li_public_key self \<and> av_name_hash v = nh \<and> av_random_hash v = rh \<and>
    av_ratchet v = ratchet \<and> av_app_data v = app \<and>
    announce_validate C v (destination_hash_from_parts C nh (Some (li_identity_hash self))) known
      SIGNED_DATA_MAX = Inr (li_identity_hash self)"
proof -
  obtain v where v: "length (announce_payload C self nh rh ratchet app) =
      ANNOUNCE_BASE_SIZE + ratchet_len ratchet + length app"
    "announce_parse (announce_payload C self nh rh ratchet app) (ratchet \<noteq> None) MAX_ANNOUNCE_APP_DATA = Inr v"
    "av_public_key v = li_public_key self" "av_name_hash v = nh" "av_random_hash v = rh"
    "av_ratchet v = ratchet" "av_app_data v = app"
    "announce_validate C v (destination_hash_from_parts C nh (Some (li_identity_hash self))) known
      SIGNED_DATA_MAX = Inr (li_identity_hash self)"
    by (rule announce_payload_valid [OF laws nh rh rt app app self known])
  have "take (ANNOUNCE_BASE_SIZE + ratchet_len ratchet + length app)
      (overwrite out 0 (announce_payload C self nh rh ratchet app)) = announce_payload C self nh rh ratchet app"
    using v(1) by (simp add: overwrite_def)
  with create_announce_result [OF app out] v(2-) show ?thesis by (auto simp: announce_payload_def)
qed

theorem created_announce_validates_witness:
  "\<exists>n out' v.
    create_announce_with_name_hash toy_crypto (from_private_key toy_crypto (replicate 64 7))
      (replicate 10 1) (replicate 10 2) None [3, 4] (replicate 200 0) = (Inr n, out') \<and>
    announce_parse (take n out') False MAX_ANNOUNCE_APP_DATA = Inr v \<and>
    av_app_data v = [3, 4]"
  using created_announce_validates [of toy_crypto "replicate 10 1" "replicate 10 2" None "[3, 4]"
      "replicate 200 0" "from_private_key toy_crypto (replicate 64 7)" "replicate 64 7" None]
  by (simp add: announce_consts ratchet_len_def) blast

end
