(* ===== verification/Known_Destinations.thy ===== *)
theory Known_Destinations
  imports Identity
begin

text \<open>
  The cache of delivery identities (\<^verbatim>\<open>known_destinations.rs\<close>): learning with first-key-wins,
  recall, eviction of the least recent entry, and the persisted blob. The array and its length are
  kept as in the source; only the first \<open>kd_len\<close> entries are visible.
\<close>

definition BLOB_MAGIC :: bytes where "BLOB_MAGIC = [0x52, 0x4B, 0x44, 0x31]"
definition BLOB_VERSION :: u8 where "BLOB_VERSION = 1"
definition BLOB_HEADER_LEN :: nat where "BLOB_HEADER_LEN = 7"
definition ENTRY_LEN :: nat where "ENTRY_LEN = TRANSPORT_ID_LENGTH + PUBLIC_KEY_LENGTH + 8"

text \<open>The bytes of \<^verbatim>\<open>"lxmf.delivery"\<close>.\<close>

definition LXMF_DELIVERY_NAME :: bytes where
  "LXMF_DELIVERY_NAME =
     [0x6C, 0x78, 0x6D, 0x66, 0x2E, 0x64, 0x65, 0x6C, 0x69, 0x76, 0x65, 0x72, 0x79]"

record known_destination =
  kn_destination_hash :: hash16
  kn_public_key :: bytes
  kn_last_seen :: u64

definition EMPTY_ENTRY :: known_destination where
  "EMPTY_ENTRY = \<lparr>kn_destination_hash = replicate TRANSPORT_ID_LENGTH 0,
     kn_public_key = replicate PUBLIC_KEY_LENGTH 0, kn_last_seen = 0\<rparr>"

datatype known_destination_error = KdEmptyCapacity | KdKeyConflict | KdOutputTooSmall
  | KdInvalidHeader | KdUnsupportedVersion | KdCountTooLarge | KdInvalidLength
  | KdDestinationHashMismatch | KdDuplicateDestination

record known_destinations =
  kd_entries :: "known_destination list"
  kd_len :: nat

definition kd_visible :: "known_destinations \<Rightarrow> known_destination list" where
  "kd_visible k = take (kd_len k) (kd_entries k)"

definition kd_new :: "nat \<Rightarrow> known_destinations" where
  "kd_new n = \<lparr>kd_entries = replicate n EMPTY_ENTRY, kd_len = 0\<rparr>"

definition kd_is_empty :: "known_destinations \<Rightarrow> bool" where
  "kd_is_empty k \<longleftrightarrow> kd_len k = 0"

definition blob_capacity :: "nat \<Rightarrow> nat" where
  "blob_capacity n = BLOB_HEADER_LEN + n * ENTRY_LEN"

definition kd_peek :: "known_destinations \<Rightarrow> hash16 \<Rightarrow> bytes option" where
  "kd_peek k d =
     map_option kn_public_key (List.find (\<lambda>e. kn_destination_hash e = d) (kd_visible k))"

definition next_recency :: "known_destinations \<Rightarrow> u64" where
  "next_recency k =
     sat_add (case map kn_last_seen (kd_visible k) of [] \<Rightarrow> 0 | s # ss \<Rightarrow> foldl max s ss) 1"

definition kd_recall :: "known_destinations \<Rightarrow> hash16 \<Rightarrow> bytes option \<times> known_destinations" where
  "kd_recall k d =
     (case position (\<lambda>e. kn_destination_hash e = d) (kd_visible k) of
        None \<Rightarrow> (None, k)
      | Some i \<Rightarrow>
          (Some (kn_public_key (kd_entries k ! i)),
           k\<lparr>kd_entries := (kd_entries k)[i := (kd_entries k ! i)\<lparr>kn_last_seen := next_recency k\<rparr>]\<rparr>))"

definition delivery_destination_hash :: "crypto \<Rightarrow> bytes \<Rightarrow> hash16" where
  "delivery_destination_hash C public_key =
     destination_hash_from_name C LXMF_DELIVERY_NAME (Some (identity_hash C public_key))"

text \<open>\<^verbatim>\<open>enumerate().min_by_key(..)\<close>: the first index with the least value.\<close>

fun min_index :: "u64 list \<Rightarrow> nat option" where
  "min_index [] = None"
| "min_index (x # xs) =
     (case min_index xs of
        None \<Rightarrow> Some 0
      | Some i \<Rightarrow> if x \<le> xs ! i then Some 0 else Some (Suc i))"

definition kd_learn ::
  "crypto \<Rightarrow> known_destinations \<Rightarrow> hash16 \<Rightarrow> bytes \<Rightarrow> u64
   \<Rightarrow> (known_destination_error + bool) \<times> known_destinations" where
  "kd_learn C k d public_key now =
     (if length (kd_entries k) = 0 then (Inl KdEmptyCapacity, k)
      else case List.find (\<lambda>e. kn_destination_hash e = d) (kd_visible k) of
        Some e \<Rightarrow>
          (if kn_public_key e = public_key then (Inr False, k) else (Inl KdKeyConflict, k))
      | None \<Rightarrow>
          if delivery_destination_hash C public_key \<noteq> d then (Inl KdDestinationHashMismatch, k)
          else
            let e = \<lparr>kn_destination_hash = d, kn_public_key = public_key,
                     kn_last_seen = max now (next_recency k)\<rparr> in
            if kd_len k < length (kd_entries k)
            then (Inr True, k\<lparr>kd_entries := (kd_entries k)[kd_len k := e], kd_len := kd_len k + 1\<rparr>)
            else
              let oldest = (case min_index (map kn_last_seen (kd_visible k)) of
                              None \<Rightarrow> 0 | Some i \<Rightarrow> i) in
              (Inr True, k\<lparr>kd_entries := (kd_entries k)[oldest := e]\<rparr>))"

definition encode_entry :: "known_destination \<Rightarrow> bytes" where
  "encode_entry e =
     kn_destination_hash e @ kn_public_key e @ to_be_bytes 8 (kn_last_seen e)"

definition kd_export_into ::
  "known_destinations \<Rightarrow> bytes \<Rightarrow> (known_destination_error + nat) \<times> bytes" where
  "kd_export_into k out =
     (let needed = BLOB_HEADER_LEN + kd_len k * ENTRY_LEN in
      if length out < needed then (Inl KdOutputTooSmall, out)
      else
        (Inr needed,
         overwrite out 0 (BLOB_MAGIC @ [BLOB_VERSION] @
           to_be_bytes 2 (of_nat (kd_len k) :: u16) @ concat (map encode_entry (kd_visible k)))))"

definition decode_entry :: "bytes \<Rightarrow> nat \<Rightarrow> u64 \<Rightarrow> known_destination" where
  "decode_entry blob index now =
     (let p0 = BLOB_HEADER_LEN + index * ENTRY_LEN; p1 = p0 + TRANSPORT_ID_LENGTH;
          p2 = p1 + PUBLIC_KEY_LENGTH in
      \<lparr>kn_destination_hash = slice p0 p1 blob, kn_public_key = slice p1 p2 blob,
       kn_last_seen = min (from_be_bytes (slice p2 (p2 + 8) blob)) now\<rparr>)"

primrec import_check ::
  "crypto \<Rightarrow> bytes \<Rightarrow> u64 \<Rightarrow> nat list \<Rightarrow> known_destination_error option" where
  "import_check C blob now [] = None"
| "import_check C blob now (index # rest) =
     (let e = decode_entry blob index now in
      if delivery_destination_hash C (kn_public_key e) \<noteq> kn_destination_hash e
      then Some KdDestinationHashMismatch
      else if \<exists>prior \<in> set [0..<index].
          kn_destination_hash (decode_entry blob prior now) = kn_destination_hash e
      then Some KdDuplicateDestination
      else import_check C blob now rest)"

definition kd_import ::
  "crypto \<Rightarrow> known_destinations \<Rightarrow> bytes \<Rightarrow> u64
   \<Rightarrow> (known_destination_error + unit) \<times> known_destinations" where
  "kd_import C k blob now =
     (let n = length (kd_entries k) in
      if length blob < BLOB_HEADER_LEN \<or> slice 0 4 blob \<noteq> BLOB_MAGIC then (Inl KdInvalidHeader, k)
      else if blob ! 4 \<noteq> BLOB_VERSION then (Inl KdUnsupportedVersion, k)
      else
        let count = unat (from_be_bytes [blob ! 5, blob ! 6] :: u16) in
        if count > n then (Inl KdCountTooLarge, k)
        else if length blob \<noteq> BLOB_HEADER_LEN + count * ENTRY_LEN then (Inl KdInvalidLength, k)
        else case import_check C blob now [0..<count] of
          Some e \<Rightarrow> (Inl e, k)
        | None \<Rightarrow>
            (Inr (), \<lparr>kd_entries = map (\<lambda>i. decode_entry blob i now) [0..<count] @
                        replicate (n - count) EMPTY_ENTRY, kd_len = count\<rparr>))"

section \<open>The invariant of the cache\<close>

definition kd_inv :: "crypto \<Rightarrow> known_destinations \<Rightarrow> bool" where
  "kd_inv C k \<longleftrightarrow> kd_len k \<le> length (kd_entries k) \<and>
     distinct (map kn_destination_hash (kd_visible k)) \<and>
     (\<forall>e \<in> set (kd_visible k). length (kn_public_key e) = PUBLIC_KEY_LENGTH \<and>
        delivery_destination_hash C (kn_public_key e) = kn_destination_hash e)"

lemma kd_inv_new: "kd_inv C (kd_new n)"
  by (simp add: kd_inv_def kd_new_def kd_visible_def)

lemma length_kd_new: "length (kd_entries (kd_new n)) = n"
  by (simp add: kd_new_def)

lemma length_kd_visible: "kd_inv C k \<Longrightarrow> length (kd_visible k) = kd_len k"
  by (simp add: kd_inv_def kd_visible_def)

lemma kd_peek_iff:
  assumes "kd_inv C k"
  shows "kd_peek k d = Some pk \<longleftrightarrow>
    (\<exists>e \<in> set (kd_visible k). kn_destination_hash e = d \<and> kn_public_key e = pk)"
proof -
  have u: "uniq_keys kn_destination_hash (map Some (kd_visible k))"
      using assms by (simp add: kd_inv_def uniq_keys_def somes_map_Some)
  have s: "somes (map Some (kd_visible k)) = kd_visible k"
    by (rule somes_map_Some)
  show ?thesis
    using find_uniq_key [OF u, of d] by (auto simp: kd_peek_def s)
qed

lemma kd_peek_None: "kd_peek k d = None \<longleftrightarrow> (\<forall>e \<in> set (kd_visible k). kn_destination_hash e \<noteq> d)"
  by (auto simp: kd_peek_def find_None_iff)

lemma min_index_None: "min_index xs = None \<longleftrightarrow> xs = []"
  by (cases xs) (auto split: option.splits)

lemma min_index_Some:
  "min_index xs = Some i \<Longrightarrow> i < length xs \<and> (\<forall>x \<in> set xs. xs ! i \<le> x)"
proof (induction xs arbitrary: i)
  case (Cons y ys)
  show ?case
  proof (cases "min_index ys")
    case None
    with Cons.prems show ?thesis by (auto simp: min_index_None)
  next
    case (Some j)
    note j = Cons.IH [OF Some]
    show ?thesis
    proof (cases "y \<le> ys ! j")
      case True
      with Some Cons.prems j show ?thesis by (auto intro: order_trans)
    next
      case False
      with Some Cons.prems j show ?thesis by auto
    qed
  qed
qed simp

text \<open>The three outcomes of learning: the table is left alone; an entry is appended; or a full table
  has its least recent entry replaced.\<close>

lemma kd_learn_cases:
  assumes "kd_inv C k" "kd_learn C k d pk now = (r, k')"
  obtains (same) "k' = k" "r = Inr False" "kd_peek k d = Some pk"
  | (error) e where "k' = k" "r = Inl e"
  | (append) e where "r = Inr True" "kd_peek k d = None" "kn_destination_hash e = d"
      "kn_public_key e = pk" "delivery_destination_hash C pk = d"
      "kd_visible k' = kd_visible k @ [e]" "kd_len k < length (kd_entries k)"
      "kd_len k' = kd_len k + 1" "length (kd_entries k') = length (kd_entries k)"
  | (replace) e i where "r = Inr True" "kd_peek k d = None" "kn_destination_hash e = d"
      "kn_public_key e = pk" "delivery_destination_hash C pk = d" "i < length (kd_visible k)"
      "\<forall>x \<in> set (kd_visible k). kn_last_seen (kd_visible k ! i) \<le> kn_last_seen x"
      "kd_visible k' = (kd_visible k)[i := e]" "kd_len k = length (kd_entries k)"
      "kd_len k' = kd_len k" "length (kd_entries k') = length (kd_entries k)"
proof -
  have le: "kd_len k \<le> length (kd_entries k)" using assms(1) by (simp add: kd_inv_def)
  let ?e = "\<lparr>kn_destination_hash = d, kn_public_key = pk, kn_last_seen = max now (next_recency k)\<rparr>"
  consider (unchanged) "k' = k" "(\<exists>e. r = Inl e) \<or> r = Inr False \<and> kd_peek k d = Some pk"
    | (room) "length (kd_entries k) \<noteq> 0" "kd_peek k d = None" "delivery_destination_hash C pk = d"
        "kd_len k < length (kd_entries k)" "r = Inr True"
        "k' = k\<lparr>kd_entries := (kd_entries k)[kd_len k := ?e], kd_len := kd_len k + 1\<rparr>"
    | (full) i where "length (kd_entries k) \<noteq> 0" "kd_peek k d = None"
        "delivery_destination_hash C pk = d" "kd_len k = length (kd_entries k)" "r = Inr True"
        "i = (case min_index (map kn_last_seen (kd_visible k)) of None \<Rightarrow> 0 | Some i \<Rightarrow> i)"
        "k' = k\<lparr>kd_entries := (kd_entries k)[i := ?e]\<rparr>"
    using assms(2) le unfolding kd_learn_def kd_peek_def Let_def
    by (auto split: if_splits option.splits)
  then show ?thesis
  proof cases
    case unchanged
    then show ?thesis using same error by blast
  next
    case room
    then show ?thesis
      by (intro append [of ?e]) (simp_all add: kd_visible_def take_Suc_conv_app_nth)
  next
    case full
    have ne: "kd_visible k \<noteq> []" using full(1,4) by (simp add: kd_visible_def)
    then obtain m where m: "min_index (map kn_last_seen (kd_visible k)) = Some m"
      by (metis map_is_Nil_conv min_index_None option.exhaust)
    note mi = min_index_Some [OF m]
    have least: "\<forall>x \<in> set (kd_visible k). kn_last_seen (kd_visible k ! m) \<le> kn_last_seen x"
      using mi by auto
    have "i = m" using full(6) m by simp
    then show ?thesis
      using full mi least
      by (intro replace [of ?e m]) (simp_all add: kd_visible_def)
  qed
qed

lemma distinct_map_update:
  assumes "distinct (map f xs)" "f e \<notin> f ` set xs" "i < length xs"
  shows "distinct (map f (xs[i := e]))"
  using assms by (simp add: map_update distinct_list_update)

lemma kd_inv_learn:
  assumes "kd_inv C k" "length pk = PUBLIC_KEY_LENGTH" "kd_learn C k d pk now = (r, k')"
  shows "kd_inv C k'"
  using assms(1,3)
proof (cases rule: kd_learn_cases)
  case (append e)
  then have "kn_destination_hash e \<notin> kn_destination_hash ` set (kd_visible k)"
    by (auto simp: kd_peek_None)
  with append assms show ?thesis by (auto simp: kd_inv_def)
next
  case (replace e i)
  then have "kn_destination_hash e \<notin> kn_destination_hash ` set (kd_visible k)"
    by (auto simp: kd_peek_None)
  moreover have "x = e \<or> x \<in> set (kd_visible k)" if "x \<in> set (kd_visible k')" for x
    using that replace(8) set_update_subset_insert [of "kd_visible k" i e] by auto
  ultimately show ?thesis
    using replace assms(1,2) distinct_map_update [of kn_destination_hash "kd_visible k" e i]
    by (auto simp: kd_inv_def)
qed (use assms(1) in simp_all)

lemma kd_inv_recall:
  assumes "kd_inv C k" "kd_recall k d = (r, k')"
  shows "kd_inv C k' \<and> (\<forall>d'. kd_peek k' d' = kd_peek k d')"
proof (cases "position (\<lambda>e. kn_destination_hash e = d) (kd_visible k)")
  case None
  then show ?thesis using assms by (simp add: kd_recall_def)
next
  case (Some i)
  note i = position_SomeD [OF Some]
  let ?f = "\<lambda>e. e\<lparr>kn_last_seen := next_recency k\<rparr>"
  let ?v = "(kd_visible k)[i := ?f (kd_visible k ! i)]"
  have "i < kd_len k" using i(1) length_kd_visible [OF assms(1)] by simp
  then have v: "kd_visible k' = ?v" and len: "kd_len k' = kd_len k"
      "length (kd_entries k') = length (kd_entries k)"
    using assms(2) Some by (auto simp: kd_recall_def kd_visible_def take_update_swap)
  have keys: "map g ?v = map g (kd_visible k)" if "\<And>e. g (?f e) = g e" for g
    using that i(1) by (simp add: map_update list_update_same_conv)
  have k: "map kn_destination_hash ?v = map kn_destination_hash (kd_visible k)"
    "map kn_public_key ?v = map kn_public_key (kd_visible k)"
    "map (\<lambda>e. (kn_destination_hash e, kn_public_key e)) ?v =
     map (\<lambda>e. (kn_destination_hash e, kn_public_key e)) (kd_visible k)"
    by (rule keys, simp)+
  from arg_cong [OF k(3), of set]
  have s: "(\<lambda>e. (kn_destination_hash e, kn_public_key e)) ` set ?v =
      (\<lambda>e. (kn_destination_hash e, kn_public_key e)) ` set (kd_visible k)" by (simp only: set_map)
  have pair: "(\<exists>e \<in> set xs. kn_destination_hash e = d' \<and> kn_public_key e = pk) \<longleftrightarrow>
      (d', pk) \<in> (\<lambda>e. (kn_destination_hash e, kn_public_key e)) ` set xs" for xs d' pk
    by auto
  have same: "(\<exists>e \<in> set ?v. kn_destination_hash e = d' \<and> kn_public_key e = pk) \<longleftrightarrow>
      (\<exists>e \<in> set (kd_visible k). kn_destination_hash e = d' \<and> kn_public_key e = pk)" for d' pk
    unfolding pair s ..
  have inv: "kd_inv C k'"
    using assms(1) same unfolding kd_inv_def v len k(1) by metis
  have "kd_peek k' d' = Some pk \<longleftrightarrow> kd_peek k d' = Some pk" for d' pk
    using same unfolding kd_peek_iff [OF inv] kd_peek_iff [OF assms(1)] v .
  then have "kd_peek k' d' = kd_peek k d'" for d' by (metis option.exhaust)
  then show ?thesis using inv by blast
qed

lemma find_append:
  "List.find P (xs @ ys) = (case List.find P xs of None \<Rightarrow> List.find P ys | Some x \<Rightarrow> Some x)"
  by (induction xs) auto

lemma find_update:
  "i < length xs \<Longrightarrow> P e \<Longrightarrow> \<forall>x \<in> set xs. \<not> P x \<Longrightarrow> List.find P (xs[i := e]) = Some e"
proof (induction xs arbitrary: i)
  case (Cons x xs)
  then show ?case by (cases i) auto
qed simp

lemma find_update_other:
  "i < length xs \<Longrightarrow> \<not> P (xs ! i) \<Longrightarrow> \<not> P e \<Longrightarrow> List.find P (xs[i := e]) = List.find P xs"
proof (induction xs arbitrary: i)
  case (Cons x xs)
  then show ?case by (cases i) auto
qed simp

section \<open>The persisted blob\<close>

lemma import_check_None:
  "import_check C blob now is = None \<longleftrightarrow>
     (\<forall>i \<in> set is. delivery_destination_hash C (kn_public_key (decode_entry blob i now)) =
          kn_destination_hash (decode_entry blob i now) \<and>
        (\<forall>p < i. kn_destination_hash (decode_entry blob p now) \<noteq>
          kn_destination_hash (decode_entry blob i now)))"
  by (induction "is") (auto simp: Let_def)

lemma decode_entry_key_length:
  assumes "length blob = BLOB_HEADER_LEN + n * ENTRY_LEN" "i < n"
  shows "length (kn_public_key (decode_entry blob i now)) = PUBLIC_KEY_LENGTH"
proof -
  have "i * ENTRY_LEN + ENTRY_LEN \<le> n * ENTRY_LEN"
    using assms(2) by (metis Suc_leI add.commute mult_Suc mult_le_mono1)
  then show ?thesis
    using assms(1) by (simp add: decode_entry_def Let_def ENTRY_LEN_def)
qed

lemma kd_inv_import:
  assumes "kd_inv C k" "kd_import C k blob now = (r, k')"
  shows "kd_inv C k' \<and> (\<forall>e. r = Inl e \<longrightarrow> k' = k)"
proof (cases "r = Inr ()")
  case False
  then have "k' = k" using assms(2) by (auto simp: kd_import_def Let_def split: if_splits option.splits)
  then show ?thesis using assms(1) by simp
next
  case True
  then obtain n where n: "n \<le> length (kd_entries k)" "length blob = BLOB_HEADER_LEN + n * ENTRY_LEN"
      "import_check C blob now [0..<n] = None"
      "kd_entries k' = map (\<lambda>i. decode_entry blob i now) [0..<n] @
         replicate (length (kd_entries k) - n) EMPTY_ENTRY" "kd_len k' = n"
    using assms(2) by (auto simp: kd_import_def Let_def split: if_splits option.splits)
  have v: "kd_visible k' = map (\<lambda>i. decode_entry blob i now) [0..<n]"
    using n(4,5) by (simp add: kd_visible_def)
  have c: "\<And>i. i < n \<Longrightarrow> delivery_destination_hash C (kn_public_key (decode_entry blob i now)) =
          kn_destination_hash (decode_entry blob i now)"
    "\<And>i p. i < n \<Longrightarrow> p < i \<Longrightarrow> kn_destination_hash (decode_entry blob p now) \<noteq>
          kn_destination_hash (decode_entry blob i now)"
    using n(3) by (auto simp: import_check_None)
  have "distinct (map kn_destination_hash (kd_visible k'))"
    unfolding v map_map distinct_map by (auto intro!: inj_onI) (metis c(2) nat_neq_iff)
  then show ?thesis
    using n c(1) decode_entry_key_length [OF n(2)] True by (auto simp: kd_inv_def v)
qed

text \<open>The states of the cache that learning, recalling and importing can lead to.\<close>

inductive kd_reachable :: "crypto \<Rightarrow> known_destinations \<Rightarrow> bool" for C where
  kd_start: "kd_reachable C (kd_new n)"
| kd_learned: "kd_reachable C k \<Longrightarrow> length pk = PUBLIC_KEY_LENGTH \<Longrightarrow>
    kd_reachable C (snd (kd_learn C k d pk now))"
| kd_recalled: "kd_reachable C k \<Longrightarrow> kd_reachable C (snd (kd_recall k d))"
| kd_imported: "kd_reachable C k \<Longrightarrow> kd_reachable C (snd (kd_import C k blob now))"

lemma kd_reachable_inv: "kd_reachable C k \<Longrightarrow> kd_inv C k"
proof (induction rule: kd_reachable.induct)
  case (kd_learned k pk d now)
  then show ?case using kd_inv_learn [of C k pk d now] by (metis prod.collapse)
next
  case (kd_recalled k d)
  then show ?case using kd_inv_recall [of C k d] by (metis prod.collapse)
next
  case (kd_imported k blob now)
  then show ?case using kd_inv_import [of C k blob now] by (metis prod.collapse)
qed (rule kd_inv_new)

lemma update_distinct_absent:
  assumes "distinct (map f xs)" "i < length xs" "f y \<noteq> f (xs ! i)" "x \<in> set (xs[i := y])"
  shows "f x \<noteq> f (xs ! i)"
proof -
  obtain j where j: "j < length xs" "x = xs[i := y] ! j" using assms(4) by (auto simp: in_set_conv_nth)
  have "f (xs ! j) \<noteq> f (xs ! i)" if "j \<noteq> i"
    using assms(1,2) j(1) that by (metis distinct_conv_nth length_map nth_map)
  then show ?thesis using assms(2,3) j by (cases "j = i") auto
qed


lemma kd_learn_toy:
  "kd_learn toy_crypto (kd_new 2) (delivery_destination_hash toy_crypto (replicate 64 1))
      (replicate 64 1) 5 =
    (Inr True, \<lparr>kd_entries = [\<lparr>kn_destination_hash = delivery_destination_hash toy_crypto (replicate 64 1),
       kn_public_key = replicate 64 1, kn_last_seen = 5\<rparr>, EMPTY_ENTRY], kd_len = 1\<rparr>)"
proof -
  have "replicate 2 EMPTY_ENTRY = [EMPTY_ENTRY, EMPTY_ENTRY]" by (simp add: numeral_eq_Suc)
  then show ?thesis
    by (simp add: kd_learn_def kd_new_def kd_visible_def next_recency_def sat_add_def)
qed




lemma encode_entry_fields:
  assumes "length (kn_destination_hash e) = 16" "length (kn_public_key e) = 64"
  shows "length (encode_entry e) = 88" "slice 0 16 (encode_entry e) = kn_destination_hash e"
    "slice 16 80 (encode_entry e) = kn_public_key e"
    "slice 80 88 (encode_entry e) = to_be_bytes 8 (kn_last_seen e)"
  using assms by (simp_all add: encode_entry_def slice_def)

lemma length_concat_encoded:
  "\<forall>e \<in> set es. length (kn_destination_hash e) = 16 \<and> length (kn_public_key e) = 64 \<Longrightarrow>
   length (concat (map encode_entry es)) = length es * ENTRY_LEN"
  by (induction es) (simp_all add: encode_entry_fields ENTRY_LEN_def announce_consts)

lemma decode_encoded:
  assumes h: "length header = 7" and i: "i < length es"
    and es: "\<forall>e \<in> set es. length (kn_destination_hash e) = 16 \<and> length (kn_public_key e) = 64"
  shows "decode_entry (header @ concat (map encode_entry es)) i now =
    (es ! i)\<lparr>kn_last_seen := min (kn_last_seen (es ! i)) now\<rparr>"
proof -
  let ?c = "concat (map encode_entry es)" and ?e = "es ! i"
  have e: "length (kn_destination_hash ?e) = 16" "length (kn_public_key ?e) = 64"
    using es i by auto
  have all: "slice (i * 88) (i * 88 + 88) ?c = encode_entry ?e"
    by (rule slice_concat_const) (use es i encode_entry_fields(1) in auto)
  have part: "slice (7 + i * 88 + a) (7 + i * 88 + b) (header @ ?c) = slice a b (encode_entry ?e)"
    if "b \<le> 88" for a b
    using slice_slice [of b "i * 88 + 88" "i * 88" a ?c] that all h
    by (simp add: slice_append_right)
  have "from_be_bytes (to_be_bytes 8 (kn_last_seen ?e)) = kn_last_seen ?e"
    by (simp add: from_to_be_bytes take_bit_word_eq_self)
  then show ?thesis
    using part [of 16 0] part [of 80 16] part [of 88 80] encode_entry_fields [OF e]
    by (simp add: decode_entry_def Let_def BLOB_HEADER_LEN_def ENTRY_LEN_def announce_consts)
qed

lemma list_of_length_2: "length xs = 2 \<Longrightarrow> \<exists>a b. xs = [a, b]"
  by (cases xs; cases "tl xs") auto

text \<open>What import makes of a well-formed blob.\<close>

lemma kd_import_blob:
  assumes n: "length es = n" "n < 65536" "n \<le> length (kd_entries k)"
    and es: "\<forall>e \<in> set es. length (kn_destination_hash e) = 16 \<and> length (kn_public_key e) = 64 \<and>
      delivery_destination_hash C (kn_public_key e) = kn_destination_hash e \<and> kn_last_seen e \<le> now"
    and dist: "distinct (map kn_destination_hash es)"
    and blob: "blob = BLOB_MAGIC @ [BLOB_VERSION] @ to_be_bytes 2 (of_nat n :: u16) @
      concat (map encode_entry es)"
  shows "kd_import C k blob now =
    (Inr (), \<lparr>kd_entries = es @ replicate (length (kd_entries k) - n) EMPTY_ENTRY, kd_len = n\<rparr>)"
proof -
  let ?w = "of_nat n :: u16"
  obtain a b where ab: "to_be_bytes 2 ?w = [a, b]"
    using list_of_length_2 [OF length_to_be_bytes] by blast
  have hdr: "blob = (BLOB_MAGIC @ [BLOB_VERSION, a, b]) @ concat (map encode_entry es)"
    by (simp add: blob ab)
  have fields: "slice 0 4 blob = BLOB_MAGIC" "blob ! 4 = BLOB_VERSION" "blob ! 5 = a" "blob ! 6 = b"
    by (simp_all add: hdr BLOB_MAGIC_def slice_def)
  have "from_be_bytes [a, b] = ?w"
    using from_to_be_bytes [of 2 ?w] by (simp add: ab take_bit_word_eq_self)
  then have count: "unat (from_be_bytes [a, b] :: u16) = n"
    using n(2) by (simp add: unsigned_of_nat take_bit_nat_eq_self)
  have dec: "decode_entry blob i now = es ! i" if "i < n" for i
  proof -
    have "decode_entry blob i now = (es ! i)\<lparr>kn_last_seen := min (kn_last_seen (es ! i)) now\<rparr>"
      unfolding hdr by (rule decode_encoded) (use that n es in \<open>auto simp: BLOB_MAGIC_def\<close>)
    moreover have "kn_last_seen (es ! i) \<le> now" using that es n(1) by auto
    ultimately show ?thesis by (simp add: min_absorb1)
  qed
  have "length (concat (map encode_entry es)) = n * ENTRY_LEN"
    using es n(1) by (simp add: length_concat_encoded)
  then have len: "length blob = BLOB_HEADER_LEN + n * ENTRY_LEN"
    by (simp add: hdr BLOB_MAGIC_def BLOB_HEADER_LEN_def)
  have check: "import_check C blob now [0..<n] = None"
    unfolding import_check_None
    using dec es n(1) dist by (auto simp: distinct_conv_nth)
  have all: "map (\<lambda>i. decode_entry blob i now) [0..<n] = es"
    using dec n(1) by (intro nth_equalityI) auto
  show ?thesis
    unfolding kd_import_def Let_def fields count all check len using n(3) by simp
qed

text \<open>The persisted cache survives a restart: exporting a cache and importing the blob into any
  cache with room for it, at a time not before the entries' last use, succeeds and makes exactly the
  same entries visible, in the same order with the same recency.\<close>

theorem known_destinations_roundtrip:
  assumes sha: "sha_law C" and inv: "kd_inv C k" and small: "kd_len k < 65536"
    and now: "\<forall>e \<in> set (kd_visible k). kn_last_seen e \<le> now"
    and out: "blob_capacity (kd_len k) \<le> length out"
    and room: "kd_len k \<le> length (kd_entries k0)"
  shows "\<exists>n out' k'. kd_export_into k out = (Inr n, out') \<and>
    kd_import C k0 (take n out') now = (Inr (), k') \<and> kd_visible k' = kd_visible k"
proof -
  let ?es = "kd_visible k"
  let ?blob = "BLOB_MAGIC @ [BLOB_VERSION] @ to_be_bytes 2 (of_nat (kd_len k) :: u16) @
    concat (map encode_entry ?es)"
  have n: "length ?es = kd_len k" by (rule length_kd_visible [OF inv])
  have es: "\<forall>e \<in> set ?es. length (kn_destination_hash e) = 16 \<and> length (kn_public_key e) = 64 \<and>
      delivery_destination_hash C (kn_public_key e) = kn_destination_hash e \<and> kn_last_seen e \<le> now"
  proof
    fix e assume e: "e \<in> set ?es"
    then have b: "delivery_destination_hash C (kn_public_key e) = kn_destination_hash e"
        "length (kn_public_key e) = 64"
      using inv by (auto simp: kd_inv_def PUBLIC_KEY_LENGTH_def)
    moreover have "length (delivery_destination_hash C (kn_public_key e)) = 16"
      using sha by (simp add: delivery_destination_hash_def destination_hash_from_name_def
          destination_hash_from_parts_def truncated_hash_def sha_lawD size_consts)
    ultimately show "length (kn_destination_hash e) = 16 \<and> length (kn_public_key e) = 64 \<and>
      delivery_destination_hash C (kn_public_key e) = kn_destination_hash e \<and> kn_last_seen e \<le> now"
      using e now by simp
  qed
  have "length (concat (map encode_entry ?es)) = kd_len k * ENTRY_LEN"
    using es n by (simp add: length_concat_encoded)
  then have "length ?blob = blob_capacity (kd_len k)"
    by (simp add: BLOB_MAGIC_def blob_capacity_def BLOB_HEADER_LEN_def)
  then have ex: "kd_export_into k out = (Inr (length ?blob), overwrite out 0 ?blob)"
    using out unfolding kd_export_into_def blob_capacity_def Let_def by simp
  note taken = take_overwrite [of ?blob out]
  have "distinct (map kn_destination_hash ?es)" using inv by (simp add: kd_inv_def)
  from kd_import_blob [OF n small room es this refl]
  have "kd_import C k0 ?blob now =
    (Inr (), \<lparr>kd_entries = ?es @ replicate (length (kd_entries k0) - kd_len k) EMPTY_ENTRY,
      kd_len = kd_len k\<rparr>)" .
  then show ?thesis
    using ex taken n by (auto simp: kd_visible_def)
qed

theorem known_destinations_roundtrip_witness:
  "\<exists>n out' k'. kd_export_into (snd (kd_learn toy_crypto (kd_new 2)
      (delivery_destination_hash toy_crypto (replicate 64 1)) (replicate 64 1) 5)) (replicate 300 0) =
      (Inr n, out') \<and>
    kd_import toy_crypto (kd_new 2) (take n out') 9 = (Inr (), k') \<and>
    kd_peek k' (delivery_destination_hash toy_crypto (replicate 64 1)) = Some (replicate 64 1)"
proof -
  let ?k = "snd (kd_learn toy_crypto (kd_new 2)
      (delivery_destination_hash toy_crypto (replicate 64 1)) (replicate 64 1) 5)"
  have inv: "kd_inv toy_crypto ?k"
    using kd_inv_learn [OF kd_inv_new _ kd_learn_toy]
    unfolding kd_learn_toy by (simp add: PUBLIC_KEY_LENGTH_def)
  have "\<exists>n out' k'. kd_export_into ?k (replicate 300 0) = (Inr n, out') \<and>
    kd_import toy_crypto (kd_new 2) (take n out') 9 = (Inr (), k') \<and> kd_visible k' = kd_visible ?k"
    by (rule known_destinations_roundtrip [OF _ inv])
      (simp_all add: kd_learn_toy kd_visible_def blob_capacity_def BLOB_HEADER_LEN_def ENTRY_LEN_def
        announce_consts length_kd_new)
  then show ?thesis
    by (auto simp: kd_peek_def kd_learn_toy kd_visible_def)
qed

end
