(* ===== verification/Ifac.thy ===== *)
theory Ifac
  imports Identity
begin

text \<open>
  Interface access control (\<^verbatim>\<open>ifac.rs\<close>): a truncated signature under the shared interface key is
  inserted after the first two header bytes, and everything but the flag bit and the tag is masked
  with HKDF output. An output buffer is meaningful only on success, so an operation that fills one
  returns it with its success value.
\<close>

definition IFAC_FLAG :: u8 where "IFAC_FLAG = 0x80"
definition IFAC_KEY_LENGTH :: nat where "IFAC_KEY_LENGTH = 64"
definition IFAC_LORA_DEFAULT_SIZE :: u8 where "IFAC_LORA_DEFAULT_SIZE = 8"

definition IFAC_SALT :: bytes where
  "IFAC_SALT =
     [0xad, 0xf5, 0x4d, 0x88, 0x2c, 0x9a, 0x9b, 0x80, 0x77, 0x1e, 0xb4, 0x99, 0x5d, 0x70, 0x2d, 0x4a,
      0x3e, 0x73, 0x33, 0x91, 0xb2, 0xa0, 0xf5, 0x3f, 0x41, 0x6d, 0x9f, 0x90, 0x7e, 0x55, 0xcf, 0xf8]"

datatype ifac_error = IfacInvalidSize | IfacTooShort | IfacMissingFlag | IfacExceedsMtu
  | IfacAuthenticationFailed | IfacHkdf | IfacBuffer buffer_error

definition derive_ifac_key :: "crypto \<Rightarrow> bytes option \<Rightarrow> bytes option \<Rightarrow> ifac_error + bytes" where
  "derive_ifac_key C network_name passphrase =
     (let part = (\<lambda>s. case s of None \<Rightarrow> [] | Some t \<Rightarrow> cr_sha256 C t);
          origin_hash = cr_sha256 C (part network_name @ part passphrase) in
      case cr_hkdf C IFAC_SALT origin_hash IFAC_KEY_LENGTH of
        None \<Rightarrow> Inl IfacHkdf | Some key \<Rightarrow> Inr key)"

definition has_ifac_flag :: "bytes \<Rightarrow> bool" where
  "has_ifac_flag r \<longleftrightarrow> r \<noteq> [] \<and> r ! 0 AND IFAC_FLAG \<noteq> 0"

definition validate_size :: "u8 \<Rightarrow> ifac_error + nat" where
  "validate_size ifac_size =
     (if ifac_size = 0 \<or> unat ifac_size > SIGNATURE_LENGTH then Inl IfacInvalidSize
      else Inr (unat ifac_size))"

definition sign_packet :: "crypto \<Rightarrow> bytes \<Rightarrow> bytes \<Rightarrow> bytes" where
  "sign_packet C packet ifac_key = cr_ed_sign C (slice 32 64 ifac_key) packet"

definition derive_mask :: "crypto \<Rightarrow> bytes \<Rightarrow> bytes \<Rightarrow> nat \<Rightarrow> ifac_error + bytes" where
  "derive_mask C tag ifac_key n =
     (case cr_hkdf C ifac_key tag n of None \<Rightarrow> Inl IfacHkdf | Some m \<Rightarrow> Inr m)"

definition mask_frame :: "nat \<Rightarrow> bytes \<Rightarrow> bytes \<Rightarrow> bytes" where
  "mask_frame isz msk bs =
     map (\<lambda>i. if i = 0 then (bs ! i XOR msk ! i) OR IFAC_FLAG
              else if i = 1 \<or> i > isz + 1 then bs ! i XOR msk ! i
              else bs ! i) [0..<length bs]"

definition ifac_sign_into ::
  "crypto \<Rightarrow> bytes \<Rightarrow> bytes \<Rightarrow> u8 \<Rightarrow> packet_buffer \<Rightarrow> ifac_error + packet_buffer" where
  "ifac_sign_into C packet ifac_key ifac_size out =
     (case validate_size ifac_size of Inl e \<Rightarrow> Inl e | Inr isz \<Rightarrow>
      if length packet < 2 then Inl IfacTooShort
      else if length packet > MTU then Inl IfacExceedsMtu
      else
        let wrapped_len = length packet + isz;
            signature = sign_packet C packet ifac_key;
            tag = drop (SIGNATURE_LENGTH - isz) signature in
        case derive_mask C tag ifac_key wrapped_len of Inl e \<Rightarrow> Inl e | Inr msk \<Rightarrow>
        case pb_push (pb_clear out) (packet ! 0 OR IFAC_FLAG) of Inl e \<Rightarrow> Inl (IfacBuffer e) | Inr out \<Rightarrow>
        case pb_push out (packet ! 1) of Inl e \<Rightarrow> Inl (IfacBuffer e) | Inr out \<Rightarrow>
        case pb_extend_from_slice out tag of Inl e \<Rightarrow> Inl (IfacBuffer e) | Inr out \<Rightarrow>
        case pb_extend_from_slice out (drop 2 packet) of Inl e \<Rightarrow> Inl (IfacBuffer e) | Inr out \<Rightarrow>
        Inr (pb_as_mut_slice out (mask_frame isz msk (pb_as_slice out))))"

definition ifac_verify_into ::
  "crypto \<Rightarrow> bytes \<Rightarrow> bytes \<Rightarrow> u8 \<Rightarrow> packet_buffer \<Rightarrow> ifac_error + packet_buffer" where
  "ifac_verify_into C r ifac_key ifac_size out =
     (case validate_size ifac_size of Inl e \<Rightarrow> Inl e | Inr isz \<Rightarrow>
      if length r > MTU + isz then Inl IfacExceedsMtu
      else if length r \<le> 2 + isz then Inl IfacTooShort
      else if r ! 0 AND IFAC_FLAG = 0 then Inl IfacMissingFlag
      else
        let tag = slice 2 (2 + isz) r in
        case derive_mask C tag ifac_key (length r) of Inl e \<Rightarrow> Inl e | Inr msk \<Rightarrow>
        case pb_set_len (pb_clear out) (length r - isz) of Inl e \<Rightarrow> Inl (IfacBuffer e) | Inr out \<Rightarrow>
        let plain = [(r ! 0 XOR msk ! 0) AND NOT IFAC_FLAG, r ! 1 XOR msk ! 1] @
              map (\<lambda>raw_i. r ! raw_i XOR msk ! raw_i) [2 + isz..<length r];
            out = pb_as_mut_slice out plain;
            expected_tag = drop (SIGNATURE_LENGTH - isz) (sign_packet C (pb_as_slice out) ifac_key) in
        if tag = expected_tag then Inr out else Inl IfacAuthenticationFailed)"

section \<open>Masking is undone by unmasking\<close>

lemma map_nth_zip:
  assumes "length ys = length xs"
  shows "map (\<lambda>i. f (xs ! i) (ys ! i)) [k..<length xs] = map2 f (drop k xs) (drop k ys)"
  using assms by (intro nth_equalityI) simp_all

lemma map2_xor_twice:
  "length m = length xs \<Longrightarrow> map2 (XOR) (map2 (XOR) xs m) m = (xs :: bytes)"
  by (intro nth_equalityI) (simp_all add: xor.assoc)

lemma bit_IFAC_FLAG: "bit IFAC_FLAG n \<longleftrightarrow> n = 7"
proof -
  have F: "IFAC_FLAG = 2 ^ 7" by (simp add: IFAC_FLAG_def)
  show ?thesis unfolding F bit_exp_iff by auto
qed

lemma flag_mask_roundtrip:
  assumes "(b :: u8) AND IFAC_FLAG = 0"
  shows "((((b OR IFAC_FLAG) XOR m) OR IFAC_FLAG) XOR m) AND NOT IFAC_FLAG = b"
proof (rule bit_word_eqI)
  fix n assume n: "n < LENGTH(8)"
  have "\<not> bit b 7"
    using assms and_exp_eq_0_iff_not_bit [of b 7] by (simp add: IFAC_FLAG_def)
  then show "bit (((((b OR IFAC_FLAG) XOR m) OR IFAC_FLAG) XOR m) AND NOT IFAC_FLAG) n = bit b n"
    using n by (cases "n = 7") (auto simp: bit_simps bit_IFAC_FLAG)
qed

lemma flag_set: "((b :: u8) OR IFAC_FLAG) AND IFAC_FLAG \<noteq> 0"
proof
  assume "(b OR IFAC_FLAG) AND IFAC_FLAG = 0"
  then have "\<not> bit (b OR IFAC_FLAG) 7"
    using and_exp_eq_0_iff_not_bit [of "b OR IFAC_FLAG" 7] by (simp add: IFAC_FLAG_def)
  then show False by (simp add: IFAC_FLAG_def bit_simps)
qed

lemma length_mask_frame [simp]: "length (mask_frame isz msk bs) = length bs"
  by (simp add: mask_frame_def)

lemma mask_frame_nth:
  "i < length bs \<Longrightarrow> mask_frame isz msk bs ! i =
    (if i = 0 then (bs ! i XOR msk ! i) OR IFAC_FLAG
     else if i = 1 \<or> i > isz + 1 then bs ! i XOR msk ! i else bs ! i)"
  unfolding mask_frame_def by (subst nth_map) (simp, simp only: nth_upt add_0)

lemma mask_frame_layout:
  assumes "length tag = isz" "length msk = 2 + isz + length ps"
  shows "mask_frame isz msk (b0 # b1 # tag @ ps) =
    ((b0 XOR msk ! 0) OR IFAC_FLAG) # (b1 XOR msk ! 1) # tag @ map2 (XOR) ps (drop (2 + isz) msk)"
    (is "?l = ?r")
proof (rule nth_equalityI)
  show "length ?l = length ?r" using assms by simp
  fix i assume "i < length ?l"
  then have i: "i < 2 + isz + length ps" using assms by simp
  consider "i = 0" | "i = 1" | j where "i = 2 + j" "j < isz" | j where "i = 2 + isz + j" "j < length ps"
    using i by (metis One_nat_def add_2_eq_Suc le_add_diff_inverse less_2_cases_iff
        nat_add_left_cancel_less not_less numeral_2_eq_2)
  then show "?l ! i = ?r ! i"
    using assms i by cases (simp_all add: mask_frame_nth nth_append)
qed

lemma validate_size_Inr:
  "validate_size s = Inr n \<longleftrightarrow> 0 < unat s \<and> unat s \<le> 64 \<and> n = unat s"
  by (auto simp: validate_size_def SIGNATURE_LENGTH_def unat_gt_0 unat_eq_zero)

text \<open>The bytes a wrapped frame is made of: building it in the buffer never fails.\<close>

lemma ifac_sign_into_bytes:
  assumes laws: "hkdf_law C" "ed_law C"
    and isz: "0 < unat s" "unat s \<le> 64"
    and packet: "packet = p0 # p1 # ps" "length packet \<le> MTU"
    and out: "pb_cap out = WIRE_MTU_MAX"
    and tag: "tag = drop (64 - unat s) (sign_packet C packet key)"
    and msk: "derive_mask C tag key (length packet + unat s) = Inr msk"
  shows "\<exists>w. ifac_sign_into C packet key s out = Inr w \<and>
    pb_as_slice w = (((p0 OR IFAC_FLAG) XOR msk ! 0) OR IFAC_FLAG) # (p1 XOR msk ! 1) # tag @
      map2 (XOR) ps (drop (2 + unat s) msk) \<and> length msk = length packet + unat s \<and> length tag = unat s"
proof -
  have lt: "length tag = unat s"
    using laws(2) isz by (simp add: tag sign_packet_def ed_lawD)
  have small: "length packet + unat s \<le> 8160"
    using packet isz by (simp add: size_consts)
  have lm: "length msk = 2 + unat s + length ps"
    by (rule hkdf_lawD [OF laws(1) small, of key tag])
      (use msk packet in \<open>auto simp: derive_mask_def split: option.splits\<close>)
  let ?cs = "[Byte (p0 OR IFAC_FLAG), Byte p1, Slice tag, Slice ps]"
  have cap: "pb_cap (pb_clear out) = WIRE_MTU_MAX" using out by (simp add: pb_clear_def)
  obtain b where b: "pb.write_chunks (pb_clear out) ?cs = Inr b" "pb_inv b"
      "pb_as_slice b = (p0 OR IFAC_FLAG) # p1 # tag @ ps"
    using pb.write_chunks_ok [of "pb_clear out" ?cs] lt packet isz cap by (auto simp: size_consts)
  let ?m = "mask_frame (unat s) msk (pb_as_slice b)"
  have "length ?m = pb_len b"
    using b(2) by (simp add: length_pb_as_slice)
  then have "pb_as_slice (pb_as_mut_slice b ?m) = ?m"
    by (rule pb_slice_as_mut [OF b(2)])
  moreover have "?m = (((p0 OR IFAC_FLAG) XOR msk ! 0) OR IFAC_FLAG) # (p1 XOR msk ! 1) # tag @
      map2 (XOR) ps (drop (2 + unat s) msk)"
    unfolding b(3) by (rule mask_frame_layout [OF lt lm])
  moreover have "ifac_sign_into C packet key s out = Inr (pb_as_mut_slice b ?m)"
  proof -
    have "validate_size s = Inr (unat s)" using isz by (simp add: validate_size_Inr)
    then show ?thesis
      using b(1) msk packet
      by (auto simp: ifac_sign_into_def tag SIGNATURE_LENGTH_def Let_def split: sum.splits)
  qed
  ultimately show ?thesis using lm lt packet(1) by auto
qed

section \<open>Wrapping and unwrapping are inverse\<close>

lemma derive_mask_ok:
  assumes "hkdf_law C" "n \<le> 8160"
  obtains msk where "derive_mask C tag key n = Inr msk" "length msk = n"
  by (rule hkdf_lawD [OF assms, of key tag]) (auto simp: derive_mask_def intro: that)

text \<open>The unmasked bytes of a frame, and what verification makes of them.\<close>

lemma ifac_verify_into_eq:
  assumes isz: "0 < unat s" "unat s \<le> 64"
    and r: "r = r0 # r1 # tag @ rs" "length tag = unat s" "rs \<noteq> []" "length rs \<le> 498"
    and out: "pb_cap out = MTU"
    and msk: "derive_mask C tag key (length r) = Inr msk" "length msk = length r"
    and plain: "plain = ((r0 XOR msk ! 0) AND NOT IFAC_FLAG) # (r1 XOR msk ! 1) #
      map2 (XOR) rs (drop (2 + unat s) msk)"
  shows "\<exists>b. pb_as_slice b = plain \<and> ifac_verify_into C r key s out =
    (if r0 AND IFAC_FLAG = 0 then Inl IfacMissingFlag
     else if tag = drop (64 - unat s) (sign_packet C plain key) then Inr b
     else Inl IfacAuthenticationFailed)"
proof -
  have lr: "length r = 2 + unat s + length rs" using r by simp
  have d: "drop (2 + unat s) r = rs" "slice 2 (2 + unat s) r = tag"
    using r by (simp_all add: slice_def)
  have rest: "map (\<lambda>i. r ! i XOR msk ! i) [2 + unat s..<length r] =
      map2 (XOR) rs (drop (2 + unat s) msk)"
    using map_nth_zip [OF msk(2), of "(XOR)" "2 + unat s"] d by simp
  obtain b0 where b0: "pb_set_len (pb_clear out) (length r - unat s) = Inr b0"
      "pb_len b0 = length rs + 2" "pb_inv b0"
    using lr r(4) out by (auto simp: pb_set_len_def pb_clear_def pb_inv_def size_consts)
  have "length plain = pb_len b0" using lr msk(2) b0(2) by (simp add: plain)
  then have b: "pb_as_slice (pb_as_mut_slice b0 plain) = plain"
    by (rule pb_slice_as_mut [OF b0(3)])
  have vs: "validate_size s = Inr (unat s)" using isz by (simp add: validate_size_Inr)
  have r01: "r ! 0 = r0" "r ! 1 = r1" using r(1) by simp_all
  have pl: "[(r0 XOR msk ! 0) AND NOT IFAC_FLAG, r1 XOR msk ! 1] @
      map2 (XOR) rs (drop (2 + unat s) msk) = plain"
    by (simp add: plain)
  have lens: "\<not> MTU + unat s < length r" "\<not> length r \<le> 2 + unat s"
    using lr r(3,4) by (simp_all add: size_consts)
  have "ifac_verify_into C r key s out =
    (if r0 AND IFAC_FLAG = 0 then Inl IfacMissingFlag
     else if tag = drop (64 - unat s) (sign_packet C plain key)
     then Inr (pb_as_mut_slice b0 plain) else Inl IfacAuthenticationFailed)"
    unfolding ifac_verify_into_def Let_def vs sum.case d(2) msk(1) rest b0(1) r01 pl b
      SIGNATURE_LENGTH_def
    using lens by (simp only: if_False)
  with b show ?thesis by blast
qed

lemma ifac_verify_into_frame:
  assumes isz: "0 < unat s" "unat s \<le> 64" and long: "2 + unat s < length r"
  obtains r0 r1 tag rs where "r = r0 # r1 # tag @ rs" "length tag = unat s" "rs \<noteq> []"
proof -
  obtain r0 r1 rt where r: "r = r0 # r1 # rt" "unat s < length rt"
    using long by (cases r; cases "tl r") auto
  then have "r = r0 # r1 # take (unat s) rt @ drop (unat s) rt" by simp
  then show ?thesis using r(2) by (intro that [of r0 r1 "take (unat s) rt" "drop (unat s) rt"]) auto
qed

lemma ifac_unwrap_wrap:
  assumes laws: "hkdf_law C" "ed_law C"
    and isz: "0 < unat s" "unat s \<le> 64"
    and packet: "3 \<le> length packet" "length packet \<le> MTU" "\<not> has_ifac_flag packet"
    and out: "pb_cap out = WIRE_MTU_MAX" "pb_cap out' = MTU"
  shows "\<exists>w p. ifac_sign_into C packet key s out = Inr w \<and>
    length (pb_as_slice w) = length packet + unat s \<and> has_ifac_flag (pb_as_slice w) \<and>
    ifac_verify_into C (pb_as_slice w) key s out' = Inr p \<and> pb_as_slice p = packet"
proof -
  obtain p0 p1 ps where p: "packet = p0 # p1 # ps" "ps \<noteq> []"
    using packet(1) by (metis Suc_le_length_iff list.size(3) not_one_le_zero One_nat_def
        numeral_3_eq_3 Suc_n_not_le_n)
  have p0: "p0 AND IFAC_FLAG = 0" using packet(3) p by (simp add: has_ifac_flag_def)
  let ?tag = "drop (64 - unat s) (sign_packet C packet key)"
  obtain msk where msk: "derive_mask C ?tag key (length packet + unat s) = Inr msk"
    using derive_mask_ok [OF laws(1), of "length packet + unat s" ?tag key] packet(2) isz
    by (auto simp: size_consts)
  let ?r0 = "((p0 OR IFAC_FLAG) XOR msk ! 0) OR IFAC_FLAG" and ?r1 = "p1 XOR msk ! 1"
    and ?rs = "map2 (XOR) ps (drop (2 + unat s) msk)"
  obtain w where w: "ifac_sign_into C packet key s out = Inr w"
      "pb_as_slice w = ?r0 # ?r1 # ?tag @ ?rs" "length msk = length packet + unat s"
      "length ?tag = unat s"
    using ifac_sign_into_bytes [OF laws isz p(1) packet(2) out(1) refl msk] by blast
  have lrs: "length ?rs = length ps" using w(3) p(1) by simp
  have lw: "length (pb_as_slice w) = length packet + unat s"
    using w(4) lrs p(1) by (simp add: w(2))
  have plain: "packet = ((?r0 XOR msk ! 0) AND NOT IFAC_FLAG) # (?r1 XOR msk ! 1) #
      map2 (XOR) ?rs (drop (2 + unat s) msk)"
    using w(3) p(1) by (simp add: flag_mask_roundtrip [OF p0] map2_xor_twice xor.assoc)
  have "\<exists>b. pb_as_slice b = packet \<and> ifac_verify_into C (pb_as_slice w) key s out' =
    (if ?r0 AND IFAC_FLAG = 0 then Inl IfacMissingFlag
     else if ?tag = drop (64 - unat s) (sign_packet C packet key) then Inr b
     else Inl IfacAuthenticationFailed)"
    by (rule ifac_verify_into_eq [OF isz w(2,4) _ _ out(2) _ _ plain])
      (use p packet(2) lrs msk w(3) lw in \<open>auto simp: size_consts\<close>)
  then obtain b where "pb_as_slice b = packet" "ifac_verify_into C (pb_as_slice w) key s out' = Inr b"
    using flag_set by metis
  moreover have "has_ifac_flag (pb_as_slice w)"
    unfolding w(2) has_ifac_flag_def nth_Cons_0 using flag_set by blast
  ultimately show ?thesis using w(1) lw by blast
qed

text \<open>C31. Interface access control round trip: every packet of three bytes up to the MTU whose
  flag bit is clear is wrapped, for every admissible tag size, into a frame that is longer by
  exactly the tag and carries the flag, and unwrapping that frame with the same key gives back the
  packet.\<close>

theorem ifac_roundtrip:
  assumes laws: "hkdf_law C" "ed_law C"
    and isz: "0 < unat s" "unat s \<le> 64"
    and packet: "3 \<le> length packet" "length packet \<le> MTU" "\<not> has_ifac_flag packet"
    and out: "pb_cap out = WIRE_MTU_MAX" "pb_cap out' = MTU"
  shows "\<exists>w p. ifac_sign_into C packet key s out = Inr w \<and>
    length (pb_as_slice w) = length packet + unat s \<and> has_ifac_flag (pb_as_slice w) \<and>
    ifac_verify_into C (pb_as_slice w) key s out' = Inr p \<and> pb_as_slice p = packet"
  by (rule ifac_unwrap_wrap [OF assms])

theorem ifac_roundtrip_witness:
  "\<exists>w p. ifac_sign_into toy_crypto (replicate 19 5) (replicate 64 1) 8 (pb_new WIRE_MTU_MAX) = Inr w \<and>
    ifac_verify_into toy_crypto (pb_as_slice w) (replicate 64 1) 8 (pb_new MTU) = Inr p \<and>
    pb_as_slice p = replicate 19 5"
  using ifac_roundtrip [of toy_crypto 8 "replicate 19 5" "pb_new WIRE_MTU_MAX" "pb_new MTU"
      "replicate 64 1"]
  by (auto simp: MTU_def has_ifac_flag_def IFAC_FLAG_def)

lemma flag_unmask_roundtrip:
  assumes "(r :: u8) AND IFAC_FLAG \<noteq> 0"
  shows "((((r XOR m) AND NOT IFAC_FLAG) OR IFAC_FLAG) XOR m) OR IFAC_FLAG = r"
proof (rule bit_word_eqI)
  fix n assume n: "n < LENGTH(8)"
  have "bit r 7"
    using assms and_exp_eq_0_iff_not_bit [of r 7] by (simp add: IFAC_FLAG_def)
  then show "bit (((((r XOR m) AND NOT IFAC_FLAG) OR IFAC_FLAG) XOR m) OR IFAC_FLAG) n = bit r n"
    using n by (cases "n = 7") (auto simp: bit_simps bit_IFAC_FLAG)
qed

text \<open>C32. Nothing but a holder's frame is accepted: a frame that unwraps successfully is exactly the
  frame that wrapping the recovered packet with the same key and tag size produces. So every
  accepted frame carries the tag of its packet, and the packet has the flag bit clear.\<close>

theorem ifac_verify_canonical:
  assumes laws: "hkdf_law C" "ed_law C"
    and ok: "ifac_verify_into C r key s out' = Inr p"
    and out: "pb_cap out = WIRE_MTU_MAX" "pb_cap out' = MTU"
  shows "\<not> has_ifac_flag (pb_as_slice p) \<and>
    (\<exists>w. ifac_sign_into C (pb_as_slice p) key s out = Inr w \<and> pb_as_slice w = r)"
proof -
  obtain n where "validate_size s = Inr n"
    using ok by (auto simp: ifac_verify_into_def split: sum.splits)
  then have isz: "0 < unat s" "unat s \<le> 64" "validate_size s = Inr (unat s)"
    by (simp_all add: validate_size_Inr)
  have len: "2 + unat s < length r" "length r \<le> MTU + unat s" and flag: "r ! 0 AND IFAC_FLAG \<noteq> 0"
    using ok isz by (auto simp: ifac_verify_into_def split: if_splits)
  obtain r0 r1 tag rs where r: "r = r0 # r1 # tag @ rs" "length tag = unat s" "rs \<noteq> []"
    by (rule ifac_verify_into_frame [OF isz(1,2) len(1)])
  obtain msk where msk: "derive_mask C tag key (length r) = Inr msk" "length msk = length r"
    by (rule derive_mask_ok [OF laws(1), of "length r" tag key]) (use len isz in \<open>simp add: size_consts\<close>)
  let ?ps = "map2 (XOR) rs (drop (2 + unat s) msk)"
  let ?plain = "((r0 XOR msk ! 0) AND NOT IFAC_FLAG) # (r1 XOR msk ! 1) # ?ps"
  have "length rs \<le> 498" using r len by (simp add: size_consts)
  then obtain b where "pb_as_slice b = ?plain" "ifac_verify_into C r key s out' =
      (if r0 AND IFAC_FLAG = 0 then Inl IfacMissingFlag
       else if tag = drop (64 - unat s) (sign_packet C ?plain key) then Inr b
       else Inl IfacAuthenticationFailed)"
    using ifac_verify_into_eq [OF isz(1,2) r _ out(2) msk refl] by blast
  then have p: "pb_as_slice p = ?plain" and tag: "tag = drop (64 - unat s) (sign_packet C ?plain key)"
    using ok by (auto split: if_splits)
  have lp: "length ?plain + unat s = length r" "length ?plain \<le> MTU" "length ?ps = length rs"
    using r msk(2) len by (simp_all add: size_consts)
  obtain w where w: "ifac_sign_into C ?plain key s out = Inr w"
      "pb_as_slice w = (((((r0 XOR msk ! 0) AND NOT IFAC_FLAG) OR IFAC_FLAG) XOR msk ! 0) OR IFAC_FLAG) #
        ((r1 XOR msk ! 1) XOR msk ! 1) # tag @ map2 (XOR) ?ps (drop (2 + unat s) msk)"
    using ifac_sign_into_bytes [OF laws isz(1,2) refl lp(2) out(1) tag, of msk] msk(1) lp(1) by auto
  have "pb_as_slice w = r"
    using w(2) flag r msk(2)
    by (simp add: flag_unmask_roundtrip map2_xor_twice xor.assoc)
  moreover have "((r0 XOR msk ! 0) AND NOT IFAC_FLAG) AND IFAC_FLAG = 0"
    by (rule bit_word_eqI) (auto simp: bit_simps)
  ultimately show ?thesis using w(1) p by (auto simp: has_ifac_flag_def)
qed

theorem ifac_verify_canonical_witness:
  "\<exists>r p w. ifac_verify_into toy_crypto r (replicate 64 1) 8 (pb_new MTU) = Inr p \<and>
    ifac_sign_into toy_crypto (pb_as_slice p) (replicate 64 1) 8 (pb_new WIRE_MTU_MAX) = Inr w \<and>
    pb_as_slice w = r"
proof -
  have f: "\<not> has_ifac_flag (replicate 19 5)" by (simp add: has_ifac_flag_def IFAC_FLAG_def)
  obtain w p where "ifac_verify_into toy_crypto (pb_as_slice w) (replicate 64 1) 8 (pb_new MTU) = Inr p"
    using ifac_unwrap_wrap [of toy_crypto 8 "replicate 19 5" "pb_new WIRE_MTU_MAX" "pb_new MTU"
      "replicate 64 1"] f
    by (auto simp: MTU_def)
  then show ?thesis
    using ifac_verify_canonical [of toy_crypto "pb_as_slice w" "replicate 64 1" 8 "pb_new MTU" p
        "pb_new WIRE_MTU_MAX"] by auto
qed

end
