(* ===== verification/Config.thy ===== *)
theory Config
  imports Ifac Lora Announce_Control Slots
begin

text \<open>
  Configuration (\<^verbatim>\<open>config.rs\<close>): interface descriptors and their size limits, the interface registry
  and the node configuration, with their validation. Sizes and depths (\<^verbatim>\<open>usize\<close>) are natural
  numbers. The registry is shown to refine a finite map from interface identifiers to descriptors.
\<close>

section \<open>Descriptors\<close>

datatype interface_mode = ModeFull | ModePointToPoint | ModeInternal | ModeAccessPoint
  | ModeGateway | ModeRoaming | ModeBoundary

datatype interface_role = RoleLoRa | RoleBackbone | RoleNormal | RoleLocalClient

datatype config_error = EmptyPathTable | EmptyHashTable | EmptyTxQueue | UnsupportedMtu
  | MduExceedsMtu | InvalidIfacSize | DuplicateInterfaceId | InterfaceRegistryFull
  | UnknownInterface | InterfaceHasNoDirection | InvalidInterfaceDirection | InvalidInterfaceMtu
  | InvalidInterfaceQueueDepth | CannotRemoveLastInterface | InterfaceGenerationExhausted

record interface_direction =
  dir_inbound :: bool
  dir_outbound :: bool
  dir_forward :: bool
  dir_repeat :: bool

definition BIDIRECTIONAL :: interface_direction where
  "BIDIRECTIONAL =
     \<lparr>dir_inbound = True, dir_outbound = True, dir_forward = True, dir_repeat = False\<rparr>"

definition REPEATER :: interface_direction where
  "REPEATER = BIDIRECTIONAL\<lparr>dir_repeat := True\<rparr>"

definition INBOUND_ONLY :: interface_direction where
  "INBOUND_ONLY =
     \<lparr>dir_inbound = True, dir_outbound = False, dir_forward = False, dir_repeat = False\<rparr>"

definition OUTBOUND_ONLY :: interface_direction where
  "OUTBOUND_ONLY =
     \<lparr>dir_inbound = False, dir_outbound = True, dir_forward = True, dir_repeat = False\<rparr>"

definition direction_validate :: "interface_direction \<Rightarrow> config_error + unit" where
  "direction_validate d =
     (if \<not> dir_inbound d \<and> \<not> dir_outbound d then Inl InterfaceHasNoDirection
      else if (dir_forward d \<or> dir_repeat d) \<and> \<not> dir_outbound d then Inl InvalidInterfaceDirection
      else Inr ())"

record table_caps =
  tc_path_entries :: nat
  tc_announce_entries :: nat
  tc_reverse_entries :: nat
  tc_link_entries :: nat
  tc_packet_hashes :: nat
  tc_recent_announces :: nat
  tc_path_request_tags :: nat
  tc_random_blobs_per_path :: nat
  tc_queued_announces_per_interface :: nat
  tc_tx_queue_depth :: nat

definition CAPS_PSRAM :: table_caps where
  "CAPS_PSRAM =
     \<lparr>tc_path_entries = 1024, tc_announce_entries = 128, tc_reverse_entries = 128,
      tc_link_entries = 64, tc_packet_hashes = 2048, tc_recent_announces = 512,
      tc_path_request_tags = 256, tc_random_blobs_per_path = 32,
      tc_queued_announces_per_interface = 64, tc_tx_queue_depth = 8\<rparr>"

definition CAPS_SMALL :: table_caps where
  "CAPS_SMALL =
     \<lparr>tc_path_entries = 256, tc_announce_entries = 64, tc_reverse_entries = 64,
      tc_link_entries = 32, tc_packet_hashes = 512, tc_recent_announces = 128,
      tc_path_request_tags = 64, tc_random_blobs_per_path = 16,
      tc_queued_announces_per_interface = 24, tc_tx_queue_depth = 4\<rparr>"

definition CAPS_MICRO :: table_caps where
  "CAPS_MICRO =
     \<lparr>tc_path_entries = 48, tc_announce_entries = 8, tc_reverse_entries = 8,
      tc_link_entries = 4, tc_packet_hashes = 64, tc_recent_announces = 16,
      tc_path_request_tags = 8, tc_random_blobs_per_path = 8,
      tc_queued_announces_per_interface = 8, tc_tx_queue_depth = 4\<rparr>"

definition caps_validate :: "table_caps \<Rightarrow> config_error + unit" where
  "caps_validate c =
     (if tc_path_entries c = 0 then Inl EmptyPathTable
      else if tc_packet_hashes c = 0 then Inl EmptyHashTable
      else if tc_tx_queue_depth c = 0 then Inl EmptyTxQueue
      else Inr ())"

record ifac_config =
  ifc_key :: bytes
  ifc_size :: u8

definition lora_default :: "bytes \<Rightarrow> ifac_config" where
  "lora_default key = \<lparr>ifc_key = key, ifc_size = IFAC_LORA_DEFAULT_SIZE\<rparr>"

definition ifac_config_validate :: "ifac_config \<Rightarrow> config_error + unit" where
  "ifac_config_validate c =
     (if ifc_size c = 0 \<or> unat (ifc_size c) > 64 then Inl InvalidIfacSize else Inr ())"

definition MAX_INTERFACES :: nat where "MAX_INTERFACES = 8"

record interface_config =
  ic_id :: interface_id
  ic_role :: interface_role
  ic_mode :: interface_mode
  ic_direction :: interface_direction
  ic_mtu :: nat
  ic_bitrate_bps :: u64
  ic_ifac :: "ifac_config option"
  ic_online :: bool
  ic_tx_queue_depth :: nat
  ic_announce_cap_permille :: u16
  ic_bulk_paths :: bool

definition ic_lora :: "interface_id \<Rightarrow> u64 \<Rightarrow> nat \<Rightarrow> interface_config" where
  "ic_lora i bitrate depth =
     \<lparr>ic_id = i, ic_role = RoleLoRa, ic_mode = ModeGateway, ic_direction = BIDIRECTIONAL,
      ic_mtu = MTU, ic_bitrate_bps = bitrate, ic_ifac = None, ic_online = True,
      ic_tx_queue_depth = depth, ic_announce_cap_permille = ANNOUNCE_CAP_PERMILLE,
      ic_bulk_paths = False\<rparr>"

definition lora_repeater :: "interface_id \<Rightarrow> u64 \<Rightarrow> nat \<Rightarrow> interface_config" where
  "lora_repeater i bitrate depth = (ic_lora i bitrate depth)\<lparr>ic_direction := REPEATER\<rparr>"

definition backbone :: "interface_id \<Rightarrow> u64 \<Rightarrow> nat \<Rightarrow> interface_config" where
  "backbone i bitrate depth =
     \<lparr>ic_id = i, ic_role = RoleBackbone, ic_mode = ModeBoundary, ic_direction = BIDIRECTIONAL,
      ic_mtu = MTU, ic_bitrate_bps = bitrate, ic_ifac = None, ic_online = True,
      ic_tx_queue_depth = depth, ic_announce_cap_permille = ANNOUNCE_CAP_PERMILLE,
      ic_bulk_paths = True\<rparr>"

definition local_client :: "interface_id \<Rightarrow> u64 \<Rightarrow> nat \<Rightarrow> interface_config" where
  "local_client i bitrate depth =
     \<lparr>ic_id = i, ic_role = RoleLocalClient, ic_mode = ModeInternal, ic_direction = BIDIRECTIONAL,
      ic_mtu = MTU, ic_bitrate_bps = bitrate, ic_ifac = None, ic_online = True,
      ic_tx_queue_depth = depth, ic_announce_cap_permille = ANNOUNCE_CAP_PERMILLE,
      ic_bulk_paths = False\<rparr>"

definition access_point :: "interface_id \<Rightarrow> u64 \<Rightarrow> nat \<Rightarrow> interface_config" where
  "access_point i bitrate depth =
     \<lparr>ic_id = i, ic_role = RoleNormal, ic_mode = ModeAccessPoint, ic_direction = BIDIRECTIONAL,
      ic_mtu = MTU, ic_bitrate_bps = bitrate, ic_ifac = None, ic_online = True,
      ic_tx_queue_depth = depth, ic_announce_cap_permille = ANNOUNCE_CAP_PERMILLE,
      ic_bulk_paths = False\<rparr>"

definition network_peer :: "interface_id \<Rightarrow> u64 \<Rightarrow> nat \<Rightarrow> interface_config" where
  "network_peer i bitrate depth = (access_point i bitrate depth)\<lparr>ic_mode := ModeGateway\<rparr>"

definition clear_mtu :: "interface_config \<Rightarrow> nat" where
  "clear_mtu c =
     (let physical_clear_mtu =
        (case (ic_role c, ic_ifac c) of
           (RoleLoRa, Some i) \<Rightarrow> LORA_SPLIT_FRAME_PAYLOAD_MAX - unat (ifc_size i)
         | (RoleLoRa, None) \<Rightarrow> LORA_SPLIT_FRAME_PAYLOAD_MAX
         | _ \<Rightarrow> ic_mtu c) in
      if ic_mtu c < physical_clear_mtu then ic_mtu c else physical_clear_mtu)"

definition supports_general_links :: "interface_config \<Rightarrow> bool" where
  "supports_general_links c \<longleftrightarrow> clear_mtu c \<ge> MTU"

definition wire_mtu :: "interface_config \<Rightarrow> nat" where
  "wire_mtu c = clear_mtu c + (case ic_ifac c of Some i \<Rightarrow> unat (ifc_size i) | None \<Rightarrow> 0)"

definition interface_validate :: "interface_config \<Rightarrow> nat \<Rightarrow> config_error + unit" where
  "interface_validate c total_queue_depth =
     (case (case ic_ifac c of Some i \<Rightarrow> ifac_config_validate i | None \<Rightarrow> Inr ()) of
        Inl e \<Rightarrow> Inl e
      | Inr _ \<Rightarrow>
          if ic_mtu c < HEADER_MINSIZE \<or> ic_mtu c > MTU then Inl InvalidInterfaceMtu
          else if ic_tx_queue_depth c = 0 \<or> ic_tx_queue_depth c > total_queue_depth
          then Inl InvalidInterfaceQueueDepth
          else direction_validate (ic_direction c))"

section \<open>The registry\<close>

type_synonym interface_registry = "interface_config option list"

definition reg_new :: interface_registry where
  "reg_new = replicate MAX_INTERFACES None"

definition reg_len :: "interface_registry \<Rightarrow> nat" where
  "reg_len r = length (somes r)"

definition reg_is_empty :: "interface_registry \<Rightarrow> bool" where
  "reg_is_empty r \<longleftrightarrow> reg_len r = 0"

definition reg_slot :: "interface_registry \<Rightarrow> interface_id \<Rightarrow> nat option" where
  "reg_slot r i = position (\<lambda>s. is_some_and s (\<lambda>c. ic_id c = i)) r"

definition reg_get :: "interface_registry \<Rightarrow> interface_id \<Rightarrow> interface_config option" where
  "reg_get r i = List.find (\<lambda>c. ic_id c = i) (somes r)"

text \<open>A mutation through the reference that \<^verbatim>\<open>get_mut\<close> returns.\<close>

definition reg_get_mut ::
  "interface_registry \<Rightarrow> interface_id \<Rightarrow> (interface_config \<Rightarrow> interface_config) \<Rightarrow> interface_registry" where
  "reg_get_mut r i f = update_first (\<lambda>c. ic_id c = i) f r"

definition reg_at_slot :: "interface_registry \<Rightarrow> nat \<Rightarrow> interface_config option" where
  "reg_at_slot r slot = (if slot < length r then r ! slot else None)"

definition reg_register ::
  "interface_registry \<Rightarrow> interface_config \<Rightarrow> (config_error + unit) \<times> interface_registry" where
  "reg_register r c =
     (if reg_get r (ic_id c) \<noteq> None then (Inl DuplicateInterfaceId, r)
      else case position (\<lambda>s. s = None) r of
        None \<Rightarrow> (Inl InterfaceRegistryFull, r)
      | Some slot \<Rightarrow> (Inr (), r[slot := Some c]))"

definition reg_set_online ::
  "interface_registry \<Rightarrow> interface_id \<Rightarrow> bool \<Rightarrow> (config_error + unit) \<times> interface_registry" where
  "reg_set_online r i online =
     (case reg_get r i of
        None \<Rightarrow> (Inl UnknownInterface, r)
      | Some _ \<Rightarrow> (Inr (), reg_get_mut r i (ic_online_update (\<lambda>_. online))))"

definition reg_unregister ::
  "interface_registry \<Rightarrow> interface_id \<Rightarrow> (config_error + interface_config) \<times> interface_registry" where
  "reg_unregister r i =
     (case reg_slot r i of
        None \<Rightarrow> (Inl UnknownInterface, r)
      | Some slot \<Rightarrow>
          (case r ! slot of None \<Rightarrow> (Inl UnknownInterface, r) | Some c \<Rightarrow> (Inr c, r[slot := None])))"

fun reg_validate :: "interface_registry \<Rightarrow> nat \<Rightarrow> config_error + unit" where
  "reg_validate [] depth = Inr ()"
| "reg_validate (None # r) depth = reg_validate r depth"
| "reg_validate (Some c # r) depth =
     (case interface_validate c depth of
        Inl e \<Rightarrow> Inl e
      | Inr _ \<Rightarrow>
          if \<exists>s \<in> set r. is_some_and s (\<lambda>other. ic_id other = ic_id c)
          then Inl DuplicateInterfaceId else reg_validate r depth)"

section \<open>The node configuration\<close>

record lite_config =
  lc_mode :: interface_mode
  lc_table_caps :: table_caps
  lc_mtu :: nat
  lc_mdu :: nat
  lc_max_announce_app_data :: nat
  lc_transport_enabled :: bool
  lc_probe_destination_enabled :: bool
  lc_ifac :: "ifac_config option"
  lc_announce_admission :: announce_admission_config

definition lite_config_of_caps :: "table_caps \<Rightarrow> lite_config" where
  "lite_config_of_caps caps =
     \<lparr>lc_mode = ModeGateway, lc_table_caps = caps, lc_mtu = MTU, lc_mdu = MDU,
      lc_max_announce_app_data = MAX_ANNOUNCE_APP_DATA, lc_transport_enabled = True,
      lc_probe_destination_enabled = True, lc_ifac = None,
      lc_announce_admission = ADMISSION_DISABLED\<rparr>"

definition CONFIG_PSRAM :: lite_config where "CONFIG_PSRAM = lite_config_of_caps CAPS_PSRAM"
definition CONFIG_SMALL :: lite_config where "CONFIG_SMALL = lite_config_of_caps CAPS_SMALL"
definition CONFIG_MICRO :: lite_config where "CONFIG_MICRO = lite_config_of_caps CAPS_MICRO"

definition lite_config_validate :: "lite_config \<Rightarrow> config_error + unit" where
  "lite_config_validate c =
     (case (case lc_ifac c of Some i \<Rightarrow> ifac_config_validate i | None \<Rightarrow> Inr ()) of
        Inl e \<Rightarrow> Inl e
      | Inr _ \<Rightarrow>
          if lc_mtu c \<noteq> MTU then Inl UnsupportedMtu
          else if lc_mdu c > lc_mtu c then Inl MduExceedsMtu
          else caps_validate (lc_table_caps c))"

section \<open>What validation guarantees\<close>

lemma interface_validate_Inr:
  "interface_validate c depth = Inr () \<longleftrightarrow>
     (\<forall>i. ic_ifac c = Some i \<longrightarrow> 0 < unat (ifc_size i) \<and> unat (ifc_size i) \<le> 64) \<and>
     HEADER_MINSIZE \<le> ic_mtu c \<and> ic_mtu c \<le> MTU \<and>
     0 < ic_tx_queue_depth c \<and> ic_tx_queue_depth c \<le> depth \<and>
     (dir_inbound (ic_direction c) \<or> dir_outbound (ic_direction c)) \<and>
     (dir_forward (ic_direction c) \<or> dir_repeat (ic_direction c) \<longrightarrow> dir_outbound (ic_direction c))"
  by (auto simp: interface_validate_def ifac_config_validate_def direction_validate_def
      unat_gt_0 unat_eq_zero split: option.splits)

lemma clear_mtu_le: "clear_mtu c \<le> ic_mtu c"
  by (simp add: clear_mtu_def Let_def)

text \<open>Only the bound on the queue depth refers to the node.\<close>

lemma interface_validate_own:
  "interface_validate c depth = Inr u \<Longrightarrow> interface_validate c (ic_tx_queue_depth c) = Inr ()"
  using interface_validate_Inr [of c] by simp

lemma interface_validate_online [simp]:
  "interface_validate (c\<lparr>ic_online := b\<rparr>) depth = interface_validate c depth"
  by (simp add: interface_validate_def split: sum.split option.split)

text \<open>A validated interface leaves room for a header, never exceeds the MTU, and its wire frames,
  access code included, fit the buffers and, on LoRa, two radio frames.\<close>

lemma validated_mtu:
  assumes "interface_validate c depth = Inr ()"
  shows "clear_mtu c \<le> MTU" "wire_mtu c \<le> WIRE_MTU_MAX" "HEADER_MINSIZE \<le> clear_mtu c"
    "ic_role c = RoleLoRa \<Longrightarrow> wire_mtu c \<le> LORA_SPLIT_FRAME_PAYLOAD_MAX"
proof -
  note v = assms [unfolded interface_validate_Inr]
  show le: "clear_mtu c \<le> MTU" using v clear_mtu_le [of c] by simp
  show "wire_mtu c \<le> WIRE_MTU_MAX"
    using v le by (cases "ic_ifac c") (simp_all add: wire_mtu_def size_consts)
  show "HEADER_MINSIZE \<le> clear_mtu c"
    using v by (cases "ic_ifac c"; cases "ic_role c") (auto simp: clear_mtu_def Let_def size_consts)
  show "wire_mtu c \<le> LORA_SPLIT_FRAME_PAYLOAD_MAX" if "ic_role c = RoleLoRa"
    using v that
    by (cases "ic_ifac c") (auto simp: wire_mtu_def clear_mtu_def Let_def size_consts)
qed

lemma reg_validate_Inr:
  "reg_validate r depth = Inr () \<longleftrightarrow>
     uniq_keys ic_id r \<and> (\<forall>c. Some c \<in> set r \<longrightarrow> interface_validate c depth = Inr ())"
proof (induction r depth rule: reg_validate.induct)
  case (3 c r depth)
  have dup: "(\<exists>s \<in> set r. is_some_and s (\<lambda>other. ic_id other = ic_id c)) \<longleftrightarrow>
      ic_id c \<in> ic_id ` set (somes r)"
    unfolding image_iff Bex_def set_somes by (auto simp: is_some_and_def split: option.splits)
  show ?case
    using 3 by (cases "interface_validate c depth") (auto simp: uniq_keys_def dup simp del: set_somes)
qed (simp_all add: uniq_keys_def)

section \<open>The registry refines a finite map\<close>

definition reg_inv :: "interface_registry \<Rightarrow> bool" where
  "reg_inv r \<longleftrightarrow> length r = MAX_INTERFACES \<and> uniq_keys ic_id r"

lemma reg_inv_new: "reg_inv reg_new"
  by (simp add: reg_inv_def reg_new_def)

lemma reg_get_iff: "reg_inv r \<Longrightarrow> reg_get r i = Some c \<longleftrightarrow> Some c \<in> set r \<and> ic_id c = i"
  by (simp add: reg_inv_def reg_get_def find_uniq_key)

lemma reg_get_None: "reg_get r i = None \<longleftrightarrow> (\<forall>c. Some c \<in> set r \<longrightarrow> ic_id c \<noteq> i)"
  by (auto simp: reg_get_def find_None_iff)

lemma card_dom_reg_get:
  assumes "reg_inv r" shows "card (dom (reg_get r)) = reg_len r"
proof -
  have "dom (reg_get r) = set (map ic_id (somes r))"
    using reg_get_iff [OF assms] by (force simp: dom_def)
  then show ?thesis
    using assms by (simp add: reg_inv_def uniq_keys_def distinct_card reg_len_def del: set_map)
qed

lemma length_somes_full: "length (somes ss) = length ss \<longleftrightarrow> None \<notin> set ss"
proof (induction ss)
  case (Cons s ss)
  then show ?case using length_somes_le [of ss] by (cases s) auto
qed simp

lemma reg_full: "reg_inv r \<Longrightarrow> position (\<lambda>s. s = None) r = None \<longleftrightarrow> card (dom (reg_get r)) = MAX_INTERFACES"
  using length_somes_full [of r]
  by (auto simp: card_dom_reg_get reg_len_def reg_inv_def position_None) (metis not_None_eq)

lemma map_eqI_Some: "(\<And>i c. m i = Some c \<longleftrightarrow> m' i = Some c) \<Longrightarrow> m = m'"
  by (rule ext) (metis option.exhaust)

text \<open>Writing a slot changes the map exactly at the identifiers that the slot held and holds.\<close>

lemma Some_in_write:
  assumes "i < length ss"
  shows "Some x \<in> set (ss[i := v]) \<longleftrightarrow>
    v = Some x \<or> (\<exists>j < length ss. j \<noteq> i \<and> ss ! j = Some x)"
proof -
  have "Some x \<in> set (ss[i := v]) \<longleftrightarrow> (\<exists>j < length ss. (if j = i then v else ss ! j) = Some x)"
    using assms by (auto simp: in_set_conv_nth nth_list_update)
  then show ?thesis using assms by metis
qed

lemma Some_in_update_None:
  assumes "i < length ss" "ss ! i = None"
  shows "Some x \<in> set (ss[i := v]) \<longleftrightarrow> v = Some x \<or> Some x \<in> set ss"
  unfolding Some_in_write [OF assms(1)] using assms(2) by (metis in_set_conv_nth option.distinct(1))

lemma Some_in_update_Some:
  assumes "uniq_keys key ss" "i < length ss" "ss ! i = Some c"
  shows "Some x \<in> set (ss[i := v]) \<longleftrightarrow> v = Some x \<or> Some x \<in> set ss \<and> key x \<noteq> key c"
proof -
  have "(\<exists>j < length ss. j \<noteq> i \<and> ss ! j = Some x) \<longleftrightarrow> Some x \<in> set ss \<and> key x \<noteq> key c"
    using assms uniq_keys_index [OF assms(1), of _ i x c]
    by (auto simp: in_set_conv_nth)
  then show ?thesis using assms(2) by (simp add: Some_in_write)
qed

lemma update_first_position:
  "update_first P f ss =
     (case position (\<lambda>s. is_some_and s P) ss of
        None \<Rightarrow> ss | Some i \<Rightarrow> ss[i := map_option f (ss ! i)])"
  by (induction ss) (auto split: option.splits)

lemma reg_slot_iff:
  assumes "reg_inv r"
  shows "reg_slot r i = None \<longleftrightarrow> reg_get r i = None"
    "reg_slot r i = Some slot \<Longrightarrow> slot < length r \<and> (\<exists>c. r ! slot = Some c \<and> reg_get r i = Some c)"
proof -
  show "reg_slot r i = None \<longleftrightarrow> reg_get r i = None"
    by (auto simp: reg_slot_def position_None reg_get_None)
  assume "reg_slot r i = Some slot"
  from position_SomeD [OF this [unfolded reg_slot_def]] obtain c where
    "slot < length r" "r ! slot = Some c" "ic_id c = i" by auto
  then show "slot < length r \<and> (\<exists>c. r ! slot = Some c \<and> reg_get r i = Some c)"
    using reg_get_iff [OF assms] by (metis nth_mem)
qed

definition map_register ::
  "(interface_id \<rightharpoonup> interface_config) \<Rightarrow> interface_config
   \<Rightarrow> (config_error + unit) \<times> (interface_id \<rightharpoonup> interface_config)" where
  "map_register m c =
     (if m (ic_id c) \<noteq> None then (Inl DuplicateInterfaceId, m)
      else if card (dom m) = MAX_INTERFACES then (Inl InterfaceRegistryFull, m)
      else (Inr (), m(ic_id c \<mapsto> c)))"

definition map_set_online ::
  "(interface_id \<rightharpoonup> interface_config) \<Rightarrow> interface_id \<Rightarrow> bool
   \<Rightarrow> (config_error + unit) \<times> (interface_id \<rightharpoonup> interface_config)" where
  "map_set_online m i online =
     (case m i of
        None \<Rightarrow> (Inl UnknownInterface, m)
      | Some c \<Rightarrow> (Inr (), m(i \<mapsto> c\<lparr>ic_online := online\<rparr>)))"

definition map_unregister ::
  "(interface_id \<rightharpoonup> interface_config) \<Rightarrow> interface_id
   \<Rightarrow> (config_error + interface_config) \<times> (interface_id \<rightharpoonup> interface_config)" where
  "map_unregister m i =
     (case m i of None \<Rightarrow> (Inl UnknownInterface, m) | Some c \<Rightarrow> (Inr c, m(i := None)))"

lemma reg_register_refines:
  assumes "reg_inv r"
  shows "reg_inv (snd (reg_register r c)) \<and>
    map_prod id reg_get (reg_register r c) = map_register (reg_get r) c"
proof (cases "reg_get r (ic_id c) \<noteq> None \<or> position (\<lambda>s. s = None) r = None")
  case True
  then show ?thesis
    using assms reg_full [OF assms]
    by (auto simp: reg_register_def map_register_def split: option.splits)
next
  case False
  then obtain slot where fresh: "reg_get r (ic_id c) = None"
      and slot: "position (\<lambda>s. s = None) r = Some slot" by auto
  note sl = position_SomeD [OF slot]
  have eq: "reg_register r c = (Inr (), r[slot := Some c])"
    using fresh slot by (simp add: reg_register_def)
  have inv: "reg_inv (r[slot := Some c])"
    using assms fresh uniq_keys_update [of ic_id r slot c]
    by (auto simp: reg_inv_def reg_get_None) (metis nth_mem)
  have "reg_get (r[slot := Some c]) = (reg_get r)(ic_id c \<mapsto> c)"
    using reg_get_iff [OF inv] reg_get_iff [OF assms] sl fresh
    by (intro map_eqI_Some) (auto simp: Some_in_update_None reg_get_None)
  then show ?thesis
    using inv eq fresh slot reg_full [OF assms] by (auto simp: map_register_def)
qed

lemma reg_unregister_refines:
  assumes "reg_inv r"
  shows "reg_inv (snd (reg_unregister r i)) \<and>
    map_prod id reg_get (reg_unregister r i) = map_unregister (reg_get r) i"
proof (cases "reg_slot r i")
  case None
  then show ?thesis
    using assms reg_slot_iff(1) [OF assms, of i] by (simp add: reg_unregister_def map_unregister_def)
next
  case (Some slot)
  then obtain c where c: "slot < length r" "r ! slot = Some c" "reg_get r i = Some c"
    using reg_slot_iff(2) [OF assms] by blast
  have inv: "reg_inv (r[slot := None])"
    using assms by (simp add: reg_inv_def uniq_keys_update_None)
  have u: "uniq_keys ic_id r" using assms by (simp add: reg_inv_def)
  have "reg_get (r[slot := None]) = (reg_get r)(i := None)"
    using reg_get_iff [OF inv] reg_get_iff [OF assms] c Some_in_update_Some [OF u c(1,2)]
    by (intro map_eqI_Some) auto
  then show ?thesis
    using inv c Some by (simp add: reg_unregister_def map_unregister_def)
qed

lemma reg_set_online_refines:
  assumes "reg_inv r"
  shows "reg_inv (snd (reg_set_online r i b)) \<and>
    map_prod id reg_get (reg_set_online r i b) = map_set_online (reg_get r) i b"
proof (cases "reg_slot r i")
  case None
  then show ?thesis
    using assms reg_slot_iff(1) [OF assms, of i] by (simp add: reg_set_online_def map_set_online_def)
next
  case (Some slot)
  then obtain c where c: "slot < length r" "r ! slot = Some c" "reg_get r i = Some c"
    using reg_slot_iff(2) [OF assms] by blast
  let ?c = "c\<lparr>ic_online := b\<rparr>"
  have id: "ic_id c = i" using c(3) reg_get_iff [OF assms] by simp
  have u: "uniq_keys ic_id r" using assms by (simp add: reg_inv_def)
  have upd: "reg_get_mut r i (ic_online_update (\<lambda>_. b)) = r[slot := Some ?c]"
    using Some c by (simp add: reg_get_mut_def update_first_position reg_slot_def)
  have inv: "reg_inv (r[slot := Some ?c])"
    using assms uniq_keys_same_key [OF u c(1,2), of ?c] by (simp add: reg_inv_def)
  have "reg_get (r[slot := Some ?c]) = (reg_get r)(i \<mapsto> ?c)"
    using reg_get_iff [OF inv] reg_get_iff [OF assms] id Some_in_update_Some [OF u c(1,2)]
    by (intro map_eqI_Some) auto
  then show ?thesis
    using inv c(3) upd by (simp add: reg_set_online_def map_set_online_def)
qed

text \<open>C33. The interface registry refines a finite map of at most eight descriptors: registering,
  switching and removing an interface give the result and the map that the specification gives, on
  every branch (a duplicate identifier, a full registry, an unknown interface), and keep the
  registry's invariant that identifiers are unique.\<close>

theorem registry_refines_map:
  assumes "reg_inv r"
  shows "map_prod id reg_get (reg_register r c) = map_register (reg_get r) c \<and>
    map_prod id reg_get (reg_set_online r i b) = map_set_online (reg_get r) i b \<and>
    map_prod id reg_get (reg_unregister r i) = map_unregister (reg_get r) i \<and>
    reg_inv (snd (reg_register r c)) \<and> reg_inv (snd (reg_set_online r i b)) \<and>
    reg_inv (snd (reg_unregister r i))"
  using reg_register_refines [OF assms] reg_set_online_refines [OF assms]
    reg_unregister_refines [OF assms] by blast

theorem registry_refines_map_witness:
  "map_prod id reg_get (reg_register reg_new (ic_lora 1 1200 4)) =
     map_register (reg_get reg_new) (ic_lora 1 1200 4)"
  using registry_refines_map [OF reg_inv_new] by blast

end
