(* ===== verification/Token.thy ===== *)
theory Token
  imports Crypto_Env
begin

text \<open>
  Tokens and single-destination encryption (\<^verbatim>\<open>crypto.rs\<close>): PKCS7 padding, the AES-256-CBC plus
  HMAC Token in its copying and its in-place form, and ECIES over it with ratchet keys. AES, HMAC,
  X25519 and HKDF are the primitives of \<open>crypto\<close>; keys and vectors have fixed lengths in the source,
  so constructing a cipher or a MAC from them cannot fail. An operation returns its result and the
  output buffer as it leaves it. Wiping of temporaries has no counterpart in the model.
\<close>

section \<open>Padding\<close>

datatype crypto_error = PlaintextTooLong | CryptoOutputTooSmall | AuthenticationFailed

definition TOKEN_OVERHEAD :: nat where "TOKEN_OVERHEAD = 16 + 32"
definition ECIES_FIXED_OVERHEAD :: nat where "ECIES_FIXED_OVERHEAD = 32 + TOKEN_OVERHEAD"
definition ECIES_PLAINTEXT_OFFSET :: nat where "ECIES_PLAINTEXT_OFFSET = 32 + 16"
definition MAX_ECIES_PLAINTEXT :: nat where
  "MAX_ECIES_PLAINTEXT = (MDU - ECIES_FIXED_OVERHEAD) div 16 * 16 - 1"
definition PADDED_MAX :: nat where "PADDED_MAX = MAX_ECIES_PLAINTEXT + 1"

lemmas token_consts = TOKEN_OVERHEAD_def ECIES_FIXED_OVERHEAD_def ECIES_PLAINTEXT_OFFSET_def
  MAX_ECIES_PLAINTEXT_def PADDED_MAX_def size_consts

text \<open>The padded bytes written to the start of a buffer of \<open>cap\<close> bytes.\<close>

definition pkcs7_pad :: "bytes \<Rightarrow> nat \<Rightarrow> crypto_error + bytes" where
  "pkcs7_pad plaintext cap =
     (let pad = 16 - length plaintext mod 16; n = length plaintext + pad in
      if cap < n then Inl CryptoOutputTooSmall
      else Inr (plaintext @ replicate pad (of_nat pad)))"

definition pkcs7_unpad :: "bytes \<Rightarrow> crypto_error + bytes" where
  "pkcs7_unpad data =
     (if data = [] then Inl AuthenticationFailed
      else let pad = unat (data ! (length data - 1)) in
        if pad = 0 \<or> pad > 16 \<or> pad > length data then Inl AuthenticationFailed
        else let start = length data - pad in
          if \<exists>b \<in> set (drop start data). unat b \<noteq> pad then Inl AuthenticationFailed
          else Inr (take start data))"

section \<open>The Token\<close>

definition derive_token_key :: "crypto \<Rightarrow> bytes \<Rightarrow> bytes \<Rightarrow> bytes" where
  "derive_token_key C shared salt =
     (case cr_hkdf C salt shared 64 of Some okm \<Rightarrow> okm | None \<Rightarrow> replicate 64 0)"

definition token_encrypt ::
  "crypto \<Rightarrow> nat \<Rightarrow> bytes \<Rightarrow> bytes \<Rightarrow> bytes \<Rightarrow> bytes \<Rightarrow> (crypto_error + nat) \<times> bytes" where
  "token_encrypt C PAD plaintext key iv out =
     (case pkcs7_pad plaintext PAD of
        Inl _ \<Rightarrow> (Inl PlaintextTooLong, out)
      | Inr padded \<Rightarrow>
          let n = 16 + length padded + 32 in
          if length out < n then (Inl CryptoOutputTooSmall, out)
          else
            let ct = cr_aes_cbc_encrypt C (drop 32 key) iv padded;
                tag = cr_hmac C (take 32 key) (iv @ ct) in
            (Inr n, overwrite out 0 (iv @ ct @ tag)))"

definition token_decrypt ::
  "crypto \<Rightarrow> nat \<Rightarrow> bytes \<Rightarrow> bytes \<Rightarrow> bytes \<Rightarrow> (crypto_error + nat) \<times> bytes" where
  "token_decrypt C PAD data key out =
     (if length data < 16 + 16 + 32 then (Inl AuthenticationFailed, out)
      else
        let split = length data - 32; signed_parts = take split data; received = drop split data in
        if cr_hmac C (take 32 key) signed_parts \<noteq> received then (Inl AuthenticationFailed, out)
        else
          let iv = take 16 signed_parts; ct = drop 16 signed_parts in
          if ct = [] \<or> length ct mod 16 \<noteq> 0 \<or> length ct > PAD then (Inl AuthenticationFailed, out)
          else case pkcs7_unpad (cr_aes_cbc_decrypt C (drop 32 key) iv ct) of
            Inl e \<Rightarrow> (Inl e, out)
          | Inr plaintext \<Rightarrow>
              if length out < length plaintext then (Inl CryptoOutputTooSmall, out)
              else (Inr (length plaintext), overwrite out 0 plaintext))"

definition token_encrypt_in_place ::
  "crypto \<Rightarrow> bytes \<Rightarrow> bytes \<Rightarrow> bytes \<Rightarrow> nat \<Rightarrow> (crypto_error + nat) \<times> bytes" where
  "token_encrypt_in_place C key iv buf pt_len =
     (let pad = 16 - pt_len mod 16 in
      case usize_checked_add pt_len pad of
        None \<Rightarrow> (Inl PlaintextTooLong, buf)
      | Some padded \<Rightarrow>
          (case usize_checked_add padded TOKEN_OVERHEAD of
             None \<Rightarrow> (Inl PlaintextTooLong, buf)
           | Some n \<Rightarrow>
               if length buf < n then (Inl CryptoOutputTooSmall, buf)
               else
                 let region = slice 16 (16 + pt_len) buf @ replicate pad (of_nat pad);
                     ct = cr_aes_cbc_encrypt C (drop 32 key) iv region;
                     tag = cr_hmac C (take 32 key) (iv @ ct) in
                 (Inr n, overwrite buf 0 (iv @ ct @ tag))))"

definition token_decrypt_in_place ::
  "crypto \<Rightarrow> bytes \<Rightarrow> bytes \<Rightarrow> (crypto_error + nat) \<times> bytes" where
  "token_decrypt_in_place C key buf =
     (if length buf < 16 + 16 + 32 then (Inl AuthenticationFailed, buf)
      else
        let split = length buf - 32 in
        if cr_hmac C (take 32 key) (take split buf) \<noteq> drop split buf
        then (Inl AuthenticationFailed, buf)
        else
          let ct_len = split - 16 in
          if ct_len mod 16 \<noteq> 0 then (Inl AuthenticationFailed, buf)
          else
            let region = cr_aes_cbc_decrypt C (drop 32 key) (take 16 buf) (slice 16 split buf) in
            case pkcs7_unpad region of
              Inr plaintext \<Rightarrow> (Inr (length plaintext), overwrite buf 16 region)
            | Inl e \<Rightarrow> (Inl e, overwrite buf 16 (replicate ct_len 0)))"

section \<open>ECIES\<close>

definition ecies_encrypt ::
  "crypto \<Rightarrow> bytes \<Rightarrow> bytes \<Rightarrow> hash16 \<Rightarrow> bytes \<Rightarrow> bytes \<Rightarrow> bytes \<Rightarrow> (crypto_error + nat) \<times> bytes" where
  "ecies_encrypt C plaintext target_pub recipient_hash ephemeral_priv iv out =
     (if length plaintext > MAX_ECIES_PLAINTEXT then (Inl PlaintextTooLong, out)
      else
        let ephemeral_pub = cr_x_public C ephemeral_priv;
            shared = cr_x_shared C ephemeral_priv target_pub;
            token_key = derive_token_key C shared recipient_hash in
        if length out < 32 then (Inl CryptoOutputTooSmall, out)
        else
          let out1 = overwrite out 0 ephemeral_pub;
              (r, rest) = token_encrypt C PADDED_MAX plaintext token_key iv (drop 32 out1);
              out2 = take 32 out1 @ rest in
          (case r of Inl e \<Rightarrow> (Inl e, out2) | Inr n \<Rightarrow> (Inr (32 + n), out2)))"

definition ecies_ciphertext_len :: "nat \<Rightarrow> crypto_error + nat" where
  "ecies_ciphertext_len plaintext_len =
     (case Option.bind (usize_checked_add plaintext_len (16 - plaintext_len mod 16))
        (\<lambda>n. usize_checked_add n ECIES_FIXED_OVERHEAD) of
        None \<Rightarrow> Inl PlaintextTooLong | Some n \<Rightarrow> Inr n)"

definition ecies_encrypt_in_place ::
  "crypto \<Rightarrow> bytes \<Rightarrow> hash16 \<Rightarrow> bytes \<Rightarrow> bytes \<Rightarrow> bytes \<Rightarrow> nat \<Rightarrow> (crypto_error + nat) \<times> bytes" where
  "ecies_encrypt_in_place C target_pub recipient_hash ephemeral_priv iv buf plaintext_len =
     (case ecies_ciphertext_len plaintext_len of
        Inl e \<Rightarrow> (Inl e, buf)
      | Inr n \<Rightarrow>
          if length buf < n then (Inl CryptoOutputTooSmall, buf)
          else
            let shared = cr_x_shared C ephemeral_priv target_pub;
                token_key = derive_token_key C shared recipient_hash;
                buf1 = overwrite buf 0 (cr_x_public C ephemeral_priv);
                (r, region) = token_encrypt_in_place C token_key iv (slice 32 n buf1) plaintext_len in
            (map_sum (\<lambda>e. e) (\<lambda>k. 32 + k) r, take 32 buf1 @ region @ drop n buf1))"

definition ecies_decrypt_in_place ::
  "crypto \<Rightarrow> bytes \<Rightarrow> hash16 \<Rightarrow> bytes \<Rightarrow> (crypto_error + nat) \<times> bytes" where
  "ecies_decrypt_in_place C my_priv my_hash buf =
     (if length buf < ECIES_FIXED_OVERHEAD + 16 \<or> (length buf - ECIES_FIXED_OVERHEAD) mod 16 \<noteq> 0
      then (Inl AuthenticationFailed, buf)
      else
        let shared = cr_x_shared C my_priv (take 32 buf);
            token_key = derive_token_key C shared my_hash;
            (r, region) = token_decrypt_in_place C token_key (drop 32 buf) in
        (r, take 32 buf @ region))"

definition ecies_decrypt ::
  "crypto \<Rightarrow> bytes \<Rightarrow> bytes \<Rightarrow> hash16 \<Rightarrow> bytes \<Rightarrow> (crypto_error + nat) \<times> bytes" where
  "ecies_decrypt C data my_priv my_hash out =
     (if length data < 32 + 16 + 16 + 32 then (Inl AuthenticationFailed, out)
      else
        let shared = cr_x_shared C my_priv (take 32 data);
            token_key = derive_token_key C shared my_hash in
        token_decrypt C PADDED_MAX (drop 32 data) token_key out)"

text \<open>The scan over the ratchets, from position \<open>index\<close> on.\<close>

fun decrypt_scan ::
  "crypto \<Rightarrow> bytes \<Rightarrow> bytes list \<Rightarrow> nat \<Rightarrow> bytes \<Rightarrow> hash16 \<Rightarrow> bytes
   \<Rightarrow> (crypto_error + nat \<times> nat option) \<times> bytes" where
  "decrypt_scan C data [] index my_priv my_hash out =
     (case ecies_decrypt C data my_priv my_hash out of
        (Inl e, out) \<Rightarrow> (Inl e, out) | (Inr n, out) \<Rightarrow> (Inr (n, None), out))"
| "decrypt_scan C data (r # rs) index my_priv my_hash out =
     (case ecies_decrypt C data r my_hash out of
        (Inr n, out) \<Rightarrow> (Inr (n, Some index), out)
      | (Inl _, out) \<Rightarrow> decrypt_scan C data rs (index + 1) my_priv my_hash out)"

definition ecies_decrypt_with_ratchets ::
  "crypto \<Rightarrow> bytes \<Rightarrow> bytes list \<Rightarrow> bytes \<Rightarrow> hash16 \<Rightarrow> bytes
   \<Rightarrow> (crypto_error + nat \<times> nat option) \<times> bytes" where
  "ecies_decrypt_with_ratchets C data ratchet_privs my_priv my_hash out =
     decrypt_scan C data ratchet_privs 0 my_priv my_hash out"

definition ecies_decrypt_with_ratchet_hint ::
  "crypto \<Rightarrow> bytes \<Rightarrow> bytes list \<Rightarrow> bytes \<Rightarrow> hash16 \<Rightarrow> nat option \<Rightarrow> bytes
   \<Rightarrow> (crypto_error + nat) \<times> bytes" where
  "ecies_decrypt_with_ratchet_hint C data ratchet_privs my_priv my_hash ratchet_index out =
     (case ratchet_index of
        Some index \<Rightarrow>
          if index < length ratchet_privs
          then ecies_decrypt C data (ratchet_privs ! index) my_hash out
          else (Inl AuthenticationFailed, out)
      | None \<Rightarrow> ecies_decrypt C data my_priv my_hash out)"

section \<open>Padding is undone by unpadding\<close>

definition padded :: "bytes \<Rightarrow> bytes" where
  "padded p = (let pad = 16 - length p mod 16 in p @ replicate pad (of_nat pad))"

lemma pkcs7_pad_eq:
  "pkcs7_pad p cap = (if length (padded p) \<le> cap then Inr (padded p) else Inl CryptoOutputTooSmall)"
  by (simp add: pkcs7_pad_def padded_def Let_def not_less)

lemma length_padded: "length (padded p) = length p + (16 - length p mod 16)"
  by (simp add: padded_def Let_def)

lemma padded_blocks: "length (padded p) mod 16 = 0" "length p < length (padded p)"
  "length (padded p) \<le> length p + 16" "16 \<le> length (padded p)"
proof -
  have "length (padded p) = 16 * (length p div 16) + 16"
    using mod_less_divisor [of 16 "length p"] div_mult_mod_eq [of "length p" 16]
    unfolding length_padded by linarith
  then show "length (padded p) mod 16 = 0" "16 \<le> length (padded p)" by simp_all
qed (simp_all add: length_padded)

lemma pkcs7_unpad_padded: "pkcs7_unpad (padded p) = Inr p"
proof -
  define pad where "pad = 16 - length p mod 16"
  have pad: "0 < pad" "pad \<le> 16" by (simp_all add: pad_def)
  have u: "unat (of_nat pad :: u8) = pad"
    using pad(2) by (simp add: unsigned_of_nat take_bit_nat_eq_self)
  have d: "padded p = p @ replicate pad (of_nat pad)" by (simp add: padded_def pad_def Let_def)
  have "length (padded p) - 1 = length p + (pad - 1)" using pad(1) by (simp add: d)
  then have "padded p ! (length (padded p) - 1) = (replicate pad (of_nat pad)) ! (pad - 1)"
    by (simp only: d nth_append_length_plus)
  then have l: "padded p ! (length (padded p) - 1) = of_nat pad"
    using pad(1) by simp
  have g: "padded p \<noteq> []" "\<not> (pad = 0 \<or> pad > 16 \<or> pad > length (padded p))"
    "length (padded p) - pad = length p"
    using pad by (simp_all add: d)
  have t: "drop (length p) (padded p) = replicate pad (of_nat pad)" "take (length p) (padded p) = p"
    by (simp_all add: d)
  have "\<not> (\<exists>b \<in> set (replicate pad (of_nat pad :: u8)). unat b \<noteq> pad)"
    using u by simp
  then show ?thesis
    unfolding pkcs7_unpad_def Let_def l u g(3) t using g(1,2) by (simp only: if_False)
qed

section \<open>The Token round trip\<close>

definition token_of :: "crypto \<Rightarrow> bytes \<Rightarrow> bytes \<Rightarrow> bytes \<Rightarrow> bytes" where
  "token_of C key iv p =
     (let ct = cr_aes_cbc_encrypt C (drop 32 key) iv (padded p) in
      iv @ ct @ cr_hmac C (take 32 key) (iv @ ct))"

lemma length_token_of:
  assumes "hmac_law C" "aes_law C" "length iv = 16"
  shows "length (token_of C key iv p) = 48 + length (padded p)"
  using assms padded_blocks(1) by (simp add: token_of_def Let_def hmac_lawD aes_lawD)

lemma token_encrypt_eq:
  "token_encrypt C PAD p key iv out =
     (if PAD < length (padded p) then (Inl PlaintextTooLong, out)
      else if length out < 48 + length (padded p) then (Inl CryptoOutputTooSmall, out)
      else (Inr (48 + length (padded p)), overwrite out 0 (token_of C key iv p)))"
  by (simp add: token_encrypt_def pkcs7_pad_eq token_of_def Let_def)

lemma token_decrypt_token_of:
  assumes laws: "hmac_law C" "aes_law C" and iv: "length iv = 16" and "length (padded p) \<le> PAD"
  shows "token_decrypt C PAD (token_of C key iv p) key out =
    (if length out < length p then (Inl CryptoOutputTooSmall, out)
     else (Inr (length p), overwrite out 0 p))"
proof -
  let ?ct = "cr_aes_cbc_encrypt C (drop 32 key) iv (padded p)"
  let ?tag = "cr_hmac C (take 32 key) (iv @ ?ct)"
  have ct: "length ?ct = length (padded p)"
      "cr_aes_cbc_decrypt C (drop 32 key) iv ?ct = padded p"
    using aes_lawD [OF laws(2) padded_blocks(1)] by simp_all
  have tag: "length ?tag = 32" by (rule hmac_lawD [OF laws(1)])
  have t: "token_of C key iv p = (iv @ ?ct) @ ?tag" by (simp add: token_of_def Let_def)
  have sp: "length (token_of C key iv p) - 32 = length (iv @ ?ct)"
    using tag by (simp add: t)
  have parts: "take (length (iv @ ?ct)) (token_of C key iv p) = iv @ ?ct"
    "drop (length (iv @ ?ct)) (token_of C key iv p) = ?tag"
    by (simp_all add: t)
  have long: "\<not> length (token_of C key iv p) < 16 + 16 + 32"
    using length_token_of [OF laws iv] padded_blocks(4) [of p] by simp
  have ct': "\<not> (?ct = [] \<or> length ?ct mod 16 \<noteq> 0 \<or> length ?ct > PAD)"
    using ct(1) padded_blocks(1,4) [of p] assms(4) by auto
  have ivct: "take 16 (iv @ ?ct) = iv" "drop 16 (iv @ ?ct) = ?ct" using iv by simp_all
  show ?thesis
    unfolding token_decrypt_def Let_def sp parts ivct
    using long ct' by (simp only: if_False simp_thms ct(2) pkcs7_unpad_padded sum.case)
qed

text \<open>C36. Token round trip: whatever the key, vector and plaintext, when the padded plaintext fits
  the bound and the outputs are large enough, encryption succeeds and decrypting exactly the bytes
  it produced, under the same key, gives back the plaintext.\<close>

theorem token_roundtrip:
  assumes laws: "hmac_law C" "aes_law C" and iv: "length iv = 16"
    and fits: "length p + 16 \<le> PAD" "length p + 64 \<le> length out" "length p \<le> length out2"
  shows "\<exists>n out'. token_encrypt C PAD p key iv out = (Inr n, out') \<and>
    token_decrypt C PAD (take n out') key out2 = (Inr (length p), overwrite out2 0 p)"
proof -
  have l: "length (padded p) \<le> PAD" "\<not> length out < 48 + length (padded p)"
    using padded_blocks(3) [of p] fits by simp_all
  have "take (48 + length (padded p)) (overwrite out 0 (token_of C key iv p)) = token_of C key iv p"
    using take_overwrite [of "token_of C key iv p" out] length_token_of [OF laws iv] by simp
  then show ?thesis
    using l token_decrypt_token_of [OF laws iv l(1)] fits(3) by (simp add: token_encrypt_eq)
qed

theorem token_roundtrip_witness:
  "\<exists>n out'. token_encrypt toy_crypto 32 [1, 2, 3] (replicate 64 7) (replicate 16 9) (replicate 80 0) =
      (Inr n, out') \<and>
    token_decrypt toy_crypto 32 (take n out') (replicate 64 7) [0, 0, 0, 0] = (Inr 3, [1, 2, 3, 0])"
proof -
  have n: "length [1, 2, 3 :: u8] = 3" by simp
  have o: "overwrite [0, 0, 0, 0] 0 [1, 2, 3 :: u8] = [1, 2, 3, 0]" by (simp add: overwrite_def)
  show ?thesis
    using token_roundtrip [of toy_crypto "replicate 16 9" "[1, 2, 3]" 32 "replicate 80 0"
        "[0, 0, 0, 0]" "replicate 64 7"]
    unfolding n o by simp
qed

text \<open>The in-place encryption is the copying one: with the plaintext laid out behind room for
  the vector, it returns the same length and leaves the same bytes at the start of the buffer as
  copying encryption into that buffer, whenever the sizes are representable.\<close>

theorem token_in_place_equivalent:
  assumes "slice 16 (16 + n) buf = p" "length p = n" "length (padded p) \<le> PAD"
    and "n + 64 \<le> USIZE_MAX"
  shows "token_encrypt_in_place C key iv buf n = token_encrypt C PAD p key iv buf"
proof -
  have n: "n + (16 - n mod 16) = length (padded p)" using assms(2) by (simp add: length_padded)
  have r: "slice 16 (16 + n) buf @ replicate (16 - n mod 16) (of_nat (16 - n mod 16)) = padded p"
    using assms(1,2) by (simp add: padded_def Let_def)
  have c: "usize_checked_add n (16 - n mod 16) = Some (length (padded p))"
      "usize_checked_add (length (padded p)) TOKEN_OVERHEAD = Some (48 + length (padded p))"
    using assms(4) n padded_blocks(3) [of p] assms(2)
    by (simp_all add: usize_checked_add_def TOKEN_OVERHEAD_def)
  show ?thesis
    unfolding token_encrypt_in_place_def Let_def c option.case r
    using assms(3) by (simp add: token_encrypt_eq token_of_def Let_def)
qed

theorem token_in_place_equivalent_witness:
  "token_encrypt_in_place toy_crypto (replicate 64 7) (replicate 16 9) (replicate 80 0) 5 =
   token_encrypt toy_crypto 16 (replicate 5 0) (replicate 64 7) (replicate 16 9) (replicate 80 0)"
  using token_in_place_equivalent [of 5 "replicate 80 0" "replicate 5 0" 16 toy_crypto
      "replicate 64 7" "replicate 16 9"]
  by (simp add: slice_def length_padded USIZE_MAX_def)

text \<open>In-place decryption accepts exactly what copying decryption accepts, with the same plaintext.\<close>

lemma if_Inl_eq_Inr: "(if b then Inl e else x) = Inr y \<longleftrightarrow> \<not> b \<and> x = Inr y"
  by simp

lemma pkcs7_unpad_prefix:
  assumes "pkcs7_unpad d = Inr p" shows "p = take (length p) d \<and> length p \<le> length d"
proof -
  obtain k where k: "p = take k d"
    using assms unfolding pkcs7_unpad_def Let_def if_Inl_eq_Inr sum.inject by blast
  show ?thesis unfolding k by (simp add: min_def)
qed

lemma token_decrypt_in_place_agrees:
  assumes "aes_law C" "length buf \<le> length out" "length buf \<le> PAD + 48"
  shows "case token_decrypt C PAD buf key out of
      (Inr n, out') \<Rightarrow> \<exists>buf'. token_decrypt_in_place C key buf = (Inr n, buf') \<and>
        slice 16 (16 + n) buf' = take n out'
    | (Inl e, _) \<Rightarrow> \<exists>buf'. token_decrypt_in_place C key buf = (Inl e, buf')"
proof (cases "length buf < 64 \<or> (length buf - 48) mod 16 \<noteq> 0 \<or>
    cr_hmac C (take 32 key) (take (length buf - 32) buf) \<noteq> drop (length buf - 32) buf")
  case True
  then have "token_decrypt C PAD buf key out = (Inl AuthenticationFailed, out)"
      "token_decrypt_in_place C key buf = (Inl AuthenticationFailed, buf)"
    unfolding token_decrypt_def token_decrypt_in_place_def Let_def
    by (elim disjE; simp)+
  then show ?thesis by simp
next
  case False
  let ?split = "length buf - 32"
  let ?region = "cr_aes_cbc_decrypt C (drop 32 key) (take 16 buf) (slice 16 ?split buf)"
  have ct: "drop 16 (take ?split buf) = slice 16 ?split buf" "take 16 (take ?split buf) = take 16 buf"
    using False by (auto simp: slice_def drop_take min_def)
  have lct: "length (slice 16 ?split buf) = length buf - 48" using False by simp
  have "slice 16 ?split buf \<noteq> []"
  proof
    assume "slice 16 ?split buf = []"
    then show False using lct False by simp
  qed
  then have ok: "\<not> (slice 16 ?split buf = [] \<or> length (slice 16 ?split buf) mod 16 \<noteq> 0 \<or>
      length (slice 16 ?split buf) > PAD)"
    using False lct assms(3) by auto
  have lr: "length ?region = length buf - 48"
    using aes_lawD(2) [OF assms(1)] ok lct by simp
  have td: "token_decrypt C PAD buf key out = (case pkcs7_unpad ?region of
      Inl e \<Rightarrow> (Inl e, out)
    | Inr p \<Rightarrow> if length out < length p then (Inl CryptoOutputTooSmall, out)
        else (Inr (length p), overwrite out 0 p))"
    unfolding token_decrypt_def Let_def ct using False ok by simp
  have ti: "token_decrypt_in_place C key buf = (case pkcs7_unpad ?region of
      Inr p \<Rightarrow> (Inr (length p), overwrite buf 16 ?region)
    | Inl e \<Rightarrow> (Inl e, overwrite buf 16 (replicate (length buf - 48) 0)))"
  proof -
    have e: "length buf - 32 - 16 = length buf - 48" by simp
    show ?thesis
      unfolding token_decrypt_in_place_def Let_def e using False by simp
  qed
  show ?thesis
  proof (cases "pkcs7_unpad ?region")
    case (Inr p)
    note p = pkcs7_unpad_prefix [OF Inr]
    have "slice 16 (16 + length p) (overwrite buf 16 ?region) = take (length p) ?region"
      using False p by (simp add: slice_def overwrite_def)
    moreover have "length p \<le> length out" using p lr assms(2) by linarith
    ultimately show ?thesis using Inr p take_overwrite [of p out] by (simp add: td ti)
  qed (simp add: td ti)
qed

section \<open>ECIES\<close>

lemma padded_max: "length p \<le> MAX_ECIES_PLAINTEXT \<Longrightarrow> length (padded p) \<le> PADDED_MAX"
proof -
  assume "length p \<le> MAX_ECIES_PLAINTEXT"
  then have "length p \<le> 383" by (simp add: token_consts)
  then have "length p div 16 \<le> 23"
    using div_le_mono [of "length p" 383 16] by simp
  then have "length p + (16 - length p mod 16) \<le> 384"
    using mod_less_divisor [of 16 "length p"] div_mult_mod_eq [of "length p" 16] by linarith
  then show ?thesis by (simp add: length_padded token_consts)
qed

lemma ecies_encrypt_ok:
  assumes laws: "hmac_law C" "aes_law C" "x_law C" and iv: "length iv = 16"
    and p: "length p \<le> MAX_ECIES_PLAINTEXT" and out: "80 + length (padded p) \<le> length out"
    and key: "key = derive_token_key C (cr_x_shared C esk target) ih"
  shows "\<exists>out'. ecies_encrypt C p target ih esk iv out = (Inr (80 + length (padded p)), out') \<and>
    take (80 + length (padded p)) out' = cr_x_public C esk @ token_of C key iv p"
proof -
  let ?pub = "cr_x_public C esk" and ?t = "token_of C key iv p"
  have pub: "length ?pub = 32" using laws(3) by (simp add: x_law_def)
  have t: "length ?t = 48 + length (padded p)" by (rule length_token_of [OF laws(1,2) iv])
  let ?o1 = "overwrite out 0 ?pub"
  have o1: "take 32 ?o1 = ?pub" "length (drop 32 ?o1) = length out - 32"
    using pub out take_overwrite [of ?pub out] by (simp_all add: overwrite_def)
  have enc: "token_encrypt C PADDED_MAX p key iv (drop 32 ?o1) =
      (Inr (48 + length (padded p)), overwrite (drop 32 ?o1) 0 ?t)"
    using padded_max [OF p] o1(2) out by (simp add: token_encrypt_eq)
  have "take (80 + length (padded p)) (take 32 ?o1 @ overwrite (drop 32 ?o1) 0 ?t) = ?pub @ ?t"
    using pub t take_overwrite [of ?t "drop 32 ?o1"] by (simp add: o1(1))
  moreover have "ecies_encrypt C p target ih esk iv out =
      (Inr (80 + length (padded p)), take 32 ?o1 @ overwrite (drop 32 ?o1) 0 ?t)"
    unfolding ecies_encrypt_def Let_def key [symmetric] enc
    using p out by simp
  ultimately show ?thesis by blast
qed

lemma ecies_decrypt_encrypt:
  assumes laws: "hmac_law C" "aes_law C" "x_law C" and iv: "length iv = 16"
    and p: "length p \<le> MAX_ECIES_PLAINTEXT"
    and out: "length p + 96 \<le> length out" "length p \<le> length out2"
  shows "\<exists>n out'. ecies_encrypt C p (cr_x_public C sk) ih esk iv out = (Inr n, out') \<and>
    ecies_decrypt C (take n out') sk ih out2 = (Inr (length p), overwrite out2 0 p)"
proof -
  let ?key = "derive_token_key C (cr_x_shared C esk (cr_x_public C sk)) ih"
  let ?pub = "cr_x_public C esk" and ?t = "token_of C ?key iv p"
  have pub: "length ?pub = 32" using laws(3) by (simp add: x_law_def)
  have dh: "cr_x_shared C sk ?pub = cr_x_shared C esk (cr_x_public C sk)"
    using laws(3) by (simp add: x_law_def)
  have t: "length ?t = 48 + length (padded p)" by (rule length_token_of [OF laws(1,2) iv])
  have "80 + length (padded p) \<le> length out" using out(1) padded_blocks(3) [of p] by simp
  then obtain out' where e: "ecies_encrypt C p (cr_x_public C sk) ih esk iv out =
      (Inr (80 + length (padded p)), out')" "take (80 + length (padded p)) out' = ?pub @ ?t"
    using ecies_encrypt_ok [OF laws iv p _ refl] by blast
  have "ecies_decrypt C (?pub @ ?t) sk ih out2 = token_decrypt C PADDED_MAX ?t ?key out2"
    using pub t padded_blocks(4) [of p] by (simp add: ecies_decrypt_def Let_def dh)
  also have "\<dots> = (Inr (length p), overwrite out2 0 p)"
    using token_decrypt_token_of [OF laws(1,2) iv padded_max [OF p]] out(2) by simp
  finally show ?thesis using e by auto
qed

text \<open>C37. Single-destination encryption round trip: a plaintext within the packet limit, encrypted to
  the public key of a private key under an identity hash, is decrypted by that private key and hash
  to the same plaintext, whatever the ephemeral key and vector were.\<close>

theorem ecies_roundtrip:
  assumes laws: "hmac_law C" "aes_law C" "x_law C" and iv: "length iv = 16"
    and p: "length p \<le> MAX_ECIES_PLAINTEXT"
    and out: "length p + 96 \<le> length out" "length p \<le> length out2"
  shows "\<exists>n out'. ecies_encrypt C p (cr_x_public C sk) ih esk iv out = (Inr n, out') \<and>
    ecies_decrypt C (take n out') sk ih out2 = (Inr (length p), overwrite out2 0 p)"
  by (rule ecies_decrypt_encrypt [OF assms])

theorem ecies_roundtrip_witness:
  "\<exists>n out'. ecies_encrypt toy_crypto (replicate 20 3) (cr_x_public toy_crypto (replicate 32 5))
      (replicate 16 4) (replicate 32 6) (replicate 16 9) (replicate 200 0) = (Inr n, out') \<and>
    ecies_decrypt toy_crypto (take n out') (replicate 32 5) (replicate 16 4) (replicate 20 0) =
      (Inr 20, replicate 20 3)"
  using ecies_roundtrip [of toy_crypto "replicate 16 9" "replicate 20 3" "replicate 200 0"
      "replicate 20 0" "replicate 32 5" "replicate 16 4" "replicate 32 6"]
  by (simp add: token_consts overwrite_def)

section \<open>Decryption with retained ratchets\<close>

lemma token_decrypt_error: "token_decrypt C PAD d key out = (Inl e, out') \<Longrightarrow> out' = out"
  unfolding token_decrypt_def Let_def by (simp split: if_splits sum.splits)

lemma ecies_decrypt_error: "ecies_decrypt C d sk h out = (Inl e, out') \<Longrightarrow> out' = out"
  unfolding ecies_decrypt_def Let_def by (auto split: if_splits dest: token_decrypt_error)

lemma decrypt_scan_spec:
  "decrypt_scan C d rs k sk h out = (r, out') \<Longrightarrow>
   (case r of
      Inr (n, Some i) \<Rightarrow> k \<le> i \<and> i - k < length rs \<and>
        ecies_decrypt C d (rs ! (i - k)) h out = (Inr n, out') \<and>
        (\<forall>j < i - k. \<exists>e. ecies_decrypt C d (rs ! j) h out = (Inl e, out))
    | Inr (n, None) \<Rightarrow> ecies_decrypt C d sk h out = (Inr n, out') \<and>
        (\<forall>j < length rs. \<exists>e. ecies_decrypt C d (rs ! j) h out = (Inl e, out))
    | Inl e \<Rightarrow> out' = out \<and> ecies_decrypt C d sk h out = (Inl e, out) \<and>
        (\<forall>j < length rs. \<exists>e. ecies_decrypt C d (rs ! j) h out = (Inl e, out)))"
proof (induction rs arbitrary: k r)
  case Nil
  then show ?case
    by (cases "ecies_decrypt C d sk h out"; cases "fst (ecies_decrypt C d sk h out)")
      (auto dest: ecies_decrypt_error)
next
  case (Cons x rs)
  obtain q o1 where q: "ecies_decrypt C d x h out = (q, o1)" by fastforce
  show ?case
  proof (cases q)
    case (Inr n)
    with Cons.prems q show ?thesis by auto
  next
    case (Inl e)
    then have o1: "o1 = out" using q ecies_decrypt_error by blast
    have first: "ecies_decrypt C d x h out = (Inl e, out)" using q Inl o1 by simp
    then have "decrypt_scan C d rs (k + 1) sk h out = (r, out')"
      using Cons.prems by simp
    note IH = Cons.IH [OF this]
    have all: "\<forall>j < Suc m. \<exists>e. ecies_decrypt C d ((x # rs) ! j) h out = (Inl e, out)"
      if "\<forall>j < m. \<exists>e. ecies_decrypt C d (rs ! j) h out = (Inl e, out)" for m
      using that first by (auto simp: less_Suc_eq_0_disj)
    show ?thesis
    proof (cases r)
      case (Inl e')
      with IH all show ?thesis by auto
    next
      case (Inr m)
      obtain n idx where m: "m = (n, idx)" by fastforce
      show ?thesis
      proof (cases idx)
        case None
        with IH all Inr m show ?thesis by auto
      next
        case (Some i)
        then have i: "Suc k \<le> i" "i - Suc k < length rs"
          "ecies_decrypt C d (rs ! (i - Suc k)) h out = (Inr n, out')"
          "\<forall>j < i - Suc k. \<exists>e. ecies_decrypt C d (rs ! j) h out = (Inl e, out)"
          using IH Inr m by auto
        moreover have "i - k = Suc (i - Suc k)" using i(1) by simp
        ultimately show ?thesis using all [OF i(4)] Inr m Some by simp
      qed
    qed
  qed
qed

text \<open>C38. The scan over retained ratchets picks the first key that decrypts, and the hint it returns
  repeats exactly that decryption: success names an index (or the identity key) whose decryption
  with the hint gives the same plaintext, and every key before it fails; failure means that every
  key fails, and leaves the output as it was.\<close>

theorem ratchet_scan_matches_hint:
  "case ecies_decrypt_with_ratchets C d rs sk h out of
     (Inr (n, idx), out') \<Rightarrow>
       ecies_decrypt_with_ratchet_hint C d rs sk h idx out = (Inr n, out') \<and>
       (\<forall>r \<in> set (take (case idx of None \<Rightarrow> length rs | Some i \<Rightarrow> i) rs).
          \<exists>e. ecies_decrypt C d r h out = (Inl e, out))
   | (Inl e, out') \<Rightarrow> out' = out \<and>
       (\<forall>r \<in> set (rs @ [sk]). \<exists>e. ecies_decrypt C d r h out = (Inl e, out))"
proof -
  obtain r out' where r: "ecies_decrypt_with_ratchets C d rs sk h out = (r, out')" by fastforce
  note spec = decrypt_scan_spec [OF r [unfolded ecies_decrypt_with_ratchets_def]]
  have nth_all: "\<forall>r \<in> set (take m rs). \<exists>e. ecies_decrypt C d r h out = (Inl e, out)"
    if "\<forall>j < m. \<exists>e. ecies_decrypt C d (rs ! j) h out = (Inl e, out)" "m \<le> length rs" for m
    using that by (auto simp: in_set_conv_nth)
  show ?thesis
  proof (cases r)
    case (Inl e)
    then show ?thesis using spec nth_all [of "length rs"] by (simp add: r)
  next
    case (Inr m)
    obtain n idx where m: "m = (n, idx)" by fastforce
    show ?thesis
    proof (cases idx)
      case None
      then show ?thesis
        using spec nth_all [of "length rs"] Inr m by (simp add: r ecies_decrypt_with_ratchet_hint_def)
    next
      case (Some i)
      then show ?thesis
        using spec nth_all [of i] Inr m by (simp add: r ecies_decrypt_with_ratchet_hint_def)
    qed
  qed
qed

theorem ratchet_scan_matches_hint_witness:
  "\<exists>d n out'. ecies_decrypt_with_ratchets toy_crypto d [replicate 32 5] (replicate 32 1)
      (replicate 16 4) (replicate 20 0) = (Inr (n, Some 0), out') \<and>
    ecies_decrypt_with_ratchet_hint toy_crypto d [replicate 32 5] (replicate 32 1)
      (replicate 16 4) (Some 0) (replicate 20 0) = (Inr n, out')"
proof -
  obtain d where d: "ecies_decrypt toy_crypto d (replicate 32 5) (replicate 16 4) (replicate 20 0) =
      (Inr 20, replicate 20 3)"
    using ecies_decrypt_encrypt [of toy_crypto "replicate 16 9" "replicate 20 3" "replicate 200 0"
      "replicate 20 0" "replicate 32 5" "replicate 16 4" "replicate 32 6"]
    by (auto simp: token_consts overwrite_def)
  then have "ecies_decrypt_with_ratchets toy_crypto d [replicate 32 5] (replicate 32 1)
      (replicate 16 4) (replicate 20 0) = (Inr (20, Some 0), replicate 20 3)"
    by (simp add: ecies_decrypt_with_ratchets_def)
  then show ?thesis
    using ratchet_scan_matches_hint [where C = toy_crypto and d = d and rs = "[replicate 32 5]" and
        sk = "replicate 32 1" and h = "replicate 16 4" and out = "replicate 20 0"] by auto
qed

end
