(* ===== verification/Link.thy ===== *)
theory Link
  imports Identity Token
begin

text \<open>
  Link handshake and link encryption (\<^verbatim>\<open>link.rs\<close>): signalling, link requests and proofs, session
  key derivation and identification. Keys are byte lists of the fixed lengths of the source.
\<close>

section \<open>Signalling\<close>

definition KEYSIZE :: nat where "KEYSIZE = 32"
definition ECPUBSIZE :: nat where "ECPUBSIZE = 64"
definition LINK_MTU_SIZE :: nat where "LINK_MTU_SIZE = 3"
definition LINK_REQUEST_LEGACY_LEN :: nat where "LINK_REQUEST_LEGACY_LEN = ECPUBSIZE"
definition LINK_REQUEST_LEN :: nat where "LINK_REQUEST_LEN = ECPUBSIZE + LINK_MTU_SIZE"
definition LINK_PROOF_LEGACY_LEN :: nat where "LINK_PROOF_LEGACY_LEN = SIGNATURE_LENGTH + KEYSIZE"
definition LINK_PROOF_LEN :: nat where "LINK_PROOF_LEN = SIGNATURE_LENGTH + KEYSIZE + LINK_MTU_SIZE"
definition MODE_AES256_CBC :: u8 where "MODE_AES256_CBC = 1"
definition DEFAULT_MODE :: u8 where "DEFAULT_MODE = MODE_AES256_CBC"
definition LINK_KEY_LENGTH :: nat where "LINK_KEY_LENGTH = 64"
definition MTU_BYTEMASK :: u32 where "MTU_BYTEMASK = 0x1FFFFF"
definition MODE_BYTEMASK :: u32 where "MODE_BYTEMASK = 0xE0"
definition LINK_PADDED_MAX :: nat where "LINK_PADDED_MAX = MDU"

lemmas link_consts = KEYSIZE_def ECPUBSIZE_def LINK_MTU_SIZE_def LINK_REQUEST_LEGACY_LEN_def
  LINK_REQUEST_LEN_def LINK_PROOF_LEGACY_LEN_def LINK_PROOF_LEN_def LINK_KEY_LENGTH_def
  LINK_PADDED_MAX_def announce_consts

datatype link_error = LinkOutputTooSmall | LinkInvalidLength | LinkUnsupportedMode | LinkInvalidMtu

definition link_mdu :: "nat \<Rightarrow> nat" where
  "link_mdu mtu =
     (let overhead = 1 + HEADER_MINSIZE + TOKEN_OVERHEAD in
      if mtu \<le> overhead then 0
      else let blocks = (mtu - overhead) div 16 in if blocks = 0 then 0 else blocks * 16 - 1)"

definition LINK_MDU :: nat where "LINK_MDU = link_mdu MTU"

record signalling_data =
  sg_mode :: u8
  sg_mtu :: u32

definition signalling_new :: "u8 \<Rightarrow> u32 \<Rightarrow> signalling_data" where
  "signalling_new mode mtu = \<lparr>sg_mode = mode AND 0x07, sg_mtu = mtu AND MTU_BYTEMASK\<rparr>"

definition effective_mtu :: "signalling_data \<Rightarrow> link_error + u32" where
  "effective_mtu s =
     (if sg_mtu s = 0 then Inr (of_nat MTU)
      else if 500 \<le> sg_mtu s \<and> sg_mtu s \<le> MTU_BYTEMASK then Inr (sg_mtu s)
      else Inl LinkInvalidMtu)"

definition signalling_try_new :: "u8 \<Rightarrow> u32 \<Rightarrow> link_error + signalling_data" where
  "signalling_try_new mode mtu =
     (if mode > 7 then Inl LinkUnsupportedMode
      else case effective_mtu \<lparr>sg_mode = mode, sg_mtu = mtu\<rparr> of
        Inl e \<Rightarrow> Inl e
      | Inr m \<Rightarrow> Inr \<lparr>sg_mode = mode, sg_mtu = m\<rparr>)"

definition fixed_endpoint :: "signalling_data \<Rightarrow> link_error + signalling_data" where
  "fixed_endpoint s =
     (if sg_mode s \<noteq> MODE_AES256_CBC then Inl LinkUnsupportedMode
      else case signalling_try_new (sg_mode s) (sg_mtu s) of
        Inl e \<Rightarrow> Inl e
      | Inr c \<Rightarrow> if sg_mtu c \<noteq> of_nat MTU then Inl LinkInvalidMtu else Inr c)"

definition default_signalling :: signalling_data where
  "default_signalling = signalling_new DEFAULT_MODE (of_nat MTU)"

definition signalling_pack :: "signalling_data \<Rightarrow> bytes" where
  "signalling_pack s =
     drop 1 (to_be_bytes 4 ((sg_mtu s AND MTU_BYTEMASK) OR
       push_bit 16 (push_bit 5 (ucast (sg_mode s)) AND MODE_BYTEMASK)))"

definition signalling_unpack :: "bytes \<Rightarrow> signalling_data option" where
  "signalling_unpack bs =
     (if length bs < 3 then None
      else
        let v = push_bit 16 (ucast (bs ! 0)) OR push_bit 8 (ucast (bs ! 1)) OR (ucast (bs ! 2) :: u32) in
        Some \<lparr>sg_mode = ucast (drop_bit 21 v AND 0x07), sg_mtu = v AND MTU_BYTEMASK\<rparr>)"

section \<open>Requests and proofs\<close>

definition compute_link_id :: "crypto \<Rightarrow> hash16 \<Rightarrow> bytes \<Rightarrow> hash16" where
  "compute_link_id C destination_hash request_data =
     truncated_hash (cr_sha256 C)
       ([0x02] @ destination_hash @ [0x00] @ take (min (length request_data) ECPUBSIZE) request_data)"

definition build_link_request ::
  "crypto \<Rightarrow> bytes \<Rightarrow> bytes \<Rightarrow> signalling_data \<Rightarrow> bytes \<Rightarrow> (link_error + nat) \<times> bytes" where
  "build_link_request C x25519_priv ed25519_seed signalling out =
     (case fixed_endpoint signalling of
        Inl e \<Rightarrow> (Inl e, out)
      | Inr s \<Rightarrow>
          if length out < LINK_REQUEST_LEN then (Inl LinkOutputTooSmall, out)
          else
            (Inr LINK_REQUEST_LEN,
             overwrite out 0 (cr_x_public C x25519_priv @ cr_ed_public C ed25519_seed @
               signalling_pack s)))"

record link_request_view =
  lrv_peer_x25519_pub :: bytes
  lrv_peer_ed25519_pub :: bytes
  lrv_signalling :: signalling_data

definition link_request_parse :: "bytes \<Rightarrow> link_error + link_request_view" where
  "link_request_parse data =
     (if length data \<noteq> LINK_REQUEST_LEGACY_LEN \<and> length data \<noteq> LINK_REQUEST_LEN
      then Inl LinkInvalidLength
      else
        let signalling =
          (if length data = LINK_REQUEST_LEN
           then (case signalling_unpack (slice ECPUBSIZE LINK_REQUEST_LEN data) of
                   Some s \<Rightarrow> s | None \<Rightarrow> default_signalling)
           else default_signalling) in
        case effective_mtu signalling of
          Inl e \<Rightarrow> Inl e
        | Inr _ \<Rightarrow>
            Inr \<lparr>lrv_peer_x25519_pub = slice 0 KEYSIZE data,
                 lrv_peer_ed25519_pub = slice KEYSIZE ECPUBSIZE data,
                 lrv_signalling = signalling\<rparr>)"

definition build_link_proof ::
  "crypto \<Rightarrow> local_identity \<Rightarrow> bytes \<Rightarrow> hash16 \<Rightarrow> signalling_data \<Rightarrow> bytes
   \<Rightarrow> (link_error + nat) \<times> bytes" where
  "build_link_proof C ident responder_priv link_id signalling out =
     (case fixed_endpoint signalling of
        Inl e \<Rightarrow> (Inl e, out)
      | Inr s \<Rightarrow>
          if length out < LINK_PROOF_LEN then (Inl LinkOutputTooSmall, out)
          else
            let responder_pub = cr_x_public C responder_priv;
                identity_ed = slice KEYSIZE PUBLIC_KEY_LENGTH (li_public_key ident);
                sig_bytes = signalling_pack s;
                signature = li_sign C ident (link_id @ responder_pub @ identity_ed @ sig_bytes) in
            (Inr LINK_PROOF_LEN, overwrite out 0 (signature @ responder_pub @ sig_bytes)))"

record link_proof_view =
  lpv_signature :: bytes
  lpv_responder_x25519_pub :: bytes
  lpv_signalling :: signalling_data
  lpv_signalling_present :: bool

definition link_proof_parse :: "bytes \<Rightarrow> link_error + link_proof_view" where
  "link_proof_parse data =
     (if length data \<noteq> LINK_PROOF_LEGACY_LEN \<and> length data \<noteq> LINK_PROOF_LEN
      then Inl LinkInvalidLength
      else
        let signalling =
          (if length data = LINK_PROOF_LEN
           then (case signalling_unpack (slice (SIGNATURE_LENGTH + KEYSIZE) LINK_PROOF_LEN data) of
                   Some s \<Rightarrow> s | None \<Rightarrow> default_signalling)
           else default_signalling) in
        case effective_mtu signalling of
          Inl e \<Rightarrow> Inl e
        | Inr _ \<Rightarrow>
            Inr \<lparr>lpv_signature = slice 0 SIGNATURE_LENGTH data,
                 lpv_responder_x25519_pub = slice SIGNATURE_LENGTH (SIGNATURE_LENGTH + KEYSIZE) data,
                 lpv_signalling = signalling,
                 lpv_signalling_present = (length data = LINK_PROOF_LEN)\<rparr>)"

definition link_proof_validate :: "crypto \<Rightarrow> link_proof_view \<Rightarrow> bytes \<Rightarrow> hash16 \<Rightarrow> bool" where
  "link_proof_validate C v identity_public_key link_id =
     (if \<not> is_ok (fixed_endpoint (lpv_signalling v)) then False
      else
        let ed_pub = slice KEYSIZE PUBLIC_KEY_LENGTH identity_public_key in
        if \<not> cr_ed_key_ok C ed_pub then False
        else
          let signed = link_id @ lpv_responder_x25519_pub v @ ed_pub @
            (if lpv_signalling_present v then signalling_pack (lpv_signalling v) else []) in
          cr_ed_verify C ed_pub signed (lpv_signature v))"

section \<open>Session keys and identification\<close>

definition link_keys_derive :: "crypto \<Rightarrow> bytes \<Rightarrow> bytes \<Rightarrow> hash16 \<Rightarrow> bytes" where
  "link_keys_derive C my_priv peer_pub link_id =
     (case cr_hkdf C link_id (cr_x_shared C my_priv peer_pub) LINK_KEY_LENGTH of
        Some key \<Rightarrow> key | None \<Rightarrow> replicate LINK_KEY_LENGTH 0)"

definition link_encrypt ::
  "crypto \<Rightarrow> bytes \<Rightarrow> bytes \<Rightarrow> bytes \<Rightarrow> bytes \<Rightarrow> (crypto_error + nat) \<times> bytes" where
  "link_encrypt C keys plaintext iv out = token_encrypt C LINK_PADDED_MAX plaintext keys iv out"

definition link_decrypt ::
  "crypto \<Rightarrow> bytes \<Rightarrow> bytes \<Rightarrow> bytes \<Rightarrow> (crypto_error + nat) \<times> bytes" where
  "link_decrypt C keys ciphertext out = token_decrypt C LINK_PADDED_MAX ciphertext keys out"

definition build_identification ::
  "crypto \<Rightarrow> local_identity \<Rightarrow> hash16 \<Rightarrow> bytes \<Rightarrow> (link_error + nat) \<times> bytes" where
  "build_identification C ident link_id out =
     (if length out < 128 then (Inl LinkOutputTooSmall, out)
      else
        (Inr 128, overwrite out 0 (li_public_key ident @
           li_sign C ident (link_id @ li_public_key ident))))"

definition verify_identification :: "crypto \<Rightarrow> hash16 \<Rightarrow> bytes \<Rightarrow> bytes option" where
  "verify_identification C link_id plaintext =
     (if length plaintext \<noteq> PUBLIC_KEY_LENGTH + SIGNATURE_LENGTH then None
      else
        let public_key = take PUBLIC_KEY_LENGTH plaintext; ed_public = drop KEYSIZE public_key in
        if \<not> cr_ed_key_ok C ed_public then None
        else if cr_ed_verify C ed_public (link_id @ public_key) (drop PUBLIC_KEY_LENGTH plaintext)
        then Some public_key else None)"

section \<open>The signalling codec\<close>

definition signalling_wf :: "signalling_data \<Rightarrow> bool" where
  "signalling_wf s \<longleftrightarrow> sg_mode s AND 0x07 = sg_mode s \<and> sg_mtu s AND MTU_BYTEMASK = sg_mtu s"

definition signalling_word :: "signalling_data \<Rightarrow> u32" where
  "signalling_word s = (sg_mtu s AND MTU_BYTEMASK) OR
     push_bit 16 (push_bit 5 (ucast (sg_mode s)) AND MODE_BYTEMASK)"

lemma masks: "MTU_BYTEMASK = mask 21" "MODE_BYTEMASK = push_bit 5 (mask 3)"
  "(0x07 :: u8) = mask 3" "(0x07 :: u32) = mask 3"
  by (simp_all add: MTU_BYTEMASK_def MODE_BYTEMASK_def mask_eq_exp_minus_1)

lemma signalling_pack_eq: "signalling_pack s = to_be_bytes 3 (signalling_word s)"
  using drop_to_be_bytes [of 3 4 "signalling_word s"]
  by (simp add: signalling_pack_def signalling_word_def)

lemma length_signalling_pack [simp]: "length (signalling_pack s) = 3"
  by (simp add: signalling_pack_eq)

lemma signalling_unpack_eq:
  assumes "length bs = 3"
  shows "signalling_unpack bs =
    Some \<lparr>sg_mode = ucast (drop_bit 21 (from_be_bytes bs :: u32) AND 0x07),
      sg_mtu = from_be_bytes bs AND MTU_BYTEMASK\<rparr>"
proof -
  obtain a b c where bs: "bs = [a, b, c]"
    using assms by (cases bs; cases "tl bs"; cases "tl (tl bs)") auto
  have "push_bit 16 (ucast a) OR push_bit 8 (ucast b) OR ucast c = (from_be_bytes bs :: u32)"
    unfolding bs by (rule bit_word_eqI) (auto simp: from_be_bytes_def bit_simps)
  then show ?thesis using assms by (simp add: signalling_unpack_def bs Let_def)
qed

lemma signalling_word_small: "take_bit 24 (signalling_word s) = signalling_word s"
  unfolding signalling_word_def masks
  by (rule bit_word_eqI) (auto simp: bit_simps)

lemma signalling_unpack_pack:
  assumes "signalling_wf s" shows "signalling_unpack (signalling_pack s) = Some s"
proof -
  have v: "(from_be_bytes (signalling_pack s) :: u32) = signalling_word s"
    by (simp add: signalling_pack_eq from_to_be_bytes signalling_word_small)
  have m: "bit (sg_mode s) n \<Longrightarrow> n < 3" "bit (sg_mtu s) k \<Longrightarrow> k < 21" for n k
    using assms arg_cong [of _ _ "\<lambda>w. bit w n"] arg_cong [of _ _ "\<lambda>w. bit w k"]
    unfolding signalling_wf_def masks by (metis bit_and_iff bit_mask_iff)+
  have "signalling_word s AND MTU_BYTEMASK = sg_mtu s"
    unfolding signalling_word_def masks
    by (rule bit_word_eqI) (auto simp: bit_simps dest: m)
  moreover have "ucast (drop_bit 21 (signalling_word s) AND 0x07) = sg_mode s"
    unfolding signalling_word_def masks
    by (rule bit_word_eqI) (auto simp: bit_simps add.commute dest: m)
  ultimately show ?thesis by (simp add: signalling_unpack_eq v)
qed

lemma signalling_pack_unpack:
  assumes "length bs = 3" "signalling_unpack bs = Some s"
  shows "signalling_wf s \<and> signalling_pack s = bs"
proof -
  let ?v = "from_be_bytes bs :: u32"
  have s: "s = \<lparr>sg_mode = ucast (drop_bit 21 ?v AND 0x07), sg_mtu = ?v AND MTU_BYTEMASK\<rparr>"
    using assms signalling_unpack_eq by simp
  have t: "take_bit 24 ?v = ?v" using from_be_bytes_take_bit [of bs] assms(1) by simp
  then have small: "bit ?v n \<Longrightarrow> n < 24" for n by (metis bit_take_bit_iff)
  have "signalling_word s = ?v"
    unfolding signalling_word_def s masks
  proof (rule bit_word_eqI)
    fix n assume "n < LENGTH(32)"
    consider "n < 21" | "21 \<le> n" "n < 24" | "24 \<le> n" by linarith
    then show "bit ((sg_mtu \<lparr>sg_mode = ucast (drop_bit 21 ?v AND mask 3), sg_mtu = ?v AND mask 21\<rparr> AND mask 21) OR
        push_bit 16 (push_bit 5 (ucast (sg_mode \<lparr>sg_mode = ucast (drop_bit 21 ?v AND mask 3) :: u8,
          sg_mtu = ?v AND mask 21\<rparr>)) AND push_bit 5 (mask 3))) n = bit ?v n"
      using small [of n] \<open>n < LENGTH(32)\<close> by cases (auto simp: bit_simps)
  qed
  then have "signalling_pack s = bs"
    using to_from_be_bytes [of bs, where 'a = 32] assms(1) by (simp add: signalling_pack_eq)
  moreover have "signalling_wf s"
    unfolding signalling_wf_def s masks
    by (auto intro!: bit_word_eqI simp: bit_simps)
  ultimately show ?thesis by simp
qed

interpretation signalling: canonical_codec signalling_wf signalling_pack
  "\<lambda>bs. if length bs = 3 then signalling_unpack bs else None"
  by unfold_locales (auto simp: signalling_unpack_pack dest: signalling_pack_unpack split: if_splits)

section \<open>The handshake\<close>

lemma default_signalling_eq: "default_signalling = \<lparr>sg_mode = 1, sg_mtu = 500\<rparr>"
  by (simp add: default_signalling_def signalling_new_def DEFAULT_MODE_def MODE_AES256_CBC_def
      MTU_BYTEMASK_def MTU_def)

lemma fixed_endpoint_Inr:
  "fixed_endpoint s = Inr c \<longleftrightarrow>
     sg_mode s = 1 \<and> (sg_mtu s = 0 \<or> sg_mtu s = 500) \<and> c = default_signalling"
  by (auto simp: fixed_endpoint_def signalling_try_new_def effective_mtu_def default_signalling_eq
      MODE_AES256_CBC_def MTU_def MTU_BYTEMASK_def split: if_splits)

lemma default_signalling_ok:
  "fixed_endpoint default_signalling = Inr default_signalling" "signalling_wf default_signalling"
  "effective_mtu default_signalling = Inr 500"
  by (simp_all add: fixed_endpoint_Inr default_signalling_eq signalling_wf_def MTU_BYTEMASK_def
      effective_mtu_def)

lemma link_request_parse_built:
  assumes "length x = 32" "length e = 32"
  shows "link_request_parse (x @ e @ signalling_pack default_signalling) =
    Inr \<lparr>lrv_peer_x25519_pub = x, lrv_peer_ed25519_pub = e, lrv_signalling = default_signalling\<rparr>"
proof -
  have "slice 64 67 (x @ e @ signalling_pack default_signalling) = signalling_pack default_signalling"
    "slice 0 32 (x @ e @ signalling_pack default_signalling) = x"
    "slice 32 64 (x @ e @ signalling_pack default_signalling) = e"
    using assms by (simp_all add: slice_def)
  then show ?thesis
    using assms
    by (simp add: link_request_parse_def link_consts signalling_unpack_pack default_signalling_ok)
qed

lemma link_proof_parse_built:
  assumes "length sig = 64" "length x = 32"
  shows "link_proof_parse (sig @ x @ signalling_pack default_signalling) =
    Inr \<lparr>lpv_signature = sig, lpv_responder_x25519_pub = x, lpv_signalling = default_signalling,
      lpv_signalling_present = True\<rparr>"
proof -
  have "slice 96 99 (sig @ x @ signalling_pack default_signalling) = signalling_pack default_signalling"
    "slice 0 64 (sig @ x @ signalling_pack default_signalling) = sig"
    "slice 64 96 (sig @ x @ signalling_pack default_signalling) = x"
    using assms by (simp_all add: slice_def)
  then show ?thesis
    using assms
    by (simp add: link_proof_parse_def link_consts signalling_unpack_pack default_signalling_ok)
qed

lemma build_link_request_ok:
  assumes "fixed_endpoint sg = Inr c" "67 \<le> length out" "x_law C" "ed_law C"
  obtains out' where "build_link_request C xi ei sg out = (Inr 67, out')"
    "take 67 out' = cr_x_public C xi @ cr_ed_public C ei @ signalling_pack default_signalling"
proof -
  let ?r = "cr_x_public C xi @ cr_ed_public C ei @ signalling_pack default_signalling"
  have "length ?r = 67" using assms(3,4) by (simp add: x_law_def ed_lawD)
  then have "take 67 (overwrite out 0 ?r) = ?r" by (metis take_overwrite)
  moreover have "build_link_request C xi ei sg out = (Inr 67, overwrite out 0 ?r)"
  proof -
    have "c = default_signalling" using assms(1) by (simp add: fixed_endpoint_Inr)
    then show ?thesis using assms(1,2) by (simp add: build_link_request_def link_consts)
  qed
  ultimately show ?thesis using that by blast
qed

lemma build_link_proof_ok:
  assumes "99 \<le> length out" "x_law C" "ed_law C" and self: "self = from_private_key C sk"
  obtains out' sig where "build_link_proof C self xr lid default_signalling out = (Inr 99, out')"
    "take 99 out' = sig @ cr_x_public C xr @ signalling_pack default_signalling" "length sig = 64"
    "link_proof_validate C \<lparr>lpv_signature = sig, lpv_responder_x25519_pub = cr_x_public C xr,
       lpv_signalling = default_signalling, lpv_signalling_present = True\<rparr> (li_public_key self) lid"
proof -
  let ?x = "cr_x_public C xr" and ?s = "signalling_pack default_signalling"
  let ?ed = "cr_ed_public C (drop 32 sk)"
  let ?sig = "li_sign C self (lid @ ?x @ ?ed @ ?s)"
  have pk: "li_public_key self = derive_public_key C sk" "li_private_key self = sk"
    by (simp_all add: self from_private_key_def Let_def)
  have ed: "slice 32 64 (li_public_key self) = ?ed"
    using derive_public_key_ed [OF assms(2), of sk] ed_lawD(1) [OF assms(3), of "drop 32 sk"]
    by (simp add: pk slice_def)
  have sig: "length ?sig = 64" "cr_ed_verify C ?ed (lid @ ?x @ ?ed @ ?s) ?sig" "cr_ed_key_ok C ?ed"
    using assms(3) by (simp_all add: li_sign_def pk ed_lawD)
  have "length (?sig @ ?x @ ?s) = 99" using sig(1) assms(2) by (simp add: x_law_def)
  then have "take 99 (overwrite out 0 (?sig @ ?x @ ?s)) = ?sig @ ?x @ ?s"
    by (metis take_overwrite)
  moreover have "build_link_proof C self xr lid default_signalling out =
      (Inr 99, overwrite out 0 (?sig @ ?x @ ?s))"
    using assms(1) ed by (simp add: build_link_proof_def link_consts default_signalling_ok Let_def)
  moreover have "link_proof_validate C \<lparr>lpv_signature = ?sig, lpv_responder_x25519_pub = ?x,
       lpv_signalling = default_signalling, lpv_signalling_present = True\<rparr> (li_public_key self) lid"
    using sig ed by (simp add: link_proof_validate_def default_signalling_ok link_consts)
  ultimately show ?thesis using that sig(1) by blast
qed

text \<open>C39. The link handshake: a request built for admissible signalling parses at the responder; the
  proof the responder builds for it parses at the initiator and validates against the responder's
  identity for the link id of that request; and both sides then derive the same session key.\<close>

theorem link_handshake:
  assumes laws: "x_law C" "ed_law C" and sg: "fixed_endpoint sg = Inr c"
    and room: "67 \<le> length o1" "99 \<le> length o2" and self: "self = from_private_key C sk"
  shows "\<exists>r o1' rv o2' p pv lid.
    build_link_request C xi ei sg o1 = (Inr 67, o1') \<and> r = take 67 o1' \<and>
    link_request_parse r = Inr rv \<and> lid = compute_link_id C dest r \<and>
    build_link_proof C self xr lid (lrv_signalling rv) o2 = (Inr 99, o2') \<and> p = take 99 o2' \<and>
    link_proof_parse p = Inr pv \<and> link_proof_validate C pv (li_public_key self) lid \<and>
    link_keys_derive C xi (lpv_responder_x25519_pub pv) lid =
      link_keys_derive C xr (lrv_peer_x25519_pub rv) lid"
proof -
  obtain o1' where r: "build_link_request C xi ei sg o1 = (Inr 67, o1')"
      "take 67 o1' = cr_x_public C xi @ cr_ed_public C ei @ signalling_pack default_signalling"
    by (rule build_link_request_ok [OF sg room(1) laws])
  let ?rv = "\<lparr>lrv_peer_x25519_pub = cr_x_public C xi, lrv_peer_ed25519_pub = cr_ed_public C ei,
    lrv_signalling = default_signalling\<rparr>"
  have rv: "link_request_parse (take 67 o1') = Inr ?rv"
    unfolding r(2) by (rule link_request_parse_built) (use laws in \<open>simp_all add: x_law_def ed_lawD\<close>)
  let ?lid = "compute_link_id C dest (take 67 o1')"
  obtain o2' sig where p: "build_link_proof C self xr ?lid default_signalling o2 = (Inr 99, o2')"
      "take 99 o2' = sig @ cr_x_public C xr @ signalling_pack default_signalling" "length sig = 64"
      "link_proof_validate C \<lparr>lpv_signature = sig, lpv_responder_x25519_pub = cr_x_public C xr,
         lpv_signalling = default_signalling, lpv_signalling_present = True\<rparr> (li_public_key self) ?lid"
    by (rule build_link_proof_ok [OF room(2) laws self])
  have pv: "link_proof_parse (take 99 o2') = Inr \<lparr>lpv_signature = sig,
      lpv_responder_x25519_pub = cr_x_public C xr, lpv_signalling = default_signalling,
      lpv_signalling_present = True\<rparr>"
    unfolding p(2) by (rule link_proof_parse_built) (use laws p(3) in \<open>simp_all add: x_law_def\<close>)
  have dh: "cr_x_shared C xi (cr_x_public C xr) = cr_x_shared C xr (cr_x_public C xi)"
    using laws(1) by (simp add: x_law_def)
  have "link_keys_derive C xi (cr_x_public C xr) ?lid = link_keys_derive C xr (cr_x_public C xi) ?lid"
    by (simp add: link_keys_derive_def dh)
  with r(1) rv p(1,4) pv show ?thesis
    by (intro exI [of _ "take 67 o1'"] exI [of _ o1'] exI [of _ ?rv] exI [of _ o2']
        exI [of _ "take 99 o2'"] exI conjI) (assumption | rule refl | simp)+
qed

text \<open>The two ways of naming a link agree: for a link request packet to a single destination with
  no context, in either header form, the link id a relay computes from the raw packet is the one the
  endpoints compute from the destination and the request payload.\<close>

theorem relay_and_endpoint_link_id_agree:
  assumes "header_wf h" "pf_packet_type (ph_flags h) = PtLinkRequest"
    and "pf_destination_type (ph_flags h) = DtSingle" "ph_context h = CtxNone"
  shows "link_id_from_raw (cr_sha256 C) (header_bytes h @ p) (pf_header_type (ph_flags h)) =
    compute_link_id C (ph_destination_hash h) p"
proof -
  have "flags_pack (ph_flags h) AND 0x0F = 0x02"
    using assms(2,3) flags_pack_nibble by simp
  then show ?thesis
    using assms(4) by (simp add: link_id_bytes [OF assms(1)] compute_link_id_def truncated_hash_def
        LINK_REQUEST_KEY_BYTES_def ECPUBSIZE_def min_def)
qed

theorem link_handshake_witness:
  "\<exists>o1' rv o2' pv. build_link_request toy_crypto (replicate 32 1) (replicate 32 2)
      default_signalling (replicate 70 0) = (Inr 67, o1') \<and>
    link_request_parse (take 67 o1') = Inr rv \<and>
    build_link_proof toy_crypto (from_private_key toy_crypto (replicate 64 3)) (replicate 32 4)
      (compute_link_id toy_crypto (replicate 16 5) (take 67 o1')) (lrv_signalling rv)
      (replicate 100 0) = (Inr 99, o2') \<and>
    link_proof_parse (take 99 o2') = Inr pv"
  using link_handshake [of toy_crypto default_signalling default_signalling "replicate 70 0"
      "replicate 100 0" "from_private_key toy_crypto (replicate 64 3)" "replicate 64 3"
      "replicate 32 1" "replicate 32 2" "replicate 16 5" "replicate 32 4"]
  by (simp add: default_signalling_ok) blast

definition sample_link_request_header :: packet_header where
  "sample_link_request_header =
     \<lparr>ph_flags = \<lparr>pf_header_type = Header2, pf_context_flag = False, pf_transport_type = TtTransport,
        pf_destination_type = DtSingle, pf_packet_type = PtLinkRequest\<rparr>,
      ph_hops = 3, ph_transport_id = Some (replicate 16 9), ph_destination_hash = replicate 16 5,
      ph_context = CtxNone\<rparr>"

theorem relay_and_endpoint_link_id_agree_witness:
  "link_id_from_raw (cr_sha256 toy_crypto) (header_bytes sample_link_request_header @ replicate 67 1)
     Header2 = compute_link_id toy_crypto (replicate 16 5) (replicate 67 1)"
  using relay_and_endpoint_link_id_agree [of sample_link_request_header toy_crypto "replicate 67 1"]
  by (simp add: sample_link_request_header_def header_wf_def size_consts)

end
