(* ===== verification/Model.thy ===== *)
theory Model
  imports Config Announce_Control Discovery
begin

text \<open>
  \<^verbatim>\<open>src/model.rs\<close> and the interface metadata of \<^verbatim>\<open>src/transport.rs\<close>: the two interface models of a
  node. An endpoint keeps facts that its host publishes, a router owns an interface registry. The
  trait \<^verbatim>\<open>Model\<close> is sealed to these two types, so the trait becomes a datatype with one
  constructor per implementation and each trait method a case distinction.
\<close>

section \<open>Interface metadata\<close>

record rx_meta =
  rx_interface_id :: interface_id
  rx_interface_mode :: "interface_mode option"
  rx_rssi :: "u16 option"
  rx_snr_quarter_db :: "u8 option"

definition rx_meta_new :: "interface_id \<Rightarrow> rx_meta" where
  "rx_meta_new i =
     \<lparr>rx_interface_id = i, rx_interface_mode = None, rx_rssi = None, rx_snr_quarter_db = None\<rparr>"

definition rx_meta_with_mode :: "interface_id \<Rightarrow> interface_mode \<Rightarrow> rx_meta" where
  "rx_meta_with_mode i mode =
     \<lparr>rx_interface_id = i, rx_interface_mode = Some mode, rx_rssi = None, rx_snr_quarter_db = None\<rparr>"

record interface_facts =
  fa_generation :: u32
  fa_bitrate_bps :: u32
  fa_clear_mtu :: u16
  fa_id :: u8
  fa_mode :: interface_mode
  fa_flags :: u8

definition FACTS_EMPTY :: interface_facts where
  "FACTS_EMPTY = \<lparr>fa_generation = 0, fa_bitrate_bps = 0, fa_clear_mtu = 500, fa_id = 0,
     fa_mode = ModeFull, fa_flags = 0\<rparr>"

definition fa_outbound :: "interface_facts \<Rightarrow> bool" where
  "fa_outbound f \<longleftrightarrow> fa_flags f AND 2 \<noteq> 0 \<and> fa_generation f \<noteq> 0"

definition ENDPOINT_LOCAL_SLOTS :: nat where "ENDPOINT_LOCAL_SLOTS = 4"
definition ROUTER_LOCAL_SLOTS :: nat where "ROUTER_LOCAL_SLOTS = 8"
definition LOCAL_LINKS_MAX :: nat where "LOCAL_LINKS_MAX = 6"
definition WATCHED_DESTINATIONS_MAX :: nat where "WATCHED_DESTINATIONS_MAX = 4"

datatype local_slot = SlotEmpty | SlotDestination hash16 | SlotLink hash16

record outbound_delivery =
  od_identity :: u64
  od_interface_generations :: "u32 list"
  od_pending_targets :: u8
  od_initialized :: bool

section \<open>The router's state\<close>

record router_stats =
  rs_interface_dropped :: u64
  rs_mtu_dropped :: u64
  rs_reflection_dropped :: u64
  rs_announces_released :: u64
  rs_bulk_paths_learned :: u64
  rs_bulk_paths_refused :: u64

definition ROUTER_STATS_ZERO :: router_stats where
  "ROUTER_STATS_ZERO = \<lparr>rs_interface_dropped = 0, rs_mtu_dropped = 0, rs_reflection_dropped = 0,
     rs_announces_released = 0, rs_bulk_paths_learned = 0, rs_bulk_paths_refused = 0\<rparr>"

record router =
  rt_registry :: interface_registry
  rt_generations :: "u64 list"
  rt_last_generation :: u64
  rt_announce_gates :: "announce_gate list"
  rt_lora_modem :: "lora_modem_config option"
  rt_plain_sink :: "hash16 option"
  rt_watched :: "hash16 list"
  rt_watched_len :: u8
  rt_stats :: router_stats

definition router_new :: "interface_registry \<Rightarrow> lora_modem_config option \<Rightarrow> router" where
  "router_new registry modem =
     \<lparr>rt_registry = registry, rt_generations = replicate REQUESTERS 1, rt_last_generation = 1,
      rt_announce_gates = replicate REQUESTERS GATE_OPEN, rt_lora_modem = modem, rt_plain_sink = None,
      rt_watched = replicate WATCHED_DESTINATIONS_MAX (replicate 16 0), rt_watched_len = 0,
      rt_stats = ROUTER_STATS_ZERO\<rparr>"

definition rt_interface :: "router \<Rightarrow> interface_id \<Rightarrow> interface_config option" where
  "rt_interface r i = reg_get (rt_registry r) i"

definition rt_watched_destinations :: "router \<Rightarrow> hash16 list" where
  "rt_watched_destinations r = take (unat (rt_watched_len r)) (rt_watched r)"

definition rt_watches :: "router \<Rightarrow> hash16 \<Rightarrow> bool" where
  "rt_watches r destination \<longleftrightarrow> destination \<in> set (rt_watched_destinations r)"

definition rt_generation :: "router \<Rightarrow> interface_id \<Rightarrow> u64" where
  "rt_generation r i =
     (case reg_slot (rt_registry r) i of None \<Rightarrow> 0 | Some slot \<Rightarrow> rt_generations r ! slot)"

definition rt_facts :: "router \<Rightarrow> nat \<Rightarrow> interface_facts" where
  "rt_facts r slot =
     (case reg_at_slot (rt_registry r) slot of
        None \<Rightarrow> FACTS_EMPTY
      | Some c \<Rightarrow>
          \<lparr>fa_generation = 1, fa_bitrate_bps = ucast (min (ic_bitrate_bps c) 0xFFFFFFFF),
           fa_clear_mtu = of_nat (clear_mtu c), fa_id = ic_id c, fa_mode = ic_mode c,
           fa_flags = 1 OR 4 OR (if ic_online c \<and> dir_outbound (ic_direction c) then 2 else 0)
                        OR (if ic_role c = RoleLocalClient then 8 else 0)\<rparr>)"

section \<open>The model interface\<close>

datatype model = EndpointModel "interface_facts list" | RouterModel router

text \<open>The associated type \<^verbatim>\<open>Delivery\<close>: retained fan-out of an endpoint, the target's registration
  of a router.\<close>

datatype delivery = EndpointDelivery outbound_delivery | RouterDelivery u64

definition ENDPOINT_EMPTY :: model where
  "ENDPOINT_EMPTY = EndpointModel (replicate REQUESTERS FACTS_EMPTY)"

definition ROUTER_EMPTY :: model where
  "ROUTER_EMPTY = RouterModel (router_new reg_new None)"

fun as_router :: "model \<Rightarrow> router option" where
  "as_router (EndpointModel _) = None"
| "as_router (RouterModel r) = Some r"

text \<open>A mutation through \<^verbatim>\<open>router_mut\<close>; nothing happens on an endpoint.\<close>

fun router_mut :: "(router \<Rightarrow> router) \<Rightarrow> model \<Rightarrow> model" where
  "router_mut f (EndpointModel fs) = EndpointModel fs"
| "router_mut f (RouterModel r) = RouterModel (f r)"

fun is_router :: "model \<Rightarrow> bool" where
  "is_router (EndpointModel _) = False"
| "is_router (RouterModel _) = True"

fun local_empty :: "model \<Rightarrow> local_slot list" where
  "local_empty (EndpointModel _) = replicate ENDPOINT_LOCAL_SLOTS SlotEmpty"
| "local_empty (RouterModel _) = replicate ROUTER_LOCAL_SLOTS SlotEmpty"

fun local_links_max :: "model \<Rightarrow> nat" where
  "local_links_max (EndpointModel _) = ENDPOINT_LOCAL_SLOTS"
| "local_links_max (RouterModel _) = LOCAL_LINKS_MAX"

fun m_delivery :: "model \<Rightarrow> u64 \<Rightarrow> interface_id \<Rightarrow> delivery" where
  "m_delivery (EndpointModel _) identity i =
     EndpointDelivery \<lparr>od_identity = identity, od_interface_generations = replicate 7 0,
       od_pending_targets = 0x7f, od_initialized = False\<rparr>"
| "m_delivery (RouterModel r) identity i = RouterDelivery (rt_generation r i)"

text \<open>The last equation pairs a router with an endpoint's delivery, which the associated type
  rules out.\<close>

fun delivery_is_current :: "model \<Rightarrow> interface_id \<Rightarrow> delivery \<Rightarrow> bool" where
  "delivery_is_current (EndpointModel _) i d = True"
| "delivery_is_current (RouterModel r) i (RouterDelivery g) = (g \<noteq> 0 \<and> rt_generation r i = g)"
| "delivery_is_current (RouterModel r) i (EndpointDelivery _) = False"

fun m_facts :: "model \<Rightarrow> nat \<Rightarrow> interface_facts" where
  "m_facts (EndpointModel fs) slot = fs ! slot"
| "m_facts (RouterModel r) slot = rt_facts r slot"

definition m_slot :: "model \<Rightarrow> interface_id \<Rightarrow> nat option" where
  "m_slot m i =
     List.find (\<lambda>slot. fa_flags (m_facts m slot) AND 1 \<noteq> 0 \<and> fa_id (m_facts m slot) = i)
       [0..<REQUESTERS]"

fun m_observe :: "model \<Rightarrow> rx_meta \<Rightarrow> lite_config \<Rightarrow> nat \<Rightarrow> model" where
  "m_observe (EndpointModel fs) meta config clear =
     (let mode = (case rx_interface_mode meta of Some m \<Rightarrow> m | None \<Rightarrow> lc_mode config) in
      case m_slot (EndpointModel fs) (rx_interface_id meta) of
        Some slot \<Rightarrow>
          (if fa_flags (fs ! slot) AND 4 = 0 then EndpointModel (fs[slot := (fs ! slot)\<lparr>fa_mode := mode\<rparr>])
           else EndpointModel fs)
      | None \<Rightarrow>
          (case position (\<lambda>f. fa_flags f AND 1 = 0) fs of
             Some slot \<Rightarrow>
               EndpointModel (fs[slot := \<lparr>fa_generation = 1, fa_bitrate_bps = 0,
                 fa_clear_mtu = of_nat clear, fa_id = rx_interface_id meta, fa_mode = mode,
                 fa_flags = 1 OR 2\<rparr>])
           | None \<Rightarrow> EndpointModel fs))"
| "m_observe (RouterModel r) meta config clear = RouterModel r"

fun m_ifac :: "model \<Rightarrow> interface_id \<Rightarrow> lite_config \<Rightarrow> ifac_config option" where
  "m_ifac (EndpointModel _) i config = lc_ifac config"
| "m_ifac (RouterModel r) i config = Option.bind (reg_get (rt_registry r) i) ic_ifac"

fun m_online :: "model \<Rightarrow> interface_id \<Rightarrow> bool" where
  "m_online (EndpointModel _) i = True"
| "m_online (RouterModel r) i =
     is_some_and (reg_get (rt_registry r) i) (\<lambda>c. ic_online c \<and> dir_outbound (ic_direction c))"

section \<open>Well-formed models\<close>

text \<open>Eight interface slots, as the array types have them, and unique interface ids.\<close>

fun model_inv :: "model \<Rightarrow> bool" where
  "model_inv (EndpointModel fs) \<longleftrightarrow> length fs = REQUESTERS"
| "model_inv (RouterModel r) \<longleftrightarrow>
     reg_inv (rt_registry r) \<and> length (rt_generations r) = REQUESTERS \<and>
     length (rt_announce_gates r) = REQUESTERS \<and> length (rt_watched r) = WATCHED_DESTINATIONS_MAX"

lemma model_inv_empty [simp]: "model_inv ENDPOINT_EMPTY" "model_inv ROUTER_EMPTY"
  by (simp_all add: ENDPOINT_EMPTY_def ROUTER_EMPTY_def router_new_def reg_inv_def reg_new_def)

lemma model_inv_observe [simp]: "model_inv m \<Longrightarrow> model_inv (m_observe m meta config clear)"
  by (cases m) (auto simp: Let_def split: option.split)

lemma is_router_observe [simp]: "is_router (m_observe m meta config clear) = is_router m"
  by (cases m) (auto simp: Let_def split: option.split)

lemma is_router_as_router: "is_router m \<longleftrightarrow> as_router m \<noteq> None"
  by (cases m) simp_all

lemma as_router_observe [simp]: "as_router (m_observe m meta config clear) = as_router m"
  by (cases m) (auto simp: Let_def split: option.split)

lemma is_router_mut [simp]: "is_router (router_mut f m) = is_router m"
  by (cases m) simp_all

lemma m_slot_less: "m_slot m i = Some slot \<Longrightarrow> slot < REQUESTERS"
  by (auto simp: m_slot_def dest!: find_SomeD)

end
