(* ===== verification/Outbound.thy ===== *)
theory Outbound
  imports Model Ring_Queue Codec
begin

text \<open>
  The outbound side of \<^verbatim>\<open>src/transport.rs\<close>: what a queued frame consists of, the lifetime attached
  to it and the token form of a lifetime that drivers carry across the C interface. The theorems
  show that every lifetime a node can attach survives that token, and that the loop that discards
  stale rows is a filter.
\<close>

section \<open>Lifetimes\<close>

definition OUTBOUND_MAX_AGE_MS :: u64 where "OUTBOUND_MAX_AGE_MS = 120000"

datatype outbound_state = OsIndependent | OsReverse u64 | OsLink u64 | OsDiscovery u64

record outbound_lifetime =
  ol_enqueued_ms :: u64
  ol_expires_ms :: u64
  ol_path :: u64
  ol_state :: outbound_state

definition TOKEN_BYTES :: nat where "TOKEN_BYTES = 88"

text \<open>The bytes of \<^verbatim>\<open>b"RTX\\x02"\<close>.\<close>

definition TOKEN_MAGIC :: bytes where "TOKEN_MAGIC = [0x52, 0x54, 0x58, 0x02]"

fun state_kind :: "outbound_state \<Rightarrow> u8 \<times> u64" where
  "state_kind OsIndependent = (0, 0)"
| "state_kind (OsReverse generation) = (1, generation)"
| "state_kind (OsLink generation) = (2, generation)"
| "state_kind (OsDiscovery identity) = (3, identity)"

definition to_token :: "outbound_lifetime \<Rightarrow> bytes" where
  "to_token l =
     (let t = replicate TOKEN_BYTES 0;
          t = overwrite t 0 TOKEN_MAGIC;
          t = t[4 := (if ol_path l \<noteq> 0 then 1 else 0)];
          t = overwrite t 8 (to_le_bytes 8 (ol_enqueued_ms l));
          t = overwrite t 16 (to_le_bytes 8 (ol_expires_ms l));
          t = overwrite t 24 (to_le_bytes 8 (ol_path l));
          (kind, generation) = state_kind (ol_state l);
          t = t[5 := kind]
      in overwrite t 32 (to_le_bytes 8 generation))"

definition from_token :: "bytes \<Rightarrow> outbound_lifetime option" where
  "from_token t =
     (if take 4 t \<noteq> TOKEN_MAGIC \<or> t ! 4 > 1 \<or> slice 6 8 t \<noteq> [0, 0] \<or> list_ex (\<lambda>b. b \<noteq> 0) (drop 40 t)
      then None
      else let enqueued_ms = from_le_bytes (slice 8 16 t); expires_ms = from_le_bytes (slice 16 24 t) in
        if expires_ms < enqueued_ms \<or> expires_ms > sat_add enqueued_ms OUTBOUND_MAX_AGE_MS then None
        else let path = from_le_bytes (slice 24 32 t) in
          if (t ! 4 = 1) \<noteq> (path \<noteq> 0) then None
          else let generation = from_le_bytes (slice 32 40 t);
                   kind = t ! 5;
                   state = (if kind = 0 \<and> generation = 0 then Some OsIndependent
                            else if kind = 1 \<and> generation \<noteq> 0 then Some (OsReverse generation)
                            else if kind = 2 \<and> generation \<noteq> 0 then Some (OsLink generation)
                            else if kind = 3 \<and> generation \<noteq> 0 then Some (OsDiscovery generation)
                            else None)
               in map_option (\<lambda>s. \<lparr>ol_enqueued_ms = enqueued_ms, ol_expires_ms = expires_ms,
                                    ol_path = path, ol_state = s\<rparr>) state)"

section \<open>Queue rows\<close>

datatype outbound_reason = AnnounceRebroadcast | PathResponse | PathRequestForward | PathRequest
  | TransportForward | ProofReturn | LocalReason

definition gated :: "outbound_reason \<Rightarrow> bool" where
  "gated r \<longleftrightarrow> r = AnnounceRebroadcast"

record outbound_frame =
  of_interface_id :: interface_id
  of_packet :: bytes
  of_reason :: outbound_reason
  of_lifetime :: outbound_lifetime

record queued_outbound =
  qo_frame :: outbound_frame
  qo_delivery :: delivery

section \<open>Discarding rows\<close>

text \<open>The loop that looks for a row with \<^verbatim>\<open>position\<close> and removes it until there is none; the number
  is how often the loop body ran. The offset comes from the queue's own iterator, so the removal
  always yields a row (\<open>drain_where_law\<close>); the equation for an empty result makes the loop total.\<close>

lemma length_q_iter_le: "length (q_iter q) \<le> q_len q"
proof -
  have "length (somes ss) \<le> length ss" for ss :: "'a option list"
    by (induction ss) (auto split: option.split)
  from this [of "map (\<lambda>i. q_entries q ! ((q_head q + i) mod max (q_cap q) 1)) [0..<q_len q]"]
  show ?thesis by (simp add: q_iter_def)
qed

function drain_where :: "('a \<Rightarrow> bool) \<Rightarrow> 'a queue \<Rightarrow> nat \<times> 'a queue" where
  "drain_where P q =
     (case position P (q_iter q) of
        None \<Rightarrow> (0, q)
      | Some offset \<Rightarrow>
          (case q_remove q offset of
             (None, q') \<Rightarrow> (0, q')
           | (Some _, q') \<Rightarrow> (case drain_where P q' of (n, q'') \<Rightarrow> (Suc n, q''))))"
  by pat_completeness auto

termination
  by (relation "measure (\<lambda>(P, q). q_len q)")
    (auto simp: q_remove_def Let_def split: if_splits)

declare drain_where.simps [simp del]

lemma filter_list_remove:
  "position P xs = Some i \<Longrightarrow>
   filter (\<lambda>x. \<not> P x) (list_remove i xs) = filter (\<lambda>x. \<not> P x) xs \<and>
   Suc (length (filter P (list_remove i xs))) = length (filter P xs)"
proof (induction xs arbitrary: i)
  case (Cons x xs)
  show ?case
  proof (cases "P x")
    case True
    then show ?thesis using Cons.prems by (simp add: list_remove_def)
  next
    case False
    then obtain j where "position P xs = Some j" "i = Suc j" using Cons.prems by auto
    then show ?thesis using Cons.IH [of j] False by (simp add: list_remove_def)
  qed
qed simp

lemma drain_where_law:
  "q_inv q \<Longrightarrow> drain_where P q = (n, q') \<Longrightarrow>
   q_inv q' \<and> q_cap q' = q_cap q \<and> q_iter q' = filter (\<lambda>x. \<not> P x) (q_iter q) \<and>
   n = length (filter P (q_iter q))"
proof (induction P q arbitrary: n q' rule: drain_where.induct)
  case (1 P q)
  show ?case
  proof (cases "position P (q_iter q)")
    case None
    then have "(n, q') = (0, q)" using "1.prems"(2) by (simp add: drain_where.simps [of P q])
    then show ?thesis using "1.prems"(1) None by (simp add: position_None)
  next
    case (Some i)
    have i: "i < length (q_iter q)" using position_SomeD(1) [OF Some] .
    obtain r q1 where r: "q_remove q i = (r, q1)" by (cases "q_remove q i")
    note R = q_remove_law [OF "1.prems"(1) r]
    obtain m q2 where m: "drain_where P q1 = (m, q2)" by (cases "drain_where P q1")
    have "r = Some (q_iter q ! i)" using R i by simp
    then have e: "(n, q') = (Suc m, q2)"
      using "1.prems"(2) r m Some by (simp add: drain_where.simps [of P q])
    have "q_inv q2 \<and> q_cap q2 = q_cap q1 \<and> q_iter q2 = filter (\<lambda>x. \<not> P x) (q_iter q1) \<and>
        m = length (filter P (q_iter q1))"
      using "1.IH" [OF Some r [symmetric]] R \<open>r = Some (q_iter q ! i)\<close> m by blast
    then show ?thesis using R e filter_list_remove [OF Some] by simp
  qed
qed

section \<open>The token form\<close>

fun state_wf :: "outbound_state \<Rightarrow> bool" where
  "state_wf OsIndependent = True"
| "state_wf s = (snd (state_kind s) \<noteq> 0)"

text \<open>The interval a node gives a frame: it ends no earlier than it begins and lasts at most the
  queue-age ceiling.\<close>

definition interval_ok :: "outbound_lifetime \<Rightarrow> bool" where
  "interval_ok l \<longleftrightarrow>
     ol_enqueued_ms l \<le> ol_expires_ms l \<and> ol_expires_ms l \<le> sat_add (ol_enqueued_ms l) OUTBOUND_MAX_AGE_MS"

definition lifetime_wf :: "outbound_lifetime \<Rightarrow> bool" where
  "lifetime_wf l \<longleftrightarrow> interval_ok l \<and> state_wf (ol_state l)"

lemma overwrite_mid:
  "i = length a \<Longrightarrow> length b = length ys \<Longrightarrow> overwrite (a @ b @ c) i ys = a @ ys @ c"
  by (simp add: overwrite_def)

lemma token_layout:
  "to_token l = TOKEN_MAGIC @ [if ol_path l \<noteq> 0 then 1 else 0, fst (state_kind (ol_state l))] @ [0, 0] @
     to_le_bytes 8 (ol_enqueued_ms l) @ to_le_bytes 8 (ol_expires_ms l) @ to_le_bytes 8 (ol_path l) @
     to_le_bytes 8 (snd (state_kind (ol_state l))) @ replicate 48 0"
proof -
  define N E X P G :: bytes where "N = replicate 4 0" and "E = replicate 8 0" and "X = replicate 8 0"
    and "P = replicate 8 0" and "G = replicate 8 0"
  define r :: bytes where "r = replicate 48 0"
  have n: "length N = 4" "length E = 8" "length X = 8" "length P = 8" "length G = 8"
    by (simp_all add: N_def E_def X_def P_def G_def)
  have "[0] @ [0] @ [0, 0] = replicate 4 (0::u8)" by (simp add: eval_nat_numeral)
  then have "replicate TOKEN_BYTES 0 = N @ ([0] @ [0] @ [0, 0]) @ E @ X @ P @ G @ r"
    unfolding N_def E_def X_def P_def G_def r_def
    by (simp only: TOKEN_BYTES_def replicate_add [symmetric]) simp
  then have z: "replicate TOKEN_BYTES 0 = N @ [0] @ [0] @ [0, 0] @ E @ X @ P @ G @ r" by simp
  have m: "length TOKEN_MAGIC = 4" by (simp add: TOKEN_MAGIC_def)
  have steps: "overwrite (N @ T) 0 TOKEN_MAGIC = TOKEN_MAGIC @ T"
    "(TOKEN_MAGIC @ [a] @ T)[4 := b] = TOKEN_MAGIC @ [b] @ T"
    "(TOKEN_MAGIC @ [f] @ [a] @ T)[5 := b] = TOKEN_MAGIC @ [f] @ [b] @ T"
    "overwrite (TOKEN_MAGIC @ [f] @ [a] @ [0, 0] @ E @ T) 8 Y = TOKEN_MAGIC @ [f] @ [a] @ [0, 0] @ Y @ T"
    if "length Y = 8" for a b f and T Y
    using m n that by (simp_all add: overwrite_def list_update_append)
  have steps2: "overwrite (TOKEN_MAGIC @ [f] @ [a] @ [0, 0] @ Y @ X @ T) 16 X' =
      TOKEN_MAGIC @ [f] @ [a] @ [0, 0] @ Y @ X' @ T"
    "overwrite (TOKEN_MAGIC @ [f] @ [a] @ [0, 0] @ Y @ X' @ P @ T) 24 P' =
      TOKEN_MAGIC @ [f] @ [a] @ [0, 0] @ Y @ X' @ P' @ T"
    "overwrite (TOKEN_MAGIC @ [f] @ [a] @ [0, 0] @ Y @ X' @ P' @ G @ T) 32 G' =
      TOKEN_MAGIC @ [f] @ [a] @ [0, 0] @ Y @ X' @ P' @ G' @ T"
    if "length Y = 8" "length X' = 8" "length P' = 8" "length G' = 8" for a f T Y X' P' G'
    using m n that by (simp_all add: overwrite_def)
  have len: "length (to_le_bytes 8 (w :: u64)) = 8" for w by simp
  show ?thesis
    unfolding to_token_def Let_def split_beta z r_def [symmetric]
      steps(1) [OF len] steps(2) [OF len] steps(4) [OF len] steps2(1) [OF len len len len]
      steps2(2) [OF len len len len] steps(3) [OF len] steps2(3) [OF len len len len]
    by simp
qed

lemma token_fields:
  assumes "length t = TOKEN_BYTES"
  shows "t = take 4 t @ [t ! 4, t ! 5] @ slice 6 8 t @ slice 8 16 t @ slice 16 24 t @ slice 24 32 t @
    slice 32 40 t @ drop 40 t"
proof -
  have join: "slice a b t @ drop b t = drop a t" if "a \<le> b" for a b
    using that by (metis add_diff_inverse_nat append_take_drop_id drop_drop not_less slice_def
        add.commute)
  have "[t ! 4, t ! 5] @ drop 6 t = drop 4 t"
    using assms by (simp add: TOKEN_BYTES_def Cons_nth_drop_Suc [symmetric] eval_nat_numeral)
  then show ?thesis by (simp add: join)
qed

lemma le8_roundtrip: "from_le_bytes (to_le_bytes 8 w) = (w :: u64)"
  by (simp add: from_to_le_bytes take_bit_word_eq_self)

lemma le8_slice: "length bs = 8 \<Longrightarrow> to_le_bytes 8 (from_le_bytes bs :: u64) = bs"
  using to_from_le_bytes [of bs, where 'a = 64] by simp

text \<open>What \<^const>\<open>from_token\<close> does with the fields of a token.\<close>

definition token_check ::
  "bytes \<Rightarrow> u8 \<Rightarrow> u8 \<Rightarrow> bytes \<Rightarrow> u64 \<Rightarrow> u64 \<Rightarrow> u64 \<Rightarrow> u64 \<Rightarrow> bytes \<Rightarrow> outbound_lifetime option" where
  "token_check m f k z e x p g r =
     (if m = TOKEN_MAGIC \<and> f = (if p \<noteq> 0 then 1 else 0) \<and> z = [0, 0] \<and> list_all (\<lambda>b. b = 0) r \<and>
         e \<le> x \<and> x \<le> sat_add e OUTBOUND_MAX_AGE_MS \<and> k \<le> 3 \<and> (k = 0 \<longleftrightarrow> g = 0)
      then Some \<lparr>ol_enqueued_ms = e, ol_expires_ms = x, ol_path = p,
                  ol_state = (if k = 0 then OsIndependent else if k = 1 then OsReverse g
                              else if k = 2 then OsLink g else OsDiscovery g)\<rparr>
      else None)"

lemma u8_le_1: "(f :: u8) \<le> 1 \<longleftrightarrow> f = 0 \<or> f = 1"
  unfolding word_unat_eq_iff word_le_nat_alt by simp arith

lemma u8_le_3: "(k :: u8) \<le> 3 \<longleftrightarrow> k = 0 \<or> k = 1 \<or> k = 2 \<or> k = 3"
  unfolding word_unat_eq_iff word_le_nat_alt by simp arith

lemma token_state:
  "(if k = 0 \<and> g = 0 then Some OsIndependent
    else if k = 1 \<and> g \<noteq> 0 then Some (OsReverse g)
    else if k = 2 \<and> g \<noteq> 0 then Some (OsLink g)
    else if k = 3 \<and> g \<noteq> 0 then Some (OsDiscovery g) else None) =
   (if k \<le> 3 \<and> (k = 0 \<longleftrightarrow> g = 0)
    then Some (if k = 0 then OsIndependent else if k = 1 then OsReverse g
               else if k = 2 then OsLink g else OsDiscovery g) else None)" for k :: u8
  unfolding u8_le_3 by auto

lemma guards_collect:
  "(if a \<or> b \<or> c \<or> d then None else if e \<or> f then None else if g then None
    else map_option h (if k then Some s else None)) =
   (if \<not> a \<and> \<not> b \<and> \<not> c \<and> \<not> d \<and> \<not> e \<and> \<not> f \<and> \<not> g \<and> k then Some (h s) else None)"
  by simp

lemma from_token_parts:
  "from_token t = token_check (take 4 t) (t ! 4) (t ! 5) (slice 6 8 t) (from_le_bytes (slice 8 16 t))
    (from_le_bytes (slice 16 24 t)) (from_le_bytes (slice 24 32 t)) (from_le_bytes (slice 32 40 t)) (drop 40 t)"
proof -
  have z: "\<not> list_ex (\<lambda>b. b \<noteq> 0) r \<longleftrightarrow> list_all (\<lambda>b. b = 0) r" for r :: bytes
    by (simp add: list_ex_iff list_all_iff)
  show ?thesis
    unfolding from_token_def Let_def token_state guards_collect token_check_def
    by (rule if_cong) (use u8_le_1 [of "t ! 4"] z in \<open>auto simp: not_less\<close>)
qed

lemma state_of_kind:
  "k \<le> 3 \<and> (k = 0 \<longleftrightarrow> g = 0) \<and>
     s = (if k = 0 then OsIndependent else if k = 1 then OsReverse g
          else if k = 2 then OsLink g else OsDiscovery g) \<longleftrightarrow>
   (k, g) = state_kind s \<and> state_wf s" for k :: u8
  unfolding u8_le_3 by (cases s) auto

lemma token_check_Some:
  "token_check m f k z e x p g r = Some l \<longleftrightarrow>
     m = TOKEN_MAGIC \<and> f = (if ol_path l \<noteq> 0 then 1 else 0) \<and> z = [0, 0] \<and> list_all (\<lambda>b. b = 0) r \<and>
     e = ol_enqueued_ms l \<and> x = ol_expires_ms l \<and> p = ol_path l \<and> (k, g) = state_kind (ol_state l) \<and>
     lifetime_wf l"
proof -
  have if_Some: "(if c then Some y else None) = Some l \<longleftrightarrow> c \<and> l = y" for c y by auto
  have rec: "l = \<lparr>ol_enqueued_ms = e, ol_expires_ms = x, ol_path = p, ol_state = y\<rparr> \<longleftrightarrow>
      e = ol_enqueued_ms l \<and> x = ol_expires_ms l \<and> p = ol_path l \<and> ol_state l = y" for y
    by (cases l) auto
  show ?thesis
    unfolding token_check_def if_Some rec lifetime_wf_def interval_ok_def
    using state_of_kind [of k g "ol_state l"] by blast
qed

lemma slices_of_append:
  assumes "t = m @ [f, k] @ z @ e @ x @ p @ g @ r"
    and "length m = 4" "length z = 2" "length e = 8" "length x = 8" "length p = 8" "length g = 8"
  shows "length t = 40 + length r" "take 4 t = m" "t ! 4 = f" "t ! 5 = k" "slice 6 8 t = z" "slice 8 16 t = e"
    "slice 16 24 t = x" "slice 24 32 t = p" "slice 32 40 t = g" "drop 40 t = r"
  using assms by (simp_all add: slice_def nth_append)

lemma to_token_parts:
  "length (to_token l) = TOKEN_BYTES" "take 4 (to_token l) = TOKEN_MAGIC"
  "to_token l ! 4 = (if ol_path l \<noteq> 0 then 1 else 0)" "to_token l ! 5 = fst (state_kind (ol_state l))"
  "slice 6 8 (to_token l) = [0, 0]" "slice 8 16 (to_token l) = to_le_bytes 8 (ol_enqueued_ms l)"
  "slice 16 24 (to_token l) = to_le_bytes 8 (ol_expires_ms l)"
  "slice 24 32 (to_token l) = to_le_bytes 8 (ol_path l)"
  "slice 32 40 (to_token l) = to_le_bytes 8 (snd (state_kind (ol_state l)))"
  "drop 40 (to_token l) = replicate 48 0"
  using slices_of_append [OF token_layout [of l]] by (simp_all add: TOKEN_MAGIC_def TOKEN_BYTES_def)

text \<open>The token form is canonical: a well-formed lifetime survives it, and whatever the decoder
  accepts is the token of the well-formed lifetime it returns.\<close>

interpretation token: canonical_codec lifetime_wf to_token
  "\<lambda>t. if length t = TOKEN_BYTES then from_token t else None"
proof
  fix l assume "lifetime_wf l"
  then have "from_token (to_token l) = Some l"
    unfolding from_token_parts to_token_parts le8_roundtrip token_check_Some by (simp add: list_all_iff)
  then show "(if length (to_token l) = TOKEN_BYTES then from_token (to_token l) else None) = Some l"
    by (simp add: to_token_parts)
next
  fix t l
  assume "(if length t = TOKEN_BYTES then from_token t else None) = Some l"
  then have n: "length t = TOKEN_BYTES" and "from_token t = Some l" by (auto split: if_splits)
  note T = this(2) [unfolded from_token_parts token_check_Some]
  have L: "length (slice 8 16 t) = 8" "length (slice 16 24 t) = 8" "length (slice 24 32 t) = 8"
    "length (slice 32 40 t) = 8" "length (drop 40 t) = 48"
    using n by (simp_all add: TOKEN_BYTES_def)
  have "\<forall>b \<in> set (drop 40 t). b = 0" using T by (simp add: list_all_iff)
  then have "drop 40 t = replicate 48 0"
    using replicate_length_same [of "drop 40 t" 0] L(5) by metis
  moreover have k: "state_kind (ol_state l) = (t ! 5, from_le_bytes (slice 32 40 t))" using T by simp
  moreover have "ol_enqueued_ms l = from_le_bytes (slice 8 16 t)" "ol_expires_ms l = from_le_bytes (slice 16 24 t)"
    "ol_path l = from_le_bytes (slice 24 32 t)" "TOKEN_MAGIC = take 4 t" "[0, 0] = slice 6 8 t"
    "(if ol_path l \<noteq> 0 then 1 else 0) = t ! 4"
    using T by simp_all
  ultimately have "to_token l = take 4 t @ [t ! 4, t ! 5] @ slice 6 8 t @ slice 8 16 t @ slice 16 24 t @
      slice 24 32 t @ slice 32 40 t @ drop 40 t"
    unfolding token_layout by (simp only: fst_conv snd_conv le8_slice L)
  also have "\<dots> = t" using token_fields [OF n] by (rule sym)
  finally have "to_token l = t" .
  then show "lifetime_wf l \<and> to_token l = t" using T by blast
qed

end
