(* ===== verification/Node.thy ===== *)
theory Node
  imports Outbound Hash_Tables Reverse_Table Link_Table Announce_Tables Known_Destinations Link
begin

text \<open>
  The node of \<^verbatim>\<open>src/transport.rs\<close>: its state, construction and reset, its own destinations and
  links, and the outbound queue with its lifetimes (\<^verbatim>\<open>src/transport.rs\<close> and the queue policy of
  \<^verbatim>\<open>src/transport/router.rs\<close>). Packet buffers are represented by their visible bytes. An operation
  on \<^verbatim>\<open>&mut self\<close> returns the new node next to its result, so that what an error path has already
  changed stays visible.
\<close>

section \<open>State\<close>

datatype transport_error = TeInvalidConfig | TeUnknownInterface | TeInterfaceOffline
  | TeInterfaceNotOutbound | TeInterfaceNotInbound | TeMtuExceeded | TeBackpressure
  | TeLinkCapacityUnavailable interface_id nat nat | TeInvalidLinkSignalling
  | TeUnsupportedTransitModeTransform | TeCapacityTooSmall | TeWire wire_error
  | TeBuffer buffer_error | TeAnnounce announce_error | TeIfac ifac_error
  | TeKnownDestination known_destination_error

datatype ingest_action = IaAccepted | IaDuplicate | IaLearnedAnnounce | IaAnnounceIgnored
  | IaScheduledAnnounce | IaAnsweredPathRequest | IaForwardedPathRequest | IaForwardedTransport
  | IaForwardedProof | IaLocalEndpoint | IaLocalPlain | IaWatchedAnnounce bool | IaDropped

record transport_stats =
  st_accepted :: u64
  st_duplicates :: u64
  st_learned_announces :: u64
  st_queued_outbound :: u64
  st_dropped :: u64
  st_validation_failures :: u64
  st_outbound_dropped :: u64
  st_outbound_expired :: u64
  st_announces_rate_dropped :: u64

definition STATS_ZERO :: transport_stats where
  "STATS_ZERO = \<lparr>st_accepted = 0, st_duplicates = 0, st_learned_announces = 0, st_queued_outbound = 0,
     st_dropped = 0, st_validation_failures = 0, st_outbound_dropped = 0, st_outbound_expired = 0,
     st_announces_rate_dropped = 0\<rparr>"

text \<open>The const generic capacities.\<close>

record node_caps =
  nc_paths :: nat
  nc_hashes :: nat
  nc_announces :: nat
  nc_reverse :: nat
  nc_links :: nat
  nc_tags :: nat
  nc_outbound :: nat
  nc_known_destinations :: nat
  nc_scheduled :: nat

record lite_node =
  nd_config :: lite_config
  nd_clock_ms :: u64
  nd_transport_id :: hash16
  nd_local :: "local_slot list"
  nd_announce_admission :: announce_admission
  nd_known_destinations :: known_destinations
  nd_packet_hashes :: packet_hash_table
  nd_paths :: path_table
  nd_announce_cache :: announce_cache
  nd_announce_schedule :: announce_schedule
  nd_reverse :: reverse_table
  nd_links :: link_table
  nd_request_tags :: request_tag_table
  nd_outbound :: "queued_outbound queue"
  nd_last_delivery_identity :: u64
  nd_retained_owner_mode :: bool
  nd_discoveries :: discoveries
  nd_interfaces :: model
  nd_stats :: transport_stats

text \<open>\<^verbatim>\<open>self.stats.x = self.stats.x.saturating_add(1)\<close> for the counter with update function \<open>u\<close>, and
  the same for a counter that only routers keep.\<close>

definition count :: "((u64 \<Rightarrow> u64) \<Rightarrow> transport_stats \<Rightarrow> transport_stats) \<Rightarrow> lite_node \<Rightarrow> lite_node" where
  "count u n = n\<lparr>nd_stats := u (\<lambda>c. sat_add c 1) (nd_stats n)\<rparr>"

definition rcount :: "((u64 \<Rightarrow> u64) \<Rightarrow> router_stats \<Rightarrow> router_stats) \<Rightarrow> lite_node \<Rightarrow> lite_node" where
  "rcount u n =
     n\<lparr>nd_interfaces := router_mut (\<lambda>r. r\<lparr>rt_stats := u (\<lambda>c. sat_add c 1) (rt_stats r)\<rparr>) (nd_interfaces n)\<rparr>"

section \<open>Construction and reset\<close>

definition validate_config :: "node_caps \<Rightarrow> lite_config \<Rightarrow> transport_error + unit" where
  "validate_config caps config =
     (case lite_config_validate config of
        Inl _ \<Rightarrow> Inl TeInvalidConfig
      | Inr _ \<Rightarrow>
          let tc = lc_table_caps config in
          if tc_path_entries tc > nc_paths caps \<or> tc_packet_hashes tc > nc_hashes caps
             \<or> tc_announce_entries tc > nc_announces caps \<or> tc_reverse_entries tc > nc_reverse caps
             \<or> tc_link_entries tc > nc_links caps \<or> tc_path_request_tags tc > nc_tags caps
             \<or> tc_queued_announces_per_interface tc > nc_outbound caps
             \<or> tc_tx_queue_depth tc > nc_outbound caps
          then Inl TeCapacityTooSmall else Inr ())"

text \<open>\<open>m\<close> is the model's \<^verbatim>\<open>EMPTY\<close>.\<close>

definition node_new_const :: "node_caps \<Rightarrow> model \<Rightarrow> lite_config \<Rightarrow> hash16 \<Rightarrow> lite_node" where
  "node_new_const caps m config transport_id =
     \<lparr>nd_config = config, nd_clock_ms = 0, nd_transport_id = transport_id, nd_local = local_empty m,
      nd_announce_admission = admission_new, nd_known_destinations = kd_new (nc_known_destinations caps),
      nd_packet_hashes = pht_new (nc_hashes caps), nd_paths = path_new (nc_paths caps),
      nd_announce_cache = ac_new (nc_announces caps), nd_announce_schedule = as_new (nc_scheduled caps),
      nd_reverse = rev_new (nc_reverse caps), nd_links = lt_new (nc_links caps),
      nd_request_tags = rtt_new (nc_tags caps), nd_outbound = q_new (nc_outbound caps),
      nd_last_delivery_identity = 0, nd_retained_owner_mode = False,
      nd_discoveries = dc_new (nc_links caps), nd_interfaces = m, nd_stats = STATS_ZERO\<rparr>"

definition node_new :: "node_caps \<Rightarrow> model \<Rightarrow> lite_config \<Rightarrow> hash16 \<Rightarrow> transport_error + lite_node" where
  "node_new caps m config transport_id =
     (case validate_config caps config of
        Inl e \<Rightarrow> Inl e
      | Inr _ \<Rightarrow> Inr (node_new_const caps m config transport_id))"

definition clear_local :: "lite_node \<Rightarrow> lite_node" where
  "clear_local n = n\<lparr>nd_local := replicate (length (nd_local n)) SlotEmpty\<rparr>"

text \<open>The part of \<^verbatim>\<open>reset_in_place\<close> that a router adds: a fresh registration epoch for every slot.\<close>

definition reset_router :: "router \<Rightarrow> transport_error + router" where
  "reset_router r =
     (case checked_add (rt_last_generation r) 1 of
        None \<Rightarrow> Inl TeInvalidConfig
      | Some generation \<Rightarrow>
          Inr (r\<lparr>rt_last_generation := generation,
                 rt_generations := replicate (length (rt_generations r)) generation,
                 rt_announce_gates := replicate (length (rt_announce_gates r)) GATE_OPEN,
                 rt_stats := ROUTER_STATS_ZERO, rt_plain_sink := None,
                 rt_watched := replicate WATCHED_DESTINATIONS_MAX (replicate 16 0), rt_watched_len := 0\<rparr>))"

definition reset_tables :: "lite_node \<Rightarrow> lite_config \<Rightarrow> hash16 \<Rightarrow> model \<Rightarrow> lite_node" where
  "reset_tables n config transport_id m =
     (clear_local n)
       \<lparr>nd_config := config, nd_transport_id := transport_id, nd_interfaces := m,
        nd_announce_admission := admission_new, nd_packet_hashes := pht_clear (nd_packet_hashes n),
        nd_paths := path_clear (nd_paths n), nd_announce_cache := ac_clear (nd_announce_cache n),
        nd_announce_schedule := as_clear (nd_announce_schedule n), nd_reverse := rev_clear (nd_reverse n),
        nd_links := lt_clear (nd_links n), nd_request_tags := rtt_clear (nd_request_tags n),
        nd_outbound := q_clear (nd_outbound n), nd_discoveries := dc_clear (nd_discoveries n),
        nd_stats := STATS_ZERO\<rparr>"

definition reset_in_place ::
  "node_caps \<Rightarrow> lite_node \<Rightarrow> lite_config \<Rightarrow> hash16 \<Rightarrow> (transport_error + unit) \<times> lite_node" where
  "reset_in_place caps n config transport_id =
     (case validate_config caps config of
        Inl e \<Rightarrow> (Inl e, n)
      | Inr _ \<Rightarrow>
          (case as_router (nd_interfaces n) of
             None \<Rightarrow> (Inr (), reset_tables n config transport_id (nd_interfaces n))
           | Some r \<Rightarrow>
               (case reset_router r of
                  Inl e \<Rightarrow> (Inl e, n)
                | Inr r' \<Rightarrow> (Inr (), reset_tables n config transport_id (RouterModel r')))))"

section \<open>Own destinations and links\<close>

definition accepts_transport_address :: "lite_node \<Rightarrow> packet_header \<Rightarrow> bool" where
  "accepts_transport_address n h \<longleftrightarrow>
     pf_packet_type (ph_flags h) = PtAnnounce \<or> ph_transport_id h = None \<or>
     ph_transport_id h = Some (nd_transport_id n)"

definition register_local_slot :: "lite_node \<Rightarrow> local_slot \<Rightarrow> bool \<times> lite_node" where
  "register_local_slot n v =
     (if v \<in> set (nd_local n) then (True, n)
      else case position (\<lambda>s. s = SlotEmpty) (nd_local n) of
             Some i \<Rightarrow> (True, n\<lparr>nd_local := (nd_local n)[i := v]\<rparr>)
           | None \<Rightarrow> (False, n))"

definition register_local_destination :: "lite_node \<Rightarrow> hash16 \<Rightarrow> bool \<times> lite_node" where
  "register_local_destination n d = register_local_slot n (SlotDestination d)"

fun is_link_slot :: "local_slot \<Rightarrow> bool" where
  "is_link_slot (SlotLink _) = True"
| "is_link_slot _ = False"

definition local_link_count :: "lite_node \<Rightarrow> nat" where
  "local_link_count n = length (filter is_link_slot (nd_local n))"

definition register_local_link :: "lite_node \<Rightarrow> hash16 \<Rightarrow> bool \<times> lite_node" where
  "register_local_link n link_id =
     (if SlotLink link_id \<notin> set (nd_local n) \<and> local_link_count n \<ge> local_links_max (nd_interfaces n)
      then (False, n)
      else register_local_slot n (SlotLink link_id))"

definition unregister_local_destination :: "lite_node \<Rightarrow> hash16 \<Rightarrow> lite_node" where
  "unregister_local_destination n d =
     n\<lparr>nd_local := map (\<lambda>s. if s = SlotDestination d then SlotEmpty else s) (nd_local n)\<rparr>"

definition unregister_local_link :: "lite_node \<Rightarrow> hash16 \<Rightarrow> lite_node" where
  "unregister_local_link n l =
     n\<lparr>nd_local := map (\<lambda>s. if s = SlotLink l then SlotEmpty else s) (nd_local n)\<rparr>"

definition is_own_destination :: "lite_node \<Rightarrow> hash16 \<Rightarrow> bool" where
  "is_own_destination n d \<longleftrightarrow> SlotDestination d \<in> set (nd_local n)"

definition own_destinations :: "lite_node \<Rightarrow> hash16 list" where
  "own_destinations n =
     List.map_filter (\<lambda>s. case s of SlotDestination d \<Rightarrow> Some d | _ \<Rightarrow> None) (nd_local n)"

definition clear_own_destinations :: "lite_node \<Rightarrow> lite_node" where
  "clear_own_destinations n =
     n\<lparr>nd_local := map (\<lambda>s. case s of SlotDestination _ \<Rightarrow> SlotEmpty | _ \<Rightarrow> s) (nd_local n)\<rparr>"

section \<open>Queries and small updates\<close>

definition node_cached_announce :: "lite_node \<Rightarrow> hash16 \<Rightarrow> u64 \<Rightarrow> bytes option" where
  "node_cached_announce n d now_ms =
     (case path_get_live (nd_paths n) d now_ms of
        None \<Rightarrow> None
      | Some _ \<Rightarrow> map_option ca_raw (ac_get (nd_announce_cache n) d now_ms))"

definition set_announce_budget :: "lite_node \<Rightarrow> u16 \<Rightarrow> u16 \<Rightarrow> lite_node" where
  "set_announce_budget n steady_per_sec grace_per_sec =
     (let adm = lc_announce_admission (nd_config n) in
      if ac_steady_per_sec adm = steady_per_sec \<and> ac_grace_per_sec adm = grace_per_sec then n
      else n\<lparr>nd_config := (nd_config n)\<lparr>lc_announce_admission :=
               adm\<lparr>ac_steady_per_sec := steady_per_sec, ac_grace_per_sec := grace_per_sec\<rparr>\<rparr>,
             nd_announce_admission := admission_new\<rparr>)"

definition known_destination_recall :: "lite_node \<Rightarrow> hash16 \<Rightarrow> bytes option \<times> lite_node" where
  "known_destination_recall n d =
     (case kd_recall (nd_known_destinations n) d of (r, k) \<Rightarrow> (r, n\<lparr>nd_known_destinations := k\<rparr>))"

definition known_destination_learn ::
  "crypto \<Rightarrow> lite_node \<Rightarrow> hash16 \<Rightarrow> bytes \<Rightarrow> u64 \<Rightarrow> (known_destination_error + bool) \<times> lite_node" where
  "known_destination_learn C n d public_key now =
     (case kd_learn C (nd_known_destinations n) d public_key now of
        (r, k) \<Rightarrow> (r, n\<lparr>nd_known_destinations := k\<rparr>))"

definition known_destinations_import ::
  "crypto \<Rightarrow> lite_node \<Rightarrow> bytes \<Rightarrow> u64 \<Rightarrow> (known_destination_error + unit) \<times> lite_node" where
  "known_destinations_import C n blob now =
     (case kd_import C (nd_known_destinations n) blob now of
        (r, k) \<Rightarrow> (r, n\<lparr>nd_known_destinations := k\<rparr>))"

definition has_path :: "lite_node \<Rightarrow> hash16 \<Rightarrow> u64 \<Rightarrow> bool" where
  "has_path n d now_ms \<longleftrightarrow> path_get_live (nd_paths n) d now_ms \<noteq> None"

definition node_path_count :: "lite_node \<Rightarrow> u64 \<Rightarrow> nat" where
  "node_path_count n now_ms = path_live_count (nd_paths n) now_ms"

definition node_drop_path :: "lite_node \<Rightarrow> hash16 \<Rightarrow> bool \<times> lite_node" where
  "node_drop_path n d = (case path_drop (nd_paths n) d of (r, p) \<Rightarrow> (r, n\<lparr>nd_paths := p\<rparr>))"

section \<open>Interfaces\<close>

definition interface_slot :: "lite_node \<Rightarrow> interface_id \<Rightarrow> nat option" where
  "interface_slot n i = m_slot (nd_interfaces n) i"

definition default_clear_mtu :: "lite_node \<Rightarrow> nat" where
  "default_clear_mtu n =
     (let tag = (case lc_ifac (nd_config n) of None \<Rightarrow> 0 | Some i \<Rightarrow> unat (ifc_size i))
      in min MTU (LORA_SPLIT_FRAME_PAYLOAD_MAX - tag))"

definition observe_interface :: "lite_node \<Rightarrow> rx_meta \<Rightarrow> lite_node" where
  "observe_interface n meta =
     n\<lparr>nd_interfaces := m_observe (nd_interfaces n) meta (nd_config n) (default_clear_mtu n)\<rparr>"

definition interface_clear_mtu :: "lite_node \<Rightarrow> interface_id \<Rightarrow> nat" where
  "interface_clear_mtu n i =
     (case interface_slot n i of
        None \<Rightarrow> default_clear_mtu n
      | Some slot \<Rightarrow> unat (fa_clear_mtu (m_facts (nd_interfaces n) slot)))"

definition require_link_capacity :: "lite_node \<Rightarrow> interface_id \<Rightarrow> transport_error + unit" where
  "require_link_capacity n i =
     (if is_router (nd_interfaces n) \<and> interface_slot n i = None then Inl TeUnknownInterface
      else let clear = interface_clear_mtu n i in
        if clear < 500 then Inl (TeLinkCapacityUnavailable i clear 500) else Inr ())"

definition interface_bitrate :: "lite_node \<Rightarrow> interface_id \<Rightarrow> u32" where
  "interface_bitrate n i =
     (case interface_slot n i of
        None \<Rightarrow> 0
      | Some s \<Rightarrow> (let f = m_facts (nd_interfaces n) s in if fa_outbound f then fa_bitrate_bps f else 0))"

definition slowest_outbound_bitrate :: "lite_node \<Rightarrow> interface_id \<Rightarrow> u64" where
  "slowest_outbound_bitrate n requester =
     (let fs = filter (\<lambda>f. (fa_id f \<noteq> requester \<or>
                  is_some_and (Option.bind (as_router (nd_interfaces n)) (\<lambda>r. rt_interface r (fa_id f)))
                    (\<lambda>i. dir_repeat (ic_direction i))) \<and> fa_outbound f \<and> fa_bitrate_bps f > 0)
                (map (m_facts (nd_interfaces n)) [0..<REQUESTERS])
      in case map (\<lambda>f. ucast (fa_bitrate_bps f)) fs of [] \<Rightarrow> 0 | b # bs \<Rightarrow> foldl min b bs)"

definition outbound_interface_online :: "lite_node \<Rightarrow> interface_id \<Rightarrow> bool" where
  "outbound_interface_online n i = m_online (nd_interfaces n) i"

definition is_local_client_interface :: "lite_node \<Rightarrow> interface_id \<Rightarrow> bool" where
  "is_local_client_interface n i =
     is_some_and (m_slot (nd_interfaces n) i) (\<lambda>slot. fa_flags (m_facts (nd_interfaces n) slot) AND 8 \<noteq> 0)"

end
