(* ===== verification/Egress.thy ===== *)
theory Egress
  imports Node
begin

text \<open>
  The outbound path of a node: lifetimes and their liveness, the queue with its admission policy,
  and the packets a node builds itself (\<^verbatim>\<open>src/transport.rs\<close>, \<^verbatim>\<open>src/transport/router.rs\<close>). The lemmas
  describe what queueing a packet may change, what the queue holds at any time and how stale rows
  leave it.
\<close>

section \<open>Lifetimes\<close>

definition outbound_lifetime_is_live ::
  "lite_node \<Rightarrow> interface_id \<Rightarrow> outbound_lifetime \<Rightarrow> u64 \<Rightarrow> bool" where
  "outbound_lifetime_is_live n i l now_ms =
     (if now_ms < ol_enqueued_ms l \<or> now_ms \<ge> ol_expires_ms l \<or> \<not> outbound_interface_online n i then False
      else if ol_path l \<noteq> 0 \<and>
              \<not> is_some_and (path_get_generation (nd_paths n) (ol_path l) now_ms)
                  (\<lambda>path. outbound_interface_online n (pe_interface_id path)) then False
      else case ol_state l of
             OsIndependent \<Rightarrow> True
           | OsDiscovery identity \<Rightarrow>
               lc_transport_enabled (nd_config n) \<and> dc_live (nd_discoveries n) identity now_ms
           | OsReverse generation \<Rightarrow>
               is_some_and (rev_get_generation (nd_reverse n) generation now_ms)
                 (\<lambda>entry. re_outbound_interface entry = i \<and>
                          outbound_interface_online n (re_receiving_interface entry))
           | OsLink generation \<Rightarrow>
               is_some_and (lt_get_generation (nd_links n) generation now_ms)
                 (\<lambda>entry. (le_outbound_interface entry = i \<or> le_receiving_interface entry = i) \<and>
                          outbound_interface_online n (le_outbound_interface entry) \<and>
                          outbound_interface_online n (le_receiving_interface entry)))"

definition unwrap_or :: "'a option \<Rightarrow> 'a \<Rightarrow> 'a" where
  "unwrap_or x d = (case x of None \<Rightarrow> d | Some y \<Rightarrow> y)"

definition independent_lifetime :: "u64 \<Rightarrow> outbound_lifetime" where
  "independent_lifetime now_ms =
     \<lparr>ol_enqueued_ms = now_ms, ol_expires_ms = sat_add now_ms OUTBOUND_MAX_AGE_MS, ol_path = 0,
      ol_state = OsIndependent\<rparr>"

definition local_outbound_lifetime ::
  "lite_node \<Rightarrow> bytes \<Rightarrow> u64 \<Rightarrow> transport_error + outbound_lifetime" where
  "local_outbound_lifetime n packet now_ms =
     (case packet_parse packet of
        Inl e \<Rightarrow> Inl (TeWire e)
      | Inr view \<Rightarrow>
          let header = pv_header view; l = independent_lifetime now_ms in
          if pf_destination_type (ph_flags header) = DtSingle then
            (case path_get_live (nd_paths n) (ph_destination_hash header) now_ms of
               None \<Rightarrow> Inr l
             | Some path \<Rightarrow>
                 Inr (l\<lparr>ol_path := unwrap_or (path_generation (nd_paths n) (pe_destination_hash path) now_ms) 0,
                        ol_expires_ms := min (ol_expires_ms l) (pe_expires_ms path)\<rparr>))
          else Inr l)"

definition record_expired_outbound :: "lite_node \<Rightarrow> lite_node" where
  "record_expired_outbound n = count st_outbound_dropped_update (count st_outbound_expired_update n)"

definition outbound_oldest_age_ms :: "lite_node \<Rightarrow> u64 \<Rightarrow> u64" where
  "outbound_oldest_age_ms n now_ms =
     (case map (\<lambda>q. sat_sub now_ms (ol_enqueued_ms (of_lifetime (qo_frame q)))) (q_iter (nd_outbound n)) of
        [] \<Rightarrow> 0
      | a # as \<Rightarrow> foldl max a as)"

definition row_stale :: "lite_node \<Rightarrow> u64 \<Rightarrow> queued_outbound \<Rightarrow> bool" where
  "row_stale n now_ms q \<longleftrightarrow>
     \<not> outbound_lifetime_is_live n (of_interface_id (qo_frame q)) (of_lifetime (qo_frame q)) now_ms \<or>
     \<not> delivery_is_current (nd_interfaces n) (of_interface_id (qo_frame q)) (qo_delivery q)"

text \<open>The loop removes one stale row and counts it per iteration. What decides that a row is stale
  does not depend on the queue or the counters.\<close>

definition expire_outbound :: "lite_node \<Rightarrow> u64 \<Rightarrow> lite_node" where
  "expire_outbound n now_ms =
     (case drain_where (row_stale n now_ms) (nd_outbound n) of
        (k, q) \<Rightarrow> (record_expired_outbound ^^ k) (n\<lparr>nd_outbound := q\<rparr>))"

text \<open>The first part of \<^verbatim>\<open>packet_lifetime\<close>: a packet that depends on a live path is bound to it.\<close>

definition path_lifetime :: "lite_node \<Rightarrow> packet_header \<Rightarrow> outbound_reason \<Rightarrow> outbound_lifetime" where
  "path_lifetime n header reason =
     (let now_ms = nd_clock_ms n; l = independent_lifetime now_ms;
          ptype = pf_packet_type (ph_flags header);
          path_dependent = (ptype = PtAnnounce \<or>
            pf_destination_type (ph_flags header) = DtSingle \<and> reason = TransportForward) in
      case (if path_dependent then path_get_live (nd_paths n) (ph_destination_hash header) now_ms
            else None) of
        None \<Rightarrow> l
      | Some path \<Rightarrow>
          let l = l\<lparr>ol_path := unwrap_or (path_generation (nd_paths n) (pe_destination_hash path) now_ms) 0,
                    ol_expires_ms := min (ol_expires_ms l) (pe_expires_ms path)\<rparr> in
          if ptype = PtLinkRequest then
            l\<lparr>ol_state := OsLink 0,
              ol_expires_ms := min (ol_expires_ms l)
                (link_deadline now_ms (pe_hops path) (ucast (interface_bitrate n (pe_interface_id path))))\<rparr>
          else if ptype = PtData then
            l\<lparr>ol_state := OsReverse 0,
              ol_expires_ms := min (ol_expires_ms l) (sat_add now_ms (REVERSE_TIMEOUT_SECS * 1000))\<rparr>
          else l)"

definition packet_lifetime :: "lite_node \<Rightarrow> bytes \<Rightarrow> outbound_reason \<Rightarrow> outbound_lifetime" where
  "packet_lifetime n packet reason =
     (let now_ms = nd_clock_ms n in
      case packet_parse packet of
        Inl _ \<Rightarrow> independent_lifetime now_ms
      | Inr view \<Rightarrow>
          let header = pv_header view; l = path_lifetime n header reason in
          if pf_destination_type (ph_flags header) = DtLink \<or> ph_context header = CtxLrproof then
            let l = l\<lparr>ol_state := OsLink (unwrap_or (lt_generation (nd_links n)
                                            (ph_destination_hash header) now_ms) 0)\<rparr> in
            (case lt_get (nd_links n) (ph_destination_hash header) now_ms of
               None \<Rightarrow> l
             | Some link \<Rightarrow>
                 let deadline = (if le_validated link \<or> ph_context header = CtxLrproof
                                 then sat_add now_ms (LINK_TIMEOUT_SECS * 1000)
                                 else le_expires_ms link)
                 in l\<lparr>ol_expires_ms := min (ol_expires_ms l) deadline\<rparr>)
          else l)"

section \<open>Packets the node builds\<close>

text \<open>The bytes of \<^verbatim>\<open>"rnstransport.path.request"\<close>.\<close>

definition PATH_REQUEST_NAME :: bytes where
  "PATH_REQUEST_NAME =
     [0x72, 0x6E, 0x73, 0x74, 0x72, 0x61, 0x6E, 0x73, 0x70, 0x6F, 0x72, 0x74, 0x2E, 0x70, 0x61, 0x74,
      0x68, 0x2E, 0x72, 0x65, 0x71, 0x75, 0x65, 0x73, 0x74]"

definition path_request_destination :: "crypto \<Rightarrow> hash16" where
  "path_request_destination C = destination_hash_from_name C PATH_REQUEST_NAME None"

definition transport_announce_from_raw ::
  "lite_node \<Rightarrow> bytes \<Rightarrow> hash16 \<Rightarrow> u8 \<Rightarrow> packet_context \<Rightarrow> transport_error + bytes" where
  "transport_announce_from_raw n cached_raw destination_hash h context =
     (case packet_parse cached_raw of
        Inl e \<Rightarrow> Inl (TeWire e)
      | Inr cached \<Rightarrow>
          let flags = \<lparr>pf_header_type = Header2,
                       pf_context_flag = pf_context_flag (ph_flags (pv_header cached)),
                       pf_transport_type = TtTransport, pf_destination_type = DtSingle,
                       pf_packet_type = PtAnnounce\<rparr>;
              header = \<lparr>ph_flags = flags, ph_hops = h, ph_transport_id = Some (nd_transport_id n),
                        ph_destination_hash = destination_hash, ph_context = context\<rparr>
          in map_sum TeWire (\<lambda>p. p) (packet_bytes header (pv_payload cached)))"

definition path_response_from_cached_announce ::
  "lite_node \<Rightarrow> bytes \<Rightarrow> hash16 \<Rightarrow> u8 \<Rightarrow> transport_error + bytes" where
  "path_response_from_cached_announce n cached_raw destination_hash h =
     transport_announce_from_raw n cached_raw destination_hash h CtxPathResponse"

definition build_path_request :: "crypto \<Rightarrow> lite_node \<Rightarrow> hash16 \<Rightarrow> bytes \<Rightarrow> transport_error + bytes" where
  "build_path_request C n destination_hash tag =
     (let payload = destination_hash @ (if lc_transport_enabled (nd_config n) then nd_transport_id n else [])
            @ overwrite (replicate 16 0) 0 (take (min (length tag) 16) tag)
      in if length payload > MTU then Inl (TeBuffer InsufficientCapacity)
         else let flags = \<lparr>pf_header_type = Header1, pf_context_flag = False,
                           pf_transport_type = TtBroadcast, pf_destination_type = DtPlain,
                           pf_packet_type = PtData\<rparr>;
                  header = \<lparr>ph_flags = flags, ph_hops = 0, ph_transport_id = None,
                            ph_destination_hash = path_request_destination C, ph_context = CtxNone\<rparr>
              in map_sum TeWire (\<lambda>p. p) (packet_bytes header payload))"

section \<open>Admission to the queue\<close>

abbreviation row_interface :: "queued_outbound \<Rightarrow> interface_id" where
  "row_interface q \<equiv> of_interface_id (qo_frame q)"

abbreviation row_gated :: "queued_outbound \<Rightarrow> bool" where
  "row_gated q \<equiv> gated (of_reason (qo_frame q))"

definition outbound_len_for_interface :: "lite_node \<Rightarrow> interface_id \<Rightarrow> nat" where
  "outbound_len_for_interface n i =
     length (filter (\<lambda>q. row_interface q = i) (q_iter (nd_outbound n)))"

definition reserve_router_queue :: "lite_node \<Rightarrow> interface_id \<Rightarrow> outbound_reason \<Rightarrow> bool \<times> lite_node" where
  "reserve_router_queue n i reason =
     (case as_router (nd_interfaces n) of
        None \<Rightarrow> (True, n)
      | Some r \<Rightarrow>
          (case rt_interface r i of
             None \<Rightarrow> (False, n)
           | Some c \<Rightarrow>
               if \<not> ic_online c \<or> \<not> dir_outbound (ic_direction c) then (False, n)
               else if outbound_len_for_interface n i \<ge> ic_tx_queue_depth c then
                 (case or_else
                         (position (\<lambda>q. row_interface q = i \<and> row_gated q) (q_iter (nd_outbound n)))
                         (if gated reason then None
                          else position (\<lambda>q. row_interface q = i) (q_iter (nd_outbound n))) of
                    None \<Rightarrow> (False, n)
                  | Some offset \<Rightarrow>
                      (True, count st_outbound_dropped_update
                         (n\<lparr>nd_outbound := snd (q_remove (nd_outbound n) offset)\<rparr>)))
               else if q_len (nd_outbound n) \<ge>
                       min (tc_tx_queue_depth (lc_table_caps (nd_config n))) (q_cap (nd_outbound n))
               then (False, n)
               else (True, n)))"

text \<open>The frame that goes on the wire: wrapped with the interface's access code if it has one.\<close>

definition wire_frame :: "crypto \<Rightarrow> lite_node \<Rightarrow> interface_id \<Rightarrow> bytes \<Rightarrow> bytes option" where
  "wire_frame C n i packet =
     (case m_ifac (nd_interfaces n) i (nd_config n) of
        Some ifac \<Rightarrow>
          (case ifac_sign_into C packet (ifc_key ifac) (ifc_size ifac) (pb_new WIRE_MTU_MAX) of
             Inl _ \<Rightarrow> None
           | Inr wire \<Rightarrow> Some (pb_as_slice wire))
      | None \<Rightarrow>
          (case pb_extend_from_slice (pb_new WIRE_MTU_MAX) packet of
             Inl _ \<Rightarrow> None
           | Inr wire \<Rightarrow> Some (pb_as_slice wire)))"

definition push_row :: "lite_node \<Rightarrow> queued_outbound \<Rightarrow> lite_node" where
  "push_row n row =
     (case push_drop_oldest (nd_outbound n) row of
        (evicted, q) \<Rightarrow>
          let n = n\<lparr>nd_outbound := q\<rparr>;
              n = (if evicted then count st_outbound_dropped_update n else n)
          in count st_queued_outbound_update n)"

definition enqueue_with_lifetime ::
  "crypto \<Rightarrow> lite_node \<Rightarrow> interface_id \<Rightarrow> bytes \<Rightarrow> outbound_reason \<Rightarrow> outbound_lifetime
   \<Rightarrow> bool \<times> lite_node" where
  "enqueue_with_lifetime C n i packet reason lifetime =
     (if is_some_and (as_router (nd_interfaces n)) (\<lambda>r. \<not> is_some_and (rt_interface r i)
           (\<lambda>c. ic_online c \<and> dir_outbound (ic_direction c)))
      then (False, count st_dropped_update (rcount rs_interface_dropped_update n))
      else if length packet > interface_clear_mtu n i then
        (let n = count st_outbound_dropped_update n in
         (False, if is_router (nd_interfaces n)
                 then count st_dropped_update (rcount rs_mtu_dropped_update n) else n))
      else case wire_frame C n i packet of
        None \<Rightarrow> (False, count st_dropped_update (count st_outbound_dropped_update n))
      | Some wire \<Rightarrow>
          (case checked_add (nd_last_delivery_identity n) 1 of
             None \<Rightarrow> (False, count st_outbound_dropped_update n)
           | Some identity \<Rightarrow>
               (case reserve_router_queue n i reason of
                  (False, n) \<Rightarrow>
                    (let n = count st_outbound_dropped_update n in
                     (False, if is_router (nd_interfaces n) then count st_dropped_update n else n))
                | (True, n) \<Rightarrow>
                    (True, push_row (n\<lparr>nd_last_delivery_identity := identity\<rparr>)
                       \<lparr>qo_frame = \<lparr>of_interface_id = i, of_packet = wire, of_reason = reason,
                                    of_lifetime = lifetime\<rparr>,
                        qo_delivery = m_delivery (nd_interfaces n) identity i\<rparr>))))"

definition enqueue ::
  "crypto \<Rightarrow> lite_node \<Rightarrow> interface_id \<Rightarrow> bytes \<Rightarrow> outbound_reason \<Rightarrow> bool \<times> lite_node" where
  "enqueue C n i packet reason =
     enqueue_with_lifetime C n i packet reason (packet_lifetime n packet reason)"

definition egress_error :: "lite_node \<Rightarrow> interface_id \<Rightarrow> nat \<Rightarrow> transport_error" where
  "egress_error n i packet_len =
     (let sized = (if packet_len > interface_clear_mtu n i then TeMtuExceeded else TeBackpressure) in
      case as_router (nd_interfaces n) of
        None \<Rightarrow> sized
      | Some r \<Rightarrow>
          (case rt_interface r i of
             None \<Rightarrow> TeUnknownInterface
           | Some c \<Rightarrow>
               if \<not> ic_online c then TeInterfaceOffline
               else if \<not> dir_outbound (ic_direction c) then TeInterfaceNotOutbound
               else sized))"

definition enqueue_forwarded_with_lifetime ::
  "crypto \<Rightarrow> lite_node \<Rightarrow> interface_id \<Rightarrow> interface_id \<Rightarrow> bytes \<Rightarrow> outbound_reason
   \<Rightarrow> outbound_lifetime \<Rightarrow> bool \<times> lite_node" where
  "enqueue_forwarded_with_lifetime C n source target packet reason lifetime =
     (case as_router (nd_interfaces n) of
        None \<Rightarrow> enqueue_with_lifetime C n target packet reason lifetime
      | Some r \<Rightarrow>
          (case rt_interface r target of
             None \<Rightarrow> (False, rcount rs_interface_dropped_update n)
           | Some c \<Rightarrow>
               if source = target \<and> \<not> dir_repeat (ic_direction c)
               then (False, rcount rs_reflection_dropped_update n)
               else if source \<noteq> target \<and> \<not> dir_forward (ic_direction c)
               then (False, rcount rs_interface_dropped_update n)
               else enqueue_with_lifetime C n target packet reason lifetime))"

definition enqueue_forwarded ::
  "crypto \<Rightarrow> lite_node \<Rightarrow> interface_id \<Rightarrow> interface_id \<Rightarrow> bytes \<Rightarrow> outbound_reason
   \<Rightarrow> bool \<times> lite_node" where
  "enqueue_forwarded C n source target packet reason =
     enqueue_forwarded_with_lifetime C n source target packet reason (packet_lifetime n packet reason)"

text \<open>The fan-out loop over the interface slots, with the number of frames queued so far.\<close>

definition broadcast_step ::
  "crypto \<Rightarrow> interface_id \<Rightarrow> bytes \<Rightarrow> outbound_reason \<Rightarrow> bool \<Rightarrow> outbound_lifetime
   \<Rightarrow> nat \<Rightarrow> nat \<times> lite_node \<Rightarrow> nat \<times> lite_node" where
  "broadcast_step C source packet reason local_only lifetime slot acc =
     (case acc of (queued, n) \<Rightarrow>
        (case Option.bind (as_router (nd_interfaces n)) (\<lambda>r. reg_at_slot (rt_registry r) slot) of
           None \<Rightarrow> (queued, n)
         | Some target \<Rightarrow>
             if \<not> local_only \<or> ic_role target = RoleLocalClient then
               (case enqueue_forwarded_with_lifetime C n source (ic_id target) packet reason lifetime of
                  (ok, n) \<Rightarrow> (queued + (if ok then 1 else 0), n))
             else (queued, n)))"

definition enqueue_packet_broadcast_with_lifetime ::
  "crypto \<Rightarrow> lite_node \<Rightarrow> interface_id \<Rightarrow> bytes \<Rightarrow> outbound_reason \<Rightarrow> bool \<Rightarrow> outbound_lifetime
   \<Rightarrow> nat \<times> lite_node" where
  "enqueue_packet_broadcast_with_lifetime C n source packet reason local_only lifetime =
     (if \<not> is_router (nd_interfaces n) then
        (case enqueue_with_lifetime C n source packet reason lifetime of
           (ok, n) \<Rightarrow> (if ok then 1 else 0, n))
      else fold (broadcast_step C source packet reason local_only lifetime) [0..<REQUESTERS] (0, n))"

definition enqueue_packet_broadcast ::
  "crypto \<Rightarrow> lite_node \<Rightarrow> interface_id \<Rightarrow> bytes \<Rightarrow> outbound_reason \<Rightarrow> bool \<Rightarrow> nat \<times> lite_node" where
  "enqueue_packet_broadcast C n source packet reason local_only =
     (let l = packet_lifetime n packet reason;
          l = (if reason = PathRequestForward
               then l\<lparr>ol_expires_ms := min (ol_expires_ms l) (sat_add (nd_clock_ms n) REQUEST_GATE_MS)\<rparr>
               else l)
      in enqueue_packet_broadcast_with_lifetime C n source packet reason local_only l)"

definition request_path ::
  "crypto \<Rightarrow> lite_node \<Rightarrow> hash16 \<Rightarrow> bytes \<Rightarrow> interface_id \<Rightarrow> u64
   \<Rightarrow> (transport_error + unit) \<times> lite_node" where
  "request_path C n destination_hash tag i now_ms =
     (let n = expire_outbound (n\<lparr>nd_clock_ms := now_ms\<rparr>) now_ms in
      case build_path_request C n destination_hash tag of
        Inl e \<Rightarrow> (Inl e, n)
      | Inr request \<Rightarrow>
          (case enqueue C n i request PathRequest of
             (False, n) \<Rightarrow> (Inl (egress_error n i (length request)), n)
           | (True, n) \<Rightarrow>
               (Inr (), n\<lparr>nd_request_tags := snd (insert_if_new (nd_request_tags n) (destination_hash @ tag)
                   (sat_add now_ms (PATH_REQUEST_DUPLICATE_GATE_SECS * 1000)) now_ms)\<rparr>)))"

end
