(* ===== verification/Handlers.thy ===== *)
theory Handlers
  imports Egress
begin

text \<open>
  The packet handlers of \<^verbatim>\<open>src/transport.rs\<close>: announces, path requests, forwarding, link requests,
  proofs and link traffic. Every handler returns its result next to the node it leaves behind.
\<close>

definition mode_discovers_unknown_paths :: "interface_mode \<Rightarrow> bool" where
  "mode_discovers_unknown_paths mode \<longleftrightarrow>
     mode \<in> {ModeAccessPoint, ModeGateway, ModeRoaming, ModeInternal}"

fun announce_path_expiry_secs :: "interface_mode \<Rightarrow> u64" where
  "announce_path_expiry_secs ModeAccessPoint = AP_PATH_TIME_SECS"
| "announce_path_expiry_secs ModeRoaming = ROAMING_PATH_TIME_SECS"
| "announce_path_expiry_secs _ = PATHFINDER_E_SECS"

definition DEFAULT_ANNOUNCE_JITTER_MS :: u64 where "DEFAULT_ANNOUNCE_JITTER_MS = 500"
definition HASHLIST_LIFETIME_MS :: u64 where "HASHLIST_LIFETIME_MS = 120000"
definition ANNOUNCE_SCRATCH_MAX :: nat where "ANNOUNCE_SCRATCH_MAX = SIGNED_DATA_MAX"

definition announce_jitter_ms :: "hash32 \<Rightarrow> hash16 \<Rightarrow> u8 \<Rightarrow> u64" where
  "announce_jitter_ms phash transport_id round =
     (let i = unat (min round PATHFINDER_R) * 2;
          r = ucast (from_be_bytes [phash ! i XOR transport_id ! i,
                                    phash ! (i + 1) XOR transport_id ! (i + 1)] :: u16)
      in r mod DEFAULT_ANNOUNCE_JITTER_MS)"

section \<open>Discovery completion\<close>

definition answer_requester ::
  "crypto \<Rightarrow> u8 \<Rightarrow> bytes \<Rightarrow> rx_meta \<Rightarrow> nat \<Rightarrow> lite_node \<Rightarrow> lite_node" where
  "answer_requester C requesters response meta slot n =
     (let target = m_facts (nd_interfaces n) slot in
      if requesters AND push_bit slot 1 \<noteq> 0 \<and> fa_outbound target \<and>
         (fa_id target \<noteq> rx_interface_id meta \<or> fa_flags target AND 8 = 0 \<and> fa_mode target \<noteq> ModeRoaming)
      then snd (enqueue C n (fa_id target) response PathResponse)
      else n)"

text \<open>\<^verbatim>\<open>finish_discovery\<close> cannot fail: every path of it returns \<^verbatim>\<open>Ok(())\<close>.\<close>

definition finish_discovery ::
  "crypto \<Rightarrow> lite_node \<Rightarrow> bytes \<Rightarrow> packet_header \<Rightarrow> rx_meta \<Rightarrow> u64 \<Rightarrow> lite_node" where
  "finish_discovery C n r header meta now_ms =
     (if \<not> lc_transport_enabled (nd_config n) then n
      else case dc_take (nd_discoveries n) (ph_destination_hash header) now_ms of
        (None, d) \<Rightarrow> n\<lparr>nd_discoveries := d\<rparr>
      | (Some owner, d) \<Rightarrow>
          let n = n\<lparr>nd_discoveries := d\<rparr> in
          (case path_response_from_cached_announce n r (ph_destination_hash header) (ph_hops header) of
             Inl _ \<Rightarrow>
               n\<lparr>nd_stats := (nd_stats n)\<lparr>st_outbound_dropped :=
                   sat_add (st_outbound_dropped (nd_stats n))
                     (of_nat (length (filter (bit (de_requesters owner)) [0..<8])))\<rparr>\<rparr>
           | Inr response \<Rightarrow>
               fold (answer_requester C (de_requesters owner) response meta) [0..<REQUESTERS] n))"

section \<open>Announces\<close>

text \<open>A neighbour's copy of an announce this node has queued: whether it cancels the retry.\<close>

definition rebroadcast_heard :: "u8 \<Rightarrow> u64 \<Rightarrow> scheduled_announce \<Rightarrow> bool \<times> scheduled_announce" where
  "rebroadcast_heard wire_hops now_ms entry =
     (if sa_retries entry > 0 then
        (if wire_hops = sa_hops entry then
           (let heard = sat_add (sa_local_rebroadcasts entry) 1
            in (heard \<ge> LOCAL_REBROADCASTS_MAX, entry\<lparr>sa_local_rebroadcasts := heard\<rparr>))
         else (wire_hops = sat_add (sa_hops entry) 1 \<and> now_ms < sa_due_ms entry, entry))
      else (False, entry))"

definition hear_rebroadcast :: "lite_node \<Rightarrow> hash16 \<Rightarrow> u8 \<Rightarrow> u64 \<Rightarrow> lite_node" where
  "hear_rebroadcast n d wire_hops now_ms =
     (if \<not> lc_transport_enabled (nd_config n) then n
      else case as_get (nd_announce_schedule n) d of
        None \<Rightarrow> n
      | Some entry \<Rightarrow>
          let t = as_get_mut (\<lambda>e. snd (rebroadcast_heard wire_hops now_ms e)) (nd_announce_schedule n) d
          in n\<lparr>nd_announce_schedule :=
                 (if fst (rebroadcast_heard wire_hops now_ms entry) then as_remove t d else t)\<rparr>)"

definition bulk_announce :: "lite_node \<Rightarrow> hash16 \<Rightarrow> rx_meta \<Rightarrow> u64 \<Rightarrow> bool" where
  "bulk_announce n d meta now_ms \<longleftrightarrow>
     is_some_and (Option.bind (as_router (nd_interfaces n)) (\<lambda>r. rt_interface r (rx_interface_id meta)))
       ic_bulk_paths \<and>
     \<not> list_ex (\<lambda>e. de_identity e \<noteq> 0 \<and> de_requesters e \<noteq> 0 \<and> de_destination e = d \<and>
                      now_ms < de_expires_ms e) (dc_entries (nd_discoveries n))"

text \<open>What follows once the announce has updated the path: the cache, waiting requesters, and the
  rebroadcast schedule.\<close>

definition announce_learned ::
  "crypto \<Rightarrow> lite_node \<Rightarrow> bytes \<Rightarrow> packet_header \<Rightarrow> rx_meta \<Rightarrow> u64 \<Rightarrow> path_entry
   \<Rightarrow> (transport_error + ingest_action) \<times> lite_node" where
  "announce_learned C n r header meta now_ms path_entry =
     (let d = ph_destination_hash header;
          n = count st_learned_announces_update n;
          n = n\<lparr>nd_announce_cache := ac_retain_paths (nd_announce_cache n) (nd_paths n) now_ms\<rparr> in
      case buf_from_slice MTU r of
        Inl e \<Rightarrow> (Inl (TeBuffer e), n)
      | Inr stored \<Rightarrow>
          let n = n\<lparr>nd_announce_cache := ac_insert (nd_announce_cache n)
                      \<lparr>ca_destination_hash = d, ca_raw = stored, ca_hops = ph_hops header,
                       ca_expires_ms = pe_expires_ms path_entry, ca_bulk = pe_bulk path_entry\<rparr> now_ms\<rparr>;
              n = finish_discovery C n r header meta now_ms in
          if lc_transport_enabled (nd_config n) \<and> ph_context header \<noteq> CtxPathResponse then
            (case transport_announce_from_raw n r d (ph_hops header) CtxNone of
               Inl _ \<Rightarrow> (Inr IaLearnedAnnounce, n)
             | Inr packet \<Rightarrow>
                 let jitter = announce_jitter_ms (pe_packet_hash path_entry) (nd_transport_id n) 0 in
                 (Inr IaScheduledAnnounce,
                  n\<lparr>nd_announce_schedule := as_insert (nd_announce_schedule n)
                      \<lparr>sa_destination_hash = d, sa_packet = packet, sa_interface_id = rx_interface_id meta,
                       sa_due_ms = sat_add now_ms jitter,
                       sa_expires_ms = sat_add now_ms (QUEUED_ANNOUNCE_LIFE_SECS * 1000),
                       sa_block_rebroadcast = False, sa_hops = ph_hops header, sa_retries = 0,
                       sa_local_rebroadcasts = 0, sa_pending_targets = 0\<rparr> now_ms\<rparr>))
          else (Inr IaLearnedAnnounce, n))"

text \<open>The path update for a validated announce.\<close>

definition announce_update_path ::
  "crypto \<Rightarrow> lite_node \<Rightarrow> bytes \<Rightarrow> packet_view \<Rightarrow> packet_header \<Rightarrow> rx_meta \<Rightarrow> u64 \<Rightarrow> announce_view
   \<Rightarrow> (transport_error + ingest_action) \<times> lite_node" where
  "announce_update_path C n r view header meta now_ms announce =
     (let d = ph_destination_hash header;
          phash = packet_hash (cr_sha256 C) r (pf_header_type (ph_flags (pv_header view)));
          n = hear_rebroadcast n d (ph_hops (pv_header view)) now_ms;
          expiry = announce_path_expiry_secs (unwrap_or (rx_interface_mode meta) (lc_mode (nd_config n)));
          bulk = bulk_announce n d meta now_ms;
          new_destination = (path_get_live (nd_paths n) d now_ms = None);
          entry = \<lparr>pe_destination_hash = d, pe_next_hop = ph_transport_id (pv_header view),
                   pe_hops = ph_hops header, pe_interface_id = rx_interface_id meta,
                   pe_expires_ms = sat_add now_ms (expiry * 1000), pe_last_seen_ms = now_ms,
                   pe_packet_hash = phash, pe_random_hash = av_random_hash announce,
                   pe_public_key = av_public_key announce, pe_bulk = bulk\<rparr> in
      case path_insert_or_update (nd_paths n) entry now_ms of
        (learned, paths) \<Rightarrow>
          let n = n\<lparr>nd_paths := paths\<rparr>;
              n = (if bulk \<and> new_destination
                   then rcount (if learned then rs_bulk_paths_learned_update
                                else rs_bulk_paths_refused_update) n
                   else n)
          in if learned then announce_learned C n r header meta now_ms entry
             else (Inr IaAnnounceIgnored, n))"

definition handle_announce ::
  "crypto \<Rightarrow> lite_node \<Rightarrow> bytes \<Rightarrow> packet_view \<Rightarrow> packet_header \<Rightarrow> rx_meta \<Rightarrow> u64
   \<Rightarrow> (transport_error + ingest_action) \<times> lite_node" where
  "handle_announce C n r view header meta now_ms =
     (let d = ph_destination_hash header in
      if is_own_destination n d then (Inr IaDropped, count st_dropped_update n)
      else case admit (nd_announce_admission n) (lc_announce_admission (nd_config n))
                  (ph_context header = CtxPathResponse) now_ms of
        (ok, adm) \<Rightarrow>
          let n = n\<lparr>nd_announce_admission := adm\<rparr> in
          if \<not> ok
          then (Inr IaDropped, count st_dropped_update (count st_announces_rate_dropped_update n))
          else case announce_parse (pv_payload view) (pf_context_flag (ph_flags (pv_header view)))
                      (lc_max_announce_app_data (nd_config n)) of
            Inl e \<Rightarrow> (Inl (TeAnnounce e), n)
          | Inr announce \<Rightarrow>
              let known = or_else (kd_peek (nd_known_destinations n) d)
                                  (path_known_public_key (nd_paths n) d) in
              (case announce_validate C announce d known ANNOUNCE_SCRATCH_MAX of
                 Inl e \<Rightarrow> (Inl (TeAnnounce e), n)
               | Inr _ \<Rightarrow>
                   (case (if length (kd_entries (nd_known_destinations n)) \<noteq> 0 \<and>
                             av_name_hash announce = name_hash C LXMF_DELIVERY_NAME
                          then kd_learn C (nd_known_destinations n) d (av_public_key announce) now_ms
                          else (Inr False, nd_known_destinations n)) of
                      (Inl e, k) \<Rightarrow> (Inl (TeKnownDestination e), n\<lparr>nd_known_destinations := k\<rparr>)
                    | (Inr _, k) \<Rightarrow>
                        let n = n\<lparr>nd_known_destinations := k\<rparr> in
                        if ph_hops header \<ge> PATHFINDER_M then (Inr IaDropped, count st_dropped_update n)
                        else announce_update_path C n r view header meta now_ms announce)))"

section \<open>Path requests\<close>

text \<open>The answer from a live path: nothing when the request falls through to discovery.\<close>

definition answer_from_path ::
  "crypto \<Rightarrow> lite_node \<Rightarrow> hash16 \<Rightarrow> hash16 option \<Rightarrow> interface_mode \<Rightarrow> interface_id \<Rightarrow> u64
   \<Rightarrow> ((transport_error + ingest_action) \<times> lite_node) option" where
  "answer_from_path C n requested requestor mode i now_ms =
     (case path_get_live (nd_paths n) requested now_ms of
        None \<Rightarrow> None
      | Some path \<Rightarrow>
          if is_some_and requestor (\<lambda>q. pe_next_hop path = Some q) then Some (Inr IaDropped, n)
          else if mode = ModeRoaming \<and> pe_interface_id path = i then Some (Inr IaDropped, n)
          else if lc_transport_enabled (nd_config n) then
            (case ac_get (nd_announce_cache n) requested now_ms of
               None \<Rightarrow> None
             | Some cached \<Rightarrow>
                 (case path_response_from_cached_announce n (ca_raw cached) requested (ca_hops cached) of
                    Inl e \<Rightarrow> Some (Inl e, n)
                  | Inr response \<Rightarrow>
                      (case enqueue C n i response PathResponse of
                         (ok, n) \<Rightarrow> Some (Inr (if ok then IaAnsweredPathRequest else IaDropped), n))))
          else None)"

definition forward_request ::
  "crypto \<Rightarrow> lite_node \<Rightarrow> hash16 \<Rightarrow> bytes \<Rightarrow> interface_id \<Rightarrow> bool
   \<Rightarrow> (transport_error + ingest_action) \<times> lite_node" where
  "forward_request C n requested tag i local_only =
     (case build_path_request C n requested tag of
        Inl e \<Rightarrow> (Inl e, n)
      | Inr request \<Rightarrow>
          (case enqueue_packet_broadcast C n i request PathRequestForward local_only of
             (queued, n) \<Rightarrow> (Inr (if queued > 0 then IaForwardedPathRequest else IaDropped), n)))"

definition discover_path ::
  "crypto \<Rightarrow> lite_node \<Rightarrow> hash16 \<Rightarrow> bytes \<Rightarrow> interface_id \<Rightarrow> u64
   \<Rightarrow> (transport_error + ingest_action) \<times> lite_node" where
  "discover_path C n requested tag i now_ms =
     (case interface_slot n i of
        None \<Rightarrow> (Inr IaDropped, n)
      | Some slot \<Rightarrow>
          if \<not> fa_outbound (m_facts (nd_interfaces n) slot) then (Inr IaDropped, n)
          else case dc_begin (nd_discoveries n) requested slot now_ms
                      (discovery_timeout (slowest_outbound_bitrate n i)) of
            (BeginJoined, d) \<Rightarrow> (Inr IaAccepted, n\<lparr>nd_discoveries := d\<rparr>)
          | (BeginRefused, d) \<Rightarrow> (Inr IaDropped, count st_dropped_update (n\<lparr>nd_discoveries := d\<rparr>))
          | (BeginNew identity, d) \<Rightarrow>
              let n = n\<lparr>nd_discoveries := d\<rparr> in
              (case build_path_request C n requested tag of
                 Inl e \<Rightarrow> (Inl e, n)
               | Inr request \<Rightarrow>
                   let lifetime = \<lparr>ol_enqueued_ms = now_ms,
                         ol_expires_ms = min (sat_add now_ms REQUEST_GATE_MS)
                           (unwrap_or (dc_deadline (nd_discoveries n) identity) now_ms),
                         ol_path = 0, ol_state = OsDiscovery identity\<rparr> in
                   (case enqueue_packet_broadcast_with_lifetime C n i request PathRequestForward False lifetime of
                      (queued, n) \<Rightarrow> (Inr (if queued = 0 then IaDropped else IaForwardedPathRequest), n))))"

definition handle_path_request ::
  "crypto \<Rightarrow> lite_node \<Rightarrow> bytes \<Rightarrow> rx_meta \<Rightarrow> u64 \<Rightarrow> (transport_error + ingest_action) \<times> lite_node" where
  "handle_path_request C n payload meta now_ms =
     (let i = rx_interface_id meta;
          mode = unwrap_or (rx_interface_mode meta) (lc_mode (nd_config n)) in
      if length payload \<le> 16 then (Inr IaDropped, count st_dropped_update n)
      else let requested = take 16 payload;
               requestor = (if length payload > 32 then Some (slice 16 32 payload) else None);
               tag = (if length payload > 32 then slice 32 (min (length payload) 48) payload
                      else slice 16 (min (length payload) 32) payload) in
        if tag = [] then (Inr IaDropped, count st_dropped_update n)
        else let tag_key = overwrite (overwrite (replicate 32 0) 0 requested) 16 tag in
          case insert_if_new (nd_request_tags n) tag_key
                 (sat_add now_ms (PATH_REQUEST_DUPLICATE_GATE_SECS * 1000)) now_ms of
            (is_new, tags) \<Rightarrow>
              let n = n\<lparr>nd_request_tags := tags\<rparr> in
              if \<not> is_new then (Inr IaDuplicate, count st_duplicates_update n)
              else if is_own_destination n requested then (Inr IaLocalEndpoint, n)
              else case answer_from_path C n requested requestor mode i now_ms of
                Some result \<Rightarrow> result
              | None \<Rightarrow>
                  if is_router (nd_interfaces n) \<and> is_local_client_interface n i
                  then forward_request C n requested tag i False
                  else if lc_transport_enabled (nd_config n) \<and> mode_discovers_unknown_paths mode
                  then discover_path C n requested tag i now_ms
                  else if is_router (nd_interfaces n) then forward_request C n requested tag i True
                  else (Inr IaDropped, n))"

section \<open>Forwarding\<close>

definition rewrite_forwarded_transport_packet ::
  "lite_node \<Rightarrow> bytes \<Rightarrow> packet_header \<Rightarrow> packet_header \<Rightarrow> u64
   \<Rightarrow> transport_error + (interface_id \<times> bytes) option" where
  "rewrite_forwarded_transport_packet n r original_header header now_ms =
     (case path_get_live (nd_paths n) (ph_destination_hash header) now_ms of
        None \<Rightarrow> Inr None
      | Some path \<Rightarrow>
          let rewritten = (\<lambda>h. map_sum TeWire (\<lambda>p. Some (pe_interface_id path, p))
                                 (rewrite_bytes r original_header h)) in
          if pe_hops path > 1 then
            (case pe_next_hop path of
               None \<Rightarrow> Inr None
             | Some next_hop \<Rightarrow>
                 rewritten (header\<lparr>ph_flags := (ph_flags header)\<lparr>pf_header_type := Header2,
                                     pf_transport_type := TtTransport\<rparr>,
                                   ph_transport_id := Some next_hop\<rparr>))
          else if pe_hops path = 1 then
            rewritten (header\<lparr>ph_flags := (ph_flags header)\<lparr>pf_header_type := Header1,
                                pf_transport_type := TtBroadcast\<rparr>,
                              ph_transport_id := None\<rparr>)
          else map_sum TeBuffer (\<lambda>p. Some (pe_interface_id path, with_hops p (ph_hops header)))
                 (buf_from_slice MTU r))"

definition handle_transport_forward ::
  "crypto \<Rightarrow> lite_node \<Rightarrow> bytes \<Rightarrow> packet_header \<Rightarrow> packet_header \<Rightarrow> rx_meta \<Rightarrow> u64
   \<Rightarrow> (transport_error + ingest_action) \<times> lite_node" where
  "handle_transport_forward C n r original_header header meta now_ms =
     (if \<not> lc_transport_enabled (nd_config n) then (Inr IaDropped, n)
      else if ph_transport_id original_header \<noteq> Some (nd_transport_id n) then (Inr IaDropped, n)
      else case rewrite_forwarded_transport_packet n r original_header header now_ms of
        Inl e \<Rightarrow> (Inl e, n)
      | Inr None \<Rightarrow> (Inr IaDropped, n)
      | Inr (Some (target, forwarded)) \<Rightarrow>
          let proof_hash = truncated_packet_hash (cr_sha256 C) r (pf_header_type (ph_flags original_header)) in
          (case rev_next_generation (nd_reverse n) of
             None \<Rightarrow> (Inr IaDropped, n)
           | Some generation \<Rightarrow>
               let lifetime = (packet_lifetime n forwarded TransportForward)\<lparr>ol_state := OsReverse generation\<rparr> in
               (case enqueue_forwarded_with_lifetime C n (rx_interface_id meta) target forwarded
                       TransportForward lifetime of
                  (False, n) \<Rightarrow> (Inr IaDropped, n)
                | (True, n) \<Rightarrow>
                    (Inr IaForwardedTransport,
                     n\<lparr>nd_paths := path_touch (nd_paths n) (ph_destination_hash header) now_ms,
                       nd_reverse := rev_insert (nd_reverse n)
                         \<lparr>re_proof_hash = proof_hash, re_receiving_interface = rx_interface_id meta,
                          re_outbound_interface = target,
                          re_expires_ms = sat_add now_ms (REVERSE_TIMEOUT_SECS * 1000)\<rparr> now_ms\<rparr>))))"

text \<open>The signalling trailer of a transit link request: a default-mode trailer is cut off, any other
  mode must ask for the default MTU.\<close>

definition transit_request ::
  "bytes \<Rightarrow> packet_header \<Rightarrow> link_request_view \<Rightarrow> bytes \<Rightarrow> transport_error + bytes" where
  "transit_request r original_header request forwarded =
     (if \<not> is_ok (effective_mtu (lrv_signalling request)) then Inl TeInvalidLinkSignalling
      else if sg_mode (lrv_signalling request) = DEFAULT_MODE then
        (if length r - header_size original_header = LINK_REQUEST_LEN
         then Inr (take (length forwarded - LINK_MTU_SIZE) forwarded)
         else Inr forwarded)
      else if sg_mtu (lrv_signalling request) \<noteq> 500 then Inl TeUnsupportedTransitModeTransform
      else Inr forwarded)"

definition handle_link_request ::
  "crypto \<Rightarrow> lite_node \<Rightarrow> bytes \<Rightarrow> packet_header \<Rightarrow> packet_header \<Rightarrow> rx_meta \<Rightarrow> u64
   \<Rightarrow> (transport_error + ingest_action) \<times> lite_node" where
  "handle_link_request C n r original_header header meta now_ms =
     (if \<not> lc_transport_enabled (nd_config n) then (Inr IaDropped, n)
      else if ph_transport_id original_header \<noteq> Some (nd_transport_id n) then (Inr IaDropped, n)
      else let link_id = link_id_from_raw (cr_sha256 C) r (pf_header_type (ph_flags original_header)) in
      if contains_live (nd_links n) link_id now_ms then (Inr IaDropped, n)
      else case has_free_slot (nd_links n) now_ms of
        (free, links) \<Rightarrow>
          let n = n\<lparr>nd_links := links\<rparr> in
          if \<not> free then (Inr IaDropped, n)
          else case rewrite_forwarded_transport_packet n r original_header header now_ms of
            Inl e \<Rightarrow> (Inl e, n)
          | Inr None \<Rightarrow> (Inr IaDropped, n)
          | Inr (Some (target, forwarded)) \<Rightarrow>
              (case require_link_capacity n (rx_interface_id meta) of
                 Inl e \<Rightarrow> (Inl e, n)
               | Inr _ \<Rightarrow>
              (case require_link_capacity n target of
                 Inl e \<Rightarrow> (Inl e, n)
               | Inr _ \<Rightarrow>
              (case link_request_parse (drop (header_size original_header) r) of
                 Inl _ \<Rightarrow> (Inl TeInvalidLinkSignalling, n)
               | Inr request \<Rightarrow>
              (case transit_request r original_header request forwarded of
                 Inl e \<Rightarrow> (Inl e, n)
               | Inr forwarded \<Rightarrow>
              (case path_get_live (nd_paths n) (ph_destination_hash header) now_ms of
                 None \<Rightarrow> (Inr IaDropped, n)
               | Some path \<Rightarrow>
              (case lt_next_generation (nd_links n) of
                 None \<Rightarrow> (Inr IaDropped, n)
               | Some generation \<Rightarrow>
                   let entry = \<lparr>le_link_id = link_id,
                         le_destination_ed25519 = Some (drop 32 (pe_public_key path)),
                         le_receiving_interface = rx_interface_id meta, le_outbound_interface = target,
                         le_remaining_hops = pe_hops path, le_taken_hops = ph_hops header,
                         le_requested_mode = sg_mode (lrv_signalling request),
                         le_accepted_mtu_ceiling = 500, le_validated = False,
                         le_expires_ms = link_deadline now_ms (pe_hops path)
                           (ucast (interface_bitrate n target))\<rparr>;
                       lifetime = (packet_lifetime n forwarded TransportForward)\<lparr>ol_state := OsLink generation\<rparr> in
                   (case enqueue_forwarded_with_lifetime C n (rx_interface_id meta) target forwarded
                           TransportForward lifetime of
                      (False, n) \<Rightarrow> (Inr IaDropped, n)
                    | (True, n) \<Rightarrow>
                        (Inr IaForwardedTransport,
                         n\<lparr>nd_paths := path_touch (nd_paths n) (ph_destination_hash header) now_ms,
                           nd_links := lt_insert (nd_links n) entry now_ms\<rparr>)))))))))"

section \<open>Link traffic and proofs\<close>

text \<open>The interface a packet of a transit link leaves by: \<open>Inl\<close> is the early return of the source
  (consumed or not), \<open>Inr\<close> the target.\<close>

definition link_target :: "link_entry \<Rightarrow> interface_id \<Rightarrow> u8 \<Rightarrow> bool + interface_id" where
  "link_target link i h =
     (if le_outbound_interface link = le_receiving_interface link then
        (if h = le_remaining_hops link \<or> h = le_taken_hops link then Inr (le_outbound_interface link)
         else Inl True)
      else if i = le_receiving_interface link then
        (if h = le_taken_hops link then Inr (le_outbound_interface link) else Inl True)
      else if i = le_outbound_interface link then
        (if h = le_remaining_hops link then Inr (le_receiving_interface link) else Inl True)
      else Inl False)"

text \<open>The end of \<^verbatim>\<open>route_link_packet\<close>, once the target is known and the packet is not a duplicate.\<close>

definition forward_link_packet ::
  "crypto \<Rightarrow> lite_node \<Rightarrow> bytes \<Rightarrow> packet_header \<Rightarrow> rx_meta \<Rightarrow> u64 \<Rightarrow> outbound_reason \<Rightarrow> link_entry
   \<Rightarrow> interface_id \<Rightarrow> hash32 option \<Rightarrow> (transport_error + bool) \<times> lite_node" where
  "forward_link_packet C n r header meta now_ms reason link target tracked =
     (case buf_from_slice MTU r of
        Inl e \<Rightarrow> (Inl (TeBuffer e), n)
      | Inr p \<Rightarrow>
          (case enqueue_forwarded C n (rx_interface_id meta) target (with_hops p (ph_hops header)) reason of
             (False, n) \<Rightarrow> (Inr True, n)
           | (True, n) \<Rightarrow>
               let n = (case tracked of
                          None \<Rightarrow> n
                        | Some hash \<Rightarrow> n\<lparr>nd_packet_hashes := snd (pht_insert (nd_packet_hashes n) hash
                                           (sat_add now_ms HASHLIST_LIFETIME_MS) now_ms)\<rparr>);
                   n = (if le_validated link
                        then n\<lparr>nd_links := lt_touch (nd_links n) (le_link_id link)
                                 (sat_add now_ms (LINK_TIMEOUT_SECS * 1000)) now_ms\<rparr>
                        else n)
               in (Inr True, n)))"

definition route_link_packet ::
  "crypto \<Rightarrow> lite_node \<Rightarrow> bytes \<Rightarrow> packet_header \<Rightarrow> rx_meta \<Rightarrow> u64 \<Rightarrow> outbound_reason
   \<Rightarrow> (transport_error + bool) \<times> lite_node" where
  "route_link_packet C n r header meta now_ms reason =
     (if \<not> lc_transport_enabled (nd_config n) \<or> pf_destination_type (ph_flags header) \<noteq> DtLink \<or>
         pf_packet_type (ph_flags header) = PtLinkRequest \<or> ph_context header = CtxLrproof
      then (Inr False, n)
      else case lt_get (nd_links n) (ph_destination_hash header) now_ms of
        None \<Rightarrow> (Inr False, n)
      | Some link \<Rightarrow>
          if length r > unat (le_accepted_mtu_ceiling link) \<or>
             \<not> is_ok (require_link_capacity n (le_receiving_interface link)) \<or>
             \<not> is_ok (require_link_capacity n (le_outbound_interface link))
          then (Inr True, n)
          else case link_target link (rx_interface_id meta) (ph_hops header) of
            Inl consumed \<Rightarrow> (Inr consumed, n)
          | Inr target \<Rightarrow>
              if skip_hashlist (ph_context header)
              then forward_link_packet C n r header meta now_ms reason link target None
              else let hash = packet_hash (cr_sha256 C) r (pf_header_type (ph_flags header)) in
                (case pht_contains (nd_packet_hashes n) hash now_ms of
                   (seen, hashes) \<Rightarrow>
                     let n = n\<lparr>nd_packet_hashes := hashes\<rparr> in
                     if seen then (Inr True, count st_duplicates_update n)
                     else forward_link_packet C n r header meta now_ms reason link target (Some hash)))"

definition validate_transit_lrproof ::
  "crypto \<Rightarrow> lite_node \<Rightarrow> bytes \<Rightarrow> packet_header \<Rightarrow> link_entry \<Rightarrow> bool" where
  "validate_transit_lrproof C n r header link =
     (if length r < header_size header then False
      else let proof_data = drop (header_size header) r in
      if length proof_data \<noteq> 96 \<and> length proof_data \<noteq> 99 then False
      else case link_proof_parse proof_data of
        Inl _ \<Rightarrow> False
      | Inr parsed \<Rightarrow>
          if sg_mode (lpv_signalling parsed) \<noteq> le_requested_mode link \<or>
             (case effective_mtu (lpv_signalling parsed) of
                Inl _ \<Rightarrow> True | Inr mtu \<Rightarrow> mtu > ucast (le_accepted_mtu_ceiling link)) \<or>
             \<not> is_ok (require_link_capacity n (le_receiving_interface link)) \<or>
             \<not> is_ok (require_link_capacity n (le_outbound_interface link))
          then False
          else case le_destination_ed25519 link of
            None \<Rightarrow> False
          | Some key \<Rightarrow>
              if \<not> cr_ed_key_ok C key then False
              else cr_ed_verify C key
                     (ph_destination_hash header @ slice 64 96 proof_data @ key @
                      (if length proof_data = 99 then slice 96 99 proof_data else []))
                     (take 64 proof_data))"

text \<open>The branch of \<^verbatim>\<open>handle_proof\<close> for the establishment proof of a transit link.\<close>

definition handle_lrproof ::
  "crypto \<Rightarrow> lite_node \<Rightarrow> bytes \<Rightarrow> packet_header \<Rightarrow> rx_meta \<Rightarrow> u64 \<Rightarrow> link_entry
   \<Rightarrow> (transport_error + ingest_action) \<times> lite_node" where
  "handle_lrproof C n r header meta now_ms link =
     (if \<not> validate_transit_lrproof C n r header link then (Inr IaDropped, n)
      else let hash = packet_hash (cr_sha256 C) r (pf_header_type (ph_flags header)) in
        case pht_contains (nd_packet_hashes n) hash now_ms of
          (seen, hashes) \<Rightarrow>
            let n = n\<lparr>nd_packet_hashes := hashes\<rparr> in
            if seen then (Inr IaDuplicate, count st_duplicates_update n)
            else case buf_from_slice MTU r of
              Inl e \<Rightarrow> (Inl (TeBuffer e), n)
            | Inr p \<Rightarrow>
                (case enqueue_forwarded C n (rx_interface_id meta) (le_receiving_interface link)
                        (with_hops p (ph_hops header)) ProofReturn of
                   (False, n) \<Rightarrow> (Inr IaDropped, n)
                 | (True, n) \<Rightarrow>
                     (Inr IaForwardedProof,
                      n\<lparr>nd_packet_hashes := snd (pht_insert (nd_packet_hashes n) hash
                          (sat_add now_ms HASHLIST_LIFETIME_MS) now_ms),
                        nd_links := mark_validated (nd_links n) (ph_destination_hash header)
                          (sat_add now_ms (LINK_TIMEOUT_SECS * 1000)) now_ms\<rparr>)))"

text \<open>The branch of \<^verbatim>\<open>handle_proof\<close> for a proof that returns over a reverse path.\<close>

definition return_proof ::
  "crypto \<Rightarrow> lite_node \<Rightarrow> bytes \<Rightarrow> packet_header \<Rightarrow> rx_meta \<Rightarrow> u64
   \<Rightarrow> (transport_error + ingest_action) \<times> lite_node" where
  "return_proof C n r header meta now_ms =
     (if \<not> is_some_and (rev_get (nd_reverse n) (ph_destination_hash header) now_ms)
            (\<lambda>reverse. re_outbound_interface reverse = rx_interface_id meta)
      then (Inr IaDropped, n)
      else case take_with_generation (nd_reverse n) (ph_destination_hash header) now_ms of
        (None, t) \<Rightarrow> (Inr IaDropped, n\<lparr>nd_reverse := t\<rparr>)
      | (Some (reverse, generation), t) \<Rightarrow>
          let n = n\<lparr>nd_reverse := t\<rparr> in
          (case buf_from_slice MTU r of
             Inl e \<Rightarrow> (Inl (TeBuffer e), n)
           | Inr p \<Rightarrow>
               let packet = with_hops p (ph_hops header);
                   lifetime = (packet_lifetime n packet ProofReturn)\<lparr>ol_expires_ms :=
                     min (re_expires_ms reverse) (sat_add now_ms OUTBOUND_MAX_AGE_MS)\<rparr> in
               (case enqueue_forwarded_with_lifetime C n (rx_interface_id meta)
                       (re_receiving_interface reverse) packet ProofReturn lifetime of
                  (False, n) \<Rightarrow>
                    (Inr IaDropped, n\<lparr>nd_reverse := restore_consumed (nd_reverse n) reverse generation\<rparr>)
                | (True, n) \<Rightarrow> (Inr IaForwardedProof, n))))"

definition handle_proof ::
  "crypto \<Rightarrow> lite_node \<Rightarrow> bytes \<Rightarrow> packet_header \<Rightarrow> rx_meta \<Rightarrow> u64
   \<Rightarrow> (transport_error + ingest_action) \<times> lite_node" where
  "handle_proof C n r header meta now_ms =
     (if ph_context header = CtxLrproof then
        (case lt_get (nd_links n) (ph_destination_hash header) now_ms of
           None \<Rightarrow> (Inr IaDropped, count st_dropped_update n)
         | Some link \<Rightarrow>
             if le_outbound_interface link = rx_interface_id meta \<and> le_remaining_hops link = ph_hops header
             then handle_lrproof C n r header meta now_ms link
             else (Inr IaDropped, count st_dropped_update n))
      else case route_link_packet C n r header meta now_ms ProofReturn of
        (Inl e, n) \<Rightarrow> (Inl e, n)
      | (Inr True, n) \<Rightarrow> (Inr IaForwardedProof, n)
      | (Inr False, n) \<Rightarrow> return_proof C n r header meta now_ms)"

end
