(* ===== verification/Egress_Props.thy ===== *)
theory Egress_Props
  imports Egress
begin

text \<open>
  What queueing a packet may change and what the outbound queue holds. Queueing touches the queue,
  the delivery counter and statistics; everything else of the node is a frame condition, stated
  once as \<open>strip\<close> and used by every handler.
\<close>

section \<open>The frame of an outbound operation\<close>

definition model_core :: "model \<Rightarrow> model" where
  "model_core m = router_mut (\<lambda>r. r\<lparr>rt_stats := ROUTER_STATS_ZERO\<rparr>) m"

definition strip :: "lite_node \<Rightarrow> lite_node" where
  "strip n = n\<lparr>nd_outbound := q_new 0, nd_stats := STATS_ZERO, nd_last_delivery_identity := 0,
               nd_interfaces := model_core (nd_interfaces n)\<rparr>"

lemma model_core_stats [simp]: "model_core (router_mut (\<lambda>r. r\<lparr>rt_stats := f r\<rparr>) m) = model_core m"
  by (cases m) (simp_all add: model_core_def)

lemma strip_simps [simp]:
  "strip (n\<lparr>nd_outbound := q\<rparr>) = strip n" "strip (n\<lparr>nd_stats := s\<rparr>) = strip n"
  "strip (n\<lparr>nd_last_delivery_identity := i\<rparr>) = strip n"
  "strip (count u n) = strip n" "strip (rcount v n) = strip n"
  by (simp_all add: strip_def count_def rcount_def)

lemma stripD:
  assumes "strip n' = strip n"
  shows "nd_config n' = nd_config n" "nd_clock_ms n' = nd_clock_ms n"
    "nd_transport_id n' = nd_transport_id n" "nd_local n' = nd_local n"
    "nd_announce_admission n' = nd_announce_admission n"
    "nd_known_destinations n' = nd_known_destinations n" "nd_packet_hashes n' = nd_packet_hashes n"
    "nd_paths n' = nd_paths n" "nd_announce_cache n' = nd_announce_cache n"
    "nd_announce_schedule n' = nd_announce_schedule n" "nd_reverse n' = nd_reverse n"
    "nd_links n' = nd_links n" "nd_request_tags n' = nd_request_tags n"
    "nd_retained_owner_mode n' = nd_retained_owner_mode n" "nd_discoveries n' = nd_discoveries n"
    "model_core (nd_interfaces n') = model_core (nd_interfaces n)"
  using assms unfolding strip_def by (cases n; cases n'; simp)+

lemma m_facts_core [simp]: "m_facts (model_core m) slot = m_facts m slot"
  by (cases m) (simp_all add: model_core_def rt_facts_def)

lemma m_slot_core [simp]: "m_slot (model_core m) i = m_slot m i"
  by (simp add: m_slot_def)

lemma rt_generation_stats [simp]: "rt_generation (r\<lparr>rt_stats := s\<rparr>) i = rt_generation r i"
  by (simp add: rt_generation_def split: option.split)

lemma delivery_is_current_core [simp]: "delivery_is_current (model_core m) i d = delivery_is_current m i d"
  by (cases m; cases d) (simp_all add: model_core_def)

lemma model_core_fields [simp]:
  "m_ifac (model_core m) i c = m_ifac m i c" "m_online (model_core m) i = m_online m i"
  "is_router (model_core m) = is_router m" "m_delivery (model_core m) identity i = m_delivery m identity i"
  "local_links_max (model_core m) = local_links_max m" "model_inv (model_core m) = model_inv m"
  "map_option rt_registry (as_router (model_core m)) = map_option rt_registry (as_router m)"
  by (cases m; simp add: model_core_def)+

lemma model_coreD:
  assumes "model_core m' = model_core m"
  shows "m_facts m' slot = m_facts m slot" "m_slot m' i = m_slot m i" "m_ifac m' i c = m_ifac m i c"
    "m_online m' i = m_online m i" "is_router m' = is_router m"
    "delivery_is_current m' i d = delivery_is_current m i d"
    "m_delivery m' identity i = m_delivery m identity i" "local_links_max m' = local_links_max m"
    "model_inv m' = model_inv m"
    "map_option rt_registry (as_router m') = map_option rt_registry (as_router m)"
  unfolding m_facts_core [of m', symmetric] m_slot_core [of m', symmetric]
    delivery_is_current_core [of m', symmetric] model_core_fields [of m', symmetric] assms
  by simp_all

lemma push_row_strip [simp]: "strip (push_row n row) = strip n"
  by (simp add: push_row_def Let_def split_beta)

abbreviation rows :: "lite_node \<Rightarrow> queued_outbound list" where
  "rows n \<equiv> q_iter (nd_outbound n)"

lemma reserve_queue_cases:
  obtains (endpoint) "as_router (nd_interfaces n) = None" "reserve_router_queue n i reason = (True, n)"
  | (refused) "reserve_router_queue n i reason = (False, n)"
  | (evict) r c offset where "as_router (nd_interfaces n) = Some r" "rt_interface r i = Some c"
      "ic_tx_queue_depth c \<le> outbound_len_for_interface n i" "offset < length (rows n)"
      "row_interface (rows n ! offset) = i" "gated reason \<longrightarrow> row_gated (rows n ! offset)"
      "\<not> row_gated (rows n ! offset) \<longrightarrow> (\<forall>q \<in> set (rows n). row_interface q = i \<longrightarrow> \<not> row_gated q)"
      "reserve_router_queue n i reason =
         (True, count st_outbound_dropped_update (n\<lparr>nd_outbound := snd (q_remove (nd_outbound n) offset)\<rparr>))"
  | (room) r c where "as_router (nd_interfaces n) = Some r" "rt_interface r i = Some c"
      "outbound_len_for_interface n i < ic_tx_queue_depth c"
      "q_len (nd_outbound n) < min (tc_tx_queue_depth (lc_table_caps (nd_config n))) (q_cap (nd_outbound n))"
      "reserve_router_queue n i reason = (True, n)"
proof (cases "as_router (nd_interfaces n)")
  case None
  then show thesis by (intro endpoint) (simp_all add: reserve_router_queue_def)
next
  case r: (Some r)
  show thesis
  proof (cases "rt_interface r i")
    case None
    with r show thesis by (intro refused) (simp add: reserve_router_queue_def)
  next
    case c: (Some c)
    let ?g = "position (\<lambda>q. row_interface q = i \<and> row_gated q) (rows n)"
    let ?o = "or_else ?g (if gated reason then None else position (\<lambda>q. row_interface q = i) (rows n))"
    consider "\<not> (ic_online c \<and> dir_outbound (ic_direction c))"
      | (full) "ic_online c \<and> dir_outbound (ic_direction c)"
          "ic_tx_queue_depth c \<le> outbound_len_for_interface n i"
      | (free) "ic_online c \<and> dir_outbound (ic_direction c)"
          "outbound_len_for_interface n i < ic_tx_queue_depth c"
      by linarith
    then show thesis
    proof cases
      case 1
      with r c show thesis by (intro refused) (auto simp: reserve_router_queue_def)
    next
      case free
      show thesis
      proof (cases "q_len (nd_outbound n) < min (tc_tx_queue_depth (lc_table_caps (nd_config n)))
                      (q_cap (nd_outbound n))")
        case True
        with r c free show thesis by (intro room) (auto simp: reserve_router_queue_def)
      next
        case False
        with r c free show thesis by (intro refused) (auto simp: reserve_router_queue_def)
      qed
    next
      case full
      show thesis
      proof (cases ?o)
        case None
        with r c full show thesis by (intro refused) (simp add: reserve_router_queue_def)
      next
        case (Some offset)
        have "offset < length (rows n) \<and> row_interface (rows n ! offset) = i \<and>
            (gated reason \<longrightarrow> row_gated (rows n ! offset)) \<and>
            (\<not> row_gated (rows n ! offset) \<longrightarrow> (\<forall>q \<in> set (rows n). row_interface q = i \<longrightarrow> \<not> row_gated q))"
        proof (cases ?g)
          case None
          with Some show ?thesis
            by (auto simp: or_else_def position_None dest: position_SomeD split: if_splits)
        next
          case (Some o')
          with \<open>?o = Some offset\<close> position_SomeD [OF Some] show ?thesis by (simp add: or_else_def)
        qed
        with Some r c full show thesis by (intro evict [of r c offset]) (simp_all add: reserve_router_queue_def)
      qed
    qed
  qed
qed

lemma reserve_strip [simp]: "strip (snd (reserve_router_queue n i reason)) = strip n"
  by (rule reserve_queue_cases [of n i reason]) simp_all

lemma enqueue_with_lifetime_strip [simp]: "strip (snd (enqueue_with_lifetime C n i p reason l)) = strip n"
proof -
  obtain ok n1 where r: "reserve_router_queue n i reason = (ok, n1)" by (cases "reserve_router_queue n i reason")
  have "strip n1 = strip n" using reserve_strip [of n i reason] r by simp
  then show ?thesis
    unfolding enqueue_with_lifetime_def r by (cases ok) (simp_all add: Let_def split: option.split)
qed

lemma enqueue_strip [simp]: "strip (snd (enqueue C n i p reason)) = strip n"
  by (simp add: enqueue_def)

lemma enqueue_forwarded_with_lifetime_strip [simp]:
  "strip (snd (enqueue_forwarded_with_lifetime C n s t p reason l)) = strip n"
  by (simp add: enqueue_forwarded_with_lifetime_def split: option.split)

lemma enqueue_forwarded_strip [simp]: "strip (snd (enqueue_forwarded C n s t p reason)) = strip n"
  by (simp add: enqueue_forwarded_def)

lemma broadcast_step_strip: "strip (snd (broadcast_step C s p reason lo l slot acc)) = strip (snd acc)"
  by (simp add: broadcast_step_def split_beta split: option.split)

lemma fold_broadcast_strip:
  "strip (snd (fold (broadcast_step C s p reason lo l) slots acc)) = strip (snd acc)"
  by (induction slots arbitrary: acc) (simp_all add: broadcast_step_strip)

lemma broadcast_with_lifetime_strip [simp]:
  "strip (snd (enqueue_packet_broadcast_with_lifetime C n s p reason lo l)) = strip n"
  by (simp add: enqueue_packet_broadcast_with_lifetime_def fold_broadcast_strip split_beta)

lemma broadcast_strip [simp]: "strip (snd (enqueue_packet_broadcast C n s p reason lo)) = strip n"
  by (simp add: enqueue_packet_broadcast_def Let_def)

lemma record_expired_strip [simp]: "strip ((record_expired_outbound ^^ k) n) = strip n"
  by (induction k) (simp_all add: record_expired_outbound_def)

lemma expire_outbound_strip [simp]: "strip (expire_outbound n now) = strip n"
  by (simp add: expire_outbound_def split: prod.split)

section \<open>What the queue holds\<close>

definition new_row ::
  "lite_node \<Rightarrow> interface_id \<Rightarrow> bytes \<Rightarrow> outbound_reason \<Rightarrow> outbound_lifetime \<Rightarrow> queued_outbound" where
  "new_row n i wire reason l =
     \<lparr>qo_frame = \<lparr>of_interface_id = i, of_packet = wire, of_reason = reason, of_lifetime = l\<rparr>,
      qo_delivery = m_delivery (nd_interfaces n) (nd_last_delivery_identity n + 1) i\<rparr>"

lemma count_fields [simp]:
  "nd_outbound (count u n) = nd_outbound n"
  "nd_last_delivery_identity (count u n) = nd_last_delivery_identity n"
  "nd_interfaces (count u n) = nd_interfaces n"
  "nd_outbound (rcount v n) = nd_outbound n"
  "nd_last_delivery_identity (rcount v n) = nd_last_delivery_identity n"
  "as_router (nd_interfaces (rcount v n)) =
     map_option (\<lambda>r. r\<lparr>rt_stats := v (\<lambda>c. sat_add c 1) (rt_stats r)\<rparr>) (as_router (nd_interfaces n))"
  by (cases "nd_interfaces n"; simp add: count_def rcount_def)+

lemma push_row_outbound: "nd_outbound (push_row n row) = snd (push_drop_oldest (nd_outbound n) row)"
  "nd_last_delivery_identity (push_row n row) = nd_last_delivery_identity n"
  "nd_interfaces (push_row n row) = nd_interfaces n"
  by (simp_all add: push_row_def Let_def split_beta)

lemma enqueue_with_lifetime_cases:
  obtains (refused) n' where "enqueue_with_lifetime C n i p reason l = (False, n')"
      "nd_outbound n' = nd_outbound n" "nd_last_delivery_identity n' = nd_last_delivery_identity n"
  | (queued) n' n1 wire where "enqueue_with_lifetime C n i p reason l = (True, n')"
      "m_online (nd_interfaces n) i" "length p \<le> interface_clear_mtu n i" "wire_frame C n i p = Some wire"
      "checked_add (nd_last_delivery_identity n) 1 = Some (nd_last_delivery_identity n + 1)"
      "reserve_router_queue n i reason = (True, n1)" "nd_interfaces n1 = nd_interfaces n"
      "nd_outbound n' = snd (push_drop_oldest (nd_outbound n1) (new_row n i wire reason l))"
      "nd_last_delivery_identity n' = nd_last_delivery_identity n + 1" "nd_interfaces n' = nd_interfaces n"
proof -
  note D = enqueue_with_lifetime_def
  have on: "is_some_and (as_router (nd_interfaces n)) (\<lambda>r. \<not> is_some_and (rt_interface r i)
      (\<lambda>c. ic_online c \<and> dir_outbound (ic_direction c))) \<longleftrightarrow> \<not> m_online (nd_interfaces n) i"
    by (cases "nd_interfaces n") (simp_all add: rt_interface_def)
  show thesis
  proof (cases "m_online (nd_interfaces n) i \<and> length p \<le> interface_clear_mtu n i")
    case False
    then show thesis
      by (intro refused [of "snd (enqueue_with_lifetime C n i p reason l)"])
        (auto simp: D on Let_def)
  next
    case ok: True
    show thesis
    proof (cases "wire_frame C n i p")
      case None
      with ok show thesis
        by (intro refused [of "snd (enqueue_with_lifetime C n i p reason l)"]) (simp_all add: D on)
    next
      case w: (Some wire)
      show thesis
      proof (cases "checked_add (nd_last_delivery_identity n) 1")
        case None
        with ok w show thesis
          by (intro refused [of "snd (enqueue_with_lifetime C n i p reason l)"]) (simp_all add: D on)
      next
        case a: (Some identity)
        then have id: "identity = nd_last_delivery_identity n + 1"
          by (simp add: checked_add_def split: if_splits)
        obtain b n1 where r: "reserve_router_queue n i reason = (b, n1)"
          by (cases "reserve_router_queue n i reason")
        have keep: "nd_interfaces n1 = nd_interfaces n"
          "nd_last_delivery_identity n1 = nd_last_delivery_identity n" "\<not> b \<Longrightarrow> n1 = n"
          by (rule reserve_queue_cases [of n i reason]; insert r; auto)+
        show thesis
        proof (cases b)
          case False
          with ok w a r keep show thesis
            by (intro refused [of "snd (enqueue_with_lifetime C n i p reason l)"])
              (simp_all add: D on Let_def)
        next
          case True
          let ?n' = "push_row (n1\<lparr>nd_last_delivery_identity := identity\<rparr>) (new_row n i wire reason l)"
          have "enqueue_with_lifetime C n i p reason l = (True, ?n')"
            using ok w a r keep True id by (simp add: D on new_row_def)
          then show thesis
            using ok w a r keep True id
            by (intro queued [of ?n' wire n1]) (simp_all add: push_row_outbound)
        qed
      qed
    qed
  qed
qed

lemma filter_list_remove_other:
  assumes "i < length xs"
  shows "\<not> P (xs ! i) \<Longrightarrow> filter P (list_remove i xs) = filter P xs"
    and "P (xs ! i) \<Longrightarrow> Suc (length (filter P (list_remove i xs))) = length (filter P xs)"
proof -
  have "xs = take i xs @ xs ! i # drop (Suc i) xs" using assms by (rule id_take_nth_drop)
  then have "filter P xs = filter P (take i xs) @ filter P (xs ! i # drop (Suc i) xs)"
    by (metis filter_append)
  then show "\<not> P (xs ! i) \<Longrightarrow> filter P (list_remove i xs) = filter P xs"
    and "P (xs ! i) \<Longrightarrow> Suc (length (filter P (list_remove i xs))) = length (filter P xs)"
    by (simp_all add: list_remove_def)
qed

text \<open>Queueing appends the new row; a router makes room by removing one row of the same interface
  and never pushes onto a full queue.\<close>

lemma enqueue_rows:
  assumes q: "q_inv (nd_outbound n)" and e: "enqueue_with_lifetime C n i p reason l = (True, n')"
  obtains (endpoint) wire where "as_router (nd_interfaces n) = None" "wire_frame C n i p = Some wire"
      "rows n' = list_push (q_cap (nd_outbound n)) (rows n) (new_row n i wire reason l)"
  | (room) r c wire where "as_router (nd_interfaces n) = Some r" "rt_interface r i = Some c"
      "wire_frame C n i p = Some wire" "outbound_len_for_interface n i < ic_tx_queue_depth c"
      "length (rows n) < min (tc_tx_queue_depth (lc_table_caps (nd_config n))) (q_cap (nd_outbound n))"
      "rows n' = rows n @ [new_row n i wire reason l]"
  | (evict) r c wire offset where "as_router (nd_interfaces n) = Some r" "rt_interface r i = Some c"
      "wire_frame C n i p = Some wire" "ic_tx_queue_depth c \<le> outbound_len_for_interface n i"
      "offset < length (rows n)" "row_interface (rows n ! offset) = i"
      "gated reason \<longrightarrow> row_gated (rows n ! offset)"
      "\<not> row_gated (rows n ! offset) \<longrightarrow> (\<forall>q \<in> set (rows n). row_interface q = i \<longrightarrow> \<not> row_gated q)"
      "rows n' = list_remove offset (rows n) @ [new_row n i wire reason l]"
proof (rule enqueue_with_lifetime_cases [of C n i p reason l])
  fix n'' n1 wire
  assume Q: "enqueue_with_lifetime C n i p reason l = (True, n'')" "wire_frame C n i p = Some wire"
    "reserve_router_queue n i reason = (True, n1)"
    "nd_outbound n'' = snd (push_drop_oldest (nd_outbound n1) (new_row n i wire reason l))"
  have n': "n'' = n'" using Q(1) e by simp
  note L = q_invD(2,3) [OF q]
  have push: "q_inv (nd_outbound n1) \<Longrightarrow>
      rows n' = list_push (q_cap (nd_outbound n1)) (rows n1) (new_row n i wire reason l)"
    using push_drop_oldest_law [of "nd_outbound n1" "new_row n i wire reason l"] Q(4) n' by (metis prod.collapse)
  show thesis
  proof (rule reserve_queue_cases [of n i reason])
    assume "as_router (nd_interfaces n) = None" "reserve_router_queue n i reason = (True, n)"
    with Q push q show thesis by (intro endpoint) auto
  next
    assume "reserve_router_queue n i reason = (False, n)"
    with Q show thesis by simp
  next
    fix r c
    assume R: "as_router (nd_interfaces n) = Some r" "rt_interface r i = Some c"
      "outbound_len_for_interface n i < ic_tx_queue_depth c"
      "q_len (nd_outbound n) < min (tc_tx_queue_depth (lc_table_caps (nd_config n))) (q_cap (nd_outbound n))"
      "reserve_router_queue n i reason = (True, n)"
    then have "n1 = n" using Q(3) by simp
    then have "rows n' = rows n @ [new_row n i wire reason l]"
      using push q R(4) L by (auto simp: list_push_def)
    with R Q(2) L show thesis by (intro room) simp_all
  next
    fix r c offset
    assume R: "as_router (nd_interfaces n) = Some r" "rt_interface r i = Some c"
      "ic_tx_queue_depth c \<le> outbound_len_for_interface n i" "offset < length (rows n)"
      "row_interface (rows n ! offset) = i" "gated reason \<longrightarrow> row_gated (rows n ! offset)"
      "\<not> row_gated (rows n ! offset) \<longrightarrow> (\<forall>q \<in> set (rows n). row_interface q = i \<longrightarrow> \<not> row_gated q)"
      "reserve_router_queue n i reason =
         (True, count st_outbound_dropped_update (n\<lparr>nd_outbound := snd (q_remove (nd_outbound n) offset)\<rparr>))"
    have n1: "nd_outbound n1 = snd (q_remove (nd_outbound n) offset)" using R(8) Q(3) by auto
    have rem: "q_inv (nd_outbound n1)" "q_cap (nd_outbound n1) = q_cap (nd_outbound n)"
      "rows n1 = list_remove offset (rows n)"
      using q_remove_law [OF q, of offset] n1 by (metis prod.collapse)+
    have "length (rows n1) < q_cap (nd_outbound n1)"
      using rem R(4) L by (simp add: list_remove_def)
    then have "rows n' = list_remove offset (rows n) @ [new_row n i wire reason l]"
      using push rem by (auto simp: list_push_def)
    with R Q(2) show thesis by (intro evict) simp_all
  qed
qed (use e in simp)

lemma enqueue_q_inv:
  assumes q: "q_inv (nd_outbound n)"
  shows "q_inv (nd_outbound (snd (enqueue_with_lifetime C n i p reason l))) \<and>
    q_cap (nd_outbound (snd (enqueue_with_lifetime C n i p reason l))) = q_cap (nd_outbound n)"
proof (rule enqueue_with_lifetime_cases [of C n i p reason l])
  fix n' n1 wire
  assume Q: "enqueue_with_lifetime C n i p reason l = (True, n')"
    "reserve_router_queue n i reason = (True, n1)"
    "nd_outbound n' = snd (push_drop_oldest (nd_outbound n1) (new_row n i wire reason l))"
  have "q_inv (nd_outbound n1) \<and> q_cap (nd_outbound n1) = q_cap (nd_outbound n)"
  proof (rule reserve_queue_cases [of n i reason])
    fix offset
    assume "reserve_router_queue n i reason =
       (True, count st_outbound_dropped_update (n\<lparr>nd_outbound := snd (q_remove (nd_outbound n) offset)\<rparr>))"
    then show ?thesis
      using Q(2) q_remove_law [OF q, of offset "fst (q_remove (nd_outbound n) offset)"
          "snd (q_remove (nd_outbound n) offset)"] by auto
  qed (use Q(2) q in auto)
  then show ?thesis
    using Q(1,3) push_drop_oldest_law [of "nd_outbound n1" "new_row n i wire reason l"
        "fst (push_drop_oldest (nd_outbound n1) (new_row n i wire reason l))" "nd_outbound n'"] by simp
qed (use q in simp)

lemma rt_facts_flag:
  "fa_flags (rt_facts r slot) AND 1 \<noteq> 0 \<and> fa_id (rt_facts r slot) = i \<longleftrightarrow>
   (\<exists>c. reg_at_slot (rt_registry r) slot = Some c \<and> ic_id c = i)"
  by (cases "reg_at_slot (rt_registry r) slot") (auto simp: rt_facts_def FACTS_EMPTY_def)

lemma router_clear_mtu_eq:
  assumes r: "as_router (nd_interfaces n) = Some r" and inv: "model_inv (nd_interfaces n)"
    and c: "rt_interface r i = Some c"
  shows "interface_clear_mtu n i = clear_mtu c mod 2 ^ 16"
proof -
  have m: "nd_interfaces n = RouterModel r" using r by (cases "nd_interfaces n") auto
  then have ri: "reg_inv (rt_registry r)" using inv by simp
  from c ri obtain k where k: "k < length (rt_registry r)" "rt_registry r ! k = Some c" "ic_id c = i"
    unfolding rt_interface_def by (auto simp: reg_get_iff in_set_conv_nth)
  have len: "length (rt_registry r) = REQUESTERS"
    using ri by (simp add: reg_inv_def MAX_INTERFACES_def REQUESTERS_def)
  have "m_slot (nd_interfaces n) i \<noteq> None"
    unfolding m_slot_def m m_facts.simps rt_facts_flag find_None_iff
    using k len by (auto simp: reg_at_slot_def)
  then obtain slot where s: "m_slot (nd_interfaces n) i = Some slot" by auto
  then obtain c' where c': "reg_at_slot (rt_registry r) slot = Some c'" "ic_id c' = i"
    unfolding m_slot_def m m_facts.simps rt_facts_flag using find_SomeD by fastforce
  have "Some c' \<in> set (rt_registry r)"
    using c'(1) by (auto simp: reg_at_slot_def split: if_splits) (metis nth_mem)
  then have "c' = c" using c c'(2) ri by (simp add: rt_interface_def reg_get_iff reg_inv_def) (metis uniq_keysD)
  then show ?thesis
    using s c' m unat_of_nat [of "clear_mtu c", where 'a = 16]
    by (simp add: interface_clear_mtu_def interface_slot_def rt_facts_def)
qed

lemma router_clear_mtu:
  "as_router (nd_interfaces n) = Some r \<Longrightarrow> model_inv (nd_interfaces n) \<Longrightarrow> rt_interface r i = Some c \<Longrightarrow>
   interface_clear_mtu n i \<le> clear_mtu c"
  by (simp add: router_clear_mtu_eq)

lemma ifac_sign_length:
  assumes laws: "hkdf_law C" "ed_law C" and ok: "ifac_sign_into C p key s (pb_new WIRE_MTU_MAX) = Inr w"
  shows "length (pb_as_slice w) = length p + unat s"
proof -
  have isz: "0 < unat s" "unat s \<le> 64" and p: "2 \<le> length p" "length p \<le> MTU"
    using ok by (auto simp: ifac_sign_into_def validate_size_Inr not_less split: sum.splits if_splits)
  obtain p0 p1 ps where pe: "p = p0 # p1 # ps" using p(1) by (cases p; cases "tl p") auto
  have "length p + unat s \<le> 8160" using p isz by (simp add: MTU_def)
  then obtain msk where "derive_mask C (drop (64 - unat s) (sign_packet C p key)) key (length p + unat s) = Inr msk"
    by (rule derive_mask_ok [OF laws(1)])
  from ifac_sign_into_bytes [OF laws isz pe p(2) _ refl this, of "pb_new WIRE_MTU_MAX"] ok
  show ?thesis using pe by auto
qed

lemma wire_frame_length:
  assumes "hkdf_law C" "ed_law C" "wire_frame C n i p = Some wire"
  shows "length wire = length p +
    (case m_ifac (nd_interfaces n) i (nd_config n) of Some ifac \<Rightarrow> unat (ifc_size ifac) | None \<Rightarrow> 0)"
proof (cases "m_ifac (nd_interfaces n) i (nd_config n)")
  case None
  with assms(3) have "buf_from_slice WIRE_MTU_MAX p = Inr wire"
    by (auto simp: wire_frame_def buf_from_slice_def pb_from_slice_def split: sum.splits)
  with None show ?thesis by (auto simp: buf_from_slice_eq split: if_splits)
next
  case (Some ifac)
  with assms show ?thesis
    by (auto simp: wire_frame_def split: sum.splits dest: ifac_sign_length)
qed

section \<open>The queue invariant\<close>

definition row_ok :: "model \<Rightarrow> queued_outbound \<Rightarrow> bool" where
  "row_ok m q \<longleftrightarrow>
     interval_ok (of_lifetime (qo_frame q)) \<and>
     delivery_is_current m (row_interface q) (qo_delivery q) \<and> m_online m (row_interface q) \<and>
     (\<forall>r c. as_router m = Some r \<longrightarrow> rt_interface r (row_interface q) = Some c \<longrightarrow>
        length (of_packet (qo_frame q)) \<le> wire_mtu c)"

definition depth_ok :: "lite_node \<Rightarrow> bool" where
  "depth_ok n \<longleftrightarrow>
     (\<forall>r. as_router (nd_interfaces n) = Some r \<longrightarrow>
        (\<forall>i c. rt_interface r i = Some c \<longrightarrow> outbound_len_for_interface n i \<le> ic_tx_queue_depth c) \<and>
        length (rows n) \<le> min (tc_tx_queue_depth (lc_table_caps (nd_config n))) (q_cap (nd_outbound n)))"

text \<open>Registered interfaces passed validation, and one that is online has a registration that is not
  retired.\<close>

fun registry_ok :: "model \<Rightarrow> bool" where
  "registry_ok (EndpointModel _) = True"
| "registry_ok (RouterModel r) =
     (\<forall>c. Some c \<in> set (rt_registry r) \<longrightarrow> interface_validate c (ic_tx_queue_depth c) = Inr () \<and>
        (ic_online c \<longrightarrow> rt_generation r (ic_id c) \<noteq> 0))"

definition queue_ok :: "lite_node \<Rightarrow> bool" where
  "queue_ok n \<longleftrightarrow>
     model_inv (nd_interfaces n) \<and> registry_ok (nd_interfaces n) \<and> q_inv (nd_outbound n) \<and>
     (\<forall>q \<in> set (rows n). row_ok (nd_interfaces n) q) \<and> depth_ok n"

lemma online_delivery_current:
  assumes "model_inv m" "registry_ok m" "m_online m i"
  shows "delivery_is_current m i (m_delivery m identity i)"
proof (cases m)
  case (RouterModel r)
  with assms obtain c where c: "reg_get (rt_registry r) i = Some c" "ic_online c"
    by (auto simp: is_some_and_def split: option.splits)
  then have "Some c \<in> set (rt_registry r)" "ic_id c = i"
    using assms(1) RouterModel by (simp_all add: reg_get_iff)
  with assms(2) c RouterModel show ?thesis by auto
qed simp

lemma new_row_ok:
  assumes laws: "hkdf_law C" "ed_law C" and m: "model_inv (nd_interfaces n)" "registry_ok (nd_interfaces n)"
    and on: "m_online (nd_interfaces n) i" and p: "length p \<le> interface_clear_mtu n i"
    and w: "wire_frame C n i p = Some wire" and l: "interval_ok l"
  shows "row_ok (nd_interfaces n) (new_row n i wire reason l)"
proof -
  have "length wire \<le> wire_mtu c" if "as_router (nd_interfaces n) = Some r" "rt_interface r i = Some c" for r c
  proof -
    have "nd_interfaces n = RouterModel r" using that(1) by (cases "nd_interfaces n") auto
    then have "length wire = length p + (case ic_ifac c of Some ifac \<Rightarrow> unat (ifc_size ifac) | None \<Rightarrow> 0)"
      using wire_frame_length [OF laws w] that(2) by (simp add: rt_interface_def)
    then show ?thesis using router_clear_mtu [OF that(1) m(1) that(2)] p
      by (simp add: wire_mtu_def split: option.splits)
  qed
  then show ?thesis
    using l on online_delivery_current [OF m on] by (simp add: row_ok_def new_row_def)
qed

lemma model_core_cases:
  assumes "model_core m' = model_core m"
  obtains (endpoint) fs where "m = EndpointModel fs" "m' = EndpointModel fs"
  | (router) r r' where "m = RouterModel r" "m' = RouterModel r'" "rt_registry r' = rt_registry r"
      "rt_generations r' = rt_generations r" "rt_plain_sink r' = rt_plain_sink r"
      "rt_watched r' = rt_watched r" "rt_watched_len r' = rt_watched_len r"
      "rt_announce_gates r' = rt_announce_gates r" "rt_last_generation r' = rt_last_generation r"
      "rt_lora_modem r' = rt_lora_modem r"
proof (cases m)
  case (RouterModel r)
  with assms obtain r' where r': "m' = RouterModel r'" by (cases m') (auto simp: model_core_def)
  with RouterModel assms have "r'\<lparr>rt_stats := ROUTER_STATS_ZERO\<rparr> = r\<lparr>rt_stats := ROUTER_STATS_ZERO\<rparr>"
    by (simp add: model_core_def)
  then show thesis using router r' RouterModel by (cases r; cases r') simp
next
  case (EndpointModel fs)
  with assms show thesis using endpoint by (cases m') (auto simp: model_core_def)
qed

lemma row_ok_core: "model_core m' = model_core m \<Longrightarrow> row_ok m' q = row_ok m q"
  by (erule model_core_cases)
    (cases "qo_delivery q"; simp add: row_ok_def rt_interface_def rt_generation_def split: option.split)+

lemma registry_ok_core: "model_core m' = model_core m \<Longrightarrow> registry_ok m' = registry_ok m"
  by (erule model_core_cases) (simp_all add: rt_generation_def split: option.split)

lemma depth_ok_core:
  assumes "model_core (nd_interfaces n') = model_core (nd_interfaces n)" "nd_outbound n' = nd_outbound n"
    "nd_config n' = nd_config n"
  shows "depth_ok n' = depth_ok n"
  using assms(1) by (rule model_core_cases)
    (simp_all add: depth_ok_def outbound_len_for_interface_def rt_interface_def assms(2,3))

lemma queue_ok_same:
  assumes "model_core (nd_interfaces n') = model_core (nd_interfaces n)" "nd_outbound n' = nd_outbound n"
    "nd_config n' = nd_config n"
  shows "queue_ok n' = queue_ok n"
  using assms model_coreD(9) [OF assms(1)]
  by (simp add: queue_ok_def depth_ok_core [OF assms] row_ok_core [OF assms(1)] registry_ok_core [OF assms(1)])

lemma queue_ok_strip: "strip n' = strip n \<Longrightarrow> nd_outbound n' = nd_outbound n \<Longrightarrow> queue_ok n' = queue_ok n"
  using stripD(1,16) [of n' n] by (intro queue_ok_same)

lemma set_list_remove: "set (list_remove i xs) \<subseteq> set xs"
  by (auto simp: list_remove_def dest: in_set_takeD in_set_dropD)

lemma len_for_interface_snoc:
  "length (filter (\<lambda>q. row_interface q = j) (xs @ [new_row n i wire reason l])) =
   length (filter (\<lambda>q. row_interface q = j) xs) + (if j = i then 1 else 0)"
  by (simp add: new_row_def)

lemma enqueue_queue_ok:
  assumes laws: "hkdf_law C" "ed_law C" and ok: "queue_ok n" and l: "interval_ok l"
  shows "queue_ok (snd (enqueue_with_lifetime C n i p reason l))"
proof (rule enqueue_with_lifetime_cases [of C n i p reason l])
  fix n' assume e: "enqueue_with_lifetime C n i p reason l = (False, n')" "nd_outbound n' = nd_outbound n"
  have "strip n' = strip n" using enqueue_with_lifetime_strip [of C n i p reason l] e(1) by simp
  then show ?thesis using ok queue_ok_strip [of n' n] e by simp
next
  fix n' n1 wire
  assume e: "enqueue_with_lifetime C n i p reason l = (True, n')" "m_online (nd_interfaces n) i"
    "length p \<le> interface_clear_mtu n i" "wire_frame C n i p = Some wire"
    "nd_interfaces n' = nd_interfaces n"
  note Q = ok [unfolded queue_ok_def]
  have q: "q_inv (nd_outbound n)" using Q by simp
  have q': "q_inv (nd_outbound n')" "q_cap (nd_outbound n') = q_cap (nd_outbound n)"
    using enqueue_q_inv [OF q, of C i p reason l] e(1) by simp_all
  have cfg: "nd_config n' = nd_config n"
    using stripD(1) [of n' n] enqueue_with_lifetime_strip [of C n i p reason l] e(1) by simp
  have row: "row_ok (nd_interfaces n) (new_row n i wire reason l)"
    using new_row_ok [OF laws] Q e l by blast
  have "(\<forall>q \<in> set (rows n'). row_ok (nd_interfaces n) q) \<and> depth_ok n'"
  proof (rule enqueue_rows [OF q e(1)])
    fix w assume r: "as_router (nd_interfaces n) = None" "wire_frame C n i p = Some w"
      "rows n' = list_push (q_cap (nd_outbound n)) (rows n) (new_row n i w reason l)"
    have "set (rows n') \<subseteq> insert (new_row n i wire reason l) (set (rows n))"
      using r(2,3) e(4) set_tl_subset [of "rows n"] by (auto simp: list_push_def split: if_splits)
    then show ?thesis using Q row r(1) e(5) by (auto simp: depth_ok_def)
  next
    fix r c w
    assume r: "as_router (nd_interfaces n) = Some r" "rt_interface r i = Some c" "wire_frame C n i p = Some w"
      "outbound_len_for_interface n i < ic_tx_queue_depth c"
      "length (rows n) < min (tc_tx_queue_depth (lc_table_caps (nd_config n))) (q_cap (nd_outbound n))"
      "rows n' = rows n @ [new_row n i w reason l]"
    have "outbound_len_for_interface n' j \<le> ic_tx_queue_depth d" if "rt_interface r j = Some d" for j d
      using that r Q len_for_interface_snoc [of j "rows n" n i w reason l]
      by (cases "j = i") (auto simp: outbound_len_for_interface_def depth_ok_def)
    then show ?thesis using Q row r e cfg q' by (auto simp: depth_ok_def)
  next
    fix r c w offset
    assume r: "as_router (nd_interfaces n) = Some r" "rt_interface r i = Some c" "wire_frame C n i p = Some w"
      "offset < length (rows n)" "row_interface (rows n ! offset) = i"
      "rows n' = list_remove offset (rows n) @ [new_row n i w reason l]"
    have "outbound_len_for_interface n' j = outbound_len_for_interface n j" for j
      using r(6) filter_list_remove_other [OF r(4), of "\<lambda>q. row_interface q = j"] r(5)
        len_for_interface_snoc [of j "list_remove offset (rows n)" n i w reason l]
      by (cases "j = i") (simp_all add: outbound_len_for_interface_def)
    moreover have "length (rows n') = length (rows n)"
      using r(4,6) by (simp add: list_remove_def)
    ultimately have "depth_ok n'" using Q r(1) e(5) cfg q' by (auto simp: depth_ok_def)
    moreover have "set (rows n') \<subseteq> insert (new_row n i wire reason l) (set (rows n))"
      using r(3,6) e(4) set_list_remove [of offset "rows n"] by auto
    ultimately show ?thesis using Q row by auto
  qed
  then show ?thesis using Q e(1,5) q' by (simp add: queue_ok_def)
qed

text \<open>What every single enqueue preserves, every composed outbound operation preserves.\<close>

lemma forwarded_preserves:
  assumes "\<And>n i. I n \<Longrightarrow> I (snd (enqueue_with_lifetime C n i p reason l))" "\<And>u n. I n \<Longrightarrow> I (rcount u n)" "I n"
  shows "I (snd (enqueue_forwarded_with_lifetime C n s t p reason l))"
  using assms by (simp add: enqueue_forwarded_with_lifetime_def split: option.split)

lemma broadcast_preserves:
  assumes step: "\<And>n i. I n \<Longrightarrow> I (snd (enqueue_with_lifetime C n i p reason l))"
    and stat: "\<And>u n. I n \<Longrightarrow> I (rcount u n)" and n: "I n"
  shows "I (snd (enqueue_packet_broadcast_with_lifetime C n s p reason lo l))"
proof -
  have one: "I (snd (broadcast_step C s p reason lo l slot acc))" if "I (snd acc)" for slot acc
    using that forwarded_preserves [where I = I, OF step stat that, of s]
    by (simp add: broadcast_step_def split_beta split: option.split)
  have "I (snd (fold (broadcast_step C s p reason lo l) slots acc))" if "I (snd acc)" for slots acc
    using that by (induction slots arbitrary: acc) (simp_all add: one)
  then show ?thesis
    using step n by (simp add: enqueue_packet_broadcast_with_lifetime_def split_beta)
qed

lemma queue_ok_rcount [simp]: "queue_ok (rcount u n) = queue_ok n"
  by (rule queue_ok_strip) simp_all

lemma queue_ok_count [simp]: "queue_ok (count u n) = queue_ok n"
  by (rule queue_ok_strip) simp_all

lemmas forwarded_queue_ok = forwarded_preserves [where I = queue_ok, OF enqueue_queue_ok]
lemmas broadcast_queue_ok = broadcast_preserves [where I = queue_ok, OF enqueue_queue_ok]

section \<open>Lifetimes\<close>

lemma path_get_live_Some:
  "path_get_live t d now = Some e \<Longrightarrow> now < pe_expires_ms e"
  by (auto simp: path_get_live_def path_is_live_def split: option.splits if_splits)

lemma le_link_deadline: "now \<le> link_deadline now h b"
proof -
  have "now \<le> sat_add now x" "sat_add now x \<le> sat_add (sat_add now x) y" for x y by simp_all
  then show ?thesis unfolding link_deadline_def Let_def by (rule order_trans)
qed

lemma interval_ok_independent [simp]: "interval_ok (independent_lifetime now)"
  by (simp add: interval_ok_def independent_lifetime_def)

lemma interval_ok_min:
  "interval_ok l \<Longrightarrow> ol_enqueued_ms l \<le> e \<Longrightarrow> interval_ok (l\<lparr>ol_expires_ms := min (ol_expires_ms l) e\<rparr>)"
  by (auto simp: interval_ok_def min_def)

lemma interval_ok_fields [simp]:
  "interval_ok (l\<lparr>ol_state := s\<rparr>) = interval_ok l" "interval_ok (l\<lparr>ol_path := g\<rparr>) = interval_ok l"
  by (simp_all add: interval_ok_def)

lemma independent_enqueued [simp]: "ol_enqueued_ms (independent_lifetime now) = now"
  by (simp add: independent_lifetime_def)

lemma interval_ok_state_min:
  "interval_ok l \<Longrightarrow> ol_enqueued_ms l \<le> e \<Longrightarrow>
   interval_ok (l\<lparr>ol_state := s, ol_expires_ms := min (ol_expires_ms l) e\<rparr>)"
  using interval_ok_min [of "l\<lparr>ol_state := s\<rparr>" e] by simp

text \<open>The interval of every lifetime that the node attaches lies between now and the ceiling.\<close>

lemma path_lifetime_interval:
  "interval_ok (path_lifetime n h reason) \<and> ol_enqueued_ms (path_lifetime n h reason) = nd_clock_ms n"
proof -
  let ?now = "nd_clock_ms n" and ?i = "independent_lifetime (nd_clock_ms n)"
  have bound: "interval_ok (?i\<lparr>ol_path := g, ol_expires_ms := min (ol_expires_ms ?i) (pe_expires_ms path)\<rparr>)"
    if "?now < pe_expires_ms path" for g path
    using interval_ok_min [of "?i\<lparr>ol_path := g\<rparr>" "pe_expires_ms path"] that by simp
  note state = interval_ok_state_min [OF bound, simplified]
  show ?thesis
    unfolding path_lifetime_def Let_def
    by (auto intro!: bound state le_link_deadline dest: path_get_live_Some split: option.split if_split)
qed

lemma packet_lifetime_interval:
  "interval_ok (packet_lifetime n p reason) \<and> ol_enqueued_ms (packet_lifetime n p reason) = nd_clock_ms n"
  using path_lifetime_interval [of n]
  by (auto simp: packet_lifetime_def Let_def intro!: interval_ok_state_min dest: lt_get_Some(3)
      split: sum.split option.split)

end
