(* ===== verification/Ingest.thy ===== *)
theory Ingest
  imports Handlers Egress_Props
begin

text \<open>
  The ingress path of a node (\<^verbatim>\<open>src/transport.rs\<close>, \<^verbatim>\<open>src/transport/router.rs\<close>): \<^verbatim>\<open>ingest\<close> takes a received
  frame through interface policy, access code, parsing, duplicate suppression and dispatch to the
  handlers, and captures what is addressed to the host.
\<close>

section \<open>Ingress\<close>

definition router_ingress :: "lite_node \<Rightarrow> interface_id \<Rightarrow> nat \<Rightarrow> (transport_error + bool) \<times> lite_node" where
  "router_ingress n i wire_len =
     (case as_router (nd_interfaces n) of
        None \<Rightarrow> (Inr True, n)
      | Some r \<Rightarrow>
          let refuse = (\<lambda>e. (Inl e, count st_dropped_update (rcount rs_interface_dropped_update n))) in
          (case reg_get (rt_registry r) i of
             None \<Rightarrow> refuse TeUnknownInterface
           | Some c \<Rightarrow>
               if \<not> ic_online c then refuse TeInterfaceOffline
               else if \<not> dir_inbound (ic_direction c) then refuse TeInterfaceNotInbound
               else if wire_len > wire_mtu c
               then (Inr False, count st_dropped_update (rcount rs_mtu_dropped_update n))
               else (Inr True, n)))"

definition capture_endpoint ::
  "bytes \<Rightarrow> u8 \<Rightarrow> packet_buffer option \<Rightarrow> (transport_error + ingest_action) \<times> packet_buffer option" where
  "capture_endpoint r h endpoint =
     (case endpoint of
        None \<Rightarrow> (Inr IaDropped, None)
      | Some b \<Rightarrow>
          (case pb_extend_from_slice (pb_clear b) r of
             Inl e \<Rightarrow> (Inl (TeBuffer e), Some (pb_clear b))
           | Inr b \<Rightarrow> (Inr IaLocalEndpoint, Some (pb_as_mut_slice b ((pb_as_slice b)[1 := h])))))"

definition bridge_plain_broadcast ::
  "crypto \<Rightarrow> lite_node \<Rightarrow> bytes \<Rightarrow> packet_header \<Rightarrow> interface_id
   \<Rightarrow> (transport_error + ingest_action) \<times> lite_node" where
  "bridge_plain_broadcast C n r header source =
     (if \<not> is_router (nd_interfaces n) then (Inr IaDropped, n)
      else case buf_from_slice MTU r of
        Inl e \<Rightarrow> (Inl (TeBuffer e), n)
      | Inr p \<Rightarrow>
          let local_only = (\<not> is_local_client_interface n source) in
          (case enqueue_packet_broadcast C n source (with_hops p (ph_hops header)) TransportForward local_only of
             (queued, n) \<Rightarrow> (Inr (if queued > 0 then IaForwardedTransport else IaDropped), n)))"

text \<open>The first part of \<^verbatim>\<open>ingest_inner\<close>: clock, interface facts, expiry, ingress policy, access code and
  size. \<open>Inl\<close> is an early return, \<open>Inr\<close> the clear packet and the metadata for the rest.\<close>

definition ingest_begin :: "lite_node \<Rightarrow> rx_meta \<Rightarrow> u64 \<Rightarrow> lite_node" where
  "ingest_begin n meta now_ms =
     (let n = observe_interface (n\<lparr>nd_clock_ms := now_ms\<rparr>) meta;
          n = (if \<not> lc_transport_enabled (nd_config n)
               then n\<lparr>nd_discoveries := dc_clear (nd_discoveries n)\<rparr> else n);
          n = n\<lparr>nd_discoveries := dc_expire (nd_discoveries n) now_ms\<rparr>
      in expire_outbound n now_ms)"

definition ingest_unwrap ::
  "crypto \<Rightarrow> lite_node \<Rightarrow> bytes \<Rightarrow> interface_id \<Rightarrow> bytes option" where
  "ingest_unwrap C n r i =
     (case m_ifac (nd_interfaces n) i (nd_config n) of
        Some ifac \<Rightarrow>
          (case ifac_verify_into C r (ifc_key ifac) (ifc_size ifac) (pb_new MTU) of
             Inl _ \<Rightarrow> None
           | Inr plain \<Rightarrow> Some (pb_as_slice plain))
      | None \<Rightarrow> if has_ifac_flag r then None else Some r)"

definition ingest_ingress ::
  "crypto \<Rightarrow> lite_node \<Rightarrow> bytes \<Rightarrow> rx_meta \<Rightarrow> u64
   \<Rightarrow> ((transport_error + ingest_action) + bytes \<times> rx_meta) \<times> lite_node" where
  "ingest_ingress C n r meta now_ms =
     (let n = ingest_begin n meta now_ms; i = rx_interface_id meta in
      case router_ingress n i (length r) of
        (Inl e, n) \<Rightarrow> (Inl (Inl e), n)
      | (Inr False, n) \<Rightarrow> (Inl (Inr IaDropped), n)
      | (Inr True, n) \<Rightarrow>
          let meta = (case Option.bind (as_router (nd_interfaces n)) (\<lambda>r. rt_interface r i) of
                        None \<Rightarrow> meta | Some c \<Rightarrow> meta\<lparr>rx_interface_mode := Some (ic_mode c)\<rparr>) in
          (case ingest_unwrap C n r i of
             None \<Rightarrow> (Inl (Inr IaDropped), count st_dropped_update (count st_validation_failures_update n))
           | Some plain \<Rightarrow>
               if length plain > interface_clear_mtu n i then (Inl (Inr IaDropped), n)
               else (Inr (plain, meta), n)))"

section \<open>Admission\<close>

definition link_request_admissible :: "lite_node \<Rightarrow> packet_view \<Rightarrow> rx_meta \<Rightarrow> transport_error + unit" where
  "link_request_admissible n view meta =
     (if pf_packet_type (ph_flags (pv_header view)) = PtLinkRequest then
        (case link_request_parse (pv_payload view) of
           Inl _ \<Rightarrow> Inl TeInvalidLinkSignalling
         | Inr _ \<Rightarrow> require_link_capacity n (rx_interface_id meta))
      else Inr ())"

definition plain_sink_matches :: "lite_node \<Rightarrow> packet_header \<Rightarrow> bool" where
  "plain_sink_matches n h \<longleftrightarrow>
     Option.bind (as_router (nd_interfaces n)) rt_plain_sink = Some (ph_destination_hash h) \<and>
     pf_packet_type (ph_flags h) = PtData \<and> pf_destination_type (ph_flags h) = DtPlain \<and>
     pf_transport_type (ph_flags h) = TtBroadcast"

definition plain_sink_deliver ::
  "packet_view \<Rightarrow> packet_buffer option \<Rightarrow> (transport_error + ingest_action) \<times> packet_buffer option" where
  "plain_sink_deliver view endpoint =
     (if ph_hops (pv_header view) \<noteq> 0 then (Inr IaDropped, endpoint)
      else case endpoint of
        None \<Rightarrow> (Inr IaDropped, None)
      | Some b \<Rightarrow>
          (case pb_extend_from_slice (pb_clear b) (pv_payload view) of
             Inl e \<Rightarrow> (Inl (TeBuffer e), Some (pb_clear b))
           | Inr b \<Rightarrow> (Inr IaLocalPlain, Some b)))"

text \<open>The three filters between acceptance and the duplicate table, on the hops as received.\<close>

definition ingest_filtered :: "lite_node \<Rightarrow> packet_header \<Rightarrow> bool" where
  "ingest_filtered n h \<longleftrightarrow>
     ph_hops h \<ge> PATHFINDER_M \<or> \<not> accepts_transport_address n h \<or>
     \<not> skip_hashlist (ph_context h) \<and> pf_destination_type (ph_flags h) \<in> {DtPlain, DtGroup} \<and>
       (pf_packet_type (ph_flags h) = PtAnnounce \<or> ph_hops h > 1)"

definition defer_hashlist :: "lite_node \<Rightarrow> packet_header \<Rightarrow> u64 \<Rightarrow> hash16 option \<Rightarrow> bool" where
  "defer_hashlist n h now_ms local_link \<longleftrightarrow>
     contains_live (nd_links n) (ph_destination_hash h) now_ms \<or>
     pf_packet_type (ph_flags h) = PtLinkRequest \<or> ph_context h = CtxLrproof \<or>
     pf_destination_type (ph_flags h) = DtLink \<and>
       (local_link = Some (ph_destination_hash h) \<or> SlotLink (ph_destination_hash h) \<in> set (nd_local n))"

text \<open>Duplicate suppression: whether the packet is a duplicate that goes no further.\<close>

definition hashlist_duplicate ::
  "crypto \<Rightarrow> lite_node \<Rightarrow> bytes \<Rightarrow> packet_header \<Rightarrow> u64 \<Rightarrow> hash16 option \<Rightarrow> bool \<times> lite_node" where
  "hashlist_duplicate C n r h now_ms local_link =
     (if skip_hashlist (ph_context h) \<or> defer_hashlist n h now_ms local_link then (False, n)
      else case pht_insert (nd_packet_hashes n) (packet_hash (cr_sha256 C) r (pf_header_type (ph_flags h)))
                  (sat_add now_ms HASHLIST_LIFETIME_MS) now_ms of
        (inserted, hashes) \<Rightarrow>
          let n = n\<lparr>nd_packet_hashes := hashes\<rparr> in
          if \<not> inserted \<and>
             \<not> (pf_packet_type (ph_flags h) = PtAnnounce \<and> pf_destination_type (ph_flags h) = DtSingle)
          then (True, count st_duplicates_update n) else (False, n))"

section \<open>Dispatch\<close>

definition for_local_endpoint :: "lite_node \<Rightarrow> packet_header \<Rightarrow> bool" where
  "for_local_endpoint n h \<longleftrightarrow>
     pf_packet_type (ph_flags h) = PtLinkRequest \<and> pf_destination_type (ph_flags h) = DtSingle \<and>
       is_own_destination n (ph_destination_hash h) \<or>
     pf_packet_type (ph_flags h) = PtData \<and>
       (pf_destination_type (ph_flags h) = DtLink \<and> SlotLink (ph_destination_hash h) \<in> set (nd_local n) \<or>
        pf_destination_type (ph_flags h) = DtSingle \<and> is_own_destination n (ph_destination_hash h))"

definition handle_data ::
  "crypto \<Rightarrow> lite_node \<Rightarrow> bytes \<Rightarrow> packet_view \<Rightarrow> packet_header \<Rightarrow> rx_meta \<Rightarrow> u64
   \<Rightarrow> (transport_error + ingest_action) \<times> lite_node" where
  "handle_data C n r view header meta now_ms =
     (case route_link_packet C n r header meta now_ms TransportForward of
        (Inl e, n) \<Rightarrow> (Inl e, n)
      | (Inr True, n) \<Rightarrow> (Inr IaForwardedTransport, n)
      | (Inr False, n) \<Rightarrow>
          if ph_destination_hash header = path_request_destination C
          then handle_path_request C n (pv_payload view) meta now_ms
          else if pf_destination_type (ph_flags header) = DtPlain \<and>
                  pf_transport_type (ph_flags header) = TtBroadcast
          then bridge_plain_broadcast C n r header (rx_interface_id meta)
          else handle_transport_forward C n r (pv_header view) header meta now_ms)"

definition dispatch ::
  "crypto \<Rightarrow> lite_node \<Rightarrow> bytes \<Rightarrow> packet_view \<Rightarrow> packet_header \<Rightarrow> rx_meta \<Rightarrow> u64
   \<Rightarrow> (transport_error + ingest_action) \<times> lite_node" where
  "dispatch C n r view header meta now_ms =
     (case pf_packet_type (ph_flags header) of
        PtAnnounce \<Rightarrow> handle_announce C n r view header meta now_ms
      | PtData \<Rightarrow> handle_data C n r view header meta now_ms
      | PtLinkRequest \<Rightarrow> handle_link_request C n r (pv_header view) header meta now_ms
      | PtProof \<Rightarrow> handle_proof C n r header meta now_ms)"

text \<open>What is done with the handler's result: local packets and watched announces are copied to the
  endpoint's buffer, and a failed announce is counted.\<close>

definition ingest_result ::
  "lite_node \<Rightarrow> bytes \<Rightarrow> packet_header \<Rightarrow> transport_error + ingest_action \<Rightarrow> packet_buffer option
   \<Rightarrow> (transport_error + ingest_action) \<times> packet_buffer option \<times> lite_node" where
  "ingest_result n r header result endpoint =
     (if result = Inr IaLocalEndpoint then
        (case capture_endpoint r (ph_hops header) endpoint of (res, b) \<Rightarrow> (res, b, n))
      else let watched =
              ((result = Inr IaLearnedAnnounce \<or> result = Inr IaScheduledAnnounce) \<and>
               is_some_and (as_router (nd_interfaces n)) (\<lambda>rt. rt_watches rt (ph_destination_hash header)) \<and>
               endpoint \<noteq> None);
            captured = capture_endpoint r (ph_hops header) endpoint in
        if watched \<and> is_ok (fst captured)
        then (Inr (IaWatchedAnnounce (result = Inr IaScheduledAnnounce)), snd captured, n)
        else (result, if watched then snd captured else endpoint,
              case result of Inl (TeAnnounce _) \<Rightarrow> count st_validation_failures_update n | _ \<Rightarrow> n))"

definition ingest_packet ::
  "crypto \<Rightarrow> lite_node \<Rightarrow> bytes \<Rightarrow> rx_meta \<Rightarrow> u64 \<Rightarrow> hash16 option \<Rightarrow> packet_buffer option
   \<Rightarrow> (transport_error + ingest_action) \<times> packet_buffer option \<times> lite_node" where
  "ingest_packet C n r meta now_ms local_link endpoint =
     (case packet_parse r of
        Inl e \<Rightarrow> (Inl (TeWire e), endpoint, n)
      | Inr view \<Rightarrow>
          let wire = pv_header view in
          (case link_request_admissible n view meta of
             Inl e \<Rightarrow> (Inl e, endpoint, n)
           | Inr _ \<Rightarrow>
               if plain_sink_matches n wire then
                 (case plain_sink_deliver view endpoint of (res, b) \<Rightarrow> (res, b, n))
               else let n = count st_accepted_update n in
                 if ingest_filtered n wire then (Inr IaDropped, endpoint, count st_dropped_update n)
                 else case hashlist_duplicate C n r wire now_ms local_link of
                   (True, n) \<Rightarrow> (Inr IaDuplicate, endpoint, n)
                 | (False, n) \<Rightarrow>
                     let h1 = sat_add (ph_hops wire) 1;
                         h2 = (if is_local_client_interface n (rx_interface_id meta)
                               then sat_sub h1 1 else h1);
                         header = wire\<lparr>ph_hops := h2\<rparr> in
                     if for_local_endpoint n header then
                       (case capture_endpoint r (ph_hops header) endpoint of (res, b) \<Rightarrow> (res, b, n))
                     else case dispatch C n r view header meta now_ms of
                       (result, n) \<Rightarrow> ingest_result n r header result endpoint))"

definition ingest_inner ::
  "crypto \<Rightarrow> lite_node \<Rightarrow> bytes \<Rightarrow> rx_meta \<Rightarrow> u64 \<Rightarrow> hash16 option \<Rightarrow> packet_buffer option
   \<Rightarrow> (transport_error + ingest_action) \<times> packet_buffer option \<times> lite_node" where
  "ingest_inner C n r meta now_ms local_link endpoint =
     (case ingest_ingress C n r meta now_ms of
        (Inl result, n) \<Rightarrow> (result, endpoint, n)
      | (Inr (plain, meta), n) \<Rightarrow> ingest_packet C n plain meta now_ms local_link endpoint)"

definition ingest_with_local_link ::
  "crypto \<Rightarrow> lite_node \<Rightarrow> bytes \<Rightarrow> rx_meta \<Rightarrow> u64 \<Rightarrow> hash16 option
   \<Rightarrow> (transport_error + ingest_action) \<times> lite_node" where
  "ingest_with_local_link C n r meta now_ms local_link =
     (case ingest_inner C n r meta now_ms local_link None of (result, _, n) \<Rightarrow> (result, n))"

definition ingest ::
  "crypto \<Rightarrow> lite_node \<Rightarrow> bytes \<Rightarrow> rx_meta \<Rightarrow> u64 \<Rightarrow> (transport_error + ingest_action) \<times> lite_node" where
  "ingest C n r meta now_ms = ingest_with_local_link C n r meta now_ms None"

definition ingest_endpoint ::
  "crypto \<Rightarrow> lite_node \<Rightarrow> bytes \<Rightarrow> rx_meta \<Rightarrow> u64 \<Rightarrow> packet_buffer
   \<Rightarrow> (transport_error + ingest_action) \<times> packet_buffer option \<times> lite_node" where
  "ingest_endpoint C n r meta now_ms endpoint = ingest_inner C n r meta now_ms None (Some endpoint)"

end
