(* ===== verification/Tick.thy ===== *)
theory Tick
  imports Ingest
begin

text \<open>
  \<^verbatim>\<open>tick\<close> of \<^verbatim>\<open>src/transport.rs\<close> and the announce release of \<^verbatim>\<open>src/transport/router.rs\<close>: expiry of every
  table, the loop that sends announces that are due, and the gated release of announces a router
  still owes to its interfaces. Both loops are total functions: every pass removes an announce from
  those that are due, or an obligation to the slot at hand.
\<close>

section \<open>Announce targets\<close>

definition announce_egress_allowed :: "interface_config \<Rightarrow> interface_config \<Rightarrow> bool" where
  "announce_egress_allowed source target =
     (if \<not> ic_online target \<or> \<not> dir_outbound (ic_direction target) then False
      else if ic_id source = ic_id target \<and> \<not> dir_repeat (ic_direction target) then False
      else if ic_id source \<noteq> ic_id target \<and> \<not> dir_forward (ic_direction target) then False
      else if ic_role target = RoleLocalClient then True
      else case ic_mode target of
             ModeAccessPoint \<Rightarrow> False
           | ModeInternal \<Rightarrow> ic_mode source \<noteq> ModeBoundary
           | ModeRoaming \<Rightarrow> ic_mode source \<noteq> ModeRoaming \<and> ic_mode source \<noteq> ModeBoundary
           | ModeBoundary \<Rightarrow> ic_mode source \<noteq> ModeRoaming
           | ModeFull \<Rightarrow> True | ModePointToPoint \<Rightarrow> True | ModeGateway \<Rightarrow> True)"

definition announce_targets :: "lite_node \<Rightarrow> interface_id \<Rightarrow> u8" where
  "announce_targets n source =
     (case as_router (nd_interfaces n) of
        None \<Rightarrow> 0
      | Some r \<Rightarrow>
          (case rt_interface r source of
             None \<Rightarrow> 0
           | Some src \<Rightarrow>
               fold (\<lambda>slot targets. targets OR push_bit slot 1)
                 (filter (\<lambda>slot. is_some_and (reg_at_slot (rt_registry r) slot) (announce_egress_allowed src))
                   [0..<REQUESTERS]) 0))"

definition announce_current :: "crypto \<Rightarrow> lite_node \<Rightarrow> scheduled_announce \<Rightarrow> u64 \<Rightarrow> bool" where
  "announce_current C n announce now_ms =
     is_some_and (path_get_live (nd_paths n) (sa_destination_hash announce) now_ms)
       (\<lambda>path. case packet_parse (sa_packet announce) of
                  Inl _ \<Rightarrow> False
                | Inr view \<Rightarrow> packet_hash (cr_sha256 C) (sa_packet announce)
                    (pf_header_type (ph_flags (pv_header view))) = pe_packet_hash path)"

section \<open>Sending what is due\<close>

text \<open>One pass of the loop over due announces, after \<open>announce\<close> was taken off the schedule.\<close>

definition reschedule :: "lite_node \<Rightarrow> scheduled_announce \<Rightarrow> hash32 \<Rightarrow> u64 \<Rightarrow> lite_node" where
  "reschedule n announce path_hash now_ms =
     (let announce = announce\<lparr>sa_retries := sat_add (sa_retries announce) 1\<rparr> in
      if \<not> sa_block_rebroadcast announce \<and> sa_retries announce \<le> PATHFINDER_R then
        n\<lparr>nd_announce_schedule := as_insert (nd_announce_schedule n)
            (announce\<lparr>sa_due_ms := sat_add (sat_add now_ms (PATHFINDER_G_SECS * 1000))
               (announce_jitter_ms path_hash (nd_transport_id n) (sa_retries announce))\<rparr>) now_ms\<rparr>
      else if sa_pending_targets announce \<noteq> 0 then
        n\<lparr>nd_announce_schedule := as_insert (nd_announce_schedule n)
            (announce\<lparr>sa_due_ms := PENDING_ONLY\<rparr>) now_ms\<rparr>
      else n)"

definition tick_announce :: "crypto \<Rightarrow> lite_node \<Rightarrow> scheduled_announce \<Rightarrow> u64 \<Rightarrow> lite_node" where
  "tick_announce C n announce now_ms =
     (case path_get_live (nd_paths n) (sa_destination_hash announce) now_ms of
        None \<Rightarrow> n
      | Some path \<Rightarrow>
          let path_hash = pe_packet_hash path in
          if \<not> sa_block_rebroadcast announce \<and>
             (case packet_parse (sa_packet announce) of
                Inl _ \<Rightarrow> True
              | Inr view \<Rightarrow> packet_hash (cr_sha256 C) (sa_packet announce)
                  (pf_header_type (ph_flags (pv_header view))) \<noteq> path_hash)
          then n
          else if \<not> sa_block_rebroadcast announce \<and> is_router (nd_interfaces n) then
            (let targets = announce_targets n (sa_interface_id announce);
                 announce = (if sa_pending_targets announce AND targets = 0
                             then announce\<lparr>sa_expires_ms := sat_add now_ms (QUEUED_ANNOUNCE_LIFE_SECS * 1000)\<rparr>
                             else announce)
             in reschedule n (announce\<lparr>sa_pending_targets := sa_pending_targets announce OR targets\<rparr>)
                  path_hash now_ms)
          else reschedule
                 (snd (enqueue C n (sa_interface_id announce) (sa_packet announce)
                        (if sa_block_rebroadcast announce then PathResponse else AnnounceRebroadcast)))
                 announce path_hash now_ms)"

lemma filter_somes_update_le:
  assumes "\<And>x. v = Some x \<Longrightarrow> \<not> P x"
  shows "length (filter P (somes (ss[i := v]))) \<le> length (filter P (somes ss))"
proof (cases "i < length ss")
  case True
  show ?thesis
    unfolding somes_update [OF True] somes_split [OF True] using assms by (simp split: option.split)
qed (simp add: list_update_beyond)

lemma as_insert_due:
  assumes "now < sa_due_ms e \<or> sa_expires_ms e \<le> now"
  shows "due_count (as_insert t e now) now \<le> due_count t now"
proof -
  let ?P = "\<lambda>e. sa_due_ms e \<le> now \<and> now < sa_expires_ms e"
  have "\<not> ?P e" using assms by auto
  then have "due_count ((as_expire t now)[i := Some e]) now \<le> due_count (as_expire t now) now" for i
    unfolding due_count_def by (intro filter_somes_update_le) simp
  moreover have "due_count (as_expire t now) now \<le> due_count t now"
    by (simp add: due_count_def as_expire_def length_filter_clear_where)
  ultimately show ?thesis
    by (auto simp: as_insert_def Let_def intro: order_trans split: option.split)
qed

lemma not_due:
  assumes "sa_due_ms e = sat_add (sat_add now (PATHFINDER_G_SECS * 1000)) j \<or> sa_due_ms e = PENDING_ONLY"
  shows "now < sa_due_ms e \<or> sa_expires_ms e \<le> now"
proof (cases "now = - 1")
  case False
  have "now < sat_add now (PATHFINDER_G_SECS * 1000)"
    using False by (intro sat_add_gt) (simp_all add: PATHFINDER_G_SECS_def)
  also have "\<dots> \<le> sat_add (sat_add now (PATHFINDER_G_SECS * 1000)) j" by simp
  finally show ?thesis
    using assms False word_order.not_eq_extremum [of now] by (auto simp: PENDING_ONLY_def)
qed simp

lemma reschedule_due:
  "due_count (nd_announce_schedule (reschedule n a h now)) now \<le> due_count (nd_announce_schedule n) now"
  unfolding reschedule_def Let_def by (auto intro!: as_insert_due not_due)

lemma tick_announce_due:
  "due_count (nd_announce_schedule (tick_announce C n a now)) now \<le> due_count (nd_announce_schedule n) now"
proof -
  have "nd_announce_schedule (snd (enqueue C n i p reason)) = nd_announce_schedule n" for i p reason
    by (rule stripD(10)) simp
  then have "due_count (nd_announce_schedule (reschedule (snd (enqueue C n i p reason)) a h now)) now \<le>
      due_count (nd_announce_schedule n) now" for i p reason h
    using reschedule_due [of "snd (enqueue C n i p reason)" a h now] by simp
  then show ?thesis
    by (simp add: tick_announce_def Let_def reschedule_due split: option.split)
qed

function tick_announces :: "crypto \<Rightarrow> lite_node \<Rightarrow> u64 \<Rightarrow> lite_node" where
  "tick_announces C n now_ms =
     (case pop_due (nd_announce_schedule n) now_ms of
        (None, t) \<Rightarrow> n\<lparr>nd_announce_schedule := t\<rparr>
      | (Some announce, t) \<Rightarrow>
          tick_announces C (tick_announce C (n\<lparr>nd_announce_schedule := t\<rparr>) announce now_ms) now_ms)"
  by pat_completeness auto

termination
proof (relation "measure (\<lambda>(C, n, now). due_count (nd_announce_schedule n) now)")
  fix C and n :: lite_node and now x t announce
  assume "(x, t) = pop_due (nd_announce_schedule n) now" "x = Some announce"
  then show "((C, tick_announce C (n\<lparr>nd_announce_schedule := t\<rparr>) announce now, now), C, n, now)
      \<in> measure (\<lambda>(C, n, now). due_count (nd_announce_schedule n) now)"
    using tick_announce_due [of C "n\<lparr>nd_announce_schedule := t\<rparr>" announce now]
      pop_due_decreases [of "nd_announce_schedule n" now announce t] by simp
qed simp

declare tick_announces.simps [simp del]

section \<open>Releasing owed announces\<close>

text \<open>The spacing charged to the gate of \<open>target\<close> for a frame of \<open>wire_len\<close> bytes.\<close>

definition announce_spacing :: "router \<Rightarrow> interface_config \<Rightarrow> nat \<Rightarrow> u64" where
  "announce_spacing r target wire_len =
     (case (ic_role target, rt_lora_modem r) of
        (RoleLoRa, Some modem) \<Rightarrow> lora_spacing_ms wire_len modem (ic_announce_cap_permille target)
      | _ \<Rightarrow> unwrap_or (bitrate_spacing_ms wire_len (ic_bitrate_bps target)
               (ic_announce_cap_permille target)) 0)"

definition charge_gate :: "lite_node \<Rightarrow> nat \<Rightarrow> u64 \<Rightarrow> u64 \<Rightarrow> lite_node" where
  "charge_gate n slot now_ms spacing =
     n\<lparr>nd_interfaces := router_mut
         (\<lambda>r. r\<lparr>rt_stats := (rt_stats r)\<lparr>rs_announces_released := sat_add (rs_announces_released (rt_stats r)) 1\<rparr>,
                rt_announce_gates := (rt_announce_gates r)[slot :=
                  gate_charge (rt_announce_gates r ! slot) now_ms spacing]\<rparr>) (nd_interfaces n)\<rparr>"

lemma owed_count_clear_where: "owed_count (clear_where P t) b \<le> owed_count t b"
  by (simp add: owed_count_def length_filter_clear_where)

text \<open>The inner loop for one slot: announces that no longer belong to the current path are removed,
  the first one that does is offered to the queue.\<close>

function release_slot :: "crypto \<Rightarrow> nat \<Rightarrow> interface_config \<Rightarrow> u64 \<Rightarrow> lite_node \<Rightarrow> lite_node" where
  "release_slot C slot target now_ms n =
     (case release_pending (nd_announce_schedule n) slot now_ms of
        (None, t) \<Rightarrow> n\<lparr>nd_announce_schedule := t\<rparr>
      | (Some announce, t) \<Rightarrow>
          let n = n\<lparr>nd_announce_schedule := t\<rparr> in
          if \<not> announce_current C n announce now_ms then
            release_slot C slot target now_ms
              (n\<lparr>nd_announce_schedule := as_remove t (sa_destination_hash announce)\<rparr>)
          else let wire_len = length (sa_packet announce) +
                     (case ic_ifac target of None \<Rightarrow> 0 | Some i \<Rightarrow> unat (ifc_size i)) in
            (case enqueue_forwarded C n (sa_interface_id announce) (ic_id target) (sa_packet announce)
                    AnnounceRebroadcast of
               (False, n) \<Rightarrow> n
             | (True, n) \<Rightarrow>
                 (case as_router (nd_interfaces n) of
                    None \<Rightarrow> n
                  | Some r \<Rightarrow> charge_gate n slot now_ms (announce_spacing r target wire_len))))"
  by pat_completeness auto

termination
proof (relation "measure (\<lambda>(C, slot, target, now, n). owed_count (nd_announce_schedule n) (unwrap_or (slot_bit slot) 0))")
  fix C slot target now and n :: lite_node and x t announce n'
  assume x: "(x, t) = release_pending (nd_announce_schedule n) slot now" "x = Some announce"
    and n': "n' = n\<lparr>nd_announce_schedule := t\<rparr>"
  then obtain b where b: "slot_bit slot = Some b"
    by (cases "slot_bit slot") (auto simp: release_pending_def Let_def)
  have "owed_count t b < owed_count (nd_announce_schedule n) b"
    using release_pending_decreases [OF b, of "nd_announce_schedule n" now announce t] x by simp
  then have "owed_count (as_remove t d) b < owed_count (nd_announce_schedule n) b" for d
    unfolding as_remove_def using owed_count_clear_where by (rule order_le_less_trans [rotated])
  then show "((C, slot, target, now, n'\<lparr>nd_announce_schedule := as_remove t (sa_destination_hash announce)\<rparr>),
      C, slot, target, now, n)
      \<in> measure (\<lambda>(C, slot, target, now, n). owed_count (nd_announce_schedule n) (unwrap_or (slot_bit slot) 0))"
    using b by (simp add: unwrap_or_def)
qed simp

declare release_slot.simps [simp del]

definition release_gated_slot :: "crypto \<Rightarrow> u64 \<Rightarrow> nat \<Rightarrow> lite_node \<Rightarrow> lite_node" where
  "release_gated_slot C now_ms slot n =
     (case as_router (nd_interfaces n) of
        None \<Rightarrow> n
      | Some r \<Rightarrow>
          (case reg_at_slot (rt_registry r) slot of
             None \<Rightarrow> n
           | Some target \<Rightarrow>
               if \<not> gate_is_open (rt_announce_gates r ! slot) now_ms \<or>
                  list_ex (\<lambda>q. row_interface q = ic_id target \<and> row_gated q) (q_iter (nd_outbound n))
               then n
               else release_slot C slot target now_ms n))"

definition release_gated_announces :: "crypto \<Rightarrow> lite_node \<Rightarrow> u64 \<Rightarrow> lite_node" where
  "release_gated_announces C n now_ms =
     (if \<not> is_router (nd_interfaces n) then n
      else fold (release_gated_slot C now_ms) [0..<REQUESTERS] n)"

definition tick_expire :: "lite_node \<Rightarrow> u64 \<Rightarrow> lite_node" where
  "tick_expire n now_ms =
     (let n = n\<lparr>nd_clock_ms := now_ms\<rparr>;
          n = (if \<not> lc_transport_enabled (nd_config n)
               then n\<lparr>nd_discoveries := dc_clear (nd_discoveries n)\<rparr> else n);
          n = n\<lparr>nd_discoveries := dc_expire (nd_discoveries n) now_ms,
                nd_packet_hashes := pht_expire (nd_packet_hashes n) now_ms,
                nd_paths := path_expire (nd_paths n) now_ms\<rparr>;
          n = n\<lparr>nd_announce_cache := ac_retain_paths (ac_expire (nd_announce_cache n) now_ms) (nd_paths n) now_ms,
                nd_announce_schedule := as_expire (nd_announce_schedule n) now_ms,
                nd_reverse := rev_expire (nd_reverse n) now_ms, nd_links := lt_expire (nd_links n) now_ms,
                nd_request_tags := rtt_expire (nd_request_tags n) now_ms\<rparr>
      in expire_outbound n now_ms)"

definition tick :: "crypto \<Rightarrow> lite_node \<Rightarrow> u64 \<Rightarrow> lite_node" where
  "tick C n now_ms = release_gated_announces C (tick_announces C (tick_expire n now_ms) now_ms) now_ms"

end
