(* ===== verification/Node_Ops.thy ===== *)
theory Node_Ops
  imports Tick
begin

text \<open>
  The host-facing operations of the two node models: interface bookkeeping and the retained outbound
  queue of an endpoint (\<^verbatim>\<open>src/transport.rs\<close>), and registry, queue and endpoint services of a router
  (\<^verbatim>\<open>src/transport/router.rs\<close>).
\<close>

section \<open>Endpoint: interfaces\<close>

text \<open>These operations exist only for nodes with the endpoint model. The facts of such a node, and a
  change to the facts in one slot.\<close>

fun endpoint_facts :: "model \<Rightarrow> interface_facts list" where
  "endpoint_facts (EndpointModel fs) = fs"
| "endpoint_facts (RouterModel _) = []"

fun set_fact :: "model \<Rightarrow> nat \<Rightarrow> (interface_facts \<Rightarrow> interface_facts) \<Rightarrow> model" where
  "set_fact (EndpointModel fs) slot f = EndpointModel (fs[slot := f (fs ! slot)])"
| "set_fact (RouterModel r) slot f = RouterModel r"

text \<open>Removes the target bit of \<open>interface\<close> from a row.\<close>

fun clear_pending :: "u8 \<Rightarrow> delivery \<Rightarrow> delivery" where
  "clear_pending b (EndpointDelivery d) =
     EndpointDelivery (d\<lparr>od_pending_targets := od_pending_targets d AND NOT b\<rparr>)"
| "clear_pending b (RouterDelivery g) = RouterDelivery g"

definition retained_outbound_retire_interface :: "lite_node \<Rightarrow> interface_id \<Rightarrow> lite_node" where
  "retained_outbound_retire_interface n i =
     (let n = (case interface_slot n i of
                 None \<Rightarrow> n
               | Some slot \<Rightarrow> n\<lparr>nd_interfaces := set_fact (nd_interfaces n) slot
                                   (\<lambda>f. f\<lparr>fa_flags := fa_flags f AND NOT 2\<rparr>)\<rparr>)
      in if i \<ge> 7 then n
         else n\<lparr>nd_outbound := q_iter_mut
                  (\<lambda>q. q\<lparr>qo_delivery := clear_pending (push_bit (unat i) 1) (qo_delivery q)\<rparr>) (nd_outbound n)\<rparr>)"

definition retire_replaced_interface :: "lite_node \<Rightarrow> interface_id \<Rightarrow> lite_node" where
  "retire_replaced_interface n i =
     (let n = retained_outbound_retire_interface n i;
          n = (case interface_slot n i of
                 None \<Rightarrow> n
               | Some slot \<Rightarrow>
                   n\<lparr>nd_discoveries := retire_requester (nd_discoveries n) slot,
                     nd_interfaces := set_fact (nd_interfaces n) slot (\<lambda>_. FACTS_EMPTY)\<rparr>);
          n = n\<lparr>nd_paths := path_remove_interface (nd_paths n) i,
                nd_announce_schedule := as_remove_interface (nd_announce_schedule n) i,
                nd_reverse := rev_remove_interface (nd_reverse n) i,
                nd_links := lt_remove_interface (nd_links n) i\<rparr>;
          n = n\<lparr>nd_announce_cache := ac_retain_paths (nd_announce_cache n) (nd_paths n) (nd_clock_ms n)\<rparr>
      in expire_outbound n (nd_clock_ms n))"

definition update_interface ::
  "lite_node \<Rightarrow> interface_id \<Rightarrow> u32 \<Rightarrow> interface_mode \<Rightarrow> u32 \<Rightarrow> bool \<Rightarrow> bool \<Rightarrow> bool \<times> lite_node" where
  "update_interface n i generation mode bitrate_bps outbound client =
     (case or_else (interface_slot n i)
             (position (\<lambda>f. fa_flags f AND 1 = 0) (endpoint_facts (nd_interfaces n))) of
        None \<Rightarrow> (False, n)
      | Some slot \<Rightarrow>
          let previous = endpoint_facts (nd_interfaces n) ! slot;
              n = (if fa_flags previous AND 1 \<noteq> 0 then
                     (if fa_mode previous \<noteq> mode then retire_replaced_interface n i
                      else if fa_generation previous \<noteq> generation \<or> \<not> outbound
                      then retained_outbound_retire_interface n i
                      else n)
                   else n);
              previous = endpoint_facts (nd_interfaces n) ! slot
          in (True, n\<lparr>nd_interfaces := set_fact (nd_interfaces n) slot (\<lambda>_.
                 \<lparr>fa_generation = generation, fa_bitrate_bps = bitrate_bps,
                  fa_clear_mtu = (if fa_flags previous AND 1 \<noteq> 0 then fa_clear_mtu previous
                                  else of_nat (default_clear_mtu n)),
                  fa_id = i, fa_mode = mode,
                  fa_flags = 1 OR 4 OR (if outbound \<and> generation \<noteq> 0 then 2 else 0)
                    OR (if client then 8 else 0)\<rparr>)\<rparr>))"

definition update_interface_packet_capacity ::
  "lite_node \<Rightarrow> interface_id \<Rightarrow> u32 \<Rightarrow> nat \<Rightarrow> bool \<times> lite_node" where
  "update_interface_packet_capacity n i generation clear =
     (case interface_slot n i of
        None \<Rightarrow> (False, n)
      | Some slot \<Rightarrow>
          let f = endpoint_facts (nd_interfaces n) ! slot in
          if generation = 0 \<or> fa_generation f \<noteq> generation then (False, n)
          else let clear = of_nat (min clear MTU) in
            if fa_clear_mtu f \<noteq> clear then
              (let n = n\<lparr>nd_links := lt_remove_interface (nd_links n) i,
                         nd_interfaces := set_fact (nd_interfaces n) slot (\<lambda>f. f\<lparr>fa_clear_mtu := clear\<rparr>)\<rparr>
               in (True, expire_outbound n (nd_clock_ms n)))
            else (True, n))"

section \<open>Endpoint: the outbound queue\<close>

definition poll_tx :: "lite_node \<Rightarrow> outbound_frame option \<times> lite_node" where
  "poll_tx n =
     (if nd_retained_owner_mode n then (None, n)
      else let n = expire_outbound n (nd_clock_ms n) in
        case q_pop (nd_outbound n) of (row, q) \<Rightarrow> (map_option qo_frame row, n\<lparr>nd_outbound := q\<rparr>))"

definition outbound_peek_len :: "lite_node \<Rightarrow> nat option" where
  "outbound_peek_len n =
     (if nd_retained_owner_mode n then None
      else map_option (\<lambda>q. length (of_packet (qo_frame q))) (q_peek (nd_outbound n)))"

definition selected_targets :: "outbound_frame \<Rightarrow> u8" where
  "selected_targets f =
     (let i = of_interface_id f in
      case of_reason f of
        LocalReason \<Rightarrow> if i < 7 then push_bit (unat i) 1 else 0
      | PathResponse \<Rightarrow> if i < 7 then push_bit (unat i) 1 else 0
      | TransportForward \<Rightarrow> if i < 7 then push_bit (unat i) 1 else 0
      | ProofReturn \<Rightarrow> if i < 7 then push_bit (unat i) 1 else 0
      | AnnounceRebroadcast \<Rightarrow> if i < 7 then 0x7f AND NOT (push_bit (unat i) 1) else 0x7f
      | PathRequestForward \<Rightarrow> if i < 7 then 0x7f AND NOT (push_bit (unat i) 1) else 0x7f
      | PathRequest \<Rightarrow> 0x7f)"

text \<open>Binding a row to its targets on first selection, then retiring targets whose generation has
  changed.\<close>

definition bind_delivery :: "u32 list \<Rightarrow> outbound_frame \<Rightarrow> outbound_delivery \<Rightarrow> outbound_delivery" where
  "bind_delivery generations f d =
     (let d = (if od_initialized d then d
               else d\<lparr>od_pending_targets := od_pending_targets d AND selected_targets f,
                      od_interface_generations := generations, od_initialized := True\<rparr>)
      in fold (\<lambda>i d. if generations ! i = 0 \<or> generations ! i \<noteq> od_interface_generations d ! i
                     then d\<lparr>od_pending_targets := od_pending_targets d AND NOT (push_bit i 1)\<rparr> else d)
           [0..<length generations] d)"

fun bind_row :: "u32 list \<Rightarrow> outbound_frame \<Rightarrow> delivery \<Rightarrow> delivery" where
  "bind_row generations f (EndpointDelivery d) = EndpointDelivery (bind_delivery generations f d)"
| "bind_row generations f (RouterDelivery g) = RouterDelivery g"

fun row_identity :: "delivery \<Rightarrow> u64" where
  "row_identity (EndpointDelivery d) = od_identity d"
| "row_identity (RouterDelivery _) = 0"

fun row_pending :: "delivery \<Rightarrow> u8" where
  "row_pending (EndpointDelivery d) = od_pending_targets d"
| "row_pending (RouterDelivery _) = 0"

fun row_initialized :: "delivery \<Rightarrow> bool" where
  "row_initialized (EndpointDelivery d) = od_initialized d"
| "row_initialized (RouterDelivery _) = False"

definition retained_outbound_select ::
  "lite_node \<Rightarrow> u64 \<Rightarrow> u8 \<Rightarrow> u32 list \<Rightarrow> queued_outbound option \<times> lite_node" where
  "retained_outbound_select n after blocked generations =
     (let n = expire_outbound (n\<lparr>nd_retained_owner_mode := True\<rparr>) (nd_clock_ms n);
          q = q_iter_mut (\<lambda>q. q\<lparr>qo_delivery := bind_row generations (qo_frame q) (qo_delivery q)\<rparr>) (nd_outbound n)
      in case drain_where (\<lambda>q. row_pending (qo_delivery q) = 0) q of
           (k, q) \<Rightarrow>
             let n = (count st_outbound_dropped_update ^^ k) (n\<lparr>nd_outbound := q\<rparr>)
             in (List.find (\<lambda>q. row_identity (qo_delivery q) > after \<and>
                                row_pending (qo_delivery q) AND NOT blocked \<noteq> 0) (q_iter (nd_outbound n)), n))"

definition retained_outbound_ack :: "lite_node \<Rightarrow> u64 \<Rightarrow> u8 \<Rightarrow> bool \<times> lite_node" where
  "retained_outbound_ack n identity completed =
     (if \<not> nd_retained_owner_mode n \<or> identity = 0 then (False, n)
      else case position (\<lambda>q. row_identity (qo_delivery q) = identity) (q_iter (nd_outbound n)) of
        None \<Rightarrow> (False, n)
      | Some offset \<Rightarrow>
          (case q_get (nd_outbound n) offset of
             None \<Rightarrow> (False, n)
           | Some row \<Rightarrow>
               if \<not> row_initialized (qo_delivery row) then (False, n)
               else let d = clear_pending completed (qo_delivery row);
                        q = q_get_mut (\<lambda>q. q\<lparr>qo_delivery := clear_pending completed (qo_delivery q)\<rparr>)
                              (nd_outbound n) offset
                    in (True, n\<lparr>nd_outbound := (if row_pending d = 0 then snd (q_remove q offset) else q)\<rparr>)))"

definition retained_outbound_take :: "lite_node \<Rightarrow> u64 \<Rightarrow> bool \<times> lite_node" where
  "retained_outbound_take n identity =
     (if \<not> nd_retained_owner_mode n \<or> identity = 0 then (False, n)
      else case position (\<lambda>q. row_identity (qo_delivery q) = identity) (q_iter (nd_outbound n)) of
        None \<Rightarrow> (False, n)
      | Some offset \<Rightarrow>
          (case q_remove (nd_outbound n) offset of (row, q) \<Rightarrow> (row \<noteq> None, n\<lparr>nd_outbound := q\<rparr>)))"

section \<open>Router: construction and endpoint services\<close>

definition new_router ::
  "node_caps \<Rightarrow> lite_config \<Rightarrow> hash16 \<Rightarrow> interface_registry \<Rightarrow> lora_modem_config option
   \<Rightarrow> transport_error + lite_node" where
  "new_router caps config transport_id registry modem =
     (case validate_config caps config of
        Inl e \<Rightarrow> Inl e
      | Inr _ \<Rightarrow>
          (case reg_validate registry (tc_tx_queue_depth (lc_table_caps config)) of
             Inl _ \<Rightarrow> Inl TeInvalidConfig
           | Inr _ \<Rightarrow>
               Inr ((node_new_const caps ROUTER_EMPTY config transport_id)
                      \<lparr>nd_interfaces := RouterModel (router_new registry modem)\<rparr>)))"

definition reset_router_in_place ::
  "node_caps \<Rightarrow> lite_node \<Rightarrow> lite_config \<Rightarrow> hash16 \<Rightarrow> interface_registry \<Rightarrow> lora_modem_config option
   \<Rightarrow> (transport_error + unit) \<times> lite_node" where
  "reset_router_in_place caps n config transport_id registry modem =
     (case reg_validate registry (tc_tx_queue_depth (lc_table_caps config)) of
        Inl _ \<Rightarrow> (Inl TeInvalidConfig, n)
      | Inr _ \<Rightarrow>
          (case reset_in_place caps n config transport_id of
             (Inl e, n) \<Rightarrow> (Inl e, n)
           | (Inr _, n) \<Rightarrow>
               (Inr (), n\<lparr>nd_interfaces := router_mut
                   (\<lambda>r. r\<lparr>rt_registry := registry, rt_lora_modem := modem\<rparr>) (nd_interfaces n)\<rparr>)))"

definition set_own_destination :: "lite_node \<Rightarrow> hash16 option \<Rightarrow> lite_node" where
  "set_own_destination n destination =
     (let n = clear_own_destinations n in
      case destination of None \<Rightarrow> n | Some d \<Rightarrow> snd (register_local_destination n d))"

definition own_destination :: "lite_node \<Rightarrow> hash16 option" where
  "own_destination n = (case own_destinations n of [d] \<Rightarrow> Some d | _ \<Rightarrow> None)"

definition set_watched_destinations :: "lite_node \<Rightarrow> hash16 list \<Rightarrow> bool \<times> lite_node" where
  "set_watched_destinations n destinations =
     (if length destinations > WATCHED_DESTINATIONS_MAX then (False, n)
      else (True, n\<lparr>nd_interfaces := router_mut
              (\<lambda>r. r\<lparr>rt_watched := overwrite (replicate WATCHED_DESTINATIONS_MAX (replicate 16 0)) 0 destinations,
                     rt_watched_len := of_nat (length destinations)\<rparr>) (nd_interfaces n)\<rparr>))"

definition set_local_plain_sink :: "lite_node \<Rightarrow> hash16 option \<Rightarrow> lite_node" where
  "set_local_plain_sink n destination =
     n\<lparr>nd_interfaces := router_mut (\<lambda>r. r\<lparr>rt_plain_sink := destination\<rparr>) (nd_interfaces n)\<rparr>"

definition send_local :: "crypto \<Rightarrow> lite_node \<Rightarrow> interface_id \<Rightarrow> bytes \<Rightarrow> bool \<times> lite_node" where
  "send_local C n i packet =
     enqueue_with_lifetime C n i packet LocalReason (independent_lifetime (nd_clock_ms n))"

section \<open>Router: interfaces\<close>

definition retire_router_interface :: "lite_node \<Rightarrow> interface_id \<Rightarrow> nat \<Rightarrow> lite_node" where
  "retire_router_interface n i slot =
     (let n = n\<lparr>nd_interfaces := router_mut
                  (\<lambda>r. r\<lparr>rt_generations := (rt_generations r)[slot := 0],
                         rt_announce_gates := (rt_announce_gates r)[slot := GATE_OPEN]\<rparr>) (nd_interfaces n),
                nd_discoveries := retire_requester (nd_discoveries n) slot,
                nd_announce_schedule := as_remove_interface (clear_target (nd_announce_schedule n) slot) i,
                nd_paths := path_remove_interface (nd_paths n) i,
                nd_reverse := rev_remove_interface (nd_reverse n) i,
                nd_links := lt_remove_interface (nd_links n) i\<rparr>;
          n = n\<lparr>nd_announce_cache := ac_retain_paths (nd_announce_cache n) (nd_paths n) (nd_clock_ms n)\<rparr>
      in expire_outbound n (nd_clock_ms n))"

text \<open>The following operations exist only for routers; on an endpoint the model leaves the node alone.\<close>

definition register_interface ::
  "lite_node \<Rightarrow> interface_config \<Rightarrow> (config_error + unit) \<times> lite_node" where
  "register_interface n c =
     (case as_router (nd_interfaces n) of
        None \<Rightarrow> (Inl UnknownInterface, n)
      | Some r \<Rightarrow>
          (case interface_validate c (tc_tx_queue_depth (lc_table_caps (nd_config n))) of
             Inl e \<Rightarrow> (Inl e, n)
           | Inr _ \<Rightarrow>
               (case checked_add (rt_last_generation r) 1 of
                  None \<Rightarrow> (Inl InterfaceGenerationExhausted, n)
                | Some generation \<Rightarrow>
                    (case reg_register (rt_registry r) c of
                       (Inl e, registry) \<Rightarrow>
                         (Inl e, n\<lparr>nd_interfaces := RouterModel (r\<lparr>rt_registry := registry\<rparr>)\<rparr>)
                     | (Inr _, registry) \<Rightarrow>
                         (case reg_slot registry (ic_id c) of
                            None \<Rightarrow>
                              (Inl UnknownInterface, n\<lparr>nd_interfaces := RouterModel (r\<lparr>rt_registry := registry\<rparr>)\<rparr>)
                          | Some slot \<Rightarrow>
                              (Inr (),
                               n\<lparr>nd_interfaces := RouterModel (r\<lparr>rt_registry := registry,
                                   rt_last_generation := generation,
                                   rt_generations := (rt_generations r)[slot := generation],
                                   rt_announce_gates := (rt_announce_gates r)[slot := GATE_OPEN]\<rparr>),
                                 nd_announce_schedule := clear_target (nd_announce_schedule n) slot,
                                 nd_discoveries := retire_requester (nd_discoveries n) slot\<rparr>))))))"

definition unregister_interface ::
  "lite_node \<Rightarrow> interface_id \<Rightarrow> (config_error + interface_config) \<times> lite_node" where
  "unregister_interface n i =
     (case as_router (nd_interfaces n) of
        None \<Rightarrow> (Inl UnknownInterface, n)
      | Some r \<Rightarrow>
          (case reg_slot (rt_registry r) i of
             None \<Rightarrow> (Inl UnknownInterface, n)
           | Some slot \<Rightarrow>
               if reg_len (rt_registry r) = 1 then (Inl CannotRemoveLastInterface, n)
               else (case reg_unregister (rt_registry r) i of
                       (Inl e, registry) \<Rightarrow>
                         (Inl e, n\<lparr>nd_interfaces := RouterModel (r\<lparr>rt_registry := registry\<rparr>)\<rparr>)
                     | (Inr removed, registry) \<Rightarrow>
                         (Inr removed, retire_router_interface
                            (n\<lparr>nd_interfaces := RouterModel (r\<lparr>rt_registry := registry\<rparr>)\<rparr>) i slot))))"

definition set_interface_online ::
  "lite_node \<Rightarrow> interface_id \<Rightarrow> bool \<Rightarrow> (config_error + unit) \<times> lite_node" where
  "set_interface_online n i online =
     (case as_router (nd_interfaces n) of
        None \<Rightarrow> (Inl UnknownInterface, n)
      | Some r \<Rightarrow>
          (case reg_slot (rt_registry r) i of
             None \<Rightarrow> (Inl UnknownInterface, n)
           | Some slot \<Rightarrow>
               let was_online = is_some_and (reg_get (rt_registry r) i) ic_online in
               (case (if online \<and> \<not> was_online then
                        (case checked_add (rt_last_generation r) 1 of
                           None \<Rightarrow> None
                         | Some generation \<Rightarrow>
                             Some (r\<lparr>rt_last_generation := generation,
                                     rt_generations := (rt_generations r)[slot := generation]\<rparr>))
                      else Some r) of
                  None \<Rightarrow> (Inl InterfaceGenerationExhausted, n)
                | Some r \<Rightarrow>
                    (case reg_set_online (rt_registry r) i online of
                       (Inl e, registry) \<Rightarrow>
                         (Inl e, n\<lparr>nd_interfaces := RouterModel (r\<lparr>rt_registry := registry\<rparr>)\<rparr>)
                     | (Inr _, registry) \<Rightarrow>
                         let n = n\<lparr>nd_interfaces := RouterModel (r\<lparr>rt_registry := registry\<rparr>)\<rparr>
                         in (Inr (), if online then n else retire_router_interface n i slot)))))"

section \<open>Router: the outbound queue\<close>

definition router_outbound_is_live ::
  "lite_node \<Rightarrow> interface_id \<Rightarrow> outbound_lifetime \<Rightarrow> u64 \<Rightarrow> u64 \<Rightarrow> bool" where
  "router_outbound_is_live n i lifetime target_generation now_ms \<longleftrightarrow>
     delivery_is_current (nd_interfaces n) i (RouterDelivery target_generation) \<and>
     outbound_lifetime_is_live n i lifetime now_ms"

definition interface_frame_offset :: "lite_node \<Rightarrow> interface_id \<Rightarrow> nat option" where
  "interface_frame_offset n i =
     or_else (position (\<lambda>q. row_interface q = i \<and> \<not> row_gated q) (q_iter (nd_outbound n)))
       (position (\<lambda>q. row_interface q = i) (q_iter (nd_outbound n)))"

text \<open>The returned pair is \<^verbatim>\<open>RouterOutboundFrame\<close>: the frame and the registration it was queued for.\<close>

definition poll_tx_for_interface ::
  "lite_node \<Rightarrow> interface_id \<Rightarrow> (outbound_frame \<times> delivery) option \<times> lite_node" where
  "poll_tx_for_interface n i =
     (let n = expire_outbound n (nd_clock_ms n) in
      case interface_frame_offset n i of
        None \<Rightarrow> (None, n)
      | Some offset \<Rightarrow>
          (case q_remove (nd_outbound n) offset of
             (row, q) \<Rightarrow> (map_option (\<lambda>q. (qo_frame q, qo_delivery q)) row, n\<lparr>nd_outbound := q\<rparr>)))"

definition outbound_peek_for_interface :: "lite_node \<Rightarrow> interface_id \<Rightarrow> (nat \<times> outbound_reason) option" where
  "outbound_peek_for_interface n i =
     (case interface_frame_offset n i of
        None \<Rightarrow> None
      | Some offset \<Rightarrow>
          if offset < length (q_iter (nd_outbound n))
          then (let f = qo_frame (q_iter (nd_outbound n) ! offset)
                in Some (length (of_packet f), of_reason f))
          else None)"

end
