(* ===== verification/Node_Inv.thy ===== *)
theory Node_Inv
  imports Node_Ops
begin

text \<open>
  The invariant of a node and its preservation: every table keeps the invariant of its component,
  and every row of the outbound queue has a bounded lifetime, a current registration and a frame
  that fits its interface. The lemmas here are on counters, fields and single table operations.
\<close>

section \<open>The invariant\<close>

definition tables_ok :: "crypto \<Rightarrow> lite_node \<Rightarrow> bool" where
  "tables_ok C n \<longleftrightarrow>
     kd_inv C (nd_known_destinations n) \<and> uniq_keys he_hash (nd_packet_hashes n) \<and> path_inv (nd_paths n) \<and>
     uniq_keys ca_destination_hash (nd_announce_cache n) \<and>
     uniq_keys sa_destination_hash (nd_announce_schedule n) \<and> rev_inv (nd_reverse n) \<and> lt_inv (nd_links n) \<and>
     uniq_keys te_key (nd_request_tags n) \<and> dc_inv (nd_discoveries n)"

definition node_inv :: "crypto \<Rightarrow> lite_node \<Rightarrow> bool" where
  "node_inv C n \<longleftrightarrow> tables_ok C n \<and> queue_ok n"

lemma tables_ok_strip: "strip n' = strip n \<Longrightarrow> tables_ok C n' = tables_ok C n"
  using stripD [of n' n] by (simp add: tables_ok_def)

lemma node_inv_counters [simp]:
  "node_inv C (count u n) = node_inv C n" "node_inv C (rcount v n) = node_inv C n"
  using tables_ok_strip [of "count u n" n] tables_ok_strip [of "rcount v n" n]
  by (simp_all add: node_inv_def)

lemma queue_ok_fields [simp]:
  "queue_ok (n\<lparr>nd_clock_ms := t\<rparr>) = queue_ok n" "queue_ok (n\<lparr>nd_local := s\<rparr>) = queue_ok n"
  "queue_ok (n\<lparr>nd_transport_id := h\<rparr>) = queue_ok n" "queue_ok (n\<lparr>nd_stats := ts\<rparr>) = queue_ok n"
  "queue_ok (n\<lparr>nd_announce_admission := a\<rparr>) = queue_ok n"
  "queue_ok (n\<lparr>nd_known_destinations := k\<rparr>) = queue_ok n" "queue_ok (n\<lparr>nd_packet_hashes := p\<rparr>) = queue_ok n"
  "queue_ok (n\<lparr>nd_paths := q\<rparr>) = queue_ok n" "queue_ok (n\<lparr>nd_announce_cache := c\<rparr>) = queue_ok n"
  "queue_ok (n\<lparr>nd_announce_schedule := e\<rparr>) = queue_ok n" "queue_ok (n\<lparr>nd_reverse := r\<rparr>) = queue_ok n"
  "queue_ok (n\<lparr>nd_links := l\<rparr>) = queue_ok n" "queue_ok (n\<lparr>nd_request_tags := g\<rparr>) = queue_ok n"
  "queue_ok (n\<lparr>nd_last_delivery_identity := i\<rparr>) = queue_ok n"
  "queue_ok (n\<lparr>nd_retained_owner_mode := b\<rparr>) = queue_ok n" "queue_ok (n\<lparr>nd_discoveries := d\<rparr>) = queue_ok n"
  by (rule queue_ok_same; simp)+

text \<open>A field may be replaced by anything that satisfies its component's invariant.\<close>

lemma node_inv_fields [simp]:
  assumes "node_inv C n"
  shows "node_inv C (n\<lparr>nd_clock_ms := t\<rparr>)" "node_inv C (n\<lparr>nd_local := s\<rparr>)"
    "node_inv C (n\<lparr>nd_transport_id := h\<rparr>)" "node_inv C (n\<lparr>nd_announce_admission := a\<rparr>)"
    "node_inv C (n\<lparr>nd_last_delivery_identity := i\<rparr>)" "node_inv C (n\<lparr>nd_retained_owner_mode := b\<rparr>)"
    "node_inv C (n\<lparr>nd_stats := ts\<rparr>)"
    "node_inv C (n\<lparr>nd_known_destinations := k\<rparr>) \<longleftrightarrow> kd_inv C k"
    "node_inv C (n\<lparr>nd_packet_hashes := p\<rparr>) \<longleftrightarrow> uniq_keys he_hash p"
    "node_inv C (n\<lparr>nd_paths := q\<rparr>) \<longleftrightarrow> path_inv q"
    "node_inv C (n\<lparr>nd_announce_cache := c\<rparr>) \<longleftrightarrow> uniq_keys ca_destination_hash c"
    "node_inv C (n\<lparr>nd_announce_schedule := e\<rparr>) \<longleftrightarrow> uniq_keys sa_destination_hash e"
    "node_inv C (n\<lparr>nd_reverse := r\<rparr>) \<longleftrightarrow> rev_inv r" "node_inv C (n\<lparr>nd_links := l\<rparr>) \<longleftrightarrow> lt_inv l"
    "node_inv C (n\<lparr>nd_request_tags := g\<rparr>) \<longleftrightarrow> uniq_keys te_key g"
    "node_inv C (n\<lparr>nd_discoveries := d\<rparr>) \<longleftrightarrow> dc_inv d"
  using assms by (simp_all add: node_inv_def tables_ok_def)

lemma node_invD:
  assumes "node_inv C n"
  shows "kd_inv C (nd_known_destinations n)" "uniq_keys he_hash (nd_packet_hashes n)" "path_inv (nd_paths n)"
    "uniq_keys ca_destination_hash (nd_announce_cache n)"
    "uniq_keys sa_destination_hash (nd_announce_schedule n)" "rev_inv (nd_reverse n)" "lt_inv (nd_links n)"
    "uniq_keys te_key (nd_request_tags n)" "dc_inv (nd_discoveries n)" "queue_ok n"
  using assms by (simp_all add: node_inv_def tables_ok_def)

section \<open>Table operations\<close>

lemma uniq_pht_insert: "uniq_keys he_hash t \<Longrightarrow> uniq_keys he_hash (snd (pht_insert t h e now))"
  using pht.insert_uniq [of t "\<lparr>he_hash = h, he_expires_ms = e\<rparr>" now] by simp

lemma uniq_pht_expire: "uniq_keys he_hash t \<Longrightarrow> uniq_keys he_hash (pht_expire t now)"
  by (simp add: pht_expire_def uniq_keys_clear_where)

lemma uniq_pht_contains: "uniq_keys he_hash t \<Longrightarrow> uniq_keys he_hash (snd (pht_contains t h now))"
  by (simp add: pht_contains_def Let_def uniq_pht_expire)

lemma uniq_tag_insert: "uniq_keys te_key t \<Longrightarrow> uniq_keys te_key (snd (insert_if_new t k e now))"
  using rtt.insert_uniq [of t "\<lparr>te_key = k, te_expires_ms = e\<rparr>" now] by simp

lemma uniq_cache_retain:
  "uniq_keys ca_destination_hash t \<Longrightarrow> uniq_keys ca_destination_hash (ac_retain_paths t p now)"
  by (simp add: ac_retain_paths_def uniq_keys_clear_where)

lemma uniq_schedule_ops:
  assumes "uniq_keys sa_destination_hash t"
  shows "uniq_keys sa_destination_hash (as_remove t d)" "uniq_keys sa_destination_hash (as_expire t now)"
    "uniq_keys sa_destination_hash (as_remove_interface t i)"
    "(\<And>e. sa_destination_hash (f e) = sa_destination_hash e) \<Longrightarrow>
     uniq_keys sa_destination_hash (as_get_mut f t d)"
  using assms by (simp_all add: as_remove_def as_expire_def as_remove_interface_def uniq_keys_clear_where
      as_get_mut_def uniq_keys_update_first)

lemma dc_inv_begin_snd: "dc_inv d \<Longrightarrow> dc_inv (snd (dc_begin d dst slot now timeout))"
  using dc_inv_begin by (metis prod.collapse)

lemmas table_invs = uniq_pht_insert uniq_pht_expire uniq_pht_contains uniq_tag_insert uniq_cache_retain
  ac.insert_uniq as.insert_uniq uniq_schedule_ops path_inv_ops rev_inv_insert rev_inv_expire
  rev_inv_remove_interface rev_inv_clear rev_inv_take lt_inv_ops dc_inv_expire dc_inv_clear dc_inv_retire
  dc_inv_take dc_inv_begin_snd pop_due_uniq release_pending_uniq clear_target_uniq

end
