(* ===== verification/Node_Steps.thy ===== *)
theory Node_Steps
  imports Node_Inv
begin

text \<open>
  Every operation of a node preserves the node invariant. The handlers are taken one by one; the
  frame lemmas for queueing keep their proofs to the tables they touch.
\<close>

section \<open>Queueing\<close>

lemmas enqueue_frame [simp] =
  stripD [OF enqueue_with_lifetime_strip] stripD [OF enqueue_strip]
  stripD [OF enqueue_forwarded_with_lifetime_strip] stripD [OF enqueue_forwarded_strip]
  stripD [OF broadcast_with_lifetime_strip] stripD [OF broadcast_strip] stripD [OF expire_outbound_strip]

lemmas counter_frame [simp] = stripD [OF strip_simps(4)] stripD [OF strip_simps(5)]

lemma node_inv_enqueue:
  assumes "hkdf_law C" "ed_law C" "node_inv C n" "interval_ok l"
  shows "node_inv C (snd (enqueue_with_lifetime C n i p reason l))"
  using assms enqueue_queue_ok [OF assms(1,2) _ assms(4), of n i p reason]
  by (simp add: node_inv_def tables_ok_strip [OF enqueue_with_lifetime_strip])

lemma node_inv_enqueue_packet:
  "hkdf_law C \<Longrightarrow> ed_law C \<Longrightarrow> node_inv C n \<Longrightarrow> node_inv C (snd (enqueue C n i p reason))"
  using packet_lifetime_interval by (simp add: enqueue_def node_inv_enqueue)

lemma node_inv_forwarded_lifetime:
  "hkdf_law C \<Longrightarrow> ed_law C \<Longrightarrow> node_inv C n \<Longrightarrow> interval_ok l \<Longrightarrow>
   node_inv C (snd (enqueue_forwarded_with_lifetime C n s t p reason l))"
  by (rule forwarded_preserves) (simp_all add: node_inv_enqueue)

lemma node_inv_forwarded:
  "hkdf_law C \<Longrightarrow> ed_law C \<Longrightarrow> node_inv C n \<Longrightarrow> node_inv C (snd (enqueue_forwarded C n s t p reason))"
  using packet_lifetime_interval by (simp add: enqueue_forwarded_def node_inv_forwarded_lifetime)

lemma node_inv_broadcast_lifetime:
  "hkdf_law C \<Longrightarrow> ed_law C \<Longrightarrow> node_inv C n \<Longrightarrow> interval_ok l \<Longrightarrow>
   node_inv C (snd (enqueue_packet_broadcast_with_lifetime C n s p reason lo l))"
  by (rule broadcast_preserves) (simp_all add: node_inv_enqueue)

lemma node_inv_broadcast:
  assumes "hkdf_law C" "ed_law C" "node_inv C n"
  shows "node_inv C (snd (enqueue_packet_broadcast C n s p reason lo))"
proof -
  have "interval_ok ((packet_lifetime n p reason)\<lparr>ol_expires_ms :=
      min (ol_expires_ms (packet_lifetime n p reason)) (sat_add (nd_clock_ms n) REQUEST_GATE_MS)\<rparr>)"
    using packet_lifetime_interval [of n p reason] by (intro interval_ok_min) simp_all
  then show ?thesis
    using assms packet_lifetime_interval [of n p reason]
    by (auto simp: enqueue_packet_broadcast_def Let_def intro!: node_inv_broadcast_lifetime)
qed

lemmas node_inv_queueing = node_inv_enqueue node_inv_enqueue_packet node_inv_forwarded_lifetime
  node_inv_forwarded node_inv_broadcast_lifetime node_inv_broadcast

section \<open>Expiry of the queue\<close>

lemma record_expired_outbound_keeps [simp]:
  "nd_outbound ((record_expired_outbound ^^ k) n) = nd_outbound n"
  "nd_interfaces ((record_expired_outbound ^^ k) n) = nd_interfaces n"
  by (induction k) (simp_all add: record_expired_outbound_def)

lemma expire_outbound_rows:
  assumes "q_inv (nd_outbound n)"
  shows "q_inv (nd_outbound (expire_outbound n now))"
    "q_cap (nd_outbound (expire_outbound n now)) = q_cap (nd_outbound n)"
    "rows (expire_outbound n now) = filter (\<lambda>q. \<not> row_stale n now q) (rows n)"
    "nd_interfaces (expire_outbound n now) = nd_interfaces n"
  using drain_where_law [OF assms, of "row_stale n now"]
  by (auto simp: expire_outbound_def split: prod.split)

text \<open>Removing rows keeps the depth bounds.\<close>

lemma depth_ok_filter:
  assumes "depth_ok n" "rows n' = filter P (rows n)" "q_cap (nd_outbound n') = q_cap (nd_outbound n)"
    "nd_interfaces n' = nd_interfaces n" "nd_config n' = nd_config n"
  shows "depth_ok n'"
proof -
  have sub: "length (filter (\<lambda>q. row_interface q = i) (filter P (rows n))) \<le>
      length (filter (\<lambda>q. row_interface q = i) (rows n))" for i
    using length_filter_le [of P "filter (\<lambda>q. row_interface q = i) (rows n)"]
    by (simp add: filter_filter conj_commute)
  show ?thesis
    unfolding depth_ok_def outbound_len_for_interface_def assms(2-5)
    using assms(1) order_trans [OF sub] order_trans [OF length_filter_le [of P "rows n"]]
    unfolding depth_ok_def outbound_len_for_interface_def by blast
qed

lemma expire_outbound_queue_ok: "queue_ok n \<Longrightarrow> queue_ok (expire_outbound n now)"
  using expire_outbound_rows [of n now] depth_ok_filter [of n "expire_outbound n now"]
  by (auto simp: queue_ok_def)

lemma node_inv_expire_outbound: "node_inv C n \<Longrightarrow> node_inv C (expire_outbound n now)"
  using tables_ok_strip [OF expire_outbound_strip, of C n now]
  by (simp add: node_inv_def expire_outbound_queue_ok)

section \<open>Handlers\<close>

lemma node_inv_observe:
  assumes "node_inv C n"
  shows "node_inv C (observe_interface n meta)"
proof (cases "nd_interfaces n")
  case (RouterModel r)
  then have "observe_interface n meta = n" by (cases n) (simp add: observe_interface_def)
  then show ?thesis using assms by simp
next
  case (EndpointModel fs)
  let ?m = "m_observe (nd_interfaces n) meta (nd_config n) (default_clear_mtu n)"
  obtain fs' where m: "?m = EndpointModel fs'"
    using EndpointModel by (cases ?m) (auto simp: Let_def split: option.splits if_splits)
  have "model_inv ?m" using node_invD(10) [OF assms] by (simp add: queue_ok_def)
  with assms EndpointModel m show ?thesis
    by (simp add: observe_interface_def node_inv_def tables_ok_def queue_ok_def depth_ok_def row_ok_def)
qed

lemma node_inv_lifetime_fields:
  "interval_ok ((packet_lifetime n p reason)\<lparr>ol_state := s\<rparr>)"
  using packet_lifetime_interval by simp

lemma node_inv_finish_discovery:
  assumes "hkdf_law C" "ed_law C" "node_inv C n"
  shows "node_inv C (finish_discovery C n r h meta now)"
proof -
  have "node_inv C (answer_requester C q p meta slot n)" if "node_inv C n" for q p slot n
    using that assms(1,2) by (simp add: answer_requester_def Let_def node_inv_enqueue_packet)
  then have "node_inv C (fold (answer_requester C q p meta) slots n)" if "node_inv C n" for q p slots n
    using that by (induction slots arbitrary: n) simp_all
  then show ?thesis
    using assms(3) dc_inv_take [OF node_invD(9) [OF assms(3)], of "ph_destination_hash h" now]
    by (auto simp: finish_discovery_def Let_def split: prod.split option.split sum.split)
qed

lemma hear_rebroadcast_inv:
  assumes "node_inv C n"
  shows "node_inv C (hear_rebroadcast n d h now)"
proof -
  have "sa_destination_hash (snd (rebroadcast_heard h now e)) = sa_destination_hash e" for e
    by (simp add: rebroadcast_heard_def Let_def)
  then show ?thesis
    using assms node_invD(5) [OF assms]
    by (simp add: hear_rebroadcast_def Let_def uniq_schedule_ops split: option.split)
qed

lemma announce_learned_inv:
  assumes laws: "hkdf_law C" "ed_law C" and n: "node_inv C n"
  shows "node_inv C (snd (announce_learned C n r h meta now entry))"
proof -
  define n1 where "n1 = (count st_learned_announces_update n)\<lparr>nd_announce_cache :=
      ac_retain_paths (nd_announce_cache n) (nd_paths n) now\<rparr>"
  have n1: "node_inv C n1"
    using n node_invD(4) [OF n] by (simp add: n1_def uniq_cache_retain)
  define n2 where "n2 stored = finish_discovery C (n1\<lparr>nd_announce_cache := ac_insert (nd_announce_cache n1)
      \<lparr>ca_destination_hash = ph_destination_hash h, ca_raw = stored, ca_hops = ph_hops h,
       ca_expires_ms = pe_expires_ms entry, ca_bulk = pe_bulk entry\<rparr> now\<rparr>) r h meta now" for stored
  have n2: "node_inv C (n2 stored)" for stored
    using n1 node_invD(4) [OF n1] by (simp add: n2_def ac.insert_uniq node_inv_finish_discovery [OF laws])
  have "uniq_keys sa_destination_hash (as_insert (nd_announce_schedule (n2 stored)) e now)" for stored e
    by (rule as.insert_uniq [OF node_invD(5) [OF n2]])
  then show ?thesis
    using n1 n2 unfolding announce_learned_def Let_def counter_frame n1_def [symmetric] n2_def [symmetric]
    by (simp split: sum.split)
qed

lemma announce_update_path_inv:
  assumes laws: "hkdf_law C" "ed_law C" and n: "node_inv C n"
  shows "node_inv C (snd (announce_update_path C n r view h meta now announce))"
proof -
  have n1: "node_inv C (hear_rebroadcast n d hops now)" for d hops by (rule hear_rebroadcast_inv [OF n])
  have "node_inv C ((hear_rebroadcast n d hops now)\<lparr>nd_paths :=
      snd (path_insert_or_update (nd_paths (hear_rebroadcast n d hops now)) e now)\<rparr>)" for d hops e
    using n1 path_inv_insert [OF node_invD(3) [OF n1]] by simp
  then show ?thesis
    by (simp add: announce_update_path_def Let_def split_beta announce_learned_inv [OF laws])
qed

lemma handle_announce_inv:
  assumes laws: "hkdf_law C" "ed_law C" and n: "node_inv C n"
  shows "node_inv C (snd (handle_announce C n r view h meta now))"
proof -
  have learn: "kd_inv C (snd (kd_learn C (nd_known_destinations n) d (av_public_key v) now))"
    if "announce_parse p f m = Inr v" for d v p f m
    using kd_inv_learn [OF node_invD(1) [OF n]] announce_parse_InrD(1) [OF that]
    by (metis PUBLIC_KEY_LENGTH_def prod.collapse)
  then show ?thesis
    using n unfolding handle_announce_def Let_def
    by (auto simp: split_beta learn announce_update_path_inv [OF laws] split: sum.split)
qed

lemma answer_from_path_inv:
  assumes laws: "hkdf_law C" "ed_law C" and n: "node_inv C n"
    and r: "answer_from_path C n d q mode i now = Some (res, n')"
  shows "node_inv C n'"
  using r n node_inv_enqueue_packet [OF laws n]
  by (auto simp: answer_from_path_def split_beta split: option.splits if_splits sum.splits)

lemma forward_request_inv:
  assumes laws: "hkdf_law C" "ed_law C" and n: "node_inv C n"
  shows "node_inv C (snd (forward_request C n d tag i lo))"
  using n node_inv_broadcast [OF laws n] by (simp add: forward_request_def split_beta split: sum.split)

text \<open>A discovery that has just begun ends in the future.\<close>

lemma dc_begin_deadline:
  assumes "dc_begin d dst slot now timeout = (BeginNew g, d')"
  shows "now \<le> unwrap_or (dc_deadline d' g) now"
proof -
  have "now < de_expires_ms e" if "e \<in> set (dc_entries d')" "de_identity e \<noteq> 0" for e
  proof -
    have live: "now < de_expires_ms e" if "e \<in> set (dc_entries (dc_expire d now))" "de_identity e \<noteq> 0" for e
      using that by (auto simp: dc_expire_def DE_EMPTY_def de_live_def split: if_splits)
    show ?thesis
      using assms that
      by (auto simp: dc_begin_def Let_def not_le split: if_splits option.splits
          dest!: set_update_subset_insert [THEN subsetD] intro: live)
  qed
  then show ?thesis
    by (auto simp: unwrap_or_def dc_deadline_def intro: less_imp_le split: option.split dest!: find_SomeD)
qed

lemma discover_path_inv:
  assumes laws: "hkdf_law C" "ed_law C" and n: "node_inv C n"
  shows "node_inv C (snd (discover_path C n d tag i now))"
proof (cases "interface_slot n i")
  case None
  then show ?thesis using n by (simp add: discover_path_def)
next
  case (Some slot)
  let ?t = "discovery_timeout (slowest_outbound_bitrate n i)"
  obtain b dd where b: "dc_begin (nd_discoveries n) d slot now ?t = (b, dd)"
    by (cases "dc_begin (nd_discoveries n) d slot now ?t")
  have n1: "node_inv C (n\<lparr>nd_discoveries := dd\<rparr>)"
    using n dc_inv_begin [OF node_invD(9) [OF n] b] by simp
  have "sat_add now REQUEST_GATE_MS \<le> sat_add now OUTBOUND_MAX_AGE_MS"
    by (rule sat_add_mono2) (simp add: REQUEST_GATE_MS_def OUTBOUND_MAX_AGE_MS_def)
  then have "interval_ok \<lparr>ol_enqueued_ms = now, ol_expires_ms = min (sat_add now REQUEST_GATE_MS)
      (unwrap_or (dc_deadline dd g) now), ol_path = 0, ol_state = OsDiscovery g\<rparr>" if "b = BeginNew g" for g
    using dc_begin_deadline b that by (auto simp: interval_ok_def min_def)
  then show ?thesis
    using n n1 Some b node_inv_broadcast_lifetime [OF laws n1]
    by (auto simp: discover_path_def Let_def split_beta split: begin_discovery.split sum.split)
qed

lemma node_inv_if:
  "\<lbrakk>b \<Longrightarrow> node_inv C (snd x); \<not> b \<Longrightarrow> node_inv C (snd y)\<rbrakk> \<Longrightarrow> node_inv C (snd (if b then x else y))"
  by simp

lemma handle_path_request_inv:
  assumes laws: "hkdf_law C" "ed_law C" and n: "node_inv C n"
  shows "node_inv C (snd (handle_path_request C n p meta now))"
proof -
  have n1: "node_inv C (n\<lparr>nd_request_tags := snd (insert_if_new (nd_request_tags n) k e now)\<rparr>)" for k e
    using n uniq_tag_insert [OF node_invD(8) [OF n]] by simp
  have a: "node_inv C (snd (case answer_from_path C m d q mode i now of
      Some result \<Rightarrow> result | None \<Rightarrow> if b then forward_request C m d tag i False
        else if b' then discover_path C m d tag i now else if b'' then forward_request C m d tag i True
        else (Inr IaDropped, m)))" if m: "node_inv C m" for m d q mode i b b' b'' tag
    using answer_from_path_inv [OF laws m, of d q mode i now] m forward_request_inv [OF laws m]
      discover_path_inv [OF laws m]
    by (cases "answer_from_path C m d q mode i now") (simp_all, metis prod.collapse)
  show ?thesis
    unfolding handle_path_request_def Let_def split_beta
    by (intro node_inv_if a; simp add: n n1)
qed

lemma handle_transport_forward_inv:
  assumes laws: "hkdf_law C" "ed_law C" and n: "node_inv C n"
  shows "node_inv C (snd (handle_transport_forward C n r oh h meta now))"
proof -
  have n1: "node_inv C (snd (enqueue_forwarded_with_lifetime C n s t p TransportForward
      ((packet_lifetime n p TransportForward)\<lparr>ol_state := OsReverse g\<rparr>)))" for s t p g
    by (rule node_inv_forwarded_lifetime [OF laws n node_inv_lifetime_fields])
  show ?thesis
    using n n1 path_inv_touch [OF node_invD(3) [OF n]] rev_inv_insert [OF node_invD(6) [OF n]]
    unfolding handle_transport_forward_def Let_def
    by (simp add: split_beta split: sum.split option.split bool.split)
qed

lemma handle_link_request_inv:
  assumes laws: "hkdf_law C" "ed_law C" and n: "node_inv C n"
  shows "node_inv C (snd (handle_link_request C n r oh h meta now))"
proof -
  define n1 where "n1 = n\<lparr>nd_links := snd (has_free_slot (nd_links n) now)\<rparr>"
  have n1: "node_inv C n1"
    using n lt_inv_has_free_slot [OF node_invD(7) [OF n]] by (simp add: n1_def)
  have n2: "node_inv C (snd (enqueue_forwarded_with_lifetime C n1 s t p TransportForward
      ((packet_lifetime n1 p TransportForward)\<lparr>ol_state := OsLink g\<rparr>)))" for s t p g
    by (rule node_inv_forwarded_lifetime [OF laws n1 node_inv_lifetime_fields])
  show ?thesis
    using n n1 n2 path_inv_touch [OF node_invD(3) [OF n1]] lt_inv_insert [OF node_invD(7) [OF n1]]
    unfolding handle_link_request_def Let_def split_beta n1_def [symmetric]
    by (simp split: sum.split option.split bool.split)
qed

lemma forward_link_packet_inv:
  assumes laws: "hkdf_law C" "ed_law C" and n: "node_inv C n"
  shows "node_inv C (snd (forward_link_packet C n r h meta now reason link t tracked))"
proof -
  have n1: "node_inv C (snd (enqueue_forwarded C n s t p reason))" for s t p
    by (rule node_inv_forwarded [OF laws n])
  show ?thesis
    using n n1 uniq_pht_insert [OF node_invD(2) [OF n]] lt_inv_touch [OF node_invD(7) [OF n]]
    unfolding forward_link_packet_def Let_def
    by (simp add: split_beta split: sum.split option.split bool.split)
qed

lemma route_link_packet_inv:
  assumes laws: "hkdf_law C" "ed_law C" and n: "node_inv C n"
  shows "node_inv C (snd (route_link_packet C n r h meta now reason))"
proof -
  have n1: "node_inv C (n\<lparr>nd_packet_hashes := snd (pht_contains (nd_packet_hashes n) hash now)\<rparr>)" for hash
    using n uniq_pht_contains [OF node_invD(2) [OF n]] by simp
  show ?thesis
    unfolding route_link_packet_def Let_def split_beta
    by (simp add: n n1 forward_link_packet_inv [OF laws] split: sum.split option.split)
qed

lemma handle_lrproof_inv:
  assumes laws: "hkdf_law C" "ed_law C" and n: "node_inv C n"
  shows "node_inv C (snd (handle_lrproof C n r h meta now link))"
proof -
  define n1 where "n1 hash = n\<lparr>nd_packet_hashes := snd (pht_contains (nd_packet_hashes n) hash now)\<rparr>" for hash
  have n1: "node_inv C (n1 hash)" for hash
    using n uniq_pht_contains [OF node_invD(2) [OF n]] by (simp add: n1_def)
  have n2: "node_inv C (snd (enqueue_forwarded C (n1 hash) s t p reason))" for hash s t p reason
    by (rule node_inv_forwarded [OF laws n1])
  show ?thesis
    using n n1 n2 uniq_pht_insert [OF node_invD(2) [OF n1]] lt_inv_mark_validated [OF node_invD(7) [OF n1]]
    unfolding handle_lrproof_def Let_def split_beta n1_def [symmetric]
    by (simp split: sum.split bool.split)
qed

lemma return_proof_inv:
  assumes laws: "hkdf_law C" "ed_law C" and n: "node_inv C n" and now: "nd_clock_ms n = now"
  shows "node_inv C (snd (return_proof C n r h meta now))"
proof (cases "take_with_generation (nd_reverse n) (ph_destination_hash h) now")
  case (Pair taken t)
  define n1 where "n1 = n\<lparr>nd_reverse := t\<rparr>"
  have t: "rev_inv t" using rev_inv_take [OF node_invD(6) [OF n]] Pair by (metis snd_conv)
  then have n1: "node_inv C n1" using n by (simp add: n1_def)
  show ?thesis
  proof (cases taken)
    case None
    then show ?thesis using n n1 Pair by (simp add: return_proof_def n1_def)
  next
    case (Some eg)
    obtain e g where eg: "eg = (e, g)" by (cases eg)
    have take: "take_with_generation (nd_reverse n) (ph_destination_hash h) now = (Some (e, g), t)"
      using Pair Some eg by simp
    have live: "now < re_expires_ms e"
      using take by (rule take_with_generation_Some)
        (auto simp: rev_expire_def gt_clear_where_def clear_where_def not_le split: option.splits if_splits)
    have "interval_ok ((packet_lifetime n1 p ProofReturn)\<lparr>ol_expires_ms :=
        min (re_expires_ms e) (sat_add now OUTBOUND_MAX_AGE_MS)\<rparr>)" for p
      using packet_lifetime_interval [of n1 p ProofReturn] now live
      by (auto simp: interval_ok_def n1_def min_def)
    then have n2: "node_inv C (snd (enqueue_forwarded_with_lifetime C n1 s d p ProofReturn
        ((packet_lifetime n1 p ProofReturn)\<lparr>ol_expires_ms :=
          min (re_expires_ms e) (sat_add now OUTBOUND_MAX_AGE_MS)\<rparr>)))" for s d p
      by (rule node_inv_forwarded_lifetime [OF laws n1])
    have "nd_reverse n1 = t" by (simp add: n1_def)
    then show ?thesis
      using n n1 n2 restore_take [OF node_invD(6) [OF n] take]
      unfolding return_proof_def Let_def take n1_def [symmetric]
      by (simp add: split_beta n1_def [symmetric] split: sum.split bool.split)
  qed
qed

lemma handle_proof_inv:
  assumes laws: "hkdf_law C" "ed_law C" and n: "node_inv C n" and now: "nd_clock_ms n = now"
  shows "node_inv C (snd (handle_proof C n r h meta now))"
proof -
  obtain b n1 where b: "route_link_packet C n r h meta now ProofReturn = (b, n1)"
    by (cases "route_link_packet C n r h meta now ProofReturn")
  have n1: "node_inv C n1" using route_link_packet_inv [OF laws n] b by (metis snd_conv)
  have "nd_clock_ms n1 = now" if "b = Inr False"
    using b that now
    by (auto simp: route_link_packet_def forward_link_packet_def Let_def split_beta
        split: if_splits option.splits sum.splits bool.splits)
  with b n n1 show ?thesis
    by (auto simp: handle_proof_def handle_lrproof_inv [OF laws] return_proof_inv [OF laws]
        split: option.split sum.split bool.split)
qed

section \<open>Ingest\<close>

lemma ingest_begin_inv:
  assumes "node_inv C n"
  shows "node_inv C (ingest_begin n meta now)" "nd_clock_ms (ingest_begin n meta now) = now"
proof -
  define n1 where "n1 = observe_interface (n\<lparr>nd_clock_ms := now\<rparr>) meta"
  have n1: "node_inv C n1" using assms by (simp add: n1_def node_inv_observe)
  then have "node_inv C (n1\<lparr>nd_discoveries := dc_clear (nd_discoveries n1)\<rparr>)"
    using dc_inv_clear by simp
  then show "node_inv C (ingest_begin n meta now)"
    using n1 dc_inv_expire [OF node_invD(9) [OF n1]] dc_inv_expire [OF dc_inv_clear]
    by (simp add: ingest_begin_def Let_def n1_def [symmetric] node_inv_expire_outbound)
  show "nd_clock_ms (ingest_begin n meta now) = now"
    by (simp add: ingest_begin_def Let_def observe_interface_def)
qed

lemma router_ingress_frame:
  "strip (snd (router_ingress n i k)) = strip n" "nd_outbound (snd (router_ingress n i k)) = nd_outbound n"
  by (simp_all add: router_ingress_def Let_def count_def rcount_def strip_def split: option.split)

lemma ingest_ingress_inv:
  assumes "node_inv C n"
  shows "node_inv C (snd (ingest_ingress C n r meta now))" "nd_clock_ms (snd (ingest_ingress C n r meta now)) = now"
proof -
  define n1 where "n1 = snd (router_ingress (ingest_begin n meta now) (rx_interface_id meta) (length r))"
  note frame = router_ingress_frame [of "ingest_begin n meta now" "rx_interface_id meta" "length r"]
  have "node_inv C n1" "nd_clock_ms n1 = now"
    using ingest_begin_inv [OF assms] tables_ok_strip [OF frame(1)] queue_ok_strip [OF frame] stripD(2) [OF frame(1)]
    by (simp_all add: n1_def node_inv_def)
  then show "node_inv C (snd (ingest_ingress C n r meta now))"
    "nd_clock_ms (snd (ingest_ingress C n r meta now)) = now"
    unfolding ingest_ingress_def Let_def split_beta n1_def [symmetric]
    by (simp_all split: sum.split bool.split option.split)
qed

lemma hashlist_duplicate_inv:
  assumes "node_inv C n"
  shows "node_inv C (snd (hashlist_duplicate C' n r h now l))"
    "nd_clock_ms (snd (hashlist_duplicate C' n r h now l)) = nd_clock_ms n"
  using assms uniq_pht_insert [OF node_invD(2) [OF assms]]
  by (simp_all add: hashlist_duplicate_def Let_def split_beta)

lemma bridge_plain_broadcast_inv:
  assumes "hkdf_law C" "ed_law C" "node_inv C n"
  shows "node_inv C (snd (bridge_plain_broadcast C n r h i))"
  using assms node_inv_broadcast [OF assms]
  by (simp add: bridge_plain_broadcast_def Let_def split_beta split: sum.split)

lemma handle_data_inv:
  assumes laws: "hkdf_law C" "ed_law C" and n: "node_inv C n"
  shows "node_inv C (snd (handle_data C n r view h meta now))"
proof -
  have "node_inv C (snd (route_link_packet C n r h meta now TransportForward))"
    by (rule route_link_packet_inv [OF laws n])
  then show ?thesis
    unfolding handle_data_def split_beta
    by (simp add: handle_path_request_inv [OF laws] bridge_plain_broadcast_inv [OF laws]
        handle_transport_forward_inv [OF laws] split: sum.split bool.split)
qed

lemma dispatch_inv:
  assumes "hkdf_law C" "ed_law C" "node_inv C n" "nd_clock_ms n = now"
  shows "node_inv C (snd (dispatch C n r view h meta now))"
  using assms by (simp add: dispatch_def handle_announce_inv handle_data_inv handle_link_request_inv
      handle_proof_inv split: packet_type.split)

lemma ingest_result_inv: "node_inv C n \<Longrightarrow> node_inv C (snd (snd (ingest_result n r h res b)))"
  by (simp add: ingest_result_def Let_def split_beta split: sum.split transport_error.split)

lemma ingest_packet_inv:
  assumes laws: "hkdf_law C" "ed_law C" and n: "node_inv C n" "nd_clock_ms n = now"
  shows "node_inv C (snd (snd (ingest_packet C n r meta now l b)))"
proof -
  define n1 where "n1 h = snd (hashlist_duplicate C (count st_accepted_update n) r h now l)" for h
  have n1: "node_inv C (n1 h)" "nd_clock_ms (n1 h) = now" for h
    using n hashlist_duplicate_inv [of C "count st_accepted_update n" C r h now l] by (simp_all add: n1_def)
  show ?thesis
    unfolding ingest_packet_def Let_def split_beta n1_def [symmetric]
    using n by (simp add: n1 ingest_result_inv dispatch_inv [OF laws n1(1) n1(2)] split: sum.split bool.split)
qed

lemma ingest_inner_inv:
  assumes laws: "hkdf_law C" "ed_law C" and n: "node_inv C n"
  shows "node_inv C (snd (snd (ingest_inner C n r meta now l b)))"
  using ingest_ingress_inv [OF n, of r meta now] unfolding ingest_inner_def split_beta
  by (simp add: ingest_packet_inv [OF laws] split_beta split: sum.split)

end
