(* ===== verification/Node_Frames.thy ===== *)
theory Node_Frames
  imports Node_Steps
begin

text \<open>
  What each packet handler leaves alone: the configuration, local slots, interfaces, and those of the
  route, link and duplicate tables that are not its own.
\<close>

definition fixed :: "lite_node \<Rightarrow> lite_config \<times> local_slot list \<times> hash16 \<times> model" where
  "fixed n = (nd_config n, nd_local n, nd_transport_id n, model_core (nd_interfaces n))"

lemma fixedD:
  assumes "fixed n' = fixed n"
  shows "nd_config n' = nd_config n" "nd_local n' = nd_local n" "nd_transport_id n' = nd_transport_id n"
    "model_core (nd_interfaces n') = model_core (nd_interfaces n)"
  using assms by (simp_all add: fixed_def)

lemma fixed_strip: "strip n' = strip n \<Longrightarrow> fixed n' = fixed n"
  using stripD [of n' n] by (simp add: fixed_def)

lemma fixed_fields [simp]:
  "fixed (n\<lparr>nd_packet_hashes := a\<rparr>) = fixed n" "fixed (n\<lparr>nd_paths := b\<rparr>) = fixed n"
  "fixed (n\<lparr>nd_announce_cache := c\<rparr>) = fixed n" "fixed (n\<lparr>nd_announce_schedule := d\<rparr>) = fixed n"
  "fixed (n\<lparr>nd_reverse := e\<rparr>) = fixed n" "fixed (n\<lparr>nd_links := f\<rparr>) = fixed n"
  "fixed (n\<lparr>nd_request_tags := g\<rparr>) = fixed n" "fixed (n\<lparr>nd_discoveries := h\<rparr>) = fixed n"
  "fixed (n\<lparr>nd_announce_admission := i\<rparr>) = fixed n" "fixed (n\<lparr>nd_known_destinations := j\<rparr>) = fixed n"
  "fixed (n\<lparr>nd_clock_ms := k\<rparr>) = fixed n" "fixed (n\<lparr>nd_stats := l\<rparr>) = fixed n"
  "fixed (count u n) = fixed n" "fixed (rcount v n) = fixed n"
  by (simp_all add: fixed_def)

lemmas fixed_queueing [simp] =
  fixed_strip [OF enqueue_with_lifetime_strip] fixed_strip [OF enqueue_strip]
  fixed_strip [OF enqueue_forwarded_with_lifetime_strip] fixed_strip [OF enqueue_forwarded_strip]
  fixed_strip [OF broadcast_with_lifetime_strip] fixed_strip [OF broadcast_strip] fixed_strip [OF expire_outbound_strip]

text \<open>\<open>n'\<close> agrees with \<open>n\<close> on the frame of an announce or a path request: all but routes may be
  excepted.\<close>

definition same_frame :: "lite_node \<Rightarrow> lite_node \<Rightarrow> bool" where
  "same_frame n' n \<longleftrightarrow> fixed n' = fixed n \<and> nd_links n' = nd_links n \<and> nd_packet_hashes n' = nd_packet_hashes n"

lemma same_frame_refl [simp]: "same_frame n n" by (simp add: same_frame_def)

lemma same_frame_strip: "strip n' = strip n \<Longrightarrow> same_frame n' n"
  using fixed_strip [of n' n] stripD(7,12) [of n' n] by (simp add: same_frame_def)

lemma same_frame_trans: "same_frame n'' n' \<Longrightarrow> same_frame n' n \<Longrightarrow> same_frame n'' n"
  by (simp add: same_frame_def)

lemma same_frame_fields [simp]:
  "same_frame (n'\<lparr>nd_paths := b\<rparr>) n = same_frame n' n" "same_frame (n'\<lparr>nd_announce_cache := c\<rparr>) n = same_frame n' n"
  "same_frame (n'\<lparr>nd_announce_schedule := d\<rparr>) n = same_frame n' n" "same_frame (n'\<lparr>nd_reverse := e\<rparr>) n = same_frame n' n"
  "same_frame (n'\<lparr>nd_request_tags := g\<rparr>) n = same_frame n' n" "same_frame (n'\<lparr>nd_discoveries := h\<rparr>) n = same_frame n' n"
  "same_frame (n'\<lparr>nd_announce_admission := i\<rparr>) n = same_frame n' n"
  "same_frame (n'\<lparr>nd_known_destinations := j\<rparr>) n = same_frame n' n"
  "same_frame (n'\<lparr>nd_stats := l\<rparr>) n = same_frame n' n" "same_frame (count u n') n = same_frame n' n"
  "same_frame (rcount v n') n = same_frame n' n"
  by (simp_all add: same_frame_def)

lemma same_frame_queueing [simp]:
  "same_frame (snd (enqueue_with_lifetime C n' i p reason l)) n = same_frame n' n"
  "same_frame (snd (enqueue C n' i p reason)) n = same_frame n' n"
  "same_frame (snd (enqueue_forwarded_with_lifetime C n' s t p reason l)) n = same_frame n' n"
  "same_frame (snd (enqueue_forwarded C n' s t p reason)) n = same_frame n' n"
  "same_frame (snd (enqueue_packet_broadcast_with_lifetime C n' s p reason lo l)) n = same_frame n' n"
  "same_frame (snd (enqueue_packet_broadcast C n' s p reason lo)) n = same_frame n' n"
  by (simp_all add: same_frame_def)

lemma finish_discovery_frame:
  "same_frame (finish_discovery C n' r h meta now) n = same_frame n' n"
  "nd_paths (finish_discovery C n' r h meta now) = nd_paths n'"
proof -
  have one: "strip (answer_requester C q p meta slot m) = strip m" for q p slot m
    by (simp add: answer_requester_def Let_def)
  have "strip (fold (answer_requester C q p meta) slots m) = strip m" for q p slots m
    by (induction slots arbitrary: m) (simp_all add: one)
  note f = this
  have s: "same_frame (fold (answer_requester C q p meta) slots m) n = same_frame m n"
    "nd_paths (fold (answer_requester C q p meta) slots m) = nd_paths m" for q p slots m
    unfolding same_frame_def stripD [OF f] fixed_strip [OF f] by (rule refl)+
  show "same_frame (finish_discovery C n' r h meta now) n = same_frame n' n"
    "nd_paths (finish_discovery C n' r h meta now) = nd_paths n'"
    unfolding finish_discovery_def Let_def split_beta
    by (simp_all add: s split: option.split sum.split)
qed

lemma hear_rebroadcast_frame [simp]:
  "same_frame (hear_rebroadcast n' d hops now) n = same_frame n' n"
  "nd_paths (hear_rebroadcast n' d hops now) = nd_paths n'"
  by (simp_all add: hear_rebroadcast_def Let_def split: option.split)

lemma announce_learned_frame [simp]:
  "same_frame (snd (announce_learned C n' r h meta now e)) n = same_frame n' n"
  "nd_paths (snd (announce_learned C n' r h meta now e)) = nd_paths n'"
  unfolding announce_learned_def Let_def
  by (simp_all add: finish_discovery_frame split: sum.split)

lemma answer_from_path_frame:
  "answer_from_path C n d q mode i now = Some res \<Longrightarrow> strip (snd res) = strip n"
  by (auto simp: answer_from_path_def split_beta split: option.splits if_splits sum.splits)

lemma forward_request_strip [simp]: "strip (snd (forward_request C n d tag i lo)) = strip n"
  by (simp add: forward_request_def split_beta split: sum.split)

lemma discover_path_frame [simp]:
  "same_frame (snd (discover_path C n' d tag i now)) n = same_frame n' n"
  "nd_paths (snd (discover_path C n' d tag i now)) = nd_paths n'"
  by (simp_all add: discover_path_def Let_def split_beta split: option.split begin_discovery.split sum.split)

lemma handle_path_request_frame:
  "same_frame (snd (handle_path_request C n p meta now)) n"
  "nd_paths (snd (handle_path_request C n p meta now)) = nd_paths n"
proof -
  define ok where "ok m \<longleftrightarrow> same_frame m n \<and> nd_paths m = nd_paths n" for m
  have strip: "ok m'" if "strip m' = strip m" "ok m" for m m'
    using that same_frame_strip [OF that(1)] stripD(8) [OF that(1)] same_frame_trans by (auto simp: ok_def)
  have a: "ok (snd (case answer_from_path C m d q mode i now of
      Some result \<Rightarrow> result | None \<Rightarrow> if b then forward_request C m d tag i False
        else if b' then discover_path C m d tag i now else if b'' then forward_request C m d tag i True
        else (Inr IaDropped, m)))" if m: "ok m" for m d q mode i b b' b'' tag
    using answer_from_path_frame [of C m d q mode i now] m strip [OF _ m] strip [OF forward_request_strip m]
    by (cases "answer_from_path C m d q mode i now") (simp_all, simp add: ok_def)
  have n1: "ok (n\<lparr>nd_request_tags := t\<rparr>)" and n2: "ok (count u m) = ok m" for t u m by (simp_all add: ok_def)
  have if_ok: "\<lbrakk>b \<Longrightarrow> ok (snd x); \<not> b \<Longrightarrow> ok (snd y)\<rbrakk> \<Longrightarrow> ok (snd (if b then x else y))"
    for b and x y :: "(transport_error + ingest_action) \<times> lite_node" by simp
  have "ok n" by (simp add: ok_def)
  then have "ok (snd (handle_path_request C n p meta now))"
    unfolding handle_path_request_def Let_def split_beta by (intro if_ok a n1; simp add: n1 n2)
  then show "same_frame (snd (handle_path_request C n p meta now)) n"
    "nd_paths (snd (handle_path_request C n p meta now)) = nd_paths n" by (simp_all add: ok_def)
qed

lemma bridge_plain_broadcast_strip [simp]: "strip (snd (bridge_plain_broadcast C n r h i)) = strip n"
  by (simp add: bridge_plain_broadcast_def Let_def split_beta split: sum.split)

lemma handle_transport_forward_frame:
  "same_frame (snd (handle_transport_forward C n r oh h meta now)) n"
  "nd_paths (snd (handle_transport_forward C n r oh h meta now)) \<in>
     {nd_paths n, path_touch (nd_paths n) (ph_destination_hash h) now}"
  unfolding handle_transport_forward_def Let_def split_beta
  by (simp_all split: sum.split option.split bool.split)

lemma return_proof_frame:
  "same_frame (snd (return_proof C n r h meta now)) n"
  "nd_paths (snd (return_proof C n r h meta now)) = nd_paths n"
  unfolding return_proof_def Let_def split_beta
  by (simp_all split: sum.split option.split bool.split)

text \<open>A packet that belongs to no transit link passes \<^verbatim>\<open>route_link_packet\<close> untouched.\<close>

lemma route_link_packet_other:
  "lt_get (nd_links n) (ph_destination_hash h) now = None \<Longrightarrow>
   route_link_packet C n r h meta now reason = (Inr False, n)"
  by (simp add: route_link_packet_def)

lemma route_link_packet_frame:
  "fixed (snd (route_link_packet C n r h meta now reason)) = fixed n"
  "nd_paths (snd (route_link_packet C n r h meta now reason)) = nd_paths n"
  unfolding route_link_packet_def forward_link_packet_def Let_def split_beta
  by (simp_all split: sum.split option.split bool.split)

end
