(* ===== verification/Node_Reach.thy ===== *)
theory Node_Reach
  imports Node_Steps
begin

text \<open>
  The rest of the node's operations preserve the invariant: \<^verbatim>\<open>tick\<close>, the interface operations of both
  models, the queue operations of the host and resets.
\<close>

section \<open>Changes to a router\<close>

text \<open>A router may change in any way that leaves the interfaces with queued frames registered as they
  were, and rows may be dropped.\<close>

lemma queue_ok_router:
  assumes ok: "queue_ok n" and n: "nd_interfaces n = RouterModel r" and n': "nd_interfaces n' = RouterModel r'"
    and r': "model_inv (RouterModel r')" "registry_ok (RouterModel r')"
    and q: "q_inv (nd_outbound n')" "q_cap (nd_outbound n') = q_cap (nd_outbound n)"
    and c: "nd_config n' = nd_config n" and rows: "rows n' = filter P (rows n)"
    and same: "\<And>q. q \<in> set (rows n) \<Longrightarrow> P q \<Longrightarrow> reg_get (rt_registry r') (row_interface q) =
        reg_get (rt_registry r) (row_interface q) \<and> rt_generation r' (row_interface q) = rt_generation r (row_interface q)"
  shows "queue_ok n'"
proof -
  have "row_ok (RouterModel r') q" if "q \<in> set (rows n')" for q
    using that ok same [of q] n rows
    by (cases "qo_delivery q") (auto simp: queue_ok_def row_ok_def rt_interface_def)
  moreover have "depth_ok n'"
  proof -
    have "outbound_len_for_interface n' i \<le> ic_tx_queue_depth d" if d: "rt_interface r' i = Some d" for i d
    proof (cases "filter (\<lambda>q. row_interface q = i) (rows n')")
      case Nil
      then show ?thesis by (simp add: outbound_len_for_interface_def)
    next
      case (Cons q qs)
      then have "q \<in> set (filter (\<lambda>q. row_interface q = i) (rows n'))" by simp
      then have "q \<in> set (rows n)" "P q" "row_interface q = i" using rows by auto
      then have "rt_interface r i = Some d" using d same by (auto simp: rt_interface_def)
      then have "outbound_len_for_interface n i \<le> ic_tx_queue_depth d"
        using ok n by (simp add: queue_ok_def depth_ok_def)
      moreover have "outbound_len_for_interface n' i \<le> outbound_len_for_interface n i"
        using length_filter_le [of P "filter (\<lambda>q. row_interface q = i) (rows n)"]
        by (simp add: outbound_len_for_interface_def rows filter_filter conj_commute)
      ultimately show ?thesis by simp
    qed
    moreover have "length (rows n') \<le> length (rows n)" using rows by simp
    ultimately show ?thesis
      using ok n n' q c by (fastforce simp: queue_ok_def depth_ok_def)
  qed
  ultimately show ?thesis using n' r' q by (simp add: queue_ok_def)
qed

lemma queue_ok_router_fields:
  assumes ok: "queue_ok n"
    and r': "\<And>r. rt_registry (f r) = rt_registry r \<and> rt_generations (f r) = rt_generations r \<and>
      length (rt_announce_gates (f r)) = length (rt_announce_gates r) \<and>
      (length (rt_watched r) = WATCHED_DESTINATIONS_MAX \<longrightarrow> length (rt_watched (f r)) = WATCHED_DESTINATIONS_MAX)"
  shows "queue_ok (n\<lparr>nd_interfaces := router_mut f (nd_interfaces n)\<rparr>)"
proof (cases "nd_interfaces n")
  case (EndpointModel fs)
  with ok show ?thesis by (cases n) simp
next
  case (RouterModel r)
  have gen: "rt_generation (f r) i = rt_generation r i" for i
    using r' [of r] by (simp add: rt_generation_def split: option.split)
  show ?thesis
    by (rule queue_ok_router [OF ok RouterModel, where P = "\<lambda>_. True" and r' = "f r"])
      (use ok RouterModel r' [of r] gen in \<open>simp_all add: queue_ok_def\<close>)
qed

lemma node_inv_router_fields:
  assumes "node_inv C n"
    and "\<And>r. rt_registry (f r) = rt_registry r \<and> rt_generations (f r) = rt_generations r \<and>
      length (rt_announce_gates (f r)) = length (rt_announce_gates r) \<and>
      (length (rt_watched r) = WATCHED_DESTINATIONS_MAX \<longrightarrow> length (rt_watched (f r)) = WATCHED_DESTINATIONS_MAX)"
  shows "node_inv C (n\<lparr>nd_interfaces := router_mut f (nd_interfaces n)\<rparr>)"
  using assms queue_ok_router_fields [of n f] by (simp add: node_inv_def tables_ok_def)

section \<open>Tick\<close>

lemma reschedule_inv: "node_inv C n \<Longrightarrow> node_inv C (reschedule n a h now)"
  using as.insert_uniq [OF node_invD(5)] by (simp add: reschedule_def Let_def)

lemma tick_announce_inv:
  assumes "hkdf_law C" "ed_law C" "node_inv C n"
  shows "node_inv C (tick_announce C n a now)"
  using assms by (simp add: tick_announce_def Let_def reschedule_inv node_inv_enqueue_packet split: option.split)

lemma tick_announces_inv:
  assumes "hkdf_law C" "ed_law C" "node_inv C n"
  shows "node_inv C (tick_announces C n now)"
  using assms
proof (induction C n now rule: tick_announces.induct)
  case (1 C n now)
  obtain x t where x: "pop_due (nd_announce_schedule n) now = (x, t)"
    by (cases "pop_due (nd_announce_schedule n) now")
  have "uniq_keys sa_destination_hash t"
    using pop_due_uniq [OF node_invD(5) [OF 1(4)], of now] x by simp
  then have n1: "node_inv C (n\<lparr>nd_announce_schedule := t\<rparr>)" using 1(4) by simp
  show ?case
  proof (cases x)
    case None
    then show ?thesis using n1 x by (simp add: tick_announces.simps)
  next
    case (Some a)
    then show ?thesis
      using 1(1) [OF x [symmetric] Some 1(2,3) tick_announce_inv [OF 1(2,3) n1]] x
      by (simp add: tick_announces.simps [of C n])
  qed
qed

lemma charge_gate_inv: "node_inv C n \<Longrightarrow> node_inv C (charge_gate n slot now sp)"
  unfolding charge_gate_def by (rule node_inv_router_fields) simp_all

lemma release_slot_inv:
  assumes "hkdf_law C" "ed_law C" "node_inv C n"
  shows "node_inv C (release_slot C slot target now n)"
  using assms
proof (induction C slot target now n rule: release_slot.induct)
  case (1 C slot target now n)
  obtain x t where x: "release_pending (nd_announce_schedule n) slot now = (x, t)"
    by (cases "release_pending (nd_announce_schedule n) slot now")
  have t: "uniq_keys sa_destination_hash t"
    using release_pending_uniq [OF node_invD(5) [OF 1(4)], of slot now] x by simp
  then have n1: "node_inv C (n\<lparr>nd_announce_schedule := t\<rparr>)" using 1(4) by simp
  show ?case
  proof (cases x)
    case None
    then show ?thesis using n1 x by (simp add: release_slot.simps)
  next
    case (Some a)
    define n1 where "n1 = n\<lparr>nd_announce_schedule := t\<rparr>"
    have n1: "node_inv C n1" using \<open>node_inv C (n\<lparr>nd_announce_schedule := t\<rparr>)\<close> by (simp add: n1_def)
    have n2: "node_inv C (n1\<lparr>nd_announce_schedule := as_remove t d\<rparr>)" for d
      using n1 uniq_schedule_ops(1) [OF t] by simp
    have n3: "node_inv C (snd (enqueue_forwarded C n1 s d p AnnounceRebroadcast))" for s d p
      by (rule node_inv_forwarded [OF 1(2,3) n1])
    note IH = 1(1) [OF x [symmetric] Some n1_def _ 1(2,3) n2]
    show ?thesis
      unfolding release_slot.simps [of C slot target now n] x Some Let_def split_beta
      using IH n3 by (simp add: n1_def [symmetric] charge_gate_inv split: bool.split option.split)
  qed
qed

lemma release_gated_announces_inv:
  assumes "hkdf_law C" "ed_law C" "node_inv C n"
  shows "node_inv C (release_gated_announces C n now)"
proof -
  have "node_inv C (release_gated_slot C now slot n)" if "node_inv C n" for slot n
    using that assms(1,2) by (simp add: release_gated_slot_def release_slot_inv split: option.split)
  then have "node_inv C (fold (release_gated_slot C now) slots n)" if "node_inv C n" for slots n
    using that by (induction slots arbitrary: n) simp_all
  then show ?thesis using assms(3) by (simp add: release_gated_announces_def)
qed

lemma tick_expire_inv:
  assumes "node_inv C n"
  shows "node_inv C (tick_expire n now)"
proof -
  have "uniq_keys ca_destination_hash (ac_expire (nd_announce_cache n) now)"
    "uniq_keys te_key (rtt_expire (nd_request_tags n) now)"
    using node_invD(4,8) [OF assms] by (simp_all add: ac_expire_def rtt_expire_def uniq_keys_clear_where)
  then show ?thesis
    unfolding tick_expire_def Let_def
    using assms node_invD [OF assms]
    by (intro node_inv_expire_outbound)
      (simp add: node_inv_def tables_ok_def table_invs)
qed

lemma tick_inv: "hkdf_law C \<Longrightarrow> ed_law C \<Longrightarrow> node_inv C n \<Longrightarrow> node_inv C (tick C n now)"
  by (simp add: tick_def release_gated_announces_inv tick_announces_inv tick_expire_inv)

section \<open>Router interfaces\<close>

lemma reg_slot_Some:
  assumes "reg_inv r"
  shows "reg_slot r j = Some k \<longleftrightarrow> k < length r \<and> (\<exists>c. r ! k = Some c \<and> ic_id c = j)"
proof
  assume "reg_slot r j = Some k"
  then show "k < length r \<and> (\<exists>c. r ! k = Some c \<and> ic_id c = j)"
    using position_SomeD [of "\<lambda>s. is_some_and s (\<lambda>c. ic_id c = j)" r k]
    by (auto simp: reg_slot_def elim!: is_some_andE)
next
  assume k: "k < length r \<and> (\<exists>c. r ! k = Some c \<and> ic_id c = j)"
  then obtain c where c: "r ! k = Some c" "ic_id c = j" by blast
  then have "Some c \<in> set r" using k nth_mem by fastforce
  then have "reg_slot r j \<noteq> None" using c reg_slot_iff(1) [OF assms] reg_get_None by blast
  then obtain k' where k': "reg_slot r j = Some k'" by blast
  obtain c' where "k' < length r" "r ! k' = Some c'" "reg_get r j = Some c'"
    using reg_slot_iff(2) [OF assms k'] by blast
  then have "k' = k"
    using uniq_keys_index [of ic_id r k' k c' c] assms k c reg_get_iff [OF assms] by (simp add: reg_inv_def)
  then show "reg_slot r j = Some k" using k' by simp
qed

text \<open>One slot of the registry is rewritten for the interface \<open>i\<close>: nothing changes for the others.\<close>

lemma reg_slot_write:
  assumes r: "reg_inv r" "reg_inv (r[slot := v])"
    and own: "\<And>c. r ! slot = Some c \<Longrightarrow> ic_id c = i" "\<And>c. v = Some c \<Longrightarrow> ic_id c = i" and j: "j \<noteq> i"
  shows "reg_slot (r[slot := v]) j = reg_slot r j" "reg_get (r[slot := v]) j = reg_get r j"
    "slot < length r \<Longrightarrow> reg_slot r j \<noteq> Some slot"
proof -
  have eq: "reg_slot (r[slot := v]) j = Some k \<longleftrightarrow> reg_slot r j = Some k" for k
    using own j by (cases "k = slot") (auto simp: reg_slot_Some [OF r(1)] reg_slot_Some [OF r(2)])
  then show slot: "reg_slot (r[slot := v]) j = reg_slot r j"
    by (cases "reg_slot r j") (simp_all, metis not_None_eq)
  show other: "reg_slot r j \<noteq> Some slot" if "slot < length r"
    using own(1) j by (auto simp: reg_slot_Some [OF r(1)])
  show "reg_get (r[slot := v]) j = reg_get r j"
  proof (cases "reg_slot r j")
    case None
    then show ?thesis using slot reg_slot_iff(1) [OF r(1)] reg_slot_iff(1) [OF r(2)] by metis
  next
    case (Some k)
    then have "k \<noteq> slot" using own(1) j by (auto simp: reg_slot_Some [OF r(1)])
    then show ?thesis
      using reg_slot_iff(2) [OF r(1) Some] reg_slot_iff(2) [OF r(2), of j k] Some slot by auto
  qed
qed

lemma registry_ok_iff:
  assumes "reg_inv (rt_registry r)"
  shows "registry_ok (RouterModel r) \<longleftrightarrow>
    (\<forall>i c. reg_get (rt_registry r) i = Some c \<longrightarrow> interface_validate c (ic_tx_queue_depth c) = Inr () \<and>
       (ic_online c \<longrightarrow> rt_generation r i \<noteq> 0))"
  using reg_get_iff [OF assms] by auto

lemma queue_ok_slot:
  assumes ok: "queue_ok n" and n: "nd_interfaces n = RouterModel r" and n': "nd_interfaces n' = RouterModel r'"
    and slot: "slot < REQUESTERS" and own: "\<And>c. rt_registry r ! slot = Some c \<Longrightarrow> ic_id c = i"
    and v: "\<And>c. v = Some c \<Longrightarrow>
        ic_id c = i \<and> interface_validate c (ic_tx_queue_depth c) = Inr () \<and> (ic_online c \<longrightarrow> g \<noteq> 0)"
    and r': "rt_registry r' = (rt_registry r)[slot := v]" "reg_inv (rt_registry r')"
      "rt_generations r' = (rt_generations r)[slot := g]"
      "length (rt_announce_gates r') = length (rt_announce_gates r)" "rt_watched r' = rt_watched r"
    and q: "q_inv (nd_outbound n')" "q_cap (nd_outbound n') = q_cap (nd_outbound n)"
    and c: "nd_config n' = nd_config n" and rows: "rows n' = filter P (rows n)"
    and same: "\<And>q. q \<in> set (rows n) \<Longrightarrow> P q \<Longrightarrow> row_interface q = i \<Longrightarrow>
        reg_get (rt_registry r') i = reg_get (rt_registry r) i \<and> rt_generation r' i = rt_generation r i"
  shows "queue_ok n'"
proof -
  have m: "model_inv (RouterModel r)" and g: "registry_ok (RouterModel r)"
    using ok n by (simp_all add: queue_ok_def)
  then have reg: "reg_inv (rt_registry r)" and len: "length (rt_registry r) = REQUESTERS"
      "length (rt_generations r) = REQUESTERS"
    by (simp_all add: reg_inv_def MAX_INTERFACES_def REQUESTERS_def)
  note w = reg_slot_write [OF reg r'(2) [unfolded r'(1)] own v [THEN conjunct1]]
  have other: "reg_get (rt_registry r') j = reg_get (rt_registry r) j \<and>
      rt_generation r' j = rt_generation r j" if "j \<noteq> i" for j
    using w [of j] that slot len by (auto simp: r' rt_generation_def nth_list_update split: option.split)
  have "rt_generation r' i \<noteq> 0" if on: "reg_get (rt_registry r') i = Some c" "ic_online c" for c
  proof -
    obtain k where k: "reg_slot (rt_registry r') i = Some k"
      using on(1) reg_slot_iff(1) [OF r'(2), of i] by (cases "reg_slot (rt_registry r') i") auto
    show ?thesis
    proof (cases "k = slot")
      case True
      then show ?thesis
        using reg_slot_iff(2) [OF r'(2) k] on v slot len k by (auto simp: rt_generation_def r')
    next
      case False
      then have "rt_registry r ! k = Some c"
        using reg_slot_iff(2) [OF r'(2) k] on by (auto simp: r')
      moreover have "reg_slot (rt_registry r) i = Some k"
        using reg_slot_Some [OF reg] reg_slot_Some [OF r'(2)] k False by (auto simp: r')
      moreover from calculation have "reg_get (rt_registry r) i = Some c"
        using reg_slot_iff(2) [OF reg, of i k] by auto
      then have "rt_generation r i \<noteq> 0" using g [unfolded registry_ok_iff [OF reg]] on(2) by blast
      ultimately show ?thesis using k False by (simp add: rt_generation_def r')
    qed
  qed
  moreover have "interface_validate c (ic_tx_queue_depth c) = Inr ()"
    if "Some c \<in> set (rt_registry r')" for c
  proof (cases "v = Some c")
    case False
    then have "Some c \<in> set (rt_registry r)"
      using that r'(1) set_update_subset_insert [of "rt_registry r" slot v] by auto
    then show ?thesis using g by simp
  qed (use v in blast)
  ultimately have "registry_ok (RouterModel r')"
    using g other reg_get_iff [OF r'(2)] unfolding registry_ok_iff [OF reg] registry_ok_iff [OF r'(2)] by metis
  moreover have "model_inv (RouterModel r')" using m r' by simp
  moreover have "reg_get (rt_registry r') (row_interface q) = reg_get (rt_registry r) (row_interface q) \<and>
      rt_generation r' (row_interface q) = rt_generation r (row_interface q)" if "q \<in> set (rows n)" "P q" for q
    using same [OF that] other by (cases "row_interface q = i") blast+
  ultimately show ?thesis by (intro queue_ok_router [OF ok n n' _ _ q c rows]) simp_all
qed

text \<open>Retiring an interface that has left the registry or gone offline drops its rows.\<close>

lemma retire_router_interface_inv:
  assumes inv: "node_inv C n" and n: "nd_interfaces n = RouterModel r" and slot: "slot < REQUESTERS"
    and own: "\<And>c. rt_registry r ! slot = Some c \<Longrightarrow> ic_id c = i"
    and v: "\<And>c. v = Some c \<Longrightarrow>
        ic_id c = i \<and> interface_validate c (ic_tx_queue_depth c) = Inr () \<and> \<not> ic_online c" and reg: "reg_inv ((rt_registry r)[slot := v])"
    and gone: "\<And>k. reg_slot ((rt_registry r)[slot := v]) i = Some k \<Longrightarrow> k = slot"
  shows "node_inv C (retire_router_interface
    (n\<lparr>nd_interfaces := RouterModel (r\<lparr>rt_registry := (rt_registry r)[slot := v]\<rparr>)\<rparr>) i slot)"
proof -
  define r' where "r' = r\<lparr>rt_registry := (rt_registry r)[slot := v], rt_generations := (rt_generations r)[slot := 0],
    rt_announce_gates := (rt_announce_gates r)[slot := GATE_OPEN]\<rparr>"
  obtain n1 where n1: "retire_router_interface
      (n\<lparr>nd_interfaces := RouterModel (r\<lparr>rt_registry := (rt_registry r)[slot := v]\<rparr>)\<rparr>) i slot =
      expire_outbound n1 (nd_clock_ms n)" "nd_interfaces n1 = RouterModel r'" "nd_config n1 = nd_config n"
    "nd_outbound n1 = nd_outbound n" "tables_ok C n1"
    using inv by (simp add: retire_router_interface_def Let_def r'_def node_inv_def tables_ok_def table_invs)
  have ok: "queue_ok n" and q: "q_inv (nd_outbound n1)" and len: "length (rt_generations r) = REQUESTERS"
    using inv n n1 by (simp_all add: node_inv_def queue_ok_def)
  have g: "rt_generation r' i = 0"
    using gone slot len by (auto simp: rt_generation_def r'_def split: option.split)
  have "queue_ok (expire_outbound n1 (nd_clock_ms n))"
  proof (rule queue_ok_slot [OF ok n _ slot own, where r' = r' and v = v and g = 0])
    fix q assume "\<not> row_stale n1 (nd_clock_ms n) q" "row_interface q = i"
    then show "reg_get (rt_registry r') i = reg_get (rt_registry r) i \<and> rt_generation r' i = rt_generation r i"
      using g n1(2) by (cases "qo_delivery q") (auto simp: row_stale_def)
  qed (use expire_outbound_rows [OF q, of "nd_clock_ms n"] n1 v reg in \<open>auto simp: r'_def\<close>)
  then show ?thesis using n1(1,5) by (simp add: node_inv_def tables_ok_strip [OF expire_outbound_strip])
qed

text \<open>The slot each registry operation writes.\<close>

lemma reg_register_Inr:
  assumes "reg_inv r" "reg_register r c = (Inr u, r')"
  obtains slot where "slot < length r" "r ! slot = None" "r' = r[slot := Some c]" "reg_get r (ic_id c) = None"
    "reg_inv r'" "reg_slot r' (ic_id c) = Some slot"
proof -
  obtain slot where slot: "position (\<lambda>s. s = None) r = Some slot" "r' = r[slot := Some c]"
      "reg_get r (ic_id c) = None"
    using assms(2) by (auto simp: reg_register_def split: if_splits option.splits)
  have inv: "reg_inv r'" using reg_register_refines [OF assms(1), of c] assms(2) by simp
  then have "reg_slot r' (ic_id c) = Some slot"
    using position_SomeD(1) [OF slot(1)] by (subst reg_slot_Some) (simp_all add: slot(2))
  then show thesis using that position_SomeD [OF slot(1)] slot(2,3) inv by blast
qed

lemma reg_register_Inl: "reg_register r c = (Inl e, r') \<Longrightarrow> r' = r"
  by (auto simp: reg_register_def split: if_splits option.splits)

lemma reg_slot_entry:
  assumes "reg_inv r" "reg_slot r i = Some slot"
  obtains c where "slot < REQUESTERS" "slot < length r" "r ! slot = Some c" "ic_id c = i" "reg_get r i = Some c"
  using reg_slot_iff(2) [OF assms] assms reg_get_iff [OF assms(1)]
  by (auto simp: reg_inv_def MAX_INTERFACES_def REQUESTERS_def)

lemma reg_set_online_slot:
  assumes "reg_slot r i = Some slot" "slot < length r" "r ! slot = Some c" "reg_get r i = Some c"
  shows "reg_set_online r i b = (Inr (), r[slot := Some (c\<lparr>ic_online := b\<rparr>)])"
  using assms by (simp add: reg_set_online_def reg_get_mut_def update_first_position reg_slot_def)

text \<open>Where a row may be queued, the interface is online.\<close>

lemma row_interface_online:
  assumes "queue_ok n" "nd_interfaces n = RouterModel r" "q \<in> set (rows n)"
  obtains c where "reg_get (rt_registry r) (row_interface q) = Some c" "ic_online c"
proof -
  have "m_online (RouterModel r) (row_interface q)" using assms by (auto simp: queue_ok_def row_ok_def)
  then show thesis using that by (auto elim!: is_some_andE)
qed

lemma register_interface_inv:
  assumes inv: "node_inv C n"
  shows "node_inv C (snd (register_interface n c))"
proof (cases "nd_interfaces n")
  case (EndpointModel fs)
  then show ?thesis using inv by (simp add: register_interface_def)
next
  case (RouterModel r)
  have ok: "queue_ok n" by (rule node_invD(10) [OF inv])
  have reg: "reg_inv (rt_registry r)" and q: "q_inv (nd_outbound n)"
    using ok RouterModel by (simp_all add: queue_ok_def)
  show ?thesis
  proof (cases "interface_validate c (tc_tx_queue_depth (lc_table_caps (nd_config n)))")
    case (Inl e)
    then show ?thesis using inv RouterModel by (simp add: register_interface_def)
  next
    case valid: (Inr w)
    note valid' = interface_validate_own [OF valid]
    obtain res registry where res: "reg_register (rt_registry r) c = (res, registry)"
      by (cases "reg_register (rt_registry r) c")
    show ?thesis
    proof (cases res)
      case (Inl e)
      then have "registry = rt_registry r" using res reg_register_Inl by simp
      then have "n\<lparr>nd_interfaces := RouterModel (r\<lparr>rt_registry := registry\<rparr>)\<rparr> = n"
        using RouterModel by (cases n) simp
      with Inl RouterModel res inv show ?thesis by (simp add: register_interface_def split: sum.split option.split)
    next
      case (Inr u)
      with res obtain slot where slot: "slot < length (rt_registry r)" "rt_registry r ! slot = None"
          "registry = (rt_registry r)[slot := Some c]" "reg_get (rt_registry r) (ic_id c) = None"
          "reg_inv registry" "reg_slot registry (ic_id c) = Some slot"
        using reg_register_Inr [OF reg] by metis
      then have lt: "slot < REQUESTERS" using reg by (simp add: reg_inv_def MAX_INTERFACES_def REQUESTERS_def)
      define r' where "r' g = r\<lparr>rt_registry := registry, rt_last_generation := g,
        rt_generations := (rt_generations r)[slot := g],
        rt_announce_gates := (rt_announce_gates r)[slot := GATE_OPEN]\<rparr>" for g
      define n1 where "n1 g = n\<lparr>nd_interfaces := RouterModel (r' g),
        nd_announce_schedule := clear_target (nd_announce_schedule n) slot,
        nd_discoveries := retire_requester (nd_discoveries n) slot\<rparr>" for g
      have "queue_ok (n1 g)" if g: "g \<noteq> 0" for g
      proof (rule queue_ok_slot [OF ok RouterModel _ lt, where i = "ic_id c" and v = "Some c" and g = g
            and r' = "r' g" and P = "\<lambda>_. True"])
        fix q assume "q \<in> set (rows n)" "row_interface q = ic_id c"
        then have False using row_interface_online [OF ok RouterModel, of q] slot(4) by auto
        then show "reg_get (rt_registry (r' g)) (ic_id c) = reg_get (rt_registry r) (ic_id c) \<and>
            rt_generation (r' g) (ic_id c) = rt_generation r (ic_id c)" ..
      qed (use q g slot valid' in \<open>simp_all add: n1_def r'_def\<close>)
      moreover have "tables_ok C (n1 g)" for g
        using inv by (simp add: n1_def node_inv_def tables_ok_def table_invs)
      ultimately have n1: "node_inv C (n1 g)" if "g \<noteq> 0" for g using that by (simp add: node_inv_def)
      have "g \<noteq> 0" if "checked_add (rt_last_generation r) 1 = Some g" for g
        using checked_add_one_gt [OF that] by auto
      then show ?thesis
        using n1 inv RouterModel res Inr slot(6)
        by (simp add: register_interface_def n1_def r'_def split: sum.split option.split)
    qed
  qed
qed

lemma unregister_interface_inv:
  assumes inv: "node_inv C n"
  shows "node_inv C (snd (unregister_interface n i))"
proof (cases "nd_interfaces n")
  case (EndpointModel fs)
  then show ?thesis using inv by (simp add: unregister_interface_def)
next
  case (RouterModel r)
  have reg: "reg_inv (rt_registry r)" using node_invD(10) [OF inv] RouterModel by (simp add: queue_ok_def)
  show ?thesis
  proof (cases "reg_slot (rt_registry r) i")
    case None
    then show ?thesis using inv RouterModel by (simp add: unregister_interface_def)
  next
    case (Some slot)
    obtain c where c: "slot < REQUESTERS" "slot < length (rt_registry r)" "rt_registry r ! slot = Some c"
        "ic_id c = i"
      using reg_slot_entry [OF reg Some] by metis
    have u: "reg_unregister (rt_registry r) i = (Inr c, (rt_registry r)[slot := None])"
      using Some c by (simp add: reg_unregister_def)
    have reg': "reg_inv ((rt_registry r)[slot := None])"
      and get: "reg_get ((rt_registry r)[slot := None]) i = None"
      using reg_unregister_refines [OF reg, of i] u by (auto simp: map_unregister_def split: option.splits)
    have "reg_slot ((rt_registry r)[slot := None]) i = None"
      using reg_slot_iff(1) [OF reg'] get by simp
    then have "node_inv C (retire_router_interface
        (n\<lparr>nd_interfaces := RouterModel (r\<lparr>rt_registry := (rt_registry r)[slot := None]\<rparr>)\<rparr>) i slot)"
      using c reg' by (intro retire_router_interface_inv [OF inv RouterModel]) auto
    then show ?thesis using inv RouterModel Some u by (simp add: unregister_interface_def)
  qed
qed

lemma set_interface_online_inv:
  assumes inv: "node_inv C n"
  shows "node_inv C (snd (set_interface_online n i online))"
proof (cases "nd_interfaces n")
  case (EndpointModel fs)
  then show ?thesis using inv by (simp add: set_interface_online_def)
next
  case (RouterModel r)
  have ok: "queue_ok n" by (rule node_invD(10) [OF inv])
  have reg: "reg_inv (rt_registry r)" and q: "q_inv (nd_outbound n)"
    using ok RouterModel by (simp_all add: queue_ok_def)
  show ?thesis
  proof (cases "reg_slot (rt_registry r) i")
    case None
    then show ?thesis using inv RouterModel by (simp add: set_interface_online_def)
  next
    case (Some slot)
    obtain c where c: "slot < REQUESTERS" "slot < length (rt_registry r)" "rt_registry r ! slot = Some c"
        "ic_id c = i" "reg_get (rt_registry r) i = Some c"
      using reg_slot_entry [OF reg Some] by metis
    have valid: "interface_validate c (ic_tx_queue_depth c) = Inr ()"
      using ok RouterModel c(2,3) nth_mem [of slot "rt_registry r"] by (simp add: queue_ok_def)
    define registry where "registry = (rt_registry r)[slot := Some (c\<lparr>ic_online := online\<rparr>)]"
    note upd = reg_set_online_slot [OF Some c(2,3,5), of online, folded registry_def]
    have reg': "reg_inv registry" using reg_set_online_refines [OF reg, of i online] upd by simp
    have slot': "reg_slot registry i = Some k \<Longrightarrow> k = slot" for k
      using reg_slot_Some [OF reg', of i slot] c(2,4) by (simp add: registry_def)
    consider (off) "\<not> online" | (same) "online" "ic_online c" | (up) "online" "\<not> ic_online c" by blast
    then show ?thesis
    proof cases
      case off
      have "node_inv C (retire_router_interface
          (n\<lparr>nd_interfaces := RouterModel (r\<lparr>rt_registry := registry\<rparr>)\<rparr>) i slot)"
        unfolding registry_def using c off reg' slot' valid
        by (intro retire_router_interface_inv [OF inv RouterModel]) (auto simp: registry_def)
      then show ?thesis using off RouterModel Some upd by (simp add: set_interface_online_def)
    next
      case same
      then have "c\<lparr>ic_online := online\<rparr> = c" by (cases c) simp
      then have "registry = rt_registry r" using c(2,3) by (simp add: registry_def list_update_same_conv)
      then have "n\<lparr>nd_interfaces := RouterModel (r\<lparr>rt_registry := registry\<rparr>)\<rparr> = n"
        using RouterModel by (cases n) simp
      then show ?thesis using same inv RouterModel Some upd c(5) by (simp add: set_interface_online_def)
    next
      case up
      define r' where "r' g = r\<lparr>rt_last_generation := g, rt_generations := (rt_generations r)[slot := g],
        rt_registry := registry\<rparr>" for g
      have "queue_ok (n\<lparr>nd_interfaces := RouterModel (r' g)\<rparr>)" if g: "g \<noteq> 0" for g
      proof (rule queue_ok_slot [OF ok RouterModel _ c(1), where i = i and v = "Some (c\<lparr>ic_online := online\<rparr>)"
            and g = g and r' = "r' g" and P = "\<lambda>_. True"])
        fix q assume "q \<in> set (rows n)" "row_interface q = i"
        then have False using row_interface_online [OF ok RouterModel, of q] c(5) up by auto
        then show "reg_get (rt_registry (r' g)) i = reg_get (rt_registry r) i \<and>
            rt_generation (r' g) i = rt_generation r i" ..
      qed (use q g c reg' valid in \<open>simp_all add: r'_def registry_def\<close>)
      then have n1: "node_inv C (n\<lparr>nd_interfaces := RouterModel (r' g)\<rparr>)" if "g \<noteq> 0" for g
        using that inv by (simp add: node_inv_def tables_ok_def)
      have "g \<noteq> 0" if "checked_add (rt_last_generation r) 1 = Some g" for g
        using checked_add_one_gt [OF that] by auto
      then show ?thesis
        using n1 up inv RouterModel Some upd c(5)
        by (simp add: set_interface_online_def r'_def split: option.split)
    qed
  qed
qed

section \<open>Taking frames off the queue\<close>

lemma queue_ok_sub:
  assumes "queue_ok n" "q_inv q" "q_cap q = q_cap (nd_outbound n)" "set (q_iter q) \<subseteq> set (rows n)"
    and "\<And>P. length (filter P (q_iter q)) \<le> length (filter P (rows n))"
  shows "queue_ok (n\<lparr>nd_outbound := q\<rparr>)"
  using assms(1-4) assms(5) [of "\<lambda>_. True"] order_trans [OF assms(5)]
  by (auto simp: queue_ok_def depth_ok_def outbound_len_for_interface_def)

lemma queue_ok_pop: "queue_ok n \<Longrightarrow> queue_ok (n\<lparr>nd_outbound := snd (q_pop (nd_outbound n))\<rparr>)"
  using q_pop_law [OF _ surjective_pairing, of "nd_outbound n"]
  by (intro queue_ok_sub; cases "rows n") (auto simp: queue_ok_def)

lemma filter_list_remove_le: "length (filter P (list_remove k xs)) \<le> length (filter P xs)"
proof (induction xs arbitrary: k)
  case (Cons x xs)
  then show ?case
    by (cases k) (auto simp: list_remove_def intro: le_SucI)
qed (simp add: list_remove_def)

lemma queue_ok_remove: "queue_ok n \<Longrightarrow> queue_ok (n\<lparr>nd_outbound := snd (q_remove (nd_outbound n) k)\<rparr>)"
proof (rule queue_ok_sub)
  assume "queue_ok n"
  then have "q_inv (nd_outbound n)" by (simp add: queue_ok_def)
  note r = q_remove_law [OF this surjective_pairing, of k]
  show "q_inv (snd (q_remove (nd_outbound n) k))"
    "q_cap (snd (q_remove (nd_outbound n) k)) = q_cap (nd_outbound n)"
    "set (q_iter (snd (q_remove (nd_outbound n) k))) \<subseteq> set (rows n)"
    using r set_list_remove [of k "rows n"] by simp_all
  show "length (filter P (q_iter (snd (q_remove (nd_outbound n) k)))) \<le> length (filter P (rows n))" for P
    using r by (simp add: filter_list_remove_le)
qed

lemma node_inv_outbound: "node_inv C n \<Longrightarrow> queue_ok (n\<lparr>nd_outbound := q\<rparr>) \<Longrightarrow> node_inv C (n\<lparr>nd_outbound := q\<rparr>)"
  by (simp add: node_inv_def tables_ok_def)

lemma poll_tx_inv: "node_inv C n \<Longrightarrow> node_inv C (snd (poll_tx n))"
  using node_inv_outbound [OF node_inv_expire_outbound queue_ok_pop [OF expire_outbound_queue_ok]]
  by (simp add: poll_tx_def Let_def split_beta node_invD(10))

lemma poll_tx_for_interface_inv: "node_inv C n \<Longrightarrow> node_inv C (snd (poll_tx_for_interface n i))"
  using node_inv_outbound [OF node_inv_expire_outbound queue_ok_remove [OF expire_outbound_queue_ok]]
  by (simp add: poll_tx_for_interface_def Let_def split_beta node_inv_expire_outbound node_invD(10)
      split: option.split)

section \<open>Endpoint interfaces and the retained queue\<close>

text \<open>On an endpoint only lifetimes and the shape of queue and facts matter.\<close>

lemma endpoint_queue_ok:
  "nd_interfaces n = EndpointModel fs \<Longrightarrow> queue_ok n \<longleftrightarrow>
     length fs = REQUESTERS \<and> q_inv (nd_outbound n) \<and> (\<forall>q \<in> set (rows n). interval_ok (of_lifetime (qo_frame q)))"
  by (auto simp: queue_ok_def row_ok_def depth_ok_def)

lemma queue_ok_set_fact:
  assumes "queue_ok n" "\<not> is_router (nd_interfaces n)"
  shows "queue_ok (n\<lparr>nd_interfaces := set_fact (nd_interfaces n) slot f\<rparr>)"
  using assms by (cases "nd_interfaces n") (simp_all add: endpoint_queue_ok)

lemma is_router_set_fact [simp]: "is_router (set_fact m slot f) = is_router m"
  by (cases m) simp_all

lemma queue_ok_delivery:
  assumes "queue_ok n" "\<not> is_router (nd_interfaces n)" "q_inv q"
    "qo_frame ` set (q_iter q) \<subseteq> qo_frame ` set (rows n)"
  shows "queue_ok (n\<lparr>nd_outbound := q\<rparr>)"
  using assms by (cases "nd_interfaces n") (auto simp: endpoint_queue_ok)

lemma queue_ok_iter_mut:
  assumes "queue_ok n" "\<not> is_router (nd_interfaces n)"
  shows "queue_ok (n\<lparr>nd_outbound := q_iter_mut (\<lambda>q. q\<lparr>qo_delivery := f q\<rparr>) (nd_outbound n)\<rparr>)"
  using assms q_iter_mut_law [of "nd_outbound n" "\<lambda>q. q\<lparr>qo_delivery := f q\<rparr>"]
  by (intro queue_ok_delivery) (auto simp: queue_ok_def image_image)

text \<open>What the interface operations of an endpoint keep.\<close>

definition endpoint_inv :: "crypto \<Rightarrow> lite_node \<Rightarrow> bool" where
  "endpoint_inv C n \<longleftrightarrow> node_inv C n \<and> \<not> is_router (nd_interfaces n)"

lemma endpoint_inv_set_fact:
  "endpoint_inv C n \<Longrightarrow> endpoint_inv C (n\<lparr>nd_interfaces := set_fact (nd_interfaces n) slot f\<rparr>)"
  using queue_ok_set_fact [of n slot f] by (simp add: endpoint_inv_def node_inv_def tables_ok_def)

lemma endpoint_inv_iter_mut:
  "endpoint_inv C n \<Longrightarrow>
   endpoint_inv C (n\<lparr>nd_outbound := q_iter_mut (\<lambda>q. q\<lparr>qo_delivery := f q\<rparr>) (nd_outbound n)\<rparr>)"
  using queue_ok_iter_mut [of n f] by (simp add: endpoint_inv_def node_inv_def tables_ok_def)

lemma endpoint_inv_expire: "endpoint_inv C n \<Longrightarrow> endpoint_inv C (expire_outbound n now)"
  using node_inv_expire_outbound [of C n now]
  by (simp add: endpoint_inv_def expire_outbound_rows(4) node_inv_def queue_ok_def)

lemma retained_outbound_retire_inv:
  assumes "endpoint_inv C n"
  shows "endpoint_inv C (retained_outbound_retire_interface n i)"
proof -
  define n1 where "n1 = (case interface_slot n i of
      None \<Rightarrow> n | Some slot \<Rightarrow> n\<lparr>nd_interfaces := set_fact (nd_interfaces n) slot (\<lambda>f. f\<lparr>fa_flags := fa_flags f AND NOT 2\<rparr>)\<rparr>)"
  have "endpoint_inv C n1" using assms by (simp add: n1_def endpoint_inv_set_fact split: option.split)
  then show ?thesis
    unfolding retained_outbound_retire_interface_def Let_def n1_def [symmetric]
    by (simp add: endpoint_inv_iter_mut)
qed

lemma retire_replaced_interface_inv:
  assumes "endpoint_inv C n"
  shows "endpoint_inv C (retire_replaced_interface n i)"
proof -
  define n1 where "n1 = retained_outbound_retire_interface n i"
  have n1: "endpoint_inv C n1" using assms by (simp add: n1_def retained_outbound_retire_inv)
  define n2 where "n2 = (case interface_slot n1 i of None \<Rightarrow> n1 | Some slot \<Rightarrow>
      n1\<lparr>nd_discoveries := retire_requester (nd_discoveries n1) slot,
        nd_interfaces := set_fact (nd_interfaces n1) slot (\<lambda>_. FACTS_EMPTY)\<rparr>)"
  have "endpoint_inv C (n1\<lparr>nd_discoveries := retire_requester (nd_discoveries n1) slot\<rparr>)" for slot
    using n1 dc_inv_retire [OF node_invD(9), of C n1 slot] by (simp add: endpoint_inv_def)
  then have n2: "endpoint_inv C n2"
    using n1 endpoint_inv_set_fact [of C "n1\<lparr>nd_discoveries := retire_requester (nd_discoveries n1) slot\<rparr>" slot for slot]
    by (simp add: n2_def split: option.split)
  show ?thesis
    unfolding retire_replaced_interface_def Let_def n1_def [symmetric] n2_def [symmetric]
    using n2 by (intro endpoint_inv_expire) (simp add: endpoint_inv_def node_inv_def tables_ok_def table_invs)
qed

lemma update_interface_inv:
  assumes "endpoint_inv C n"
  shows "endpoint_inv C (snd (update_interface n i g mode b ob cl))"
proof -
  have "endpoint_inv C (if x then if y then retire_replaced_interface n i
      else if z then retained_outbound_retire_interface n i else n else n)" for x y z
    using assms by (simp add: retire_replaced_interface_inv retained_outbound_retire_inv)
  then show ?thesis
    using assms unfolding update_interface_def Let_def by (simp add: endpoint_inv_set_fact split: option.split)
qed

lemma update_interface_packet_capacity_inv:
  assumes "endpoint_inv C n"
  shows "endpoint_inv C (snd (update_interface_packet_capacity n i g clear))"
proof -
  have "endpoint_inv C (n\<lparr>nd_links := lt_remove_interface (nd_links n) i\<rparr>)"
    using assms lt_inv_remove_interface [OF node_invD(7), of C n i] by (simp add: endpoint_inv_def)
  from endpoint_inv_set_fact [OF this] assms show ?thesis
    by (simp add: update_interface_packet_capacity_def Let_def endpoint_inv_expire split: option.split)
qed

lemma count_outbound [simp]:
  "nd_interfaces ((count u ^^ k) n) = nd_interfaces n" "node_inv C ((count u ^^ k) n) = node_inv C n"
proof (induction k)
  case (Suc k)
  { case 1 show ?case using Suc(1) by (simp add: count_def) }
  { case 2 show ?case using Suc(2) by simp }
qed simp_all

lemma endpoint_inv_drain:
  assumes "endpoint_inv C n"
  shows "endpoint_inv C (n\<lparr>nd_outbound := snd (drain_where P (nd_outbound n))\<rparr>)"
proof -
  have ok: "queue_ok n" and r: "\<not> is_router (nd_interfaces n)"
    using assms by (simp_all add: endpoint_inv_def node_inv_def)
  then have "queue_ok (n\<lparr>nd_outbound := snd (drain_where P (nd_outbound n))\<rparr>)"
    using drain_where_law [OF _ surjective_pairing, of "nd_outbound n" P]
    by (intro queue_ok_delivery) (auto simp: queue_ok_def)
  then show ?thesis using assms by (simp add: endpoint_inv_def node_inv_def tables_ok_def)
qed

lemma retained_outbound_select_inv:
  assumes "endpoint_inv C n"
  shows "endpoint_inv C (snd (retained_outbound_select n after blocked gens))"
proof -
  define n1 where "n1 = expire_outbound (n\<lparr>nd_retained_owner_mode := True\<rparr>) (nd_clock_ms n)"
  have "endpoint_inv C (n\<lparr>nd_retained_owner_mode := True\<rparr>)" using assms by (simp add: endpoint_inv_def)
  then have "endpoint_inv C n1" by (simp add: n1_def endpoint_inv_expire)
  from endpoint_inv_drain [OF endpoint_inv_iter_mut [OF this]] show ?thesis
    unfolding retained_outbound_select_def Let_def split_beta n1_def [symmetric]
    by (simp add: endpoint_inv_def)
qed

lemma endpoint_inv_get_mut:
  assumes "endpoint_inv C n"
  shows "endpoint_inv C (n\<lparr>nd_outbound := q_get_mut (\<lambda>q. q\<lparr>qo_delivery := f q\<rparr>) (nd_outbound n) k\<rparr>)"
proof -
  have ok: "queue_ok n" and r: "\<not> is_router (nd_interfaces n)" and q: "q_inv (nd_outbound n)"
    using assms by (simp_all add: endpoint_inv_def node_inv_def queue_ok_def)
  have "queue_ok (n\<lparr>nd_outbound := q_get_mut (\<lambda>q. q\<lparr>qo_delivery := f q\<rparr>) (nd_outbound n) k\<rparr>)"
    using q_get_mut_law [OF q, of "\<lambda>q. q\<lparr>qo_delivery := f q\<rparr>" k]
      set_update_subset_insert [of "rows n" k "(rows n ! k)\<lparr>qo_delivery := f (rows n ! k)\<rparr>"]
    by (intro queue_ok_delivery [OF ok r]) (force split: if_splits)+
  then show ?thesis using assms by (simp add: endpoint_inv_def node_inv_def tables_ok_def)
qed

lemma endpoint_inv_remove:
  "endpoint_inv C n \<Longrightarrow> endpoint_inv C (n\<lparr>nd_outbound := snd (q_remove (nd_outbound n) k)\<rparr>)"
  using node_inv_outbound [OF _ queue_ok_remove, of C n k] node_invD(10) [of C n] by (simp add: endpoint_inv_def)

lemma retained_outbound_ack_inv:
  assumes "endpoint_inv C n"
  shows "endpoint_inv C (snd (retained_outbound_ack n identity completed))"
  using assms endpoint_inv_remove [OF endpoint_inv_get_mut [OF assms]]
  by (simp add: retained_outbound_ack_def Let_def endpoint_inv_get_mut split: option.split)

lemma retained_outbound_take_inv:
  "endpoint_inv C n \<Longrightarrow> endpoint_inv C (snd (retained_outbound_take n identity))"
  using endpoint_inv_remove by (simp add: retained_outbound_take_def split_beta split: option.split)

section \<open>Construction, reset and bookkeeping\<close>

lemma queue_ok_empty:
  assumes "model_inv (nd_interfaces n)" "registry_ok (nd_interfaces n)" "q_inv (nd_outbound n)" "rows n = []"
  shows "queue_ok n"
  using assms by (simp add: queue_ok_def depth_ok_def outbound_len_for_interface_def)

lemma tables_ok_new: "tables_ok C (node_new_const caps m config tid)"
  by (simp add: tables_ok_def node_new_const_def kd_inv_new pht_new_def ac_new_def as_new_def rtt_new_def)

lemma node_new_inv:
  assumes "model_inv m" "registry_ok m" "node_new caps m config tid = Inr n"
  shows "node_inv C n"
proof -
  have n: "n = node_new_const caps m config tid" using assms(3) by (simp add: node_new_def split: sum.splits)
  have "queue_ok n" using assms(1,2) by (intro queue_ok_empty) (simp_all add: n node_new_const_def)
  then show ?thesis by (simp add: node_inv_def n tables_ok_new)
qed

lemma model_new_ok: "registry_ok ENDPOINT_EMPTY" "registry_ok ROUTER_EMPTY"
  by (simp_all add: ENDPOINT_EMPTY_def ROUTER_EMPTY_def router_new_def reg_new_def)

lemma registry_ok_all:
  assumes "reg_inv (rt_registry r)" "rt_generations r = replicate REQUESTERS g" "g \<noteq> 0"
    and "\<And>c. Some c \<in> set (rt_registry r) \<Longrightarrow> interface_validate c (ic_tx_queue_depth c) = Inr ()"
  shows "registry_ok (RouterModel r)"
proof -
  have "rt_generation r i \<noteq> 0" if i: "reg_get (rt_registry r) i = Some c" for i c
  proof -
    obtain slot where slot: "reg_slot (rt_registry r) i = Some slot"
      using i reg_slot_iff(1) [OF assms(1), of i] by (cases "reg_slot (rt_registry r) i") auto
    then have "slot < REQUESTERS" by (rule reg_slot_entry [OF assms(1)])
    then show ?thesis using slot assms(2,3) by (simp add: rt_generation_def)
  qed
  then show ?thesis using assms(4) reg_get_iff [OF assms(1)] unfolding registry_ok_iff [OF assms(1)] by blast
qed

lemma reg_validated:
  assumes "length reg = MAX_INTERFACES" "reg_validate reg depth = Inr u"
  shows "reg_inv reg" "Some c \<in> set reg \<Longrightarrow> interface_validate c (ic_tx_queue_depth c) = Inr ()"
  using assms reg_validate_Inr [of reg depth] by (auto simp: reg_inv_def dest: interface_validate_own)

lemma new_router_inv:
  assumes "length reg = MAX_INTERFACES" "new_router caps config tid reg modem = Inr n"
  shows "node_inv C n"
proof -
  have n: "n = (node_new_const caps ROUTER_EMPTY config tid)\<lparr>nd_interfaces := RouterModel (router_new reg modem)\<rparr>"
    and v: "reg_validate reg (tc_tx_queue_depth (lc_table_caps config)) = Inr ()"
    using assms(2) by (auto simp: new_router_def split: sum.splits)
  note reg = reg_validated [OF assms(1) v]
  have "registry_ok (RouterModel (router_new reg modem))"
    using reg by (intro registry_ok_all [where g = 1]) (simp_all add: router_new_def)
  with reg(1) have "queue_ok n"
    by (intro queue_ok_empty) (simp_all add: n node_new_const_def router_new_def)
  then show ?thesis using tables_ok_new [of C caps ROUTER_EMPTY config tid]
    by (simp add: node_inv_def n tables_ok_def)
qed

lemma tables_ok_reset:
  assumes "tables_ok C n"
  shows "tables_ok C (reset_tables n config tid m)"
  using assms
  by (simp add: tables_ok_def reset_tables_def clear_local_def pht_clear_def ac_clear_def as_clear_def
      rtt_clear_def table_invs)

lemma reset_tables_interfaces [simp]:
  "nd_interfaces (reset_tables n config tid m) = m"
  "(reset_tables n config tid m)\<lparr>nd_interfaces := m'\<rparr> = reset_tables n config tid m'"
  by (cases n; simp add: reset_tables_def clear_local_def)+

lemma reset_tables_inv:
  assumes "node_inv C n" "model_inv m" "registry_ok m"
  shows "node_inv C (reset_tables n config tid m)"
proof -
  have "queue_ok (reset_tables n config tid m)"
    using assms(2,3) by (intro queue_ok_empty) (simp_all add: reset_tables_def clear_local_def)
  then show ?thesis using assms(1) by (simp add: node_inv_def tables_ok_reset)
qed

lemma reset_router_ok:
  assumes "model_inv (RouterModel r)" "reset_router r = Inr r'" "reg_inv reg"
    "\<And>c. Some c \<in> set reg \<Longrightarrow> interface_validate c (ic_tx_queue_depth c) = Inr ()"
  shows "model_inv (RouterModel (r'\<lparr>rt_registry := reg, rt_lora_modem := modem\<rparr>))"
    "registry_ok (RouterModel (r'\<lparr>rt_registry := reg, rt_lora_modem := modem\<rparr>))"
proof -
  obtain g where g: "checked_add (rt_last_generation r) 1 = Some g"
      "rt_generations r' = replicate REQUESTERS g" "length (rt_announce_gates r') = REQUESTERS"
      "length (rt_watched r') = WATCHED_DESTINATIONS_MAX"
    using assms(1,2) by (auto simp: reset_router_def split: option.splits)
  have "g \<noteq> 0" using checked_add_one_gt [OF g(1)] by auto
  with g assms(3,4) show "registry_ok (RouterModel (r'\<lparr>rt_registry := reg, rt_lora_modem := modem\<rparr>))"
    by (intro registry_ok_all [where g = g]) simp_all
  show "model_inv (RouterModel (r'\<lparr>rt_registry := reg, rt_lora_modem := modem\<rparr>))"
    using g assms(3) by simp
qed

lemma reset_in_place_inv:
  assumes "node_inv C n"
  shows "node_inv C (snd (reset_in_place caps n config tid))"
proof (cases "nd_interfaces n")
  case (EndpointModel fs)
  then show ?thesis
    using assms reset_tables_inv [OF assms, of "EndpointModel fs"] node_invD(10) [OF assms]
    by (simp add: reset_in_place_def queue_ok_def split: sum.split)
next
  case (RouterModel r)
  have m: "model_inv (RouterModel r)" using node_invD(10) [OF assms] RouterModel by (simp add: queue_ok_def)
  have "node_inv C (reset_tables n config tid (RouterModel r'))" if r': "reset_router r = Inr r'" for r'
  proof -
    have "reg_inv (rt_registry r')" "r'\<lparr>rt_registry := rt_registry r', rt_lora_modem := rt_lora_modem r'\<rparr> = r'"
      using m r' by (auto simp: reset_router_def split: option.splits)
    moreover have "interface_validate c (ic_tx_queue_depth c) = Inr ()" if "Some c \<in> set (rt_registry r')" for c
      using that r' node_invD(10) [OF assms] RouterModel
      by (auto simp: reset_router_def queue_ok_def split: option.splits)
    ultimately show ?thesis using reset_router_ok [OF m r', of "rt_registry r'" "rt_lora_modem r'"]
      by (intro reset_tables_inv [OF assms]) simp_all
  qed
  then show ?thesis using assms RouterModel by (simp add: reset_in_place_def split: sum.split)
qed

lemma reset_router_in_place_inv:
  assumes inv: "node_inv C n" and reg: "length reg = MAX_INTERFACES"
  shows "node_inv C (snd (reset_router_in_place caps n config tid reg modem))"
proof (cases "reg_validate reg (tc_tx_queue_depth (lc_table_caps config))")
  case (Inl e)
  then show ?thesis using inv by (simp add: reset_router_in_place_def)
next
  case (Inr u)
  note ri = reg_validated [OF reg Inr]
  show ?thesis
  proof (cases "nd_interfaces n")
    case (EndpointModel fs)
    define n1 where "n1 = snd (reset_in_place caps n config tid)"
    have "nd_interfaces n1 = EndpointModel fs"
      using EndpointModel by (simp add: n1_def reset_in_place_def split: sum.split)
    then have "n1\<lparr>nd_interfaces := router_mut f (nd_interfaces n1)\<rparr> = n1" for f by (cases n1) simp
    then show ?thesis
      using reset_in_place_inv [OF inv] Inr
      unfolding reset_router_in_place_def by (simp add: split_beta n1_def split: sum.split)
  next
    case (RouterModel r)
    have m: "model_inv (RouterModel r)" using node_invD(10) [OF inv] RouterModel by (simp add: queue_ok_def)
    have "node_inv C (reset_tables n config tid
        (RouterModel (r'\<lparr>rt_registry := reg, rt_lora_modem := modem\<rparr>)))" if r': "reset_router r = Inr r'" for r'
      by (rule reset_tables_inv [OF inv reset_router_ok [OF m r' ri]])
    then show ?thesis
      using inv Inr RouterModel
      by (simp add: reset_router_in_place_def reset_in_place_def split: sum.split)
  qed
qed

lemma request_path_inv:
  assumes laws: "hkdf_law C" "ed_law C" and n: "node_inv C n"
  shows "node_inv C (snd (request_path C n d tag i now))"
proof -
  define n1 where "n1 = expire_outbound (n\<lparr>nd_clock_ms := now\<rparr>) now"
  have n1: "node_inv C n1" using n by (simp add: n1_def node_inv_expire_outbound)
  show ?thesis
    unfolding request_path_def Let_def split_beta n1_def [symmetric]
    using n1 node_inv_enqueue_packet [OF laws n1] uniq_tag_insert [OF node_invD(8) [OF n1]]
    by (simp split: sum.split bool.split)
qed

lemma local_ops_inv:
  assumes "node_inv C n"
  shows "node_inv C (snd (register_local_slot n v))" "node_inv C (snd (register_local_destination n d))"
    "node_inv C (snd (register_local_link n d))" "node_inv C (unregister_local_destination n d)"
    "node_inv C (unregister_local_link n d)" "node_inv C (clear_own_destinations n)" "node_inv C (clear_local n)"
    "node_inv C (set_own_destination n od)"
  using assms
  by (simp_all add: register_local_slot_def register_local_destination_def register_local_link_def
      unregister_local_destination_def unregister_local_link_def clear_own_destinations_def clear_local_def
      set_own_destination_def Let_def split: option.split)

lemma known_ops_inv:
  assumes "node_inv C n"
  shows "node_inv C (snd (known_destination_recall n d))"
    "length pk = PUBLIC_KEY_LENGTH \<Longrightarrow> node_inv C (snd (known_destination_learn C n d pk now))"
    "node_inv C (snd (known_destinations_import C n blob now))"
  using assms kd_inv_recall [OF node_invD(1) [OF assms] surjective_pairing, of d]
    kd_inv_learn [OF node_invD(1) [OF assms] _ surjective_pairing, of pk d now]
    kd_inv_import [OF node_invD(1) [OF assms] surjective_pairing, of blob now]
  by (simp_all add: known_destination_recall_def known_destination_learn_def known_destinations_import_def split_beta)

lemma set_announce_budget_inv: "node_inv C n \<Longrightarrow> node_inv C (set_announce_budget n a b)"
  by (simp add: set_announce_budget_def Let_def node_inv_def tables_ok_def queue_ok_def depth_ok_def
      outbound_len_for_interface_def)

lemma drop_path_inv: "node_inv C n \<Longrightarrow> node_inv C (snd (node_drop_path n d))"
  using path_inv_drop [OF node_invD(3)] by (simp add: node_drop_path_def split_beta)

lemma router_settings_inv:
  assumes "node_inv C n"
  shows "node_inv C (snd (set_watched_destinations n ds))" "node_inv C (set_local_plain_sink n d)"
proof -
  show "node_inv C (snd (set_watched_destinations n ds))"
    using assms by (auto simp: set_watched_destinations_def intro!: node_inv_router_fields)
  show "node_inv C (set_local_plain_sink n d)"
    using assms by (auto simp: set_local_plain_sink_def intro!: node_inv_router_fields)
qed

lemma send_local_inv:
  "hkdf_law C \<Longrightarrow> ed_law C \<Longrightarrow> node_inv C n \<Longrightarrow> node_inv C (snd (send_local C n i p))"
  by (simp add: send_local_def node_inv_enqueue)

end
