(* ===== verification/Node_System.thy ===== *)
theory Node_System
  imports Node_Reach
begin

text \<open>
  A node as a transition system: it is built by one of the constructors and then driven by any
  sequence of calls to its public operations. The properties here hold in every node such a sequence
  reaches, or of one call from such a node.
\<close>

section \<open>The step relation\<close>

text \<open>One rule per public operation that changes a node. \<^verbatim>\<open>LiteNode<Endpoint>\<close> and \<^verbatim>\<open>LiteNode<Router>\<close> have
  operations of their own; array lengths are those of the Rust types.\<close>

inductive node_step :: "crypto \<Rightarrow> node_caps \<Rightarrow> lite_node \<Rightarrow> lite_node \<Rightarrow> bool" for C caps where
  step_ingest: "node_step C caps n (snd (ingest_with_local_link C n r meta now l))"
| step_ingest_endpoint: "node_step C caps n (snd (snd (ingest_endpoint C n r meta now b)))"
| step_tick: "node_step C caps n (tick C n now)"
| step_request_path: "length tag = 16 \<Longrightarrow> node_step C caps n (snd (request_path C n d tag i now))"
| step_reset: "node_step C caps n (snd (reset_in_place caps n config tid))"
| step_register_destination: "node_step C caps n (snd (register_local_destination n d))"
| step_register_link: "node_step C caps n (snd (register_local_link n d))"
| step_unregister_destination: "node_step C caps n (unregister_local_destination n d)"
| step_unregister_link: "node_step C caps n (unregister_local_link n d)"
| step_clear_local: "node_step C caps n (clear_local n)"
| step_clear_own: "node_step C caps n (clear_own_destinations n)"
| step_budget: "node_step C caps n (set_announce_budget n a g)"
| step_drop_path: "node_step C caps n (snd (node_drop_path n d))"
| step_known_recall: "node_step C caps n (snd (known_destination_recall n d))"
| step_known_learn:
    "length pk = PUBLIC_KEY_LENGTH \<Longrightarrow> node_step C caps n (snd (known_destination_learn C n d pk now))"
| step_known_import: "node_step C caps n (snd (known_destinations_import C n blob now))"
| step_record_expired: "node_step C caps n (record_expired_outbound n)"
| step_update_interface:
    "\<not> is_router (nd_interfaces n) \<Longrightarrow> node_step C caps n (snd (update_interface n i gen mode bps outb client))"
| step_packet_capacity:
    "\<not> is_router (nd_interfaces n) \<Longrightarrow>
     node_step C caps n (snd (update_interface_packet_capacity n i gen clear))"
| step_poll_tx: "\<not> is_router (nd_interfaces n) \<Longrightarrow> node_step C caps n (snd (poll_tx n))"
| step_select:
    "\<not> is_router (nd_interfaces n) \<Longrightarrow> node_step C caps n (snd (retained_outbound_select n after blocked gens))"
| step_ack: "\<not> is_router (nd_interfaces n) \<Longrightarrow> node_step C caps n (snd (retained_outbound_ack n identity done))"
| step_take: "\<not> is_router (nd_interfaces n) \<Longrightarrow> node_step C caps n (snd (retained_outbound_take n identity))"
| step_retire:
    "\<not> is_router (nd_interfaces n) \<Longrightarrow> node_step C caps n (retained_outbound_retire_interface n i)"
| step_retire_replaced: "\<not> is_router (nd_interfaces n) \<Longrightarrow> node_step C caps n (retire_replaced_interface n i)"
| step_reset_router:
    "length reg = MAX_INTERFACES \<Longrightarrow> node_step C caps n (snd (reset_router_in_place caps n config tid reg modem))"
| step_own_destination: "node_step C caps n (set_own_destination n own)"
| step_watched: "node_step C caps n (snd (set_watched_destinations n ds))"
| step_plain_sink: "node_step C caps n (set_local_plain_sink n own)"
| step_send_local: "node_step C caps n (snd (send_local C n i p))"
| step_register: "node_step C caps n (snd (register_interface n c))"
| step_unregister: "node_step C caps n (snd (unregister_interface n i))"
| step_online: "node_step C caps n (snd (set_interface_online n i online))"
| step_poll_interface: "node_step C caps n (snd (poll_tx_for_interface n i))"

inductive reachable :: "crypto \<Rightarrow> node_caps \<Rightarrow> lite_node \<Rightarrow> bool" for C caps where
  reach_new: "m \<in> {ENDPOINT_EMPTY, ROUTER_EMPTY} \<Longrightarrow> node_new caps m config tid = Inr n \<Longrightarrow> reachable C caps n"
| reach_router: "length reg = MAX_INTERFACES \<Longrightarrow> new_router caps config tid reg modem = Inr n \<Longrightarrow> reachable C caps n"
| reach_step: "reachable C caps n \<Longrightarrow> node_step C caps n n' \<Longrightarrow> reachable C caps n'"

lemma endpoint_invI: "node_inv C n \<Longrightarrow> \<not> is_router (nd_interfaces n) \<Longrightarrow> endpoint_inv C n"
  and endpoint_invD: "endpoint_inv C n \<Longrightarrow> node_inv C n"
  by (simp_all add: endpoint_inv_def)

lemma record_expired_outbound_inv: "node_inv C n \<Longrightarrow> node_inv C (record_expired_outbound n)"
  by (simp add: record_expired_outbound_def)

lemma ingest_with_local_link_inv:
  "hkdf_law C \<Longrightarrow> ed_law C \<Longrightarrow> node_inv C n \<Longrightarrow> node_inv C (snd (ingest_with_local_link C n r meta now l))"
  using ingest_inner_inv [of C n r meta now l None] by (simp add: ingest_with_local_link_def split_beta)

lemma ingest_endpoint_inv:
  "hkdf_law C \<Longrightarrow> ed_law C \<Longrightarrow> node_inv C n \<Longrightarrow> node_inv C (snd (snd (ingest_endpoint C n r meta now b)))"
  by (simp add: ingest_endpoint_def ingest_inner_inv)

lemmas endpoint_step_invs = update_interface_inv update_interface_packet_capacity_inv
  retained_outbound_select_inv retained_outbound_ack_inv retained_outbound_take_inv
  retained_outbound_retire_inv retire_replaced_interface_inv

lemmas node_step_invs = ingest_with_local_link_inv ingest_endpoint_inv tick_inv request_path_inv
  reset_in_place_inv local_ops_inv set_announce_budget_inv drop_path_inv known_ops_inv
  record_expired_outbound_inv poll_tx_inv reset_router_in_place_inv router_settings_inv send_local_inv
  register_interface_inv unregister_interface_inv set_interface_online_inv poll_tx_for_interface_inv

lemma node_step_inv:
  assumes "hkdf_law C" "ed_law C" "node_step C caps n n'" "node_inv C n"
  shows "node_inv C n'"
  using assms(3,1,2,4)
  by cases (auto intro: node_step_invs endpoint_invI endpoint_step_invs [THEN endpoint_invD])

lemma reachable_inv:
  assumes "hkdf_law C" "ed_law C" "reachable C caps n"
  shows "node_inv C n"
  using assms(3)
proof induction
  case (reach_new m config tid n)
  then show ?case using node_new_inv [of m caps config tid n C] model_new_ok by auto
next
  case (reach_router reg config tid modem n)
  then show ?case by (rule new_router_inv)
next
  case (reach_step n n')
  then show ?case using node_step_inv assms(1,2) by blast
qed

end
