(* ===== verification/Node_Queue.thy ===== *)
theory Node_Queue
  imports Node_System Lora
begin

text \<open>
  Properties of the outbound queue at the level of the node's operations: what queueing for one
  interface does to the others, that polling an interface hands out every live frame, that a path
  request is queued and recorded or neither, and that a queued frame crosses a LoRa hop.
\<close>

section \<open>Polling an interface\<close>

lemma outbound_live_strip:
  assumes "strip n' = strip n"
  shows "outbound_lifetime_is_live n' i l now = outbound_lifetime_is_live n i l now"
  unfolding outbound_lifetime_is_live_def outbound_interface_online_def stripD [OF assms]
    model_coreD [OF stripD(16) [OF assms]] by (rule refl)

lemma row_stale_strip: "strip n' = strip n \<Longrightarrow> row_stale n' now q = row_stale n now q"
  using outbound_live_strip [of n' n] model_coreD(6) [OF stripD(16), of n' n] by (simp add: row_stale_def)

text \<open>The order in which an interface's frames leave: announces and other gated traffic last.\<close>

definition poll_order :: "interface_id \<Rightarrow> queued_outbound list \<Rightarrow> queued_outbound list" where
  "poll_order i qs =
     filter (\<lambda>q. row_interface q = i \<and> \<not> row_gated q) qs @ filter (\<lambda>q. row_interface q = i \<and> row_gated q) qs"

lemma position_split:
  assumes "position P xs = Some k"
  shows "xs = take k xs @ xs ! k # drop (Suc k) xs" "P (xs ! k)" "filter P (take k xs) = []"
    "list_remove k xs = take k xs @ drop (Suc k) xs"
  using assms id_take_nth_drop [of k xs]
  by (auto simp: position_Some filter_empty_conv in_set_conv_nth list_remove_def)

lemma poll_order_next:
  assumes "or_else (position (\<lambda>q. row_interface q = i \<and> \<not> row_gated q) qs)
      (position (\<lambda>q. row_interface q = i) qs) = Some k"
  shows "k < length qs \<and> poll_order i qs = qs ! k # poll_order i (list_remove k qs) \<and>
    filter (\<lambda>q. row_interface q \<noteq> i) (list_remove k qs) = filter (\<lambda>q. row_interface q \<noteq> i) qs"
proof (cases "position (\<lambda>q. row_interface q = i \<and> \<not> row_gated q) qs")
  case None
  then have k: "position (\<lambda>q. row_interface q = i) qs = Some k" using assms by simp
  note sp = position_split [OF k]
  have "\<forall>q \<in> set qs. row_interface q = i \<longrightarrow> row_gated q" using None by (auto simp: position_None)
  then have all: "poll_order i qs' = filter (\<lambda>q. row_interface q = i) qs'" if "set qs' \<subseteq> set qs" for qs'
  proof -
    have "filter (\<lambda>q. row_interface q = i \<and> \<not> row_gated q) qs' = []"
      "filter (\<lambda>q. row_interface q = i \<and> row_gated q) qs' = filter (\<lambda>q. row_interface q = i) qs'"
      using that \<open>\<forall>q \<in> set qs. _\<close> by (auto simp: filter_empty_conv intro!: filter_cong)
    then show ?thesis by (simp add: poll_order_def)
  qed
  have "filter P qs = filter P (take k qs) @ filter P (qs ! k # drop (Suc k) qs)" for P
    using arg_cong [OF sp(1), of "filter P"] by simp
  then show ?thesis
    using sp(2-4) all [of qs] all [of "list_remove k qs"] set_list_remove [of k qs] position_SomeD(1) [OF k]
    by (simp del: filter.simps(2)) simp
next
  case (Some k')
  then have k: "position (\<lambda>q. row_interface q = i \<and> \<not> row_gated q) qs = Some k" using assms by simp
  note sp = position_split [OF k]
  have "filter P qs = filter P (take k qs) @ filter P (qs ! k # drop (Suc k) qs)" for P
    using arg_cong [OF sp(1), of "filter P"] by simp
  then show ?thesis
    using sp(2-4) position_SomeD(1) [OF k] by (simp add: poll_order_def del: filter.simps(2)) simp
qed

lemma poll_order_empty:
  "or_else (position (\<lambda>q. row_interface q = i \<and> \<not> row_gated q) qs)
     (position (\<lambda>q. row_interface q = i) qs) = None \<Longrightarrow>
   poll_order i qs = [] \<and> filter (\<lambda>q. row_interface q \<noteq> i) qs = qs"
  by (cases "position (\<lambda>q. row_interface q = i \<and> \<not> row_gated q) qs")
    (auto simp: poll_order_def position_None filter_empty_conv filter_id_conv)

text \<open>\<open>k\<close> calls of \<^verbatim>\<open>poll_tx_for_interface\<close> and what each returned.\<close>

fun poll_times :: "nat \<Rightarrow> lite_node \<Rightarrow> interface_id \<Rightarrow> (outbound_frame \<times> delivery) option list \<times> lite_node" where
  "poll_times 0 n i = ([], n)"
| "poll_times (Suc k) n i =
     (case poll_tx_for_interface n i of
        (r, n) \<Rightarrow> (case poll_times k n i of (rs, n) \<Rightarrow> (r # rs, n)))"

definition live_rows :: "lite_node \<Rightarrow> queued_outbound list" where
  "live_rows n = filter (\<lambda>q. \<not> row_stale n (nd_clock_ms n) q) (rows n)"

lemma poll_tx_for_interface_rows:
  assumes q: "q_inv (nd_outbound n)" and r: "poll_tx_for_interface n i = (res, n')"
  shows "q_inv (nd_outbound n')" "strip n' = strip n"
    "case or_else (position (\<lambda>q. row_interface q = i \<and> \<not> row_gated q) (live_rows n))
        (position (\<lambda>q. row_interface q = i) (live_rows n)) of
       None \<Rightarrow> res = None \<and> rows n' = live_rows n
     | Some k \<Rightarrow> k < length (live_rows n) \<and>
         res = Some (qo_frame (live_rows n ! k), qo_delivery (live_rows n ! k)) \<and>
         rows n' = list_remove k (live_rows n)"
proof -
  define n1 where "n1 = expire_outbound n (nd_clock_ms n)"
  have q1: "q_inv (nd_outbound n1)" and rows: "rows n1 = live_rows n"
    using expire_outbound_rows [OF q, of "nd_clock_ms n"] by (simp_all add: n1_def live_rows_def)
  have off: "interface_frame_offset n1 i = or_else (position (\<lambda>q. row_interface q = i \<and> \<not> row_gated q) (live_rows n))
      (position (\<lambda>q. row_interface q = i) (live_rows n))"
    by (simp add: interface_frame_offset_def rows)
  have P: "(res, n') = (case interface_frame_offset n1 i of None \<Rightarrow> (None, n1) | Some offset \<Rightarrow>
      (map_option (\<lambda>q. (qo_frame q, qo_delivery q)) (fst (q_remove (nd_outbound n1) offset)),
       n1\<lparr>nd_outbound := snd (q_remove (nd_outbound n1) offset)\<rparr>))"
    using r unfolding poll_tx_for_interface_def Let_def split_beta n1_def [symmetric] by (rule sym)
  note rem = q_remove_law [OF q1 surjective_pairing]
  show "q_inv (nd_outbound n')" using P q1 rem by (auto split: option.splits)
  show "strip n' = strip n" using P by (auto simp: n1_def split: option.splits)
  show "case or_else (position (\<lambda>q. row_interface q = i \<and> \<not> row_gated q) (live_rows n))
        (position (\<lambda>q. row_interface q = i) (live_rows n)) of
       None \<Rightarrow> res = None \<and> rows n' = live_rows n
     | Some k \<Rightarrow> k < length (live_rows n) \<and>
         res = Some (qo_frame (live_rows n ! k), qo_delivery (live_rows n ! k)) \<and>
         rows n' = list_remove k (live_rows n)"
  proof (cases "interface_frame_offset n1 i")
    case None
    then show ?thesis using P off rows by simp
  next
    case (Some k)
    then have "k < length (live_rows n)" using poll_order_next [of i "live_rows n" k] off by simp
    then show ?thesis using P Some off [symmetric] rem [of k] rows by simp
  qed
qed

lemma live_rows_sub:
  assumes "strip n' = strip n" "set (rows n') \<subseteq> set (live_rows n)"
  shows "live_rows n' = rows n'"
  using assms(2) by (auto simp: live_rows_def stripD(2) [OF assms(1)] row_stale_strip [OF assms(1)] filter_id_conv)

lemma poll_times_drains:
  assumes "q_inv (nd_outbound n)" "length (poll_order i (live_rows n)) < k"
  shows "fst (poll_times k n i) =
      map (\<lambda>q. Some (qo_frame q, qo_delivery q)) (poll_order i (live_rows n)) @
      replicate (k - length (poll_order i (live_rows n))) None \<and>
    rows (snd (poll_times k n i)) = filter (\<lambda>q. row_interface q \<noteq> i) (live_rows n)"
  using assms
proof (induction k arbitrary: n)
  case (Suc k)
  let ?off = "or_else (position (\<lambda>q. row_interface q = i \<and> \<not> row_gated q) (live_rows n))
      (position (\<lambda>q. row_interface q = i) (live_rows n))"
  obtain res n' where p: "poll_tx_for_interface n i = (res, n')" by fastforce
  note P = poll_tx_for_interface_rows [OF Suc.prems(1) p]
  show ?case
  proof (cases ?off)
    case None
    then have e: "poll_order i (live_rows n) = []" "filter (\<lambda>q. row_interface q \<noteq> i) (live_rows n) = live_rows n"
      using poll_order_empty by auto
    have r: "res = None" "rows n' = live_rows n" using P(3) None by simp_all
    have l: "live_rows n' = live_rows n" using live_rows_sub [OF P(2)] r(2) by simp
    show ?thesis
    proof (cases k)
      case 0
      then show ?thesis using p r e by simp
    next
      case (Suc k')
      then show ?thesis using Suc.IH [OF P(1)] l e p r by (simp add: split_beta)
    qed
  next
    case (Some j)
    note nx = poll_order_next [OF Some]
    have r: "res = Some (qo_frame (live_rows n ! j), qo_delivery (live_rows n ! j))"
      "rows n' = list_remove j (live_rows n)" using P(3) Some by simp_all
    have l: "live_rows n' = list_remove j (live_rows n)"
      using live_rows_sub [OF P(2)] r(2) set_list_remove [of j "live_rows n"] by simp
    show ?thesis using Suc.IH [OF P(1)] Suc.prems(2) l nx p r(1) by (simp add: split_beta)
  qed
qed simp

text \<open>C6. Polling an interface of a reachable node hands out every frame that is still live for it: calls
  of \<open>poll_tx_for_interface\<close> return first the frames that are not gated, then the gated ones, each group
  in the order queued, and from then on nothing; afterwards exactly the live frames of the other
  interfaces remain.\<close>

theorem polling_hands_out_every_live_frame:
  assumes "hkdf_law C" "ed_law C" "reachable C caps n" "length (poll_order i (live_rows n)) < k"
  shows "fst (poll_times k n i) =
      map (\<lambda>q. Some (qo_frame q, qo_delivery q)) (poll_order i (live_rows n)) @
      replicate (k - length (poll_order i (live_rows n))) None \<and>
    rows (snd (poll_times k n i)) = filter (\<lambda>q. row_interface q \<noteq> i) (live_rows n)"
proof (rule poll_times_drains)
  show "q_inv (nd_outbound n)"
    using node_invD(10) [OF reachable_inv [OF assms(1-3)]] by (simp add: queue_ok_def)
qed (rule assms(4))

section \<open>A sample router\<close>

definition sample_caps :: node_caps where
  "sample_caps = \<lparr>nc_paths = 48, nc_hashes = 64, nc_announces = 8, nc_reverse = 8, nc_links = 4, nc_tags = 8,
     nc_outbound = 8, nc_known_destinations = 4, nc_scheduled = 8\<rparr>"

definition sample_registry :: interface_registry where
  "sample_registry = [Some (ic_lora 0 1200 2), Some (ic_lora 1 1200 2), None, None, None, None, None, None]"

definition sample_router :: lite_node where
  "sample_router = (node_new_const sample_caps ROUTER_EMPTY CONFIG_MICRO (replicate 16 9))
     \<lparr>nd_interfaces := RouterModel (router_new sample_registry None)\<rparr>"

lemma sample_router_new:
  "new_router sample_caps CONFIG_MICRO (replicate 16 9) sample_registry None = Inr sample_router"
  by (simp add: new_router_def sample_router_def validate_config_def lite_config_validate_def CONFIG_MICRO_def
      lite_config_of_caps_def CAPS_MICRO_def caps_validate_def sample_caps_def sample_registry_def
      interface_validate_def ic_lora_def direction_validate_def BIDIRECTIONAL_def size_consts)

lemma reachable_sample: "reachable C sample_caps sample_router"
  using reach_router [OF _ sample_router_new] by (simp add: sample_registry_def MAX_INTERFACES_def)

text \<open>The sample router with one frame queued for interface 1.\<close>

definition sample_sent :: lite_node where
  "sample_sent = snd (send_local toy_crypto sample_router 1 (replicate 19 5))"

lemma wire_frame_clear:
  assumes "m_ifac (nd_interfaces n) i (nd_config n) = None" "length p \<le> WIRE_MTU_MAX"
  shows "wire_frame C n i p = Some p"
proof -
  have "buf_from_slice WIRE_MTU_MAX p = Inr p" using assms(2) by (simp add: buf_from_slice_eq)
  then show ?thesis
    using assms(1) by (auto simp: wire_frame_def buf_from_slice_def pb_from_slice_def split: sum.splits)
qed

lemma enqueue_with_room:
  assumes "as_router (nd_interfaces n) = Some r" "rt_interface r i = Some c" "ic_online c"
    "dir_outbound (ic_direction c)" "length p \<le> interface_clear_mtu n i" "wire_frame C n i p = Some wire"
    "checked_add (nd_last_delivery_identity n) 1 \<noteq> None" "outbound_len_for_interface n i < ic_tx_queue_depth c"
    "q_inv (nd_outbound n)"
    "length (rows n) < min (tc_tx_queue_depth (lc_table_caps (nd_config n))) (q_cap (nd_outbound n))"
  shows "fst (enqueue_with_lifetime C n i p reason l)"
    "rows (snd (enqueue_with_lifetime C n i p reason l)) = rows n @ [new_row n i wire reason l]"
proof -
  show "fst (enqueue_with_lifetime C n i p reason l)"
    using assms q_invD(2) [OF assms(9)]
    by (auto simp: enqueue_with_lifetime_def reserve_router_queue_def not_le)
  then obtain n' where e: "enqueue_with_lifetime C n i p reason l = (True, n')"
    by (cases "enqueue_with_lifetime C n i p reason l") simp
  show "rows (snd (enqueue_with_lifetime C n i p reason l)) = rows n @ [new_row n i wire reason l]"
    using assms(9) e by (rule enqueue_rows) (use assms e in auto)
qed

lemma sample_router_facts:
  "as_router (nd_interfaces sample_router) = Some (router_new sample_registry None)"
  "nd_last_delivery_identity sample_router = 0" "nd_outbound sample_router = q_new 8"
  "tc_tx_queue_depth (lc_table_caps (nd_config sample_router)) = 4" "nd_clock_ms sample_router = 0"
  "m_ifac (nd_interfaces sample_router) 1 c = None" "nd_request_tags sample_router = replicate 8 None"
  "rt_interface (router_new sample_registry None) 1 = Some (ic_lora 1 1200 2)"
  "interface_clear_mtu sample_router 1 = 500"
proof -
  show r: "as_router (nd_interfaces sample_router) = Some (router_new sample_registry None)"
    and "nd_last_delivery_identity sample_router = 0" "nd_outbound sample_router = q_new 8"
    "tc_tx_queue_depth (lc_table_caps (nd_config sample_router)) = 4" "nd_clock_ms sample_router = 0"
    "nd_request_tags sample_router = replicate 8 None"
    by (simp_all add: sample_router_def node_new_const_def sample_caps_def CONFIG_MICRO_def lite_config_of_caps_def
        CAPS_MICRO_def rtt_new_def)
  show i: "rt_interface (router_new sample_registry None) 1 = Some (ic_lora 1 1200 2)"
    by (simp add: rt_interface_def router_new_def reg_get_def sample_registry_def ic_lora_def)
  then show "m_ifac (nd_interfaces sample_router) 1 c = None"
    by (simp add: sample_router_def rt_interface_def ic_lora_def)
  have "model_inv (nd_interfaces sample_router)"
    using reachable_inv [OF toy_hkdf_law toy_ed_law reachable_sample] by (simp add: node_inv_def queue_ok_def)
  from router_clear_mtu_eq [OF r this i] show "interface_clear_mtu sample_router 1 = 500"
    by (simp add: ic_lora_def clear_mtu_def size_consts)
qed

lemma sample_enqueue:
  assumes "length p \<le> 500"
  shows "fst (enqueue_with_lifetime toy_crypto sample_router 1 p reason l)"
    "rows (snd (enqueue_with_lifetime toy_crypto sample_router 1 p reason l)) = [new_row sample_router 1 p reason l]"
proof -
  have wire: "wire_frame toy_crypto sample_router 1 p = Some p"
    using assms by (intro wire_frame_clear) (simp_all add: sample_router_facts size_consts)
  note e = enqueue_with_room [OF sample_router_facts(1,8) _ _ _ wire, of reason l]
  show "fst (enqueue_with_lifetime toy_crypto sample_router 1 p reason l)"
    "rows (snd (enqueue_with_lifetime toy_crypto sample_router 1 p reason l)) = [new_row sample_router 1 p reason l]"
    using e assms
    by (simp_all add: sample_router_facts ic_lora_def BIDIRECTIONAL_def checked_add_def outbound_len_for_interface_def)
qed

lemma sample_sent_rows:
  "rows sample_sent = [new_row sample_router 1 (replicate 19 5) LocalReason (independent_lifetime 0)]"
  by (simp add: sample_sent_def send_local_def sample_enqueue sample_router_facts)

lemma reachable_sample_sent: "reachable toy_crypto sample_caps sample_sent"
  unfolding sample_sent_def using reachable_sample step_send_local by (rule reach_step)

lemma sample_sent_live: "live_rows sample_sent = rows sample_sent"
proof -
  have s: "strip sample_sent = strip sample_router" by (simp add: sample_sent_def send_local_def)
  have "\<not> row_stale sample_router 0 (new_row sample_router 1 (replicate 19 5) LocalReason (independent_lifetime 0))"
    by (simp add: row_stale_def new_row_def outbound_lifetime_is_live_def independent_lifetime_def
        OUTBOUND_MAX_AGE_MS_def sat_add_def sample_router_def node_new_const_def outbound_interface_online_def
        rt_generation_def router_new_def reg_slot_def reg_get_def sample_registry_def ic_lora_def REQUESTERS_def
        BIDIRECTIONAL_def is_some_and_def)
  then show ?thesis
    by (simp add: live_rows_def row_stale_strip [OF s] stripD(2) [OF s] sample_sent_rows)
      (simp add: sample_router_def node_new_const_def)
qed

theorem polling_hands_out_every_live_frame_witness:
  "fst (poll_times 2 sample_sent 1) =
     [Some (qo_frame (hd (rows sample_sent)), qo_delivery (hd (rows sample_sent))), None] \<and>
   rows (snd (poll_times 2 sample_sent 1)) = []"
proof -
  have p: "poll_order 1 (live_rows sample_sent) = rows sample_sent"
    by (simp add: sample_sent_live) (simp add: sample_sent_rows poll_order_def new_row_def)
  show ?thesis
    using polling_hands_out_every_live_frame [OF toy_hkdf_law toy_ed_law reachable_sample_sent, of 1 2]
    unfolding p unfolding sample_sent_live by (simp add: sample_sent_rows new_row_def)
qed

section \<open>Interfaces do not disturb each other\<close>

lemma enqueue_refused: "enqueue_with_lifetime C n i p reason l = (False, n') \<Longrightarrow> rows n' = rows n"
  by (rule enqueue_with_lifetime_cases [of C n i p reason l]) auto

lemma enqueue_isolated:
  assumes q: "q_inv (nd_outbound n)" and r: "is_router (nd_interfaces n)"
    and e: "enqueue_with_lifetime C n i p reason l = (ok, n')"
  shows "filter (\<lambda>q. row_interface q \<noteq> i) (rows n') = filter (\<lambda>q. row_interface q \<noteq> i) (rows n)"
    "gated reason \<or> (\<exists>q \<in> set (rows n). row_interface q = i \<and> row_gated q) \<Longrightarrow>
     \<exists>added. filter (\<lambda>q. row_interface q = i \<and> \<not> row_gated q) (rows n') =
       filter (\<lambda>q. row_interface q = i \<and> \<not> row_gated q) (rows n) @ added"
    "\<not> ok \<Longrightarrow> rows n' = rows n"
proof -
  have kept: "rows n' = rows n" if "\<not> ok" using that e enqueue_refused by simp
  have new: "row_interface (new_row n i w reason l) = i" for w by (simp add: new_row_def)
  show "\<not> ok \<Longrightarrow> rows n' = rows n" by (rule kept)
  consider (refused) "rows n' = rows n"
    | (added) w where "rows n' = rows n @ [new_row n i w reason l]"
    | (evict) w k where "k < length (rows n)" "row_interface (rows n ! k) = i"
        "gated reason \<longrightarrow> row_gated (rows n ! k)"
        "\<not> row_gated (rows n ! k) \<longrightarrow> (\<forall>q \<in> set (rows n). row_interface q = i \<longrightarrow> \<not> row_gated q)"
        "rows n' = list_remove k (rows n) @ [new_row n i w reason l]"
  proof (cases ok)
    case True
    with e have e': "enqueue_with_lifetime C n i p reason l = (True, n')" by simp
    from q e' show ?thesis
    proof (cases rule: enqueue_rows)
      case endpoint
      then show ?thesis using r by (cases "nd_interfaces n") auto
    next
      case (room r c wire)
      then show ?thesis by (intro added)
    next
      case (evict r c wire k)
      then show ?thesis by (intro that(3))
    qed
  qed (use kept refused in blast)
  note cases = this
  show "filter (\<lambda>q. row_interface q \<noteq> i) (rows n') = filter (\<lambda>q. row_interface q \<noteq> i) (rows n)"
    using cases
  proof cases
    case (evict w k)
    then show ?thesis
      using new filter_list_remove_other(1) [of k "rows n" "\<lambda>q. row_interface q \<noteq> i"] by simp
  qed (simp_all add: new)
  show "\<exists>added. filter (\<lambda>q. row_interface q = i \<and> \<not> row_gated q) (rows n') =
       filter (\<lambda>q. row_interface q = i \<and> \<not> row_gated q) (rows n) @ added"
    if "gated reason \<or> (\<exists>q \<in> set (rows n). row_interface q = i \<and> row_gated q)"
    using cases
  proof cases
    case (evict w k)
    then have "row_gated (rows n ! k)" using that by blast
    then show ?thesis
      using evict filter_list_remove_other(1) [of k "rows n" "\<lambda>q. row_interface q = i \<and> \<not> row_gated q"] by simp
  qed auto
qed

text \<open>C7. Queueing a frame on one interface of a router never touches the frames queued for another; it
  never displaces a frame that is not gated to admit a gated one, nor while a gated one could make
  room; a refused frame changes nothing, and no interface ever holds more frames than its depth.\<close>

theorem router_queueing_isolated:
  assumes "hkdf_law C" "ed_law C" "reachable C caps n" "nd_interfaces n = RouterModel r" "interval_ok l"
    and "enqueue_with_lifetime C n i p reason l = (ok, n')"
  shows "filter (\<lambda>q. row_interface q \<noteq> i) (rows n') = filter (\<lambda>q. row_interface q \<noteq> i) (rows n) \<and>
    (gated reason \<or> (\<exists>q \<in> set (rows n). row_interface q = i \<and> row_gated q) \<longrightarrow>
     (\<exists>added. filter (\<lambda>q. row_interface q = i \<and> \<not> row_gated q) (rows n') =
       filter (\<lambda>q. row_interface q = i \<and> \<not> row_gated q) (rows n) @ added)) \<and>
    (\<not> ok \<longrightarrow> rows n' = rows n) \<and>
    (\<forall>j c. rt_interface r j = Some c \<longrightarrow> outbound_len_for_interface n' j \<le> ic_tx_queue_depth c)"
proof -
  have inv: "node_inv C n" by (rule reachable_inv [OF assms(1-3)])
  then have q: "q_inv (nd_outbound n)" and router: "is_router (nd_interfaces n)"
    using assms(4) by (simp_all add: node_inv_def queue_ok_def)
  have "strip n' = strip n" using enqueue_with_lifetime_strip [of C n i p reason l] assms(6) by simp
  from model_coreD(10) [OF stripD(16) [OF this]] obtain r' where
    "as_router (nd_interfaces n') = Some r'" "rt_registry r' = rt_registry r" using assms(4) by auto
  moreover have "node_inv C n'" using node_inv_enqueue [OF assms(1,2) inv assms(5), of i p reason] assms(6) by simp
  ultimately have "\<forall>j c. rt_interface r j = Some c \<longrightarrow> outbound_len_for_interface n' j \<le> ic_tx_queue_depth c"
    by (simp add: node_inv_def queue_ok_def depth_ok_def rt_interface_def)
  with enqueue_isolated [OF q router assms(6)] show ?thesis by blast
qed

theorem router_queueing_isolated_witness:
  "filter (\<lambda>q. row_interface q \<noteq> 0)
     (rows (snd (enqueue_with_lifetime toy_crypto sample_sent 0 (replicate 19 5) LocalReason
       (independent_lifetime 0)))) = rows sample_sent"
proof -
  have "strip sample_sent = strip sample_router" by (simp add: sample_sent_def send_local_def)
  then have "model_core (nd_interfaces sample_sent) = model_core (nd_interfaces sample_router)" by (rule stripD(16))
  then obtain r where "nd_interfaces sample_sent = RouterModel r"
    by (rule model_core_cases) (simp_all add: sample_router_def)
  from router_queueing_isolated [OF toy_hkdf_law toy_ed_law reachable_sample_sent this interval_ok_independent
      surjective_pairing, of 0 "replicate 19 5" LocalReason 0]
  show ?thesis by (simp add: sample_sent_rows new_row_def)
qed

section \<open>A path request\<close>

lemma insert_if_new_recorded:
  assumes "t \<noteq> []"
  shows "\<exists>e. Some e \<in> set (snd (insert_if_new t key expires now)) \<and> te_key e = key"
proof (cases "list_ex (\<lambda>e. te_key e = key) (somes (rtt_expire t now))")
  case True
  then show ?thesis by (auto simp: insert_if_new_def Let_def list_ex_iff)
next
  case False
  let ?t = "rtt_expire t now"
  obtain i where i: "free_or_oldest ?t te_expires_ms = Some i" "i < length ?t"
    using assms free_or_oldest_None [of ?t te_expires_ms] free_or_oldest_Some(1) [of ?t te_expires_ms]
    by (cases "free_or_oldest ?t te_expires_ms") (auto simp: rtt_expire_def clear_where_def)
  then show ?thesis
    using False by (auto simp: insert_if_new_def Let_def free_or_oldest_def intro!: set_update_memI)
qed

lemma last_list_push: "cap \<noteq> 0 \<Longrightarrow> list_push cap xs x \<noteq> [] \<and> last (list_push cap xs x) = x"
  by (simp add: list_push_def)

lemma enqueue_last_row:
  assumes "q_inv (nd_outbound n)" "q_cap (nd_outbound n) \<noteq> 0"
    and "enqueue_with_lifetime C n i p reason l = (True, n')"
  shows "\<exists>wire. wire_frame C n i p = Some wire \<and> rows n' \<noteq> [] \<and> last (rows n') = new_row n i wire reason l"
  using assms(1,3) by (rule enqueue_rows) (auto simp: last_list_push [OF assms(2)])

lemma wire_frame_strip:
  assumes "strip n' = strip n"
  shows "wire_frame C n' i p = wire_frame C n i p"
  unfolding wire_frame_def stripD [OF assms] model_coreD [OF stripD(16) [OF assms]] by (rule refl)

text \<open>C9. A path request is queued and its tag recorded, or neither: when it fails, the tags are
  those of before and the queue holds just the frames that are still live; when it succeeds, the last
  frame of the queue is the request, wrapped for its interface, and the tag is in the table.\<close>

theorem request_path_all_or_nothing:
  assumes "hkdf_law C" "ed_law C" "reachable C caps n" "q_cap (nd_outbound n) \<noteq> 0" "nd_request_tags n \<noteq> []"
    and "request_path C n d tag i now = (res, n')"
  shows "case res of
      Inl e \<Rightarrow> nd_request_tags n' = nd_request_tags n \<and>
        rows n' = filter (\<lambda>q. \<not> row_stale (n\<lparr>nd_clock_ms := now\<rparr>) now q) (rows n)
    | Inr u \<Rightarrow> \<exists>request wire. build_path_request C n d tag = Inr request \<and> wire_frame C n i request = Some wire \<and>
        rows n' \<noteq> [] \<and> of_packet (qo_frame (last (rows n'))) = wire \<and>
        row_interface (last (rows n')) = i \<and> of_reason (qo_frame (last (rows n'))) = PathRequest \<and>
        (\<exists>e. Some e \<in> set (nd_request_tags n') \<and> te_key e = d @ tag)"
proof -
  define n0 where "n0 = n\<lparr>nd_clock_ms := now\<rparr>"
  define n1 where "n1 = expire_outbound n0 now"
  have "q_inv (nd_outbound n0)"
    using node_invD(10) [OF reachable_inv [OF assms(1-3)]] by (simp add: queue_ok_def n0_def)
  note E = expire_outbound_rows [OF this, of now, folded n1_def]
  have s: "strip n1 = strip n0" by (simp add: n1_def)
  have build: "build_path_request C n1 d tag = build_path_request C n d tag"
    unfolding build_path_request_def stripD [OF s] by (simp add: n0_def)
  have wire: "wire_frame C n1 i p = wire_frame C n i p" for p
    using wire_frame_strip [OF s] by (simp add: wire_frame_def n0_def)
  have req: "(res, n') = (case build_path_request C n d tag of Inl e \<Rightarrow> (Inl e, n1) | Inr request \<Rightarrow>
      (case enqueue C n1 i request PathRequest of
         (False, n) \<Rightarrow> (Inl (egress_error n i (length request)), n)
       | (True, n) \<Rightarrow> (Inr (), n\<lparr>nd_request_tags := snd (insert_if_new (nd_request_tags n) (d @ tag)
           (sat_add now (PATH_REQUEST_DUPLICATE_GATE_SECS * 1000)) now)\<rparr>)))"
    using assms(6) unfolding request_path_def Let_def n0_def [symmetric] n1_def [symmetric] build by (rule sym)
  have old: "nd_request_tags n1 = nd_request_tags n" "rows n1 = filter (\<lambda>q. \<not> row_stale n0 now q) (rows n)"
    using stripD(13) [OF s] E(3) by (simp_all add: n0_def)
  show ?thesis
  proof (cases "build_path_request C n d tag")
    case (Inl e)
    then show ?thesis using req old by (simp add: n0_def)
  next
    case (Inr request)
    obtain b n2 where e: "enqueue C n1 i request PathRequest = (b, n2)" by fastforce
    have tags: "nd_request_tags n2 = nd_request_tags n"
      using stripD(13) [OF enqueue_strip [of C n1 i request PathRequest]] e old(1) by simp
    show ?thesis
    proof (cases b)
      case False
      then have "rows n2 = rows n1"
        using e enqueue_refused by (simp add: enqueue_def)
      then show ?thesis using False req Inr e old tags by (simp add: n0_def)
    next
      case True
      then have "\<exists>w. wire_frame C n1 i request = Some w \<and> rows n2 \<noteq> [] \<and>
          last (rows n2) = new_row n1 i w PathRequest (packet_lifetime n1 request PathRequest)"
        using e E assms(4) unfolding enqueue_def by (intro enqueue_last_row) (simp_all add: n0_def)
      then show ?thesis
        using True req Inr e tags insert_if_new_recorded [OF assms(5)] by (auto simp: wire new_row_def)
    qed
  qed
qed

theorem request_path_all_or_nothing_witness:
  "\<exists>request e. build_path_request toy_crypto sample_router (replicate 16 1) (replicate 16 2) = Inr request \<and>
     of_packet (qo_frame (last (rows (snd (request_path toy_crypto sample_router (replicate 16 1) (replicate 16 2) 1 0)))))
       = request \<and>
     Some e \<in> set (nd_request_tags (snd (request_path toy_crypto sample_router (replicate 16 1) (replicate 16 2) 1 0))) \<and>
     te_key e = replicate 16 1 @ replicate 16 2"
proof -
  let ?rp = "request_path toy_crypto sample_router (replicate 16 1) (replicate 16 2) 1 0"
  have "length (destination_hash_from_parts toy_crypto h None) = 16" for h
    using toy_sha_law by (simp add: destination_hash_from_parts_def truncated_hash_def sha_law_def size_consts)
  moreover have "length (nd_transport_id sample_router) = 16" by (simp add: sample_router_def node_new_const_def)
  ultimately have "\<exists>p. build_path_request toy_crypto sample_router (replicate 16 1) (replicate 16 2) = Inr p \<and> length p \<le> 500"
    by (auto simp: build_path_request_def Let_def packet_bytes_eq header_bytes_def size_consts
        path_request_destination_def destination_hash_from_name_def)
  then obtain p where p: "build_path_request toy_crypto sample_router (replicate 16 1) (replicate 16 2) = Inr p"
    "length p \<le> 500" by blast
  have "sample_router\<lparr>nd_clock_ms := 0\<rparr> = sample_router" "sample_router\<lparr>nd_outbound := q_new 8\<rparr> = sample_router"
    using sample_router_facts(3,5) by (cases sample_router; simp)+
  then have "expire_outbound (sample_router\<lparr>nd_clock_ms := 0\<rparr>) 0 = sample_router"
    by (simp add: expire_outbound_def drain_where.simps sample_router_facts)
  then have "fst ?rp = Inr ()"
    using p sample_enqueue(1) [OF p(2), of PathRequest "packet_lifetime sample_router p PathRequest"]
    by (simp add: request_path_def enqueue_def split_beta split: bool.split)
  with request_path_all_or_nothing [OF toy_hkdf_law toy_ed_law reachable_sample _ _ surjective_pairing,
      of "replicate 16 1" "replicate 16 2" 1 0] p(1)
  show ?thesis
    using wire_frame_clear [OF sample_router_facts(6), of p toy_crypto] p(2)
    by (auto simp: sample_router_facts size_consts)
qed

section \<open>Crossing a LoRa hop\<close>

text \<open>The sender's framer encodes \<open>frame\<close> and the receiver's reassembles \<open>b\<close> from one or two radio frames.\<close>

definition lora_hop ::
  "lora_framer \<Rightarrow> lora_frame \<times> lora_frame \<Rightarrow> u8 \<Rightarrow> u64 \<Rightarrow> u64 \<Rightarrow> bytes \<Rightarrow> packet_buffer \<Rightarrow> bool" where
  "lora_hop fr out nibble t1 t2 frame b \<longleftrightarrow>
     (\<exists>k f0 f1 fr'. lora_encode frame nibble out = (Inr k, (f0, f1)) \<and>
       (k = 1 \<and> ingest_frame fr (lora_frame_as_slice f0) t1 = (Inr (Some b), fr') \<or>
        k = 2 \<and> (\<exists>fr1. ingest_frame fr (lora_frame_as_slice f0) t1 = (Inr None, fr1) \<and>
                      ingest_frame fr1 (lora_frame_as_slice f1) t2 = (Inr (Some b), fr'))))"

lemma unwrap_wire_frame:
  assumes laws: "hkdf_law C" "ed_law C" and w: "wire_frame C n i p = Some wire"
    and c: "m_ifac (nd_interfaces n) i (nd_config n) = ifac" "m_ifac (nd_interfaces m) j (nd_config m) = ifac"
    and isz: "\<And>a. ifac = Some a \<Longrightarrow> 0 < unat (ifc_size a) \<and> unat (ifc_size a) \<le> 64"
    and p: "3 \<le> length p" "length p \<le> MTU" "\<not> has_ifac_flag p"
  shows "ingest_unwrap C m wire j = Some p"
proof (cases ifac)
  case None
  have "wire = p"
    using w c(1) None p(2) wire_frame_clear [of n i p C] by (simp add: size_consts)
  then show ?thesis using None c p by (simp add: ingest_unwrap_def)
next
  case (Some a)
  with isz have "0 < unat (ifc_size a)" "unat (ifc_size a) \<le> 64" by auto
  from ifac_unwrap_wrap [OF laws this p, of "pb_new WIRE_MTU_MAX" "pb_new MTU" "ifc_key a"]
  show ?thesis using w c Some by (auto simp: wire_frame_def ingest_unwrap_def)
qed

text \<open>C8. A packet that a reachable router has queued for a LoRa interface crosses the hop: the frame it
  queued, access code included, fits the radio, the receiver's framer reassembles it, and a receiver
  configured with the same access code recovers exactly the packet.\<close>

theorem queued_packet_crosses_lora_hop:
  assumes laws: "hkdf_law C" "ed_law C" and n: "reachable C caps n" "nd_interfaces n = RouterModel r"
    and c: "rt_interface r i = Some c" "ic_role c = RoleLoRa"
    and e: "interval_ok l" "enqueue_with_lifetime C n i p reason l = (True, n')"
    and p: "3 \<le> length p" "\<not> has_ifac_flag p"
    and m: "m_ifac (nd_interfaces m) j (nd_config m) = ic_ifac c"
    and out: "length (lf_bytes o0) = LORA_FRAME_MAX" "length (lf_bytes o1) = LORA_FRAME_MAX"
    and fr: "\<not> is_some_and (fr_pending (lora_framer_expire fr t1)) (\<lambda>p. ps_sequence p = nibble AND 0x0F)"
      "t2 < sat_add t1 (fr_split_timeout_ms fr)"
  shows "\<exists>q b. q \<in> set (rows n') \<and> row_interface q = i \<and>
    lora_hop fr (o0, o1) nibble t1 t2 (of_packet (qo_frame q)) b \<and> ingest_unwrap C m (pb_as_slice b) j = Some p"
proof -
  have ok: "queue_ok n" and ok': "queue_ok n'"
    using reachable_inv [OF laws n(1)] node_inv_enqueue [OF laws _ e(1), of n i p reason] e(2)
    by (simp_all add: node_inv_def)
  have "Some c \<in> set (rt_registry r)"
    using ok n(2) c(1) by (simp add: queue_ok_def rt_interface_def reg_get_iff)
  then have v: "interface_validate c (ic_tx_queue_depth c) = Inr ()" using ok n(2) by (simp add: queue_ok_def)
  have "\<exists>wire. wire_frame C n i p = Some wire \<and> length p \<le> interface_clear_mtu n i \<and>
      new_row n i wire reason l \<in> set (rows n')"
  proof -
    have len: "length p \<le> interface_clear_mtu n i"
      by (rule enqueue_with_lifetime_cases [of C n i p reason l]) (use e(2) in auto)
    have "q_inv (nd_outbound n)" using ok by (simp add: queue_ok_def)
    from this e(2) show ?thesis by (rule enqueue_rows) (use len n(2) in auto)
  qed
  then obtain wire where wire: "wire_frame C n i p = Some wire" "length p \<le> interface_clear_mtu n i"
    "new_row n i wire reason l \<in> set (rows n')" by blast
  have mtu: "length p \<le> MTU"
    using wire(2) router_clear_mtu [of n r i c] validated_mtu(1) [OF v] ok n(2) c(1) by (simp add: queue_ok_def)
  have "strip n' = strip n" using enqueue_with_lifetime_strip [of C n i p reason l] e(2) by simp
  from model_coreD(10) [OF stripD(16) [OF this]] obtain r' where
    "as_router (nd_interfaces n') = Some r'" "rt_registry r' = rt_registry r" using n(2) by auto
  then have "length wire \<le> wire_mtu c"
    using ok' wire(3) c(1) by (force simp: queue_ok_def row_ok_def new_row_def rt_interface_def)
  then have "length wire \<le> LORA_SPLIT_FRAME_PAYLOAD_MAX" using validated_mtu(4) [OF v c(2)] by simp
  from lora_packet_roundtrip [OF this out fr] obtain b where
    b: "lora_hop fr (o0, o1) nibble t1 t2 wire b" "pb_as_slice b = wire"
    unfolding lora_hop_def by metis
  have "ingest_unwrap C m wire j = Some p"
    using v by (intro unwrap_wire_frame [OF laws wire(1) _ m _ p(1) mtu p(2)])
      (use n(2) c(1) in \<open>auto simp: rt_interface_def interface_validate_Inr\<close>)
  then show ?thesis using b wire(3) by (intro exI [of _ "new_row n i wire reason l"] exI [of _ b]) (simp add: new_row_def)
qed

theorem queued_packet_crosses_lora_hop_witness:
  "\<exists>q b. q \<in> set (rows sample_sent) \<and> row_interface q = 1 \<and>
    lora_hop (lora_framer_new 5000) (lora_frame_new, lora_frame_new) 5 100 200 (of_packet (qo_frame q)) b \<and>
    ingest_unwrap toy_crypto sample_router (pb_as_slice b) 1 = Some (replicate 19 5)"
proof -
  have "fst (enqueue_with_lifetime toy_crypto sample_router 1 (replicate 19 5) LocalReason (independent_lifetime 0))"
    by (rule sample_enqueue) simp
  then have e: "enqueue_with_lifetime toy_crypto sample_router 1 (replicate 19 5) LocalReason (independent_lifetime 0) =
      (True, sample_sent)"
    by (simp add: sample_sent_def send_local_def sample_router_facts prod_eq_iff)
  have r: "nd_interfaces sample_router = RouterModel (router_new sample_registry None)"
    by (simp add: sample_router_def)
  show ?thesis
    by (rule queued_packet_crosses_lora_hop [OF toy_hkdf_law toy_ed_law reachable_sample r sample_router_facts(8)
          _ interval_ok_independent e])
      (simp_all add: sample_router_facts ic_lora_def
        has_ifac_flag_def IFAC_FLAG_def lora_frame_new_def lora_framer_new_def lora_framer_expire_def
        LORA_FRAME_MAX_def sat_add_def)
qed

section \<open>Every reachable node\<close>

text \<open>C1. Every node that its public operations can reach, in any order and with any input, is
  well-formed: each table satisfies the invariant of its component, every row of the outbound queue
  was queued for an online interface and its current registration, has a lifetime of at most two
  minutes and fits its interface, and no interface of a router holds more rows than its depth.\<close>

theorem reachable_nodes_well_formed:
  assumes "hkdf_law C" "ed_law C" "reachable C caps n"
  shows "node_inv C n"
  using assms by (rule reachable_inv)

theorem reachable_nodes_well_formed_witness:
  "rows sample_sent \<noteq> [] \<and> node_inv toy_crypto (tick toy_crypto sample_sent 7)"
proof -
  have "reachable toy_crypto sample_caps (tick toy_crypto sample_sent 7)"
    using reachable_sample_sent step_tick by (rule reach_step)
  from reachable_nodes_well_formed [OF toy_hkdf_law toy_ed_law this]
  show ?thesis by (simp add: sample_sent_rows)
qed

end
