(* ===== verification/Node_Traffic.thy ===== *)
theory Node_Traffic
  imports Node_Frames Node_Queue
begin

text \<open>
  Properties of received traffic: where routes and validated links come from, that a packet is not
  forwarded twice, and that \<^verbatim>\<open>tick\<close> leaves no announce due.
\<close>

section \<open>Where routes come from\<close>

text \<open>Apart from its lifetime, an entry of the path table is what an announce said.\<close>

definition same_route :: "path_entry \<Rightarrow> path_entry \<Rightarrow> bool" where
  "same_route a b \<longleftrightarrow> b = a\<lparr>pe_expires_ms := pe_expires_ms b, pe_last_seen_ms := pe_last_seen_ms b\<rparr>"

definition route_held :: "path_table \<Rightarrow> path_entry \<Rightarrow> bool" where
  "route_held t e \<longleftrightarrow> (\<exists>e0. Some e0 \<in> set (gt_entries t) \<and> same_route e0 e)"

lemma route_heldI: "Some e \<in> set (gt_entries t) \<Longrightarrow> route_held t e"
  by (auto simp: route_held_def same_route_def intro!: exI [of _ e])

lemma path_touch_held: "Some e \<in> set (gt_entries (path_touch t d now)) \<Longrightarrow> route_held t e"
  by (auto simp: path_touch_def path_touch_entry_def Let_def route_held_def same_route_def
      dest!: Some_in_update_first)

text \<open>The evidence a route needs: an announce in the packet whose signature verifies under a key that
  hashes to the destination and that agrees with the key already held for it.\<close>

definition announced :: "crypto \<Rightarrow> lite_node \<Rightarrow> packet_view \<Rightarrow> path_entry \<Rightarrow> bool" where
  "announced C n view e \<longleftrightarrow>
     (\<exists>v. announce_parse (pv_payload view) (pf_context_flag (ph_flags (pv_header view)))
            (lc_max_announce_app_data (nd_config n)) = Inr v \<and>
       pe_destination_hash e = ph_destination_hash (pv_header view) \<and>
       pe_public_key e = av_public_key v \<and> pe_random_hash e = av_random_hash v \<and>
       pe_destination_hash e =
         destination_hash_from_parts C (av_name_hash v) (Some (identity_hash C (av_public_key v))) \<and>
       (\<forall>k. or_else (kd_peek (nd_known_destinations n) (pe_destination_hash e))
             (path_known_public_key (nd_paths n) (pe_destination_hash e)) = Some k \<longrightarrow> k = pe_public_key e) \<and>
       cr_ed_verify C (drop 32 (pe_public_key e))
         (pe_destination_hash e @ av_public_key v @ av_name_hash v @ av_random_hash v @
          ratchet_bytes (av_ratchet v) @ av_app_data v) (av_signature v))"

lemma announce_update_path_routes:
  assumes "Some e \<in> set (gt_entries (nd_paths (snd (announce_update_path C n r view h meta now v))))"
  shows "Some e \<in> set (gt_entries (nd_paths n)) \<or>
    pe_destination_hash e = ph_destination_hash h \<and> pe_public_key e = av_public_key v \<and>
    pe_random_hash e = av_random_hash v"
proof -
  define m where "m = hear_rebroadcast n (ph_destination_hash h) (ph_hops (pv_header view)) now"
  define bulk where "bulk = bulk_announce m (ph_destination_hash h) meta now"
  define e' where "e' = \<lparr>pe_destination_hash = ph_destination_hash h, pe_next_hop = ph_transport_id (pv_header view),
      pe_hops = ph_hops h, pe_interface_id = rx_interface_id meta,
      pe_expires_ms = sat_add now (announce_path_expiry_secs
        (unwrap_or (rx_interface_mode meta) (lc_mode (nd_config m))) * 1000),
      pe_last_seen_ms = now,
      pe_packet_hash = packet_hash (cr_sha256 C) r (pf_header_type (ph_flags (pv_header view))),
      pe_random_hash = av_random_hash v, pe_public_key = av_public_key v, pe_bulk = bulk\<rparr>"
  have m: "nd_paths m = nd_paths n" by (simp add: m_def)
  have "nd_paths (snd (announce_update_path C n r view h meta now v)) = snd (path_insert_or_update (nd_paths n) e' now)"
    unfolding announce_update_path_def Let_def split_beta m_def [symmetric] bulk_def [symmetric] e'_def [symmetric] m
    by simp
  then show ?thesis using assms path.insert_origin [of e "nd_paths n" e' now] by (auto simp: e'_def)
qed

lemma handle_announce_routes:
  assumes h: "ph_destination_hash h = ph_destination_hash (pv_header view)"
    and e: "Some e \<in> set (gt_entries (nd_paths (snd (handle_announce C n r view h meta now))))"
  shows "Some e \<in> set (gt_entries (nd_paths n)) \<or> announced C n view e"
proof -
  let ?d = "ph_destination_hash h"
  let ?known = "or_else (kd_peek (nd_known_destinations n) ?d) (path_known_public_key (nd_paths n) ?d)"
  have upd: "Some e \<in> set (gt_entries (nd_paths n)) \<or> announced C n view e"
    if v: "announce_parse (pv_payload view) (pf_context_flag (ph_flags (pv_header view)))
        (lc_max_announce_app_data (nd_config n)) = Inr v" "announce_validate C v ?d ?known ANNOUNCE_SCRATCH_MAX = Inr ih"
      and m: "nd_paths m = nd_paths n"
      and e: "Some e \<in> set (gt_entries (nd_paths (snd (announce_update_path C m r view h meta now v))))" for v ih m
  proof (rule disjE [OF announce_update_path_routes [OF e]])
    assume x: "pe_destination_hash e = ?d \<and> pe_public_key e = av_public_key v \<and> pe_random_hash e = av_random_hash v"
    then have eq: "pe_destination_hash e = ?d" "pe_public_key e = av_public_key v" "pe_random_hash e = av_random_hash v"
      by auto
    note V = announce_validate_InrD [OF v(2)]
    have "announced C n view e"
      unfolding announced_def eq
      by (intro exI [of _ v] conjI allI impI v(1) h refl V(2) [unfolded V(1)] V(4)) (rule V(3))
    then show ?thesis ..
  qed (simp add: m)
  define ok where "ok res \<longleftrightarrow> (Some e \<in> set (gt_entries (nd_paths (snd res))) \<longrightarrow>
      Some e \<in> set (gt_entries (nd_paths n)) \<or> announced C n view e)"
    for res :: "(transport_error + ingest_action) \<times> lite_node"
  have if_ok: "\<lbrakk>b \<Longrightarrow> ok x; \<not> b \<Longrightarrow> ok y\<rbrakk> \<Longrightarrow> ok (if b then x else y)" for b x y by simp
  have sum_ok: "\<lbrakk>\<And>a. z = Inl a \<Longrightarrow> ok (f a); \<And>b. z = Inr b \<Longrightarrow> ok (g b)\<rbrakk> \<Longrightarrow> ok (case_sum f g z)"
    for z :: "'x + 'y" and f g by (cases z) simp_all
  have upd_ok: "ok (announce_update_path C m r view h meta now v)"
    if "announce_parse (pv_payload view) (pf_context_flag (ph_flags (pv_header view)))
        (lc_max_announce_app_data (nd_config n)) = Inr v" "announce_validate C v ?d ?known ANNOUNCE_SCRATCH_MAX = Inr ih"
      "nd_paths m = nd_paths n" for v ih m
    using upd [OF that] by (simp add: ok_def)
  have same: "ok (res, m)" if "nd_paths m = nd_paths n" for res m using that by (simp add: ok_def)
  have "ok (handle_announce C n r view h meta now)"
    unfolding handle_announce_def Let_def split_beta
    by (intro if_ok sum_ok same upd_ok; simp)
  then show ?thesis using e by (simp add: ok_def)
qed

section \<open>Where validated links come from\<close>

definition link_held :: "link_table \<Rightarrow> link_entry \<Rightarrow> bool" where
  "link_held t e \<longleftrightarrow> (\<exists>e0. Some e0 \<in> set (gt_entries t) \<and> same_link e0 e \<and> le_validated e0 = le_validated e)"

lemma link_heldI: "Some e \<in> set (gt_entries t) \<Longrightarrow> link_held t e"
  by (auto simp: link_held_def)

lemma lt_touch_held: "Some e \<in> set (gt_entries (lt_touch t l x now)) \<Longrightarrow> link_held t e"
  by (auto simp: link_held_def dest!: lt_touch_entries)

lemma lt_expire_held: "Some e \<in> set (gt_entries (lt_expire t now)) \<Longrightarrow> link_held t e"
  by (auto simp: lt.expire_slots Some_in_clear_where intro: link_heldI)

text \<open>A link request changes the links by expiry and at most one new entry, which is not validated.\<close>

lemma handle_link_request_tables:
  "nd_paths (snd (handle_link_request C n r oh h meta now)) \<in>
     {nd_paths n, path_touch (nd_paths n) (ph_destination_hash h) now}"
  "nd_links (snd (handle_link_request C n r oh h meta now)) \<in> {nd_links n, lt_expire (nd_links n) now} \<or>
   (\<exists>e. \<not> le_validated e \<and>
      nd_links (snd (handle_link_request C n r oh h meta now)) = lt_insert (lt_expire (nd_links n) now) e now)"
proof -
  define n1 where "n1 = n\<lparr>nd_links := snd (has_free_slot (nd_links n) now)\<rparr>"
  have n1: "nd_paths n1 = nd_paths n" "nd_links n1 = lt_expire (nd_links n) now"
    by (simp_all add: n1_def has_free_slot_def Let_def)
  show "nd_paths (snd (handle_link_request C n r oh h meta now)) \<in>
     {nd_paths n, path_touch (nd_paths n) (ph_destination_hash h) now}"
    unfolding handle_link_request_def Let_def split_beta n1_def [symmetric]
    by (simp add: n1 split: sum.split option.split bool.split)
  show "nd_links (snd (handle_link_request C n r oh h meta now)) \<in> {nd_links n, lt_expire (nd_links n) now} \<or>
   (\<exists>e. \<not> le_validated e \<and>
      nd_links (snd (handle_link_request C n r oh h meta now)) = lt_insert (lt_expire (nd_links n) now) e now)"
    unfolding handle_link_request_def Let_def split_beta n1_def [symmetric]
    by (auto simp: n1 split: sum.split option.split bool.split intro!: exI)
qed

lemma handle_link_request_links:
  assumes "Some e \<in> set (gt_entries (nd_links (snd (handle_link_request C n r oh h meta now))))" "le_validated e"
  shows "link_held (nd_links n) e"
  using handle_link_request_tables(2) [of C n r oh h meta now] assms
  by (auto dest!: lt.insert_origin intro: link_heldI lt_expire_held)

lemma route_link_packet_links:
  assumes "Some e \<in> set (gt_entries (nd_links (snd (route_link_packet C n r h meta now reason))))"
  shows "link_held (nd_links n) e"
proof -
  define ok where "ok m \<longleftrightarrow> nd_links m = nd_links n \<or> (\<exists>l x. nd_links m = lt_touch (nd_links n) l x now)"
    for m :: lite_node
  have fwd: "ok (snd (forward_link_packet C m r h meta now reason link t tracked))"
    if "nd_links m = nd_links n" for m link t tracked
    unfolding forward_link_packet_def Let_def split_beta ok_def
    by (auto simp: that split: sum.split option.split bool.split)
  have "ok (snd (route_link_packet C n r h meta now reason))"
    unfolding route_link_packet_def Let_def split_beta
    by (simp add: fwd split: sum.split option.split) (simp add: ok_def)
  then show ?thesis using assms by (auto simp: ok_def intro: link_heldI lt_touch_held)
qed

text \<open>The proof a transit link needs: a signature over the link's id by the key of the destination that
  the link was requested for.\<close>

definition proved :: "crypto \<Rightarrow> bytes \<Rightarrow> link_entry \<Rightarrow> bool" where
  "proved C payload link \<longleftrightarrow>
     (\<exists>key. le_destination_ed25519 link = Some key \<and> cr_ed_key_ok C key \<and>
       cr_ed_verify C key
         (le_link_id link @ slice 64 96 payload @ key @ (if length payload = 99 then slice 96 99 payload else []))
         (take 64 payload))"

lemma validate_transit_lrproof_proved:
  assumes "validate_transit_lrproof C n r h link" "ph_destination_hash h = le_link_id link"
  shows "proved C (drop (header_size h) r) link"
  using assms
  by (auto simp: validate_transit_lrproof_def Let_def proved_def split: if_splits sum.splits option.splits)

lemma handle_lrproof_links:
  assumes l: "lt_get (nd_links n) (ph_destination_hash h) now = Some link" and inv: "lt_inv (nd_links n)"
    and e: "Some e \<in> set (gt_entries (nd_links (snd (handle_lrproof C n r h meta now link))))"
  shows "link_held (nd_links n) e \<or> same_link link e \<and> proved C (drop (header_size h) r) link"
proof (cases "validate_transit_lrproof C n r h link")
  case False
  then show ?thesis using e by (auto simp: handle_lrproof_def intro: link_heldI)
next
  case True
  note g = lt_get_Some [OF l]
  have p: "proved C (drop (header_size h) r) link" using True g(2) by (simp add: validate_transit_lrproof_proved)
  have "nd_links (snd (handle_lrproof C n r h meta now link)) = nd_links n \<or>
      (\<exists>x. nd_links (snd (handle_lrproof C n r h meta now link)) = mark_validated (nd_links n) (ph_destination_hash h) x now)"
    unfolding handle_lrproof_def Let_def split_beta by (auto split: sum.split bool.split)
  then show ?thesis
  proof
    assume "\<exists>x. nd_links (snd (handle_lrproof C n r h meta now link)) = mark_validated (nd_links n) (ph_destination_hash h) x now"
    then obtain x where "Some e \<in> set (gt_entries (mark_validated (nd_links n) (ph_destination_hash h) x now))"
      using e by auto
    from mark_validated_entries [OF this] show ?thesis
    proof (elim disjE exE conjE)
      fix y assume y: "Some y \<in> set (gt_entries (nd_links n))" "le_link_id y = ph_destination_hash h" "same_link y e"
      then have "y = link" using uniq_keysD [of le_link_id "gt_entries (nd_links n)" y link] g inv by (simp add: lt_inv_def)
      then show ?thesis using y p by simp
    qed (auto intro: link_heldI)
  qed (use e in \<open>auto intro: link_heldI\<close>)
qed

section \<open>Dispatch\<close>

lemma dispatch_routes:
  assumes h: "ph_destination_hash h = ph_destination_hash (pv_header view)"
    and e: "Some e \<in> set (gt_entries (nd_paths (snd (dispatch C n r view h meta now))))"
  shows "route_held (nd_paths n) e \<or> pf_packet_type (ph_flags h) = PtAnnounce \<and> announced C n view e"
proof (cases "pf_packet_type (ph_flags h)")
  case PtData
  define b n1 where "b = fst (route_link_packet C n r h meta now TransportForward)"
    and "n1 = snd (route_link_packet C n r h meta now TransportForward)"
  have rl: "route_link_packet C n r h meta now TransportForward = (b, n1)" by (simp add: b_def n1_def)
  have n1: "nd_paths n1 = nd_paths n" by (simp add: n1_def route_link_packet_frame)
  have "nd_paths (snd (handle_data C n r view h meta now)) \<in>
      {nd_paths n, path_touch (nd_paths n) (ph_destination_hash h) now}"
    using handle_transport_forward_frame(2) [of C n1 r "pv_header view" h meta now]
      stripD(8) [OF bridge_plain_broadcast_strip [of C n1 r h "rx_interface_id meta"]]
    by (auto simp: handle_data_def rl n1 handle_path_request_frame split: sum.split bool.split)
  then show ?thesis using e PtData by (auto simp: dispatch_def intro: route_heldI path_touch_held)
next
  case PtProof
  have "nd_paths (snd (handle_proof C n r h meta now)) = nd_paths n"
    unfolding handle_proof_def handle_lrproof_def Let_def split_beta
    by (simp add: return_proof_frame route_link_packet_frame split: option.split sum.split bool.split)
  then show ?thesis using e PtProof by (auto simp: dispatch_def intro: route_heldI)
next
  case PtLinkRequest
  then show ?thesis
    using e handle_link_request_tables(1) [of C n r "pv_header view" h meta now]
    by (auto simp: dispatch_def intro: route_heldI path_touch_held)
next
  case PtAnnounce
  then show ?thesis using e handle_announce_routes [OF h, of e C n r meta now] by (auto simp: dispatch_def intro: route_heldI)
qed

lemma handle_announce_frame: "same_frame (snd (handle_announce C n r view h meta now)) n"
  unfolding handle_announce_def announce_update_path_def Let_def split_beta
  by (simp split: sum.split)

lemma dispatch_links:
  assumes inv: "lt_inv (nd_links n)" and v: "le_validated e"
    and e: "Some e \<in> set (gt_entries (nd_links (snd (dispatch C n r view h meta now))))"
  shows "link_held (nd_links n) e \<or> pf_packet_type (ph_flags h) = PtProof \<and> ph_context h = CtxLrproof \<and>
    (\<exists>link. Some link \<in> set (gt_entries (nd_links n)) \<and> same_link link e \<and> proved C (drop (header_size h) r) link)"
proof (cases "pf_packet_type (ph_flags h)")
  case PtData
  define n1 where "n1 = snd (route_link_packet C n r h meta now TransportForward)"
  have "nd_links (snd (handle_data C n r view h meta now)) = nd_links n1"
    using handle_transport_forward_frame(1) [of C n1 r "pv_header view" h meta now]
      handle_path_request_frame(1) [of C n1 "pv_payload view" meta now]
      stripD(12) [OF bridge_plain_broadcast_strip [of C n1 r h "rx_interface_id meta"]]
    unfolding handle_data_def split_beta n1_def [symmetric]
    by (auto simp: same_frame_def split: sum.split bool.split)
  then show ?thesis using e PtData route_link_packet_links by (auto simp: dispatch_def n1_def)
next
  case PtLinkRequest
  then show ?thesis using e v handle_link_request_links by (auto simp: dispatch_def)
next
  case PtAnnounce
  then show ?thesis
    using e handle_announce_frame [of C n r view h meta now] by (auto simp: dispatch_def same_frame_def intro: link_heldI)
next
  case PtProof
  show ?thesis
  proof (cases "ph_context h = CtxLrproof")
    case False
    define n1 where "n1 = snd (route_link_packet C n r h meta now ProofReturn)"
    have "nd_links (snd (handle_proof C n r h meta now)) = nd_links n1"
      using False return_proof_frame(1) [of C n1 r h meta now]
      unfolding handle_proof_def split_beta n1_def [symmetric]
      by (auto simp: same_frame_def split: sum.split bool.split)
    then show ?thesis using e PtProof route_link_packet_links by (auto simp: dispatch_def n1_def)
  next
    case True
    then show ?thesis
      using e PtProof handle_lrproof_links [OF _ inv, of h now _ e C r meta] lt_get_Some(1)
      by (auto simp: dispatch_def handle_proof_def intro: link_heldI split: option.splits if_splits)
  qed
qed

section \<open>Ingest\<close>

text \<open>What \<^verbatim>\<open>ingest_inner\<close> does up to dispatch changes only the duplicate table and counters.\<close>

lemma hashlist_duplicate_frame:
  "nd_paths (snd (hashlist_duplicate C n r h now l)) = nd_paths n"
  "nd_links (snd (hashlist_duplicate C n r h now l)) = nd_links n"
  "nd_known_destinations (snd (hashlist_duplicate C n r h now l)) = nd_known_destinations n"
  "fixed (snd (hashlist_duplicate C n r h now l)) = fixed n"
  by (simp_all add: hashlist_duplicate_def Let_def split_beta)

text \<open>Either the tables are those of before, or the packet was dispatched.\<close>

lemma ingest_packet_cases:
  obtains (kept) "nd_paths (snd (snd (ingest_packet C n r meta now l b))) = nd_paths n"
      "nd_links (snd (snd (ingest_packet C n r meta now l b))) = nd_links n"
  | (dispatched) view h n1 where "packet_parse r = Inr view" "h = (pv_header view)\<lparr>ph_hops := ph_hops h\<rparr>"
      "nd_paths n1 = nd_paths n" "nd_links n1 = nd_links n" "nd_known_destinations n1 = nd_known_destinations n"
      "fixed n1 = fixed n"
      "nd_paths (snd (snd (ingest_packet C n r meta now l b))) = nd_paths (snd (dispatch C n1 r view h meta now))"
      "nd_links (snd (snd (ingest_packet C n r meta now l b))) = nd_links (snd (dispatch C n1 r view h meta now))"
proof (cases "packet_parse r")
  case (Inl e)
  then show thesis using kept by (simp add: ingest_packet_def)
next
  case (Inr view)
  define n1 where "n1 = snd (hashlist_duplicate C (count st_accepted_update n) r (pv_header view) now l)"
  define h where "h = (pv_header view)\<lparr>ph_hops := (let h1 = sat_add (ph_hops (pv_header view)) 1 in
      if is_local_client_interface n1 (rx_interface_id meta) then sat_sub h1 1 else h1)\<rparr>"
  note f = hashlist_duplicate_frame [of C "count st_accepted_update n" r "pv_header view" now l, folded n1_def]
  have res: "nd_paths (snd (snd (ingest_result m r h x b))) = nd_paths m"
    "nd_links (snd (snd (ingest_result m r h x b))) = nd_links m" for m h x
    by (simp_all add: ingest_result_def Let_def split_beta split: sum.split transport_error.split)
  let ?I = "snd (snd (ingest_packet C n r meta now l b))" and ?D = "snd (dispatch C n1 r view h meta now)"
  have "nd_paths ?I = nd_paths n \<and> nd_links ?I = nd_links n \<or> nd_paths ?I = nd_paths ?D \<and> nd_links ?I = nd_links ?D"
    unfolding ingest_packet_def Inr sum.case Let_def split_beta n1_def [symmetric] h_def [unfolded Let_def, symmetric]
    using f by (simp add: res split: sum.split bool.split)
  then show thesis
  proof
    assume "nd_paths ?I = nd_paths ?D \<and> nd_links ?I = nd_links ?D"
    then show thesis using Inr f by (intro dispatched [of view h n1]) (simp_all add: h_def)
  qed (use kept in blast)
qed

text \<open>The clear packet \<^verbatim>\<open>ingest_inner\<close> goes on with, if it gets that far.\<close>

definition clear_packet :: "crypto \<Rightarrow> lite_node \<Rightarrow> bytes \<Rightarrow> rx_meta \<Rightarrow> u64 \<Rightarrow> bytes option" where
  "clear_packet C n r meta now = ingest_unwrap C (ingest_begin n meta now) r (rx_interface_id meta)"

lemma ingest_begin_frame:
  "nd_paths (ingest_begin n meta now) = nd_paths n" "nd_links (ingest_begin n meta now) = nd_links n"
  "nd_known_destinations (ingest_begin n meta now) = nd_known_destinations n"
  "nd_config (ingest_begin n meta now) = nd_config n"
  by (simp_all add: ingest_begin_def Let_def observe_interface_def)

lemma ingest_unwrap_strip:
  assumes "strip n' = strip n"
  shows "ingest_unwrap C n' r i = ingest_unwrap C n r i"
  unfolding ingest_unwrap_def stripD [OF assms] model_coreD [OF stripD(16) [OF assms]] by (rule refl)

lemma ingest_inner_cases:
  obtains (kept) "nd_paths (snd (snd (ingest_inner C n r meta now l b))) = nd_paths n"
      "nd_links (snd (snd (ingest_inner C n r meta now l b))) = nd_links n"
  | (packet) plain meta' n1 where "clear_packet C n r meta now = Some plain"
      "nd_paths n1 = nd_paths n" "nd_links n1 = nd_links n" "nd_known_destinations n1 = nd_known_destinations n"
      "nd_config n1 = nd_config n"
      "ingest_inner C n r meta now l b = ingest_packet C n1 plain meta' now l b"
proof -
  define n0 where "n0 = ingest_begin n meta now"
  define n1 where "n1 = snd (router_ingress n0 (rx_interface_id meta) (length r))"
  have s: "strip n1 = strip n0" by (simp add: n1_def router_ingress_frame)
  have f: "nd_paths n1 = nd_paths n" "nd_links n1 = nd_links n" "nd_known_destinations n1 = nd_known_destinations n"
    "nd_config n1 = nd_config n"
    using stripD [OF s] by (simp_all add: n0_def ingest_begin_frame)
  have u: "ingest_unwrap C n1 r (rx_interface_id meta) = clear_packet C n r meta now"
    by (simp add: ingest_unwrap_strip [OF s] clear_packet_def n0_def)
  obtain x m where x: "ingest_ingress C n r meta now = (x, m)" by fastforce
  have m: "nd_paths m = nd_paths n1" "nd_links m = nd_links n1"
    "nd_known_destinations m = nd_known_destinations n1" "nd_config m = nd_config n1"
    using arg_cong [OF x, of snd] unfolding ingest_ingress_def Let_def split_beta n0_def [symmetric] n1_def [symmetric]
    by (auto split: sum.splits bool.splits option.splits)
  show thesis
  proof (cases x)
    case (Inl res)
    then show thesis using kept x m f by (simp add: ingest_inner_def)
  next
    case (Inr pm)
    obtain plain meta' where pm: "pm = (plain, meta')" by fastforce
    have "clear_packet C n r meta now = Some plain"
      using x Inr pm
      unfolding ingest_ingress_def Let_def split_beta n0_def [symmetric] n1_def [symmetric] u
      by (auto split: sum.splits bool.splits option.splits if_splits)
    then show thesis using x Inr pm m f by (intro packet [of plain m meta']) (simp_all add: ingest_inner_def)
  qed
qed

lemma announced_same:
  "nd_paths n' = nd_paths n \<Longrightarrow> nd_known_destinations n' = nd_known_destinations n \<Longrightarrow> nd_config n' = nd_config n \<Longrightarrow>
   announced C n' view e = announced C n view e"
  by (simp add: announced_def)


section \<open>No packet is accepted twice\<close>

lemma dispatch_same_frame:
  assumes "lt_get (nd_links n) (ph_destination_hash h) now = None"
    and "pf_packet_type (ph_flags h) \<noteq> PtLinkRequest" "ph_context h \<noteq> CtxLrproof"
  shows "same_frame (snd (dispatch C n r view h meta now)) n"
  using assms same_frame_strip [OF bridge_plain_broadcast_strip [of C n r h "rx_interface_id meta"]]
  by (cases "pf_packet_type (ph_flags h)")
    (auto simp: dispatch_def handle_data_def handle_proof_def route_link_packet_other handle_announce_frame
      handle_path_request_frame handle_transport_forward_frame return_proof_frame)

lemma lt_get_later:
  assumes "lt_get t d now = None" "now \<le> now2"
  shows "lt_get t d now2 = None"
proof (cases "lt_get t d now2")
  case (Some e)
  then have "le_link_id e = d" "now < le_expires_ms e" "e \<in> set (somes (gt_entries t))"
    using lt_get_Some [OF Some] assms(2) by auto
  then show ?thesis using assms(1) by (auto simp: lt_get_def find_None_iff)
qed

lemma pht_insert_has_later:
  assumes "t \<noteq> []" "\<not> pht_has t hash now" "now2 < exp"
  shows "pht_has (snd (pht_insert t hash exp now)) hash now2"
proof -
  let ?t = "pht_expire t now"
  obtain i where i: "free_or_oldest ?t he_expires_ms = Some i" "i < length ?t"
    using assms(1) free_or_oldest_None [of ?t he_expires_ms] free_or_oldest_Some(1) [of ?t he_expires_ms]
    by (cases "free_or_oldest ?t he_expires_ms") (auto simp: pht_expire_def clear_where_def)
  have "snd (pht_insert t hash exp now) = ?t[i := Some \<lparr>he_hash = hash, he_expires_ms = exp\<rparr>]"
    using assms(2) i(1) by (simp add: pht_insert_def Let_def pht_has_expire free_or_oldest_def)
  then have "Some \<lparr>he_hash = hash, he_expires_ms = exp\<rparr> \<in> set (snd (pht_insert t hash exp now))"
    using i(2) by (simp add: set_update_memI)
  then show ?thesis using assms(3) unfolding pht_has_iff by force
qed

lemma plain_sink_core:
  assumes "model_core m' = model_core m"
  shows "Option.bind (as_router m') rt_plain_sink = Option.bind (as_router m) rt_plain_sink"
  using assms by (rule model_core_cases) simp_all

text \<open>The table's view of a packet that it tracks: not yet seen at \<open>now\<close> and subject to the hash list.\<close>

definition tracked :: "crypto \<Rightarrow> lite_node \<Rightarrow> bytes \<Rightarrow> packet_header \<Rightarrow> u64 \<Rightarrow> hash16 option \<Rightarrow> bool" where
  "tracked C n r h now l \<longleftrightarrow>
     \<not> skip_hashlist (ph_context h) \<and> \<not> defer_hashlist n h now l \<and>
     \<not> (pf_packet_type (ph_flags h) = PtAnnounce \<and> pf_destination_type (ph_flags h) = DtSingle) \<and>
     \<not> pht_has (nd_packet_hashes n) (packet_hash (cr_sha256 C) r (pf_header_type (ph_flags h))) now"

lemma ingest_result_node: "same_frame (snd (snd (ingest_result m r h x b))) n = same_frame m n"
  by (simp add: ingest_result_def Let_def split_beta split: sum.split transport_error.split)

lemma ingest_tracked_frame:
  assumes v: "packet_parse r = Inr view" and adm: "\<not> plain_sink_matches n (pv_header view)"
    "\<not> ingest_filtered n (pv_header view)" and t: "tracked C n r (pv_header view) now l"
  shows "same_frame (snd (snd (ingest_packet C n r meta now l b)))
    (n\<lparr>nd_packet_hashes := snd (pht_insert (nd_packet_hashes n)
       (packet_hash (cr_sha256 C) r (pf_header_type (ph_flags (pv_header view)))) (sat_add now HASHLIST_LIFETIME_MS) now)\<rparr>)"
proof -
  let ?h = "pv_header view"
  define n2 where "n2 = (count st_accepted_update n)\<lparr>nd_packet_hashes := snd (pht_insert (nd_packet_hashes n)
       (packet_hash (cr_sha256 C) r (pf_header_type (ph_flags ?h))) (sat_add now HASHLIST_LIFETIME_MS) now)\<rparr>"
  have new: "hashlist_duplicate C (count st_accepted_update n) r ?h now l = (False, n2)"
    using t by (auto simp: tracked_def hashlist_duplicate_def Let_def split_beta pht_insert_new_iff n2_def
        defer_hashlist_def)
  have t': "lt_get (nd_links n2) (ph_destination_hash ?h) now = None" "pf_packet_type (ph_flags ?h) \<noteq> PtLinkRequest"
    "ph_context ?h \<noteq> CtxLrproof"
    using t by (simp_all add: tracked_def defer_hashlist_def contains_live_def n2_def)
  have adm': "link_request_admissible n view meta = Inr ()" using t'(2) by (simp add: link_request_admissible_def)
  have flt: "\<not> ingest_filtered (count st_accepted_update n) ?h"
    using adm(2) by (simp add: ingest_filtered_def accepts_transport_address_def)
  have d: "same_frame (snd (dispatch C n2 r view (?h\<lparr>ph_hops := x\<rparr>) meta now)) n2" for x
    using t' by (intro dispatch_same_frame) simp_all
  have "same_frame (snd (snd (ingest_packet C n r meta now l b))) n2"
    unfolding ingest_packet_def v sum.case Let_def adm' using adm(1) flt
    by (simp add: new split_beta ingest_result_node d)
  then show ?thesis by (simp add: same_frame_def n2_def)
qed


section \<open>Tick leaves nothing due\<close>

definition none_due :: "announce_schedule \<Rightarrow> u64 \<Rightarrow> bool" where
  "none_due t now \<longleftrightarrow> (\<forall>e. Some e \<in> set t \<longrightarrow> now < sa_due_ms e \<or> sa_expires_ms e \<le> now)"

lemma tick_announces_none_due: "none_due (nd_announce_schedule (tick_announces C n now)) now"
proof (induction C n now rule: tick_announces.induct)
  case (1 C n now)
  obtain x t where x: "pop_due (nd_announce_schedule n) now = (x, t)" by fastforce
  show ?case
  proof (cases x)
    case None
    have "now < sa_due_ms e" if "Some e \<in> set t" for e
      by (rule pop_due_cases [of "nd_announce_schedule n" now]) (use x None that in auto)
    then show ?thesis using None x by (simp add: tick_announces.simps none_due_def)
  next
    case (Some a)
    then show ?thesis using 1 [OF x [symmetric] Some] x by (simp add: tick_announces.simps [of C n])
  qed
qed

lemma none_due_clear_where: "none_due t now \<Longrightarrow> none_due (clear_where P t) now"
  by (simp add: none_due_def Some_in_clear_where)

lemma release_pending_none_due:
  assumes "none_due t now"
  shows "none_due (snd (release_pending t slot now)) now"
proof -
  have t: "none_due (as_expire t now) now" using assms by (simp add: as_expire_def none_due_clear_where)
  show ?thesis
  proof (rule release_pending_cases [of t slot now])
    fix b idx e r
    assume p: "idx < length t" "as_expire t now ! idx = Some e"
      "r = e\<lparr>sa_pending_targets := sa_pending_targets e AND NOT b\<rparr>"
      "release_pending t slot now = (Some r, (as_expire t now)[idx :=
         (if sa_pending_targets r \<noteq> 0 \<or> \<not> pending_only r then Some r else None)])"
    have "Some e \<in> set (as_expire t now)"
      using p(1,2) nth_mem [of idx "as_expire t now"] by (simp add: as_expire_def)
    then have "now < sa_due_ms r \<or> sa_expires_ms r \<le> now" using t p(3) by (simp add: none_due_def)
    then show ?thesis
      using t p(4) set_update_subset_insert [of "as_expire t now" idx]
      by (auto simp: none_due_def split: if_splits)
  qed (use t in auto)
qed

lemma release_slot_none_due:
  "none_due (nd_announce_schedule n) now \<Longrightarrow> none_due (nd_announce_schedule (release_slot C slot target now n)) now"
proof (induction C slot target now n rule: release_slot.induct)
  case (1 C slot target now n)
  obtain x t where x: "release_pending (nd_announce_schedule n) slot now = (x, t)" by fastforce
  have t: "none_due t now" using release_pending_none_due [OF 1(2), of slot] x by simp
  then have r: "none_due (as_remove t d) now" for d by (simp add: as_remove_def none_due_clear_where)
  show ?case
  proof (cases x)
    case None
    then show ?thesis using t x by (simp add: release_slot.simps)
  next
    case (Some a)
    define n1 where "n1 = n\<lparr>nd_announce_schedule := t\<rparr>"
    have n1: "nd_announce_schedule n1 = t" by (simp add: n1_def)
    show ?thesis
      unfolding release_slot.simps [of C slot target now n] x Some Let_def split_beta
      using 1(1) [OF x [symmetric] Some n1_def] r t
      by (simp add: n1_def [symmetric] n1 charge_gate_def split: bool.split option.split)
  qed
qed

lemma release_gated_none_due:
  assumes "none_due (nd_announce_schedule n) now"
  shows "none_due (nd_announce_schedule (release_gated_announces C n now)) now"
proof -
  have "none_due (nd_announce_schedule (fold (release_gated_slot C now) slots m)) now"
    if "none_due (nd_announce_schedule m) now" for slots m
    using that
    by (induction slots arbitrary: m)
      (simp_all add: release_gated_slot_def release_slot_none_due split: option.split)
  then show ?thesis using assms by (simp add: release_gated_announces_def)
qed

text \<open>The loop over due announces with a bound on the number of passes.\<close>

fun tick_loop :: "crypto \<Rightarrow> nat \<Rightarrow> lite_node \<Rightarrow> u64 \<Rightarrow> lite_node option" where
  "tick_loop C 0 n now_ms = None"
| "tick_loop C (Suc k) n now_ms =
     (case pop_due (nd_announce_schedule n) now_ms of
        (None, t) \<Rightarrow> Some (n\<lparr>nd_announce_schedule := t\<rparr>)
      | (Some announce, t) \<Rightarrow>
          tick_loop C k (tick_announce C (n\<lparr>nd_announce_schedule := t\<rparr>) announce now_ms) now_ms)"

lemma tick_loop_enough:
  "due_count (nd_announce_schedule n) now < k \<Longrightarrow> tick_loop C k n now = Some (tick_announces C n now)"
proof (induction k arbitrary: n)
  case (Suc k)
  obtain x t where x: "pop_due (nd_announce_schedule n) now = (x, t)" by fastforce
  show ?case
  proof (cases x)
    case (Some a)
    have "due_count (nd_announce_schedule (tick_announce C (n\<lparr>nd_announce_schedule := t\<rparr>) a now)) now < k"
      using tick_announce_due [of C "n\<lparr>nd_announce_schedule := t\<rparr>" a now]
        pop_due_decreases [of "nd_announce_schedule n" now a t] x Some Suc.prems by simp
    then show ?thesis using Suc.IH x Some by (simp add: tick_announces.simps [of C n])
  qed (use x in \<open>simp add: tick_announces.simps\<close>)
qed simp

text \<open>C10. The announce loop of \<open>tick\<close> ends: it makes at most as many passes as announces are due, so a
  bound of one more than the schedule has slots is enough, and when \<open>tick\<close> returns no announce that has
  not expired is due any more.\<close>

theorem tick_ends_with_nothing_due:
  assumes "length (nd_announce_schedule n) < k"
  shows "\<exists>n'. tick_loop C k (tick_expire n now) now = Some n' \<and> tick C n now = release_gated_announces C n' now \<and>
    none_due (nd_announce_schedule (tick C n now)) now"
proof -
  have "nd_announce_schedule (tick_expire n now) = as_expire (nd_announce_schedule n) now"
    by (simp add: tick_expire_def Let_def)
  then have "due_count (nd_announce_schedule (tick_expire n now)) now \<le> length (nd_announce_schedule n)"
    using order_trans [OF length_filter_le length_somes_le [of "as_expire (nd_announce_schedule n) now"]]
    by (simp add: due_count_def as_expire_def)
  then show ?thesis
    using assms tick_loop_enough [of "tick_expire n now" now k C]
      release_gated_none_due [OF tick_announces_none_due [of C "tick_expire n now" now], of C]
    by (simp add: tick_def)
qed

section \<open>Concrete traffic\<close>

text \<open>A validated link in the table of the sample router.\<close>

definition sample_link :: link_entry where
  "sample_link = \<lparr>le_link_id = replicate 16 4, le_destination_ed25519 = None, le_receiving_interface = 0,
     le_outbound_interface = 1, le_remaining_hops = 1, le_taken_hops = 1, le_requested_mode = 1,
     le_accepted_mtu_ceiling = 500, le_validated = True, le_expires_ms = 1000\<rparr>"

definition sample_linked :: lite_node where
  "sample_linked = sample_router\<lparr>nd_links := lt_insert (lt_new 1) sample_link 0\<rparr>"

lemma sample_linked_entries: "gt_entries (nd_links sample_linked) = [Some sample_link]"
  by (simp add: sample_linked_def lt_insert_def lt_new_def gt_new_def lt_expire_def gt_clear_where_def clear_where_def
      Let_def lt_next_generation_def gt_next_generation_def checked_add_def gt_put_def)

text \<open>An empty frame is not a packet, so it leaves the links alone.\<close>

lemma ingest_empty_links: "nd_links (snd (snd (ingest_inner C n [] meta now l b))) = nd_links n"
proof (rule ingest_inner_cases [of C n "[]" meta now l b])
  fix plain meta' n1
  assume I: "clear_packet C n [] meta now = Some plain" "nd_links n1 = nd_links n"
    "ingest_inner C n [] meta now l b = ingest_packet C n1 plain meta' now l b"
  have "plain = []"
    using I(1) by (auto simp: clear_packet_def ingest_unwrap_def has_ifac_flag_def ifac_verify_into_def split: option.splits if_splits sum.splits)
  then show ?thesis using I(2,3) by (simp add: ingest_packet_def packet_parse_def header_parse_def size_consts)
qed 



text \<open>A plain broadcast packet with an empty payload.\<close>

definition plain_header :: packet_header where
  "plain_header =
     \<lparr>ph_flags = \<lparr>pf_header_type = Header1, pf_context_flag = False, pf_transport_type = TtBroadcast,
        pf_destination_type = DtPlain, pf_packet_type = PtData\<rparr>,
      ph_hops = 0, ph_transport_id = None, ph_destination_hash = replicate 16 3, ph_context = CtxNone\<rparr>"


text \<open>The sample router with one announce due at time 0, for a destination it has no path to.\<close>

definition sample_due :: lite_node where
  "sample_due = sample_router\<lparr>nd_announce_schedule := [Some
     \<lparr>sa_destination_hash = replicate 16 3, sa_packet = replicate 19 5, sa_interface_id = 0, sa_due_ms = 0,
      sa_expires_ms = 100, sa_block_rebroadcast = False, sa_hops = 1, sa_retries = 0,
      sa_local_rebroadcasts = 0, sa_pending_targets = 0\<rparr>]\<rparr>"

theorem tick_ends_with_nothing_due_witness:
  "\<not> none_due (nd_announce_schedule sample_due) 10 \<and>
   none_due (nd_announce_schedule (tick toy_crypto sample_due 10)) 10"
proof -
  have "\<not> none_due (nd_announce_schedule sample_due) 10" by (simp add: none_due_def sample_due_def)
  moreover have "length (nd_announce_schedule sample_due) < 2" by (simp add: sample_due_def)
  ultimately show ?thesis using tick_ends_with_nothing_due [of sample_due 2 toy_crypto 10] by blast
qed

end
