(* ===== verification/Node_Announce.thy ===== *)
theory Node_Announce
  imports Node_Traffic
begin

text \<open>
  Announces end to end. A route enters the path table only through a valid announce, and the announce an
  identity writes, carried in a frame that a router accepts, is learned.
\<close>

section \<open>Only valid announces make routes\<close>

text \<open>C2. A route enters the path table only through a valid announce: whatever frame a node receives,
  every entry of its path table afterwards is one it held before, or comes from an announce in the
  frame whose signature verifies under a key that hashes to the entry's destination and that agrees
  with any key the node already holds for it.\<close>

theorem routes_come_from_valid_announces:
  assumes "ingest_inner C n r meta now l b = (res, b', n')" "Some e \<in> set (gt_entries (nd_paths n'))"
  shows "route_held (nd_paths n) e \<or>
    (\<exists>plain view. clear_packet C n r meta now = Some plain \<and> packet_parse plain = Inr view \<and>
       pf_packet_type (ph_flags (pv_header view)) = PtAnnounce \<and> announced C n view e)"
proof (rule ingest_inner_cases [of C n r meta now l b])
  assume "nd_paths (snd (snd (ingest_inner C n r meta now l b))) = nd_paths n"
  then show ?thesis using assms by (auto intro: route_heldI)
next
  fix plain meta' n1
  assume I: "clear_packet C n r meta now = Some plain" "nd_paths n1 = nd_paths n"
    "nd_known_destinations n1 = nd_known_destinations n" "nd_config n1 = nd_config n"
    "ingest_inner C n r meta now l b = ingest_packet C n1 plain meta' now l b"
  have e: "Some e \<in> set (gt_entries (nd_paths (snd (snd (ingest_packet C n1 plain meta' now l b)))))"
    using assms I(5) by simp
  show ?thesis
  proof (rule ingest_packet_cases [of C n1 plain meta' now l b])
    assume "nd_paths (snd (snd (ingest_packet C n1 plain meta' now l b))) = nd_paths n1"
    then show ?thesis using e I(2) by (auto intro: route_heldI)
  next
    fix view h n2
    assume P: "packet_parse plain = Inr view" "h = (pv_header view)\<lparr>ph_hops := ph_hops h\<rparr>" "nd_paths n2 = nd_paths n1"
      "nd_known_destinations n2 = nd_known_destinations n1" "fixed n2 = fixed n1"
      "nd_paths (snd (snd (ingest_packet C n1 plain meta' now l b))) = nd_paths (snd (dispatch C n2 plain view h meta' now))"
    have h: "ph_destination_hash h = ph_destination_hash (pv_header view)" "ph_flags h = ph_flags (pv_header view)"
      by (subst P(2), simp)+
    have "announced C n2 view e = announced C n view e"
      using P I fixedD(1) [OF P(5)] by (intro announced_same) simp_all
    then show ?thesis using dispatch_routes [OF h(1), of e C n2 plain meta' now] e P I h by auto
  qed
qed

section \<open>A valid announce makes a route\<close>

lemma path_insert_new:
  assumes "path_inv t" "path_get t (pe_destination_hash e) = None" "None \<in> set (gt_entries t)"
    "path_next_generation t \<noteq> None"
  shows "\<exists>t'. path_insert_or_update t e now = (True, t') \<and> Some e \<in> set (gt_entries t')"
proof -
  let ?t = "path_expire t now"
  have no: "pe_destination_hash x \<noteq> pe_destination_hash e" if "Some x \<in> set (gt_entries t)" for x
    using path_get_iff [OF assms(1), of "pe_destination_hash e" x] assms(2) that by auto
  have gone: "position (\<lambda>s. is_some_and s (\<lambda>x. pe_destination_hash x = pe_destination_hash e)) (gt_entries ?t) = None"
    unfolding position_None path_expire_slots
  proof
    fix s assume "s \<in> set (clear_where (\<lambda>entry. pe_expires_ms entry \<le> now) (gt_entries t))"
    then show "\<not> is_some_and s (\<lambda>x. pe_destination_hash x = pe_destination_hash e)"
      using no by (cases "s = None") (auto simp: Some_in_clear_where is_some_and_def)
  qed
  have "None \<in> set (gt_entries ?t)"
    using assms(3) unfolding path_expire_slots clear_where_def by force
  then have "position (\<lambda>s. s = None) (gt_entries ?t) \<noteq> None" by (simp add: position_None)
  then obtain idx where idx: "position (\<lambda>s. s = None) (gt_entries ?t) = Some idx" by blast
  note p = position_SomeD [OF idx]
  have "path_next_generation ?t = path_next_generation t"
    by (simp add: path_next_generation_def gt_next_generation_def path_expire_def gt_clear_where_def)
  then obtain g where g: "path_next_generation ?t = Some g" using assms(4) by auto
  then have "path_replace_entry ?t idx e = (True, gt_put ?t idx e g)"
    using p by (simp add: path_replace_entry_def is_some_and_def)
  then show ?thesis
    using p(1) by (simp add: path_insert_or_update_def Let_def gone idx gt_put_def set_update_memI)
qed

lemma announce_update_path_learns:
  assumes "path_inv (nd_paths n)" "path_get (nd_paths n) (ph_destination_hash h) = None"
    "None \<in> set (gt_entries (nd_paths n))" "path_next_generation (nd_paths n) \<noteq> None" "now \<noteq> - 1"
  shows "\<exists>e. Some e \<in> set (gt_entries (nd_paths (snd (announce_update_path C n r view h meta now v)))) \<and>
    pe_destination_hash e = ph_destination_hash h \<and> now < pe_expires_ms e \<and>
    pe_public_key e = av_public_key v \<and> pe_interface_id e = rx_interface_id meta \<and>
    pe_next_hop e = ph_transport_id (pv_header view) \<and> pe_hops e = ph_hops h"
proof -
  define m where "m = hear_rebroadcast n (ph_destination_hash h) (ph_hops (pv_header view)) now"
  have m: "nd_paths m = nd_paths n" by (simp add: m_def)
  define bulk where "bulk = bulk_announce m (ph_destination_hash h) meta now"
  define e where "e = \<lparr>pe_destination_hash = ph_destination_hash h, pe_next_hop = ph_transport_id (pv_header view),
     pe_hops = ph_hops h, pe_interface_id = rx_interface_id meta,
     pe_expires_ms = sat_add now (announce_path_expiry_secs
       (unwrap_or (rx_interface_mode meta) (lc_mode (nd_config m))) * 1000), pe_last_seen_ms = now,
     pe_packet_hash = packet_hash (cr_sha256 C) r (pf_header_type (ph_flags (pv_header view))),
     pe_random_hash = av_random_hash v, pe_public_key = av_public_key v, pe_bulk = bulk\<rparr>"
  obtain t where t: "path_insert_or_update (nd_paths n) e now = (True, t)" "Some e \<in> set (gt_entries t)"
    using path_insert_new [of "nd_paths n" e now] assms by (auto simp: e_def)
  have "announce_path_expiry_secs mode * 1000 \<noteq> 0" for mode
    by (cases mode) (simp_all add: AP_PATH_TIME_SECS_def ROAMING_PATH_TIME_SECS_def PATHFINDER_E_SECS_def)
  then have "now < pe_expires_ms e" using assms(5) by (simp add: e_def sat_add_gt)
  moreover have "nd_paths (snd (announce_update_path C n r view h meta now v)) = t"
    unfolding announce_update_path_def Let_def split_beta m_def [symmetric] bulk_def [symmetric] e_def [symmetric] m t
    by simp
  ultimately show ?thesis using t(2) by (intro exI [of _ e]) (simp add: e_def)
qed

text \<open>What a node needs to accept an announce for \<open>d\<close>: the destination is not its own and is unknown, the
  rate limit admits the announce, and the path table has a free slot and an unused generation.\<close>

definition ready_to_learn :: "crypto \<Rightarrow> lite_node \<Rightarrow> hash16 \<Rightarrow> bytes \<Rightarrow> u64 \<Rightarrow> bool" where
  "ready_to_learn C n d nh now \<longleftrightarrow>
     \<not> is_own_destination n d \<and> kd_peek (nd_known_destinations n) d = None \<and>
     path_get (nd_paths n) d = None \<and> None \<in> set (gt_entries (nd_paths n)) \<and>
     path_next_generation (nd_paths n) \<noteq> None \<and>
     fst (admit (nd_announce_admission n) (lc_announce_admission (nd_config n)) False now) \<and>
     nh \<noteq> name_hash C LXMF_DELIVERY_NAME \<and> now \<noteq> - 1"

lemma handle_announce_learns:
  assumes n: "path_inv (nd_paths n)" "ready_to_learn C n (ph_destination_hash h) (av_name_hash v) now"
    and v: "announce_parse (pv_payload view) (pf_context_flag (ph_flags (pv_header view)))
        (lc_max_announce_app_data (nd_config n)) = Inr v"
      "announce_validate C v (ph_destination_hash h) None ANNOUNCE_SCRATCH_MAX = Inr ih"
    and h: "ph_hops h < PATHFINDER_M" "ph_context h = CtxNone"
  shows "\<exists>e. Some e \<in> set (gt_entries (nd_paths (snd (handle_announce C n r view h meta now)))) \<and>
    pe_destination_hash e = ph_destination_hash h \<and> now < pe_expires_ms e \<and>
    pe_public_key e = av_public_key v \<and> pe_interface_id e = rx_interface_id meta \<and>
    pe_next_hop e = ph_transport_id (pv_header view) \<and> pe_hops e = ph_hops h"
proof -
  note R = n(2) [unfolded ready_to_learn_def]
  define m where "m = n\<lparr>nd_announce_admission :=
     snd (admit (nd_announce_admission n) (lc_announce_admission (nd_config n)) False now)\<rparr>"
  have hops: "\<not> PATHFINDER_M \<le> ph_hops h" using h(1) by (simp add: linorder_not_le)
  have "handle_announce C n r view h meta now = announce_update_path C m r view h meta now v"
    unfolding handle_announce_def Let_def split_beta
    using R v h(2) hops by (simp add: m_def path_known_public_key_def)
  then show ?thesis
    using announce_update_path_learns [of m h now C r view meta v] n(1) R by (simp add: m_def)
qed

lemma ingest_announce_learns:
  assumes n: "path_inv (nd_paths n)" "ready_to_learn C n (ph_destination_hash (pv_header view)) (av_name_hash v) now"
    and view: "packet_parse r = Inr view" "pf_packet_type (ph_flags (pv_header view)) = PtAnnounce"
      "pf_destination_type (ph_flags (pv_header view)) = DtSingle" "ph_context (pv_header view) = CtxNone"
      "ph_hops (pv_header view) < 127"
    and v: "announce_parse (pv_payload view) (pf_context_flag (ph_flags (pv_header view)))
        (lc_max_announce_app_data (nd_config n)) = Inr v"
      "announce_validate C v (ph_destination_hash (pv_header view)) None ANNOUNCE_SCRATCH_MAX = Inr ih"
  shows "\<exists>e. Some e \<in> set (gt_entries (nd_paths (snd (snd (ingest_packet C n r meta now l b))))) \<and>
    pe_destination_hash e = ph_destination_hash (pv_header view) \<and> now < pe_expires_ms e \<and>
    pe_public_key e = av_public_key v \<and> pe_interface_id e = rx_interface_id meta \<and>
    pe_next_hop e = ph_transport_id (pv_header view)"
proof -
  let ?h = "pv_header view" and ?n = "count st_accepted_update n"
  define n1 where "n1 = snd (hashlist_duplicate C ?n r ?h now l)"
  define h where "h = ?h\<lparr>ph_hops := (if is_local_client_interface n1 (rx_interface_id meta)
      then sat_sub (sat_add (ph_hops ?h) 1) 1 else sat_add (ph_hops ?h) 1)\<rparr>"
  have type: "pf_packet_type (ph_flags h) = PtAnnounce" using view(2) by (simp add: h_def)
  have dup: "hashlist_duplicate C ?n r ?h now l = (False, n1)"
    using view(2,3) by (auto simp: n1_def hashlist_duplicate_def Let_def split_beta)
  have n1: "nd_paths n1 = nd_paths n" "nd_known_destinations n1 = nd_known_destinations n" "nd_config n1 = nd_config n"
    "nd_local n1 = nd_local n" "nd_announce_admission n1 = nd_announce_admission n"
    by (simp_all add: n1_def hashlist_duplicate_def Let_def split_beta)
  have "unat (ph_hops ?h) < 127" using view(5) by (simp add: word_less_nat_alt)
  then have hops: "ph_hops h < PATHFINDER_M" "\<not> PATHFINDER_M \<le> ph_hops ?h"
    by (simp_all add: h_def PATHFINDER_M_def word_less_nat_alt word_le_nat_alt sat_simps)
  have flt: "\<not> plain_sink_matches n ?h" "\<not> ingest_filtered ?n ?h" "link_request_admissible n view meta = Inr ()"
    "\<not> for_local_endpoint n1 h"
    using view(2,3) hops(2)
    by (simp_all add: plain_sink_matches_def ingest_filtered_def accepts_transport_address_def
        link_request_admissible_def for_local_endpoint_def h_def)
  have res: "nd_paths (snd (snd (ingest_result m r h x b))) = nd_paths m" for m x
    by (simp add: ingest_result_def Let_def split_beta split: sum.split transport_error.split)
  have "nd_paths (snd (snd (ingest_packet C n r meta now l b))) = nd_paths (snd (handle_announce C n1 r view h meta now))"
    unfolding ingest_packet_def view(1) sum.case Let_def flt(3) dup prod.case bool.case h_def [symmetric]
    using flt(1,2,4) type by (simp add: res dispatch_def split_beta)
  moreover have "ready_to_learn C n1 (ph_destination_hash h) (av_name_hash v) now"
    using n(2) n1 by (simp add: ready_to_learn_def is_own_destination_def h_def)
  ultimately show ?thesis
    using handle_announce_learns [of n1 C h v now view ih r meta] n(1) n1 v view(4) hops(1) by (auto simp: h_def)
qed

text \<open>When a router goes on with a frame: the interface is registered, online and inbound, and the frame
  and its packet fit.\<close>

definition hears :: "crypto \<Rightarrow> lite_node \<Rightarrow> bytes \<Rightarrow> rx_meta \<Rightarrow> u64 \<Rightarrow> bytes \<Rightarrow> bool" where
  "hears C n r meta now plain \<longleftrightarrow>
     (\<exists>rt c. nd_interfaces n = RouterModel rt \<and> rt_interface rt (rx_interface_id meta) = Some c \<and>
       ic_online c \<and> dir_inbound (ic_direction c) \<and> length r \<le> wire_mtu c) \<and>
     length plain \<le> interface_clear_mtu n (rx_interface_id meta) \<and> clear_packet C n r meta now = Some plain"

lemma ingest_begin_core:
  "model_core (nd_interfaces (ingest_begin n meta now)) =
   model_core (m_observe (nd_interfaces n) meta (nd_config n) (default_clear_mtu n))"
  unfolding ingest_begin_def Let_def stripD(16) [OF expire_outbound_strip]
  by (simp add: observe_interface_def default_clear_mtu_def)

lemma router_registry_stats: "r\<lparr>rt_stats := s\<rparr> = q\<lparr>rt_stats := s\<rparr> \<Longrightarrow> rt_registry r = rt_registry q"
  by (cases r; cases q) simp

lemma hears_ingress:
  assumes "hears C n r meta now plain"
  obtains meta' n1 where "ingest_ingress C n r meta now = (Inr (plain, meta'), n1)"
    "n1 = ingest_begin n meta now" "rx_interface_id meta' = rx_interface_id meta"
proof -
  obtain rt c where r: "nd_interfaces n = RouterModel rt" "rt_interface rt (rx_interface_id meta) = Some c"
     "ic_online c" "dir_inbound (ic_direction c)" "length r \<le> wire_mtu c"
    and p: "length plain \<le> interface_clear_mtu n (rx_interface_id meta)" "clear_packet C n r meta now = Some plain"
    using assms by (auto simp: hears_def)
  define n1 where "n1 = ingest_begin n meta now"
  have core: "model_core (nd_interfaces n1) = model_core (nd_interfaces n)" and conf: "nd_config n1 = nd_config n"
    using ingest_begin_core [of n meta now] r(1) by (simp_all add: n1_def ingest_begin_frame)
  obtain rt' where r1: "nd_interfaces n1 = RouterModel rt'" "rt_registry rt' = rt_registry rt"
    using core r(1) by (cases "nd_interfaces n1") (auto simp: model_core_def intro: router_registry_stats)
  note facts = m_facts_core [of "nd_interfaces n1", unfolded core m_facts_core]
    and slot = m_slot_core [of "nd_interfaces n1", unfolded core m_slot_core]
  have m: "interface_clear_mtu n1 i = interface_clear_mtu n i" for i
    unfolding interface_clear_mtu_def interface_slot_def default_clear_mtu_def conf facts slot by (rule refl)
  have "router_ingress n1 (rx_interface_id meta) (length r) = (Inr True, n1)"
    using r r1 by (simp add: router_ingress_def rt_interface_def Let_def)
  then show thesis
    using p m r(2) r1
    by (intro that [of "meta\<lparr>rx_interface_mode := Some (ic_mode c)\<rparr>" n1])
      (simp_all add: ingest_ingress_def Let_def n1_def [symmetric] clear_packet_def rt_interface_def)
qed

text \<open>The header of an announce for \<open>d\<close> that has travelled \<open>hops\<close> hops without a transport node.\<close>

definition announce_header :: "hash16 \<Rightarrow> bytes option \<Rightarrow> u8 \<Rightarrow> packet_header" where
  "announce_header d ratchet hops =
     \<lparr>ph_flags = \<lparr>pf_header_type = Header1, pf_context_flag = (ratchet \<noteq> None), pf_transport_type = TtBroadcast,
        pf_destination_type = DtSingle, pf_packet_type = PtAnnounce\<rparr>,
      ph_hops = hops, ph_transport_id = None, ph_destination_hash = d, ph_context = CtxNone\<rparr>"

lemma heard_announce_learns:
  assumes laws: "sha_law C" "ed_law C" "x_law C"
    and n: "path_inv (nd_paths n)" "ready_to_learn C n d nh now"
    and len: "length nh = 10" "length rh = 10" "pred_option (\<lambda>r. length r = 32) ratchet"
      "length app \<le> MAX_ANNOUNCE_APP_DATA" "length app \<le> lc_max_announce_app_data (nd_config n)"
    and self: "self = from_private_key C sk" "d = destination_hash_from_parts C nh (Some (li_identity_hash self))"
    and hops: "hops < 127" "ratchet_len ratchet + length app \<le> 333"
    and heard: "hears C n r meta now (header_bytes (announce_header d ratchet hops) @ announce_payload C self nh rh ratchet app)"
  shows "\<exists>e. Some e \<in> set (gt_entries (nd_paths (snd (snd (ingest_inner C n r meta now l b))))) \<and>
    pe_destination_hash e = d \<and> now < pe_expires_ms e \<and>
    pe_public_key e = li_public_key self \<and> pe_interface_id e = rx_interface_id meta \<and> pe_next_hop e = None"
proof -
  let ?h = "announce_header d ratchet hops" and ?p = "announce_payload C self nh rh ratchet app"
  obtain v where v: "length ?p = ANNOUNCE_BASE_SIZE + ratchet_len ratchet + length app"
    "announce_parse ?p (ratchet \<noteq> None) (lc_max_announce_app_data (nd_config n)) = Inr v"
    "av_public_key v = li_public_key self" "av_name_hash v = nh" "av_random_hash v = rh"
    "av_ratchet v = ratchet" "av_app_data v = app"
    "announce_validate C v (destination_hash_from_parts C nh (Some (li_identity_hash self))) None
      SIGNED_DATA_MAX = Inr (li_identity_hash self)"
    by (rule announce_payload_valid [OF laws len self(1) disjI1 [OF refl]])
  have "length d = 16"
    using laws(1) by (simp add: self(2) destination_hash_from_parts_def truncated_hash_def sha_law_def size_consts)
  then have wf: "header_wf ?h" and size: "header_size ?h = 19" "length (header_bytes ?h) = 19"
    by (simp_all add: announce_header_def header_wf_def header_size_def header_bytes_def size_consts)
  have "length ?p \<le> 481"
    using v(1) hops(2) by (simp add: announce_consts)
  then have "header_parse (header_bytes ?h @ ?p) = Inr (?h, 19)"
    using header_parse_bytes [OF wf, of ?p] size by (simp add: size_consts)
  then have view: "packet_parse (header_bytes ?h @ ?p) =
      Inr \<lparr>pv_header = ?h, pv_payload = ?p, pv_raw = header_bytes ?h @ ?p, pv_payload_offset = 19\<rparr>"
    using size by (simp add: packet_parse_def)
  obtain meta' n1 where i: "ingest_ingress C n r meta now = (Inr (header_bytes ?h @ ?p, meta'), n1)"
    "n1 = ingest_begin n meta now" "rx_interface_id meta' = rx_interface_id meta"
    using heard by (rule hears_ingress)
  have own: "nd_local n1 = nd_local n" "nd_announce_admission n1 = nd_announce_admission n"
    by (simp_all add: i(2) ingest_begin_def Let_def observe_interface_def)
  have "ready_to_learn C n1 d nh now"
    using n(2) own by (simp add: ready_to_learn_def is_own_destination_def i(2) ingest_begin_frame)
  then show ?thesis
    using ingest_announce_learns [OF _ _ view, of n1 C v now "li_identity_hash self" meta' l b] v n(1) hops self(2) i(1,3)
    by (simp add: announce_header_def ingest_inner_def ANNOUNCE_SCRATCH_MAX_def i(2) ingest_begin_frame)
qed


text \<open>A concrete announce of an identity, heard by the sample router on its interface 1.\<close>

abbreviation sample_identity :: local_identity where
  "sample_identity \<equiv> from_private_key toy_crypto (replicate 64 7)"

definition sample_destination :: hash16 where
  "sample_destination = destination_hash_from_parts toy_crypto (replicate 10 1) (Some (li_identity_hash sample_identity))"

definition sample_announce :: bytes where
  "sample_announce = header_bytes (announce_header sample_destination None 0) @
     announce_payload toy_crypto sample_identity (replicate 10 1) (replicate 10 2) None [3, 4]"

lemma sample_identity_key: "li_public_key sample_identity = replicate 64 7"
  by (simp add: from_private_key_def Let_def derive_public_key_def toy_crypto_def fit_def flip: replicate_add)

lemma sample_announce_length: "length sample_announce = 169"
proof -
  have "length sample_destination = 16"
    using toy_sha_law
    by (simp add: sample_destination_def destination_hash_from_parts_def truncated_hash_def sha_law_def size_consts)
  moreover have "length (li_sign toy_crypto sample_identity m) = 64" for m
    by (simp add: li_sign_def ed_lawD)
  ultimately show ?thesis
    by (simp add: sample_announce_def announce_header_def header_bytes_def size_consts announce_payload_def
        ratchet_bytes_def sample_identity_key)
qed

lemma sample_ready: "ready_to_learn toy_crypto sample_router sample_destination (replicate 10 1) 0"
proof -
  have "name_hash toy_crypto LXMF_DELIVERY_NAME ! 0 \<noteq> 1"
    by (simp add: name_hash_def toy_crypto_def fit_def LXMF_DELIVERY_NAME_def NAME_HASH_LENGTH_def)
  then have "replicate 10 1 \<noteq> name_hash toy_crypto LXMF_DELIVERY_NAME" by (metis nth_replicate zero_less_numeral)
  then show ?thesis
    by (simp add: ready_to_learn_def sample_router_def node_new_const_def sample_caps_def is_own_destination_def
        kd_peek_def kd_visible_def kd_new_def path_get_def path_new_def gt_new_def path_next_generation_def
        gt_next_generation_def checked_add_def admit_def admission_rate_def Let_def CONFIG_MICRO_def
        lite_config_of_caps_def ADMISSION_DISABLED_def ROUTER_EMPTY_def ROUTER_LOCAL_SLOTS_def)
qed

lemma sample_hears: "hears toy_crypto sample_router sample_announce (rx_meta_new 1) 0 sample_announce"
proof -
  let ?n = "ingest_begin sample_router (rx_meta_new 1) 0"
  have r: "nd_interfaces sample_router = RouterModel (router_new sample_registry None)" by (simp add: sample_router_def)
  have "m_ifac (model_core (nd_interfaces ?n)) 1 (nd_config ?n) = None"
    using sample_router_facts(6) by (simp add: ingest_begin_core r)
  moreover have "\<not> has_ifac_flag sample_announce"
    by (simp add: has_ifac_flag_def sample_announce_def header_bytes_def announce_header_def flags_pack_def IFAC_FLAG_def)
  ultimately have "clear_packet toy_crypto sample_router sample_announce (rx_meta_new 1) 0 = Some sample_announce"
    by (simp add: clear_packet_def ingest_unwrap_def rx_meta_new_def)
  then show ?thesis
    using r sample_router_facts(8,9) sample_announce_length
    by (simp add: hears_def rx_meta_new_def ic_lora_def BIDIRECTIONAL_def wire_mtu_def clear_mtu_def
        size_consts)
qed

lemma sample_app_data: "lc_max_announce_app_data (nd_config sample_router) = 333"
  by (simp add: sample_router_def node_new_const_def CONFIG_MICRO_def lite_config_of_caps_def announce_consts)

lemma sample_learns:
  "\<exists>e. Some e \<in> set (gt_entries (nd_paths (snd (snd
       (ingest_inner toy_crypto sample_router sample_announce (rx_meta_new 1) 0 None None))))) \<and>
     pe_destination_hash e = sample_destination"
proof -
  have "path_inv (nd_paths sample_router)"
    using node_invD [OF reachable_inv [OF toy_hkdf_law toy_ed_law reachable_sample]] by simp
  then show ?thesis
    using heard_announce_learns [OF toy_sha_law toy_ed_law toy_x_law _ sample_ready _ _ _ _ _ refl
        sample_destination_def _ _ sample_hears [unfolded sample_announce_def], of None None] sample_app_data
    by (auto simp: sample_announce_def [symmetric] announce_consts ratchet_len_def)
qed

theorem routes_come_from_valid_announces_witness:
  "\<exists>e view. packet_parse sample_announce = Inr view \<and> pe_destination_hash e = sample_destination \<and>
     announced toy_crypto sample_router view e"
proof -
  obtain res b n' where i: "ingest_inner toy_crypto sample_router sample_announce (rx_meta_new 1) 0 None None = (res, b, n')"
    by (rule prod_cases3)
  then obtain e where e: "Some e \<in> set (gt_entries (nd_paths n'))" and d: "pe_destination_hash e = sample_destination"
    using sample_learns by auto
  have "\<not> route_held (nd_paths sample_router) e"
    by (simp add: route_held_def sample_router_def node_new_const_def path_new_def gt_new_def)
  moreover have "clear_packet toy_crypto sample_router sample_announce (rx_meta_new 1) 0 = Some sample_announce"
    using sample_hears by (simp add: hears_def)
  ultimately show ?thesis using routes_come_from_valid_announces [OF i e] d by auto
qed


end
