(* ===== verification/Receipts.thy ===== *)
theory Receipts
  imports Identity Ring_Queue
begin

text \<open>
  Packet receipts and the bounded set of seen message ids (\<^verbatim>\<open>src/proof.rs\<close>), and the tunnel synthesis
  packet, which is signed in the same way (\<^verbatim>\<open>src/tunnel.rs\<close>). Output slices are passed in and
  returned; an error leaves them as they were.
\<close>

section \<open>Proofs of receipt\<close>

definition PACKET_HASH_LENGTH :: nat where "PACKET_HASH_LENGTH = 32"
definition PROOF_IMPLICIT_LEN :: nat where "PROOF_IMPLICIT_LEN = SIGNATURE_LENGTH"
definition PROOF_EXPLICIT_LEN :: nat where "PROOF_EXPLICIT_LEN = PACKET_HASH_LENGTH + SIGNATURE_LENGTH"

lemmas receipt_consts = PROOF_IMPLICIT_LEN_def PROOF_EXPLICIT_LEN_def PACKET_HASH_LENGTH_def announce_consts

datatype proof_error = ProofOutputTooSmall

definition build_initiator_proof ::
  "crypto \<Rightarrow> bytes \<Rightarrow> hash32 \<Rightarrow> bytes \<Rightarrow> (proof_error + nat) \<times> bytes" where
  "build_initiator_proof C signing_seed phash out =
     (if length out < PROOF_EXPLICIT_LEN then (Inl ProofOutputTooSmall, out)
      else let out = overwrite out 0 phash;
               out = overwrite out PACKET_HASH_LENGTH (cr_ed_sign C signing_seed phash)
           in (Inr PROOF_EXPLICIT_LEN, out))"

definition build_proof ::
  "crypto \<Rightarrow> local_identity \<Rightarrow> hash32 \<Rightarrow> bool \<Rightarrow> bytes \<Rightarrow> (proof_error + nat) \<times> bytes" where
  "build_proof C ident phash implicit out =
     (let signature = li_sign C ident phash in
      if implicit then
        if length out < PROOF_IMPLICIT_LEN then (Inl ProofOutputTooSmall, out)
        else (Inr PROOF_IMPLICIT_LEN, overwrite out 0 signature)
      else
        if length out < PROOF_EXPLICIT_LEN then (Inl ProofOutputTooSmall, out)
        else let out = overwrite out 0 phash;
                 out = overwrite out PACKET_HASH_LENGTH signature
             in (Inr PROOF_EXPLICIT_LEN, out))"

definition validate_proof :: "crypto \<Rightarrow> bytes \<Rightarrow> hash32 \<Rightarrow> bytes \<Rightarrow> bool" where
  "validate_proof C prover_public_key phash proof =
     (let verify = (\<lambda>signature.
            let ed_pub = drop 32 prover_public_key in
            if \<not> cr_ed_key_ok C ed_pub then False else cr_ed_verify C ed_pub phash signature) in
      if length proof = PROOF_IMPLICIT_LEN then verify proof
      else if length proof = PROOF_EXPLICIT_LEN then
        if take PACKET_HASH_LENGTH proof \<noteq> phash then False
        else verify (slice PACKET_HASH_LENGTH PROOF_EXPLICIT_LEN proof)
      else False)"

section \<open>Seen messages\<close>

text \<open>The ring of ids: \<open>sm_ids\<close> has the capacity's length, and unused slots hold zeros.\<close>

record seen_messages =
  sm_ids :: "hash32 list"
  sm_head :: nat
  sm_len :: nat

abbreviation sm_cap :: "seen_messages \<Rightarrow> nat" where
  "sm_cap s \<equiv> length (sm_ids s)"

definition sm_new :: "nat \<Rightarrow> seen_messages" where
  "sm_new n = \<lparr>sm_ids = replicate n (replicate 32 0), sm_head = 0, sm_len = 0\<rparr>"

definition sm_contains :: "seen_messages \<Rightarrow> hash32 \<Rightarrow> bool" where
  "sm_contains s x \<longleftrightarrow> list_ex (\<lambda>i. sm_ids s ! ((sm_head s + i) mod sm_cap s) = x) [0..<sm_len s]"

definition sm_insert_if_new :: "seen_messages \<Rightarrow> hash32 \<Rightarrow> bool \<times> seen_messages" where
  "sm_insert_if_new s x =
     (if sm_contains s x then (False, s)
      else if sm_cap s = 0 then (True, s)
      else if sm_len s = sm_cap s then
        (True, s\<lparr>sm_ids := (sm_ids s)[sm_head s := x], sm_head := (sm_head s + 1) mod sm_cap s\<rparr>)
      else
        let idx = (sm_head s + sm_len s) mod sm_cap s
        in (True, s\<lparr>sm_ids := (sm_ids s)[idx := x], sm_len := sm_len s + 1\<rparr>))"

section \<open>Tunnel synthesis\<close>

definition TUNNEL_SYNTHESIS_LEN :: nat where
  "TUNNEL_SYNTHESIS_LEN = PUBLIC_KEY_LENGTH + 32 + 16 + SIGNATURE_LENGTH"

definition TUNNEL_SYNTHESIS_PACKET_LEN :: nat where
  "TUNNEL_SYNTHESIS_PACKET_LEN = HEADER_MINSIZE + TUNNEL_SYNTHESIS_LEN"

text \<open>The UTF-8 bytes of \<open>rnstransport.tunnel.synthesize\<close>.\<close>

definition TUNNEL_SYNTHESIZE_NAME :: bytes where
  "TUNNEL_SYNTHESIZE_NAME = map of_char ''rnstransport.tunnel.synthesize''"

definition interface_hash :: "crypto \<Rightarrow> bytes \<Rightarrow> hash32" where
  "interface_hash C name = cr_sha256 C name"

datatype tunnel_error = TunnelOutputTooSmall

definition build_tunnel_synthesis_packet ::
  "crypto \<Rightarrow> local_identity \<Rightarrow> hash32 \<Rightarrow> hash16 \<Rightarrow> bytes \<Rightarrow> (tunnel_error + nat) \<times> bytes" where
  "build_tunnel_synthesis_packet C ident ihash random_hash out =
     (if length out < TUNNEL_SYNTHESIS_PACKET_LEN then (Inl TunnelOutputTooSmall, out)
      else
        let header = [flags_pack \<lparr>pf_header_type = Header1, pf_context_flag = False,
                        pf_transport_type = TtBroadcast, pf_destination_type = DtPlain,
                        pf_packet_type = PtData\<rparr>, 0] @
                     destination_hash_from_name C TUNNEL_SYNTHESIZE_NAME None @ [context_to_byte CtxNone];
            signed = li_public_key ident @ ihash @ random_hash
        in (Inr TUNNEL_SYNTHESIS_PACKET_LEN, overwrite out 0 (header @ signed @ li_sign C ident signed)))"

section \<open>Receipts validate\<close>

lemma overwrite_append:
  "length out \<ge> length a + length b \<Longrightarrow> overwrite (overwrite out 0 a) (length a) b = overwrite out 0 (a @ b)"
  by (simp add: overwrite_def add.commute)

lemma validate_proof_implicit:
  "length sig = 64 \<Longrightarrow> validate_proof C pk h sig \<longleftrightarrow> cr_ed_key_ok C (drop 32 pk) \<and> cr_ed_verify C (drop 32 pk) h sig"
  by (simp add: validate_proof_def Let_def receipt_consts)

lemma validate_proof_explicit:
  "length h' = 32 \<Longrightarrow> length sig = 64 \<Longrightarrow>
   validate_proof C pk h (h' @ sig) \<longleftrightarrow>
     h' = h \<and> cr_ed_key_ok C (drop 32 pk) \<and> cr_ed_verify C (drop 32 pk) h sig"
  by (auto simp: validate_proof_def Let_def receipt_consts slice_def)

lemma validate_proof_length: "validate_proof C pk h proof \<Longrightarrow> length proof = 64 \<or> length proof = 96"
  by (auto simp: validate_proof_def Let_def receipt_consts split: if_splits)

text \<open>Receipts round-trip in both forms: for every output slice that is large enough, the proof an
  identity builds for a packet hash has the form's length, leaves the rest of the slice alone and
  validates for that hash under the identity's public key; a slice that is too small is refused and
  left alone. Conversely a proof that validates has one of the two lengths and carries a signature of
  that very hash under the prover's key.\<close>

theorem receipts_validate:
  assumes "ed_law C" "x_law C" "length h = 32" "ident = from_private_key C sk"
    and "need = (if implicit then PROOF_IMPLICIT_LEN else PROOF_EXPLICIT_LEN)"
  shows "(need \<le> length out \<longrightarrow> (\<exists>out'. build_proof C ident h implicit out = (Inr need, out') \<and>
      length out' = length out \<and> drop need out' = drop need out \<and>
      validate_proof C (li_public_key ident) h (take need out'))) \<and>
    (length out < need \<longrightarrow> build_proof C ident h implicit out = (Inl ProofOutputTooSmall, out)) \<and>
    (validate_proof C pk h proof \<longrightarrow> (length proof = 64 \<or> length proof = 96) \<and>
      cr_ed_verify C (drop 32 pk) h (drop (length proof - 64) proof))"
proof (intro conjI impI)
  let ?sig = "li_sign C ident h"
  have sig: "length ?sig = 64" using assms(1) by (simp add: li_sign_def ed_lawD)
  have ok: "cr_ed_key_ok C (drop 32 (li_public_key ident))" "cr_ed_verify C (drop 32 (li_public_key ident)) h ?sig"
    using assms(1,2,4) by (simp_all add: from_private_key_def Let_def derive_public_key_ed li_sign_def ed_lawD)
  assume n: "need \<le> length out"
  have e: "build_proof C ident h implicit out = (Inr need, overwrite out 0 (if implicit then ?sig else h @ ?sig))"
    using n assms(3,5) sig overwrite_append [of h ?sig out]
    by (cases implicit) (simp_all add: build_proof_def Let_def receipt_consts)
  show "\<exists>out'. build_proof C ident h implicit out = (Inr need, out') \<and> length out' = length out \<and>
      drop need out' = drop need out \<and> validate_proof C (li_public_key ident) h (take need out')"
    unfolding e using n sig ok assms(3,5)
    by (auto simp: overwrite_def receipt_consts validate_proof_implicit validate_proof_explicit)
next
  assume "length out < need"
  then show "build_proof C ident h implicit out = (Inl ProofOutputTooSmall, out)"
    using assms(5) by (cases implicit) (simp_all add: build_proof_def Let_def)
next
  assume v: "validate_proof C pk h proof"
  show "length proof = 64 \<or> length proof = 96" using v by (rule validate_proof_length)
  then show "cr_ed_verify C (drop 32 pk) h (drop (length proof - 64) proof)"
    using v by (auto simp: validate_proof_def Let_def receipt_consts slice_def split: if_splits)
qed

theorem receipts_validate_witness:
  "\<exists>out'. build_proof toy_crypto (from_private_key toy_crypto (replicate 64 7)) (replicate 32 3) False (replicate 100 0) =
     (Inr 96, out') \<and>
   validate_proof toy_crypto (li_public_key (from_private_key toy_crypto (replicate 64 7))) (replicate 32 3) (take 96 out')"
  using receipts_validate [OF toy_ed_law toy_x_law _ refl refl, of "replicate 32 3" False "replicate 100 0" "replicate 64 7"]
  by (auto simp: receipt_consts)

text \<open>The initiator's proof validates under the public key of its ephemeral seed.\<close>

lemma initiator_proof_validates:
  assumes "ed_law C" "length h = 32" "96 \<le> length out" "length x = 32"
  shows "\<exists>out'. build_initiator_proof C seed h out = (Inr 96, out') \<and> length out' = length out \<and>
    validate_proof C (x @ cr_ed_public C seed) h (take 96 out')"
proof -
  have "build_initiator_proof C seed h out = (Inr 96, overwrite out 0 (h @ cr_ed_sign C seed h))"
    using assms overwrite_append [of h "cr_ed_sign C seed h" out]
    by (simp add: build_initiator_proof_def Let_def receipt_consts ed_lawD)
  then show ?thesis
    using assms by (auto simp: overwrite_def validate_proof_explicit ed_lawD)
qed

section \<open>The ring of ids is a bounded first-in first-out set\<close>

text \<open>The retained ids, oldest first, and the list reference for insertion.\<close>

definition sm_list :: "seen_messages \<Rightarrow> hash32 list" where
  "sm_list s = take (sm_len s) (rotate (sm_head s) (sm_ids s))"

definition sm_inv :: "seen_messages \<Rightarrow> bool" where
  "sm_inv s \<longleftrightarrow> sm_len s \<le> sm_cap s \<and> sm_head s < max (sm_cap s) 1 \<and> distinct (sm_list s)"

definition list_insert_if_new :: "nat \<Rightarrow> 'a list \<Rightarrow> 'a \<Rightarrow> 'a list" where
  "list_insert_if_new n xs x = (if x \<in> set xs then xs else list_push n xs x)"

lemma sm_contains_list:
  assumes "sm_len s \<le> sm_cap s"
  shows "sm_contains s x \<longleftrightarrow> x \<in> set (sm_list s)"
proof -
  have "map (\<lambda>i. sm_ids s ! ((sm_head s + i) mod sm_cap s)) [0..<sm_len s] = sm_list s"
    using assms by (intro nth_equalityI) (auto simp: sm_list_def nth_rotate)
  then have "set (sm_list s) = (\<lambda>i. sm_ids s ! ((sm_head s + i) mod sm_cap s)) ` {0..<sm_len s}"
    by (metis set_map set_upt)
  then show ?thesis by (auto simp: sm_contains_def list_ex_iff)
qed

lemma sm_insert_law:
  assumes inv: "sm_inv s" and ins: "sm_insert_if_new s x = (new, s')"
  shows "new = (x \<notin> set (sm_list s)) \<and> sm_inv s' \<and> sm_cap s' = sm_cap s \<and>
    sm_list s' = list_insert_if_new (sm_cap s) (sm_list s) x"
proof -
  let ?n = "sm_cap s" and ?r = "rotate (sm_head s) (sm_ids s)"
  have b: "sm_len s \<le> ?n" "sm_head s < max ?n 1" "distinct (sm_list s)" using inv by (simp_all add: sm_inv_def)
  note mem = sm_contains_list [OF b(1), of x]
  have len: "length (sm_list s) = sm_len s" using b by (simp add: sm_list_def)
  consider "x \<in> set (sm_list s)" | "x \<notin> set (sm_list s)" "?n = 0" | "x \<notin> set (sm_list s)" "?n \<noteq> 0" "sm_len s = ?n"
    | "x \<notin> set (sm_list s)" "sm_len s < ?n" using b(1) by force
  then show ?thesis
  proof cases
    case 3
    have s': "new" "s' = s\<lparr>sm_ids := (sm_ids s)[sm_head s := x], sm_head := (sm_head s + 1) mod ?n\<rparr>"
      using 3 mem ins by (auto simp: sm_insert_if_new_def)
    have "sm_head s mod ?n = sm_head s" using b 3 by simp
    then have "rotate (sm_head s) ((sm_ids s)[sm_head s := x]) = ?r[0 := x]"
      using rotate_update [of 0 "sm_ids s" "sm_head s" x] 3 by simp
    moreover obtain y ys where r: "?r = y # ys" using 3 by (cases ?r) auto
    moreover have "?n = Suc (length ys)" using arg_cong [OF r, of length] by simp
    ultimately have l: "sm_list s' = tl (sm_list s) @ [x]"
      using s' 3 rotate_step [of "sm_head s" "(sm_ids s)[sm_head s := x]"] by (simp add: sm_list_def)
    then have "sm_list s' = list_insert_if_new ?n (sm_list s) x"
      using 3 len by (simp add: list_insert_if_new_def list_push_def)
    moreover have "sm_inv s'"
      using l 3 b s' set_tl_subset [of "sm_list s"] by (auto simp: sm_inv_def distinct_tl less_max_iff_disj)
    ultimately show ?thesis using s' 3 by simp
  next
    case 4
    have s': "new" "s' = s\<lparr>sm_ids := (sm_ids s)[(sm_head s + sm_len s) mod ?n := x], sm_len := sm_len s + 1\<rparr>"
      using 4 mem ins by (auto simp: sm_insert_if_new_def Let_def split: if_splits)
    then have l: "sm_list s' = sm_list s @ [x]"
      using 4 rotate_update [of "sm_len s" "sm_ids s" "sm_head s" x] by (simp add: sm_list_def take_Suc_conv_app_nth)
    then have "sm_inv s'" using 4 b s' by (simp add: sm_inv_def)
    then show ?thesis using l s' 4 len by (auto simp: list_insert_if_new_def list_push_def)
  qed (use mem ins inv in \<open>auto simp: sm_insert_if_new_def list_insert_if_new_def list_push_def\<close>)
qed

text \<open>The answers to a sequence of insertions, on the ring and on the reference list.\<close>

fun sm_run :: "seen_messages \<Rightarrow> hash32 list \<Rightarrow> bool list \<times> seen_messages" where
  "sm_run s [] = ([], s)"
| "sm_run s (x # xs) =
     (case sm_insert_if_new s x of (b, s) \<Rightarrow> case sm_run s xs of (bs, s) \<Rightarrow> (b # bs, s))"

fun list_run :: "nat \<Rightarrow> 'a list \<Rightarrow> 'a list \<Rightarrow> bool list \<times> 'a list" where
  "list_run n ys [] = ([], ys)"
| "list_run n ys (x # xs) =
     (case list_run n (list_insert_if_new n ys x) xs of (bs, ys') \<Rightarrow> ((x \<notin> set ys) # bs, ys'))"

lemma sm_run_law:
  "sm_inv s \<Longrightarrow> sm_run s xs = (bs, s') \<Longrightarrow>
   sm_inv s' \<and> sm_cap s' = sm_cap s \<and> list_run (sm_cap s) (sm_list s) xs = (bs, sm_list s')"
proof (induction xs arbitrary: s bs)
  case (Cons x xs)
  obtain b s1 where i: "sm_insert_if_new s x = (b, s1)" by fastforce
  obtain bs1 where r: "sm_run s1 xs = (bs1, s')" "bs = b # bs1" using Cons.prems(2) i by (auto split: prod.splits)
  note L = sm_insert_law [OF Cons.prems(1) i]
  show ?case using Cons.IH [OF _ r(1)] L r(2) by simp
qed simp

text \<open>C40. The seen-message ring is a bounded first-in first-out set: whatever ids are inserted, in whatever
  order, each insertion answers whether the id was not retained, as on a list that appends new ids and
  drops its oldest when full; membership in the ring is membership in that list, which never holds an id
  twice nor more ids than the capacity.\<close>

theorem seen_messages_refine_list:
  "\<exists>s ys. sm_run (sm_new n) xs = (fst (list_run n [] xs), s) \<and> ys = snd (list_run n [] xs) \<and>
     (\<forall>x. sm_contains s x = (x \<in> set ys)) \<and> distinct ys \<and> length ys \<le> n"
proof -
  have new: "sm_inv (sm_new n)" "sm_list (sm_new n) = []" "sm_cap (sm_new n) = n"
    by (simp_all add: sm_new_def sm_inv_def sm_list_def)
  obtain bs s where r: "sm_run (sm_new n) xs = (bs, s)" by fastforce
  have L: "sm_inv s" "sm_cap s = n" "list_run n [] xs = (bs, sm_list s)" using sm_run_law [OF new(1) r] new by simp_all
  moreover have "sm_len s \<le> n" "distinct (sm_list s)" "length (sm_list s) \<le> n"
    using L(1,2) by (simp_all add: sm_inv_def sm_list_def)
  ultimately show ?thesis using r sm_contains_list [of s] by simp
qed

section \<open>The tunnel packet is a signed plain packet\<close>

lemma tunnel_packet_parses:
  assumes laws: "sha_law C" "ed_law C" "x_law C" and len: "length ihash = 32" "length random_hash = 16"
    and self: "ident = from_private_key C sk" and out: "TUNNEL_SYNTHESIS_PACKET_LEN \<le> length out"
  shows "\<exists>out' view. build_tunnel_synthesis_packet C ident ihash random_hash out =
      (Inr TUNNEL_SYNTHESIS_PACKET_LEN, out') \<and>
    packet_parse (take TUNNEL_SYNTHESIS_PACKET_LEN out') = Inr view \<and>
    ph_destination_hash (pv_header view) = destination_hash_from_name C TUNNEL_SYNTHESIZE_NAME None \<and>
    pf_packet_type (ph_flags (pv_header view)) = PtData \<and>
    pf_destination_type (ph_flags (pv_header view)) = DtPlain \<and>
    take 112 (pv_payload view) = li_public_key ident @ ihash @ random_hash \<and>
    cr_ed_verify C (slice 32 64 (pv_payload view)) (take 112 (pv_payload view)) (drop 112 (pv_payload view))"
proof -
  define h where "h = \<lparr>ph_flags = \<lparr>pf_header_type = Header1, pf_context_flag = False,
      pf_transport_type = TtBroadcast, pf_destination_type = DtPlain, pf_packet_type = PtData\<rparr>,
    ph_hops = 0, ph_transport_id = None,
    ph_destination_hash = destination_hash_from_name C TUNNEL_SYNTHESIZE_NAME None, ph_context = CtxNone\<rparr>"
  define signed where "signed = li_public_key ident @ ihash @ random_hash"
  let ?p = "signed @ li_sign C ident signed"
  have pk: "length (li_public_key ident) = 64" "drop 32 (li_public_key ident) = cr_ed_public C (drop 32 sk)"
    using laws by (simp_all add: self from_private_key_def Let_def derive_public_key_length derive_public_key_ed)
  have "length (destination_hash_from_name C name None) = 16" for name
    using laws(1)
    by (simp add: destination_hash_from_name_def destination_hash_from_parts_def truncated_hash_def sha_law_def size_consts)
  then have wf: "header_wf h" and hl: "length (header_bytes h) = 19" "header_size h = 19"
    by (simp_all add: h_def header_wf_def header_bytes_def header_size_def size_consts)
  have sl: "length signed = 112" "length ?p = 176"
    using len pk laws(2) by (simp_all add: signed_def li_sign_def ed_lawD)
  have b: "build_tunnel_synthesis_packet C ident ihash random_hash out =
      (Inr TUNNEL_SYNTHESIS_PACKET_LEN, overwrite out 0 (header_bytes h @ ?p))"
    using out by (simp add: build_tunnel_synthesis_packet_def Let_def h_def header_bytes_def signed_def)
  have t: "take TUNNEL_SYNTHESIS_PACKET_LEN (overwrite out 0 (header_bytes h @ ?p)) = header_bytes h @ ?p"
    using hl sl by (simp add: overwrite_def TUNNEL_SYNTHESIS_PACKET_LEN_def TUNNEL_SYNTHESIS_LEN_def announce_consts)
  have "header_parse (header_bytes h @ ?p) = Inr (h, 19)"
    using header_parse_bytes [OF wf, of ?p] hl sl by (simp add: size_consts)
  then have v: "packet_parse (header_bytes h @ ?p) =
      Inr \<lparr>pv_header = h, pv_payload = ?p, pv_raw = header_bytes h @ ?p, pv_payload_offset = 19\<rparr>"
    using hl by (simp add: packet_parse_def)
  have "slice 32 64 ?p = cr_ed_public C (drop 32 sk)"
    using pk ed_lawD(1) [OF laws(2), of "drop 32 sk"] by (simp add: slice_def signed_def)
  moreover have "li_sign C ident signed = cr_ed_sign C (drop 32 sk) signed"
    by (simp add: li_sign_def self from_private_key_def Let_def)
  moreover have h: "ph_destination_hash h = destination_hash_from_name C TUNNEL_SYNTHESIZE_NAME None"
    "pf_packet_type (ph_flags h) = PtData" "pf_destination_type (ph_flags h) = DtPlain" by (simp_all add: h_def)
  ultimately have "cr_ed_verify C (slice 32 64 ?p) (take 112 ?p) (drop 112 ?p)"
    using sl(1) laws(2) by (simp add: ed_lawD)
  then show ?thesis
    unfolding b
    by (intro exI [of _ "overwrite out 0 (header_bytes h @ ?p)"]
        exI [of _ "\<lparr>pv_header = h, pv_payload = ?p, pv_raw = header_bytes h @ ?p, pv_payload_offset = 19\<rparr>"])
      (use sl h in \<open>simp add: t v flip: signed_def\<close>)
qed

end
