(* ===== verification/Link_Session.thy ===== *)
theory Link_Session
  imports Link
begin

text \<open>
  The responder's side of a link (\<^verbatim>\<open>src/link_session.rs\<close>): acceptance, received packets, sealing,
  teardown and timers. The session is a record; buffers are passed in and returned. The initiator's round
  trip time arrives as an IEEE 754 number: it is decoded exactly, as a natural number times a power of
  two, and the one multiplication the code performs on it is rounded to 53 significant bits.
\<close>

section \<open>States and events\<close>

definition ESTABLISHMENT_PER_HOP_MS :: u64 where "ESTABLISHMENT_PER_HOP_MS = 6000"
definition KEEPALIVE_DEFAULT_MS :: u64 where "KEEPALIVE_DEFAULT_MS = 360000"
definition KEEPALIVE_MIN_MS :: u64 where "KEEPALIVE_MIN_MS = 5000"
definition STALE_TIME_DEFAULT_MS :: u64 where "STALE_TIME_DEFAULT_MS = 720000"
definition STALE_FACTOR :: u64 where "STALE_FACTOR = 2"
definition STALE_GRACE_MS :: u64 where "STALE_GRACE_MS = 5000"
definition KEEPALIVE_TIMEOUT_FACTOR :: u64 where "KEEPALIVE_TIMEOUT_FACTOR = 4"
definition KEEPALIVE_REQUEST :: u8 where "KEEPALIVE_REQUEST = 0xFF"
definition KEEPALIVE_RESPONSE :: u8 where "KEEPALIVE_RESPONSE = 0xFE"

lemmas session_consts = ESTABLISHMENT_PER_HOP_MS_def KEEPALIVE_DEFAULT_MS_def KEEPALIVE_MIN_MS_def
  STALE_TIME_DEFAULT_MS_def STALE_FACTOR_def STALE_GRACE_MS_def KEEPALIVE_TIMEOUT_FACTOR_def

datatype session_state = SsHandshake | SsActive | SsStale | SsClosed

datatype session_error = SeLink link_error | SeCrypto crypto_error | SeState

datatype received =
    RcActivated
  | RcIdentified bytes
  | RcData nat
  | RcKeepalive bool
  | RcClosed
  | RcIgnored

datatype tick_action = TkNone | TkExpired | TkStale | TkTeardown

definition link_header :: "hash16 \<Rightarrow> packet_type \<Rightarrow> packet_context \<Rightarrow> packet_header" where
  "link_header link_id ptype context =
     \<lparr>ph_flags = \<lparr>pf_header_type = Header1, pf_context_flag = False, pf_transport_type = TtBroadcast,
        pf_destination_type = DtLink, pf_packet_type = ptype\<rparr>,
      ph_hops = 0, ph_transport_id = None, ph_destination_hash = link_id, ph_context = context\<rparr>"

record responder_session =
  ls_link_id :: hash16
  ls_keys :: bytes
  ls_state :: session_state
  ls_request_ms :: u64
  ls_establishment_timeout_ms :: u64
  ls_rtt_ms :: "u64 option"
  ls_keepalive_ms :: u64
  ls_stale_ms :: u64
  ls_last_inbound_ms :: u64
  ls_last_outbound_ms :: "u64 option"
  ls_activated_ms :: "u64 option"
  ls_stale_since_ms :: "u64 option"
  ls_remote_identity_hash :: "hash16 option"

section \<open>The peer's round trip time\<close>

text \<open>A finite number is a sign, a significand and a binary exponent.\<close>

datatype ieee = IeeeNan | IeeeInf bool | IeeeFinite bool nat int

definition ieee_decode :: "nat \<Rightarrow> nat \<Rightarrow> nat \<Rightarrow> ieee" where
  "ieee_decode exp_bits frac_bits w =
     (let frac = w mod 2 ^ frac_bits;
          ex = (w div 2 ^ frac_bits) mod 2 ^ exp_bits;
          neg = odd (w div 2 ^ (frac_bits + exp_bits));
          bias = int (2 ^ (exp_bits - 1) - 1 + frac_bits)
      in if ex = 2 ^ exp_bits - 1 then (if frac = 0 then IeeeInf neg else IeeeNan)
         else if ex = 0 then IeeeFinite neg frac (1 - bias)
         else IeeeFinite neg (2 ^ frac_bits + frac) (int ex - bias))"

definition f64_from_be_bytes :: "bytes \<Rightarrow> ieee" where
  "f64_from_be_bytes bs = ieee_decode 11 52 (unat (from_be_bytes bs :: u64))"

definition f32_from_be_bytes :: "bytes \<Rightarrow> ieee" where
  "f32_from_be_bytes bs = ieee_decode 8 23 (unat (from_be_bytes bs :: u32))"

fun bit_length :: "nat \<Rightarrow> nat" where
  "bit_length n = (if n = 0 then 0 else Suc (bit_length (n div 2)))"

declare bit_length.simps [simp del]

text \<open>Rounding to 53 significant bits, ties to even. A product below the normal range of the format
  is rounded more coarsely than this, but it is then smaller than one, and so is the result here.\<close>

definition round_53 :: "nat \<Rightarrow> nat" where
  "round_53 p =
     (let k = bit_length p - 53; q = p div 2 ^ k; r = p mod 2 ^ k
      in (if 2 * r > 2 ^ k \<or> (2 * r = 2 ^ k \<and> odd q) then q + 1 else q) * 2 ^ k)"

text \<open>The integer part of \<open>p\<close> times a power of two, the result of Rust's saturating cast for the values
  that reach it.\<close>

definition scale :: "nat \<Rightarrow> int \<Rightarrow> nat" where
  "scale p e = (if e \<ge> 0 then p * 2 ^ nat e else p div 2 ^ nat (- e))"

definition rtt_millis :: "ieee \<Rightarrow> u64 option" where
  "rtt_millis seconds =
     (case seconds of
        IeeeNan \<Rightarrow> None
      | IeeeInf neg \<Rightarrow> if neg then None else Some STALE_TIME_DEFAULT_MS
      | IeeeFinite neg m e \<Rightarrow>
          if neg \<and> m \<noteq> 0 then None
          else let millis = scale (round_53 (m * 1000)) e in
            Some (if millis \<ge> unat STALE_TIME_DEFAULT_MS then STALE_TIME_DEFAULT_MS else of_nat millis))"

definition peer_rtt_ms :: "bytes \<Rightarrow> u64 option" where
  "peer_rtt_ms plaintext =
     (case plaintext of
        [] \<Rightarrow> None
      | tag # rest \<Rightarrow>
          if tag = 0xCB \<and> length rest = 8 then rtt_millis (f64_from_be_bytes rest)
          else if tag = 0xCA \<and> length rest = 4 then rtt_millis (f32_from_be_bytes rest)
          else None)"

section \<open>Operations\<close>

definition session_accept ::
  "crypto \<Rightarrow> local_identity \<Rightarrow> hash16 \<Rightarrow> bytes \<Rightarrow> u8 \<Rightarrow> bytes \<Rightarrow> u64 \<Rightarrow> bytes
   \<Rightarrow> (session_error + responder_session \<times> nat) \<times> bytes" where
  "session_accept C ident destination_hash request hops ephemeral_x25519 now_ms proof =
     (case link_request_parse request of
        Inl e \<Rightarrow> (Inl (SeLink e), proof)
      | Inr view \<Rightarrow>
          if sg_mode (lrv_signalling view) \<noteq> MODE_AES256_CBC then (Inl (SeLink LinkUnsupportedMode), proof)
          else case signalling_try_new MODE_AES256_CBC (of_nat MTU) of
            Inl e \<Rightarrow> (Inl (SeLink e), proof)
          | Inr signalling \<Rightarrow>
              let link_id = compute_link_id C destination_hash request in
              (case build_link_proof C ident ephemeral_x25519 link_id signalling proof of
                 (Inl e, proof) \<Rightarrow> (Inl (SeLink e), proof)
               | (Inr proof_len, proof) \<Rightarrow>
                   (Inr (\<lparr>ls_link_id = link_id,
                      ls_keys = link_keys_derive C ephemeral_x25519 (lrv_peer_x25519_pub view) link_id,
                      ls_state = SsHandshake, ls_request_ms = now_ms,
                      ls_establishment_timeout_ms =
                        sat_add (sat_mul ESTABLISHMENT_PER_HOP_MS (ucast (max hops 1))) KEEPALIVE_DEFAULT_MS,
                      ls_rtt_ms = None, ls_keepalive_ms = KEEPALIVE_DEFAULT_MS,
                      ls_stale_ms = STALE_TIME_DEFAULT_MS, ls_last_inbound_ms = now_ms,
                      ls_last_outbound_ms = None, ls_activated_ms = None, ls_stale_since_ms = None,
                      ls_remote_identity_hash = None\<rparr>, proof_len), proof)))"

definition record_inbound :: "responder_session \<Rightarrow> u64 \<Rightarrow> responder_session" where
  "record_inbound s now_ms =
     (let s = s\<lparr>ls_last_inbound_ms := now_ms\<rparr> in
      if ls_state s = SsStale then s\<lparr>ls_state := SsActive, ls_stale_since_ms := None\<rparr> else s)"

definition activate :: "responder_session \<Rightarrow> u64 \<Rightarrow> bytes \<Rightarrow> responder_session" where
  "activate s now_ms plaintext =
     (let local_rtt = sat_sub now_ms (ls_request_ms s);
          rtt = (case peer_rtt_ms plaintext of None \<Rightarrow> local_rtt | Some peer \<Rightarrow> max peer local_rtt);
          keepalive = min (max (sat_mul rtt 1440 div 7) KEEPALIVE_MIN_MS) KEEPALIVE_DEFAULT_MS
      in s\<lparr>ls_rtt_ms := Some rtt, ls_keepalive_ms := keepalive,
           ls_stale_ms := sat_mul keepalive STALE_FACTOR, ls_state := SsActive,
           ls_activated_ms := Some now_ms, ls_last_inbound_ms := now_ms\<rparr>)"

definition session_receive ::
  "crypto \<Rightarrow> responder_session \<Rightarrow> packet_context \<Rightarrow> bytes \<Rightarrow> u64 \<Rightarrow> bytes
   \<Rightarrow> (session_error + received) \<times> responder_session \<times> bytes" where
  "session_receive C s context payload now_ms plaintext =
     (if ls_state s = SsClosed then (Inl SeState, s, plaintext)
      else case context of
        CtxKeepalive \<Rightarrow>
          if ls_state s = SsHandshake \<or> payload \<noteq> [KEEPALIVE_REQUEST] then (Inr RcIgnored, s, plaintext)
          else let s = record_inbound s now_ms;
                   respond = (case ls_last_outbound_ms s of
                                None \<Rightarrow> True | Some sent \<Rightarrow> sat_sub now_ms sent \<ge> ls_keepalive_ms s)
               in (Inr (RcKeepalive respond), s, plaintext)
      | CtxLrrtt \<Rightarrow>
          if ls_state s \<noteq> SsHandshake then (Inl SeState, s, plaintext)
          else (case link_decrypt C (ls_keys s) payload plaintext of
             (Inl e, plaintext) \<Rightarrow> (Inl (SeCrypto e), s, plaintext)
           | (Inr len, plaintext) \<Rightarrow> (Inr RcActivated, activate s now_ms (take len plaintext), plaintext))
      | CtxLinkIdentify \<Rightarrow>
          (case link_decrypt C (ls_keys s) payload plaintext of
             (Inl e, plaintext) \<Rightarrow> (Inl (SeCrypto e), s, plaintext)
           | (Inr len, plaintext) \<Rightarrow>
               (case verify_identification C (ls_link_id s) (take len plaintext) of
                  None \<Rightarrow> (Inl (SeCrypto AuthenticationFailed), s, plaintext)
                | Some public_key \<Rightarrow>
                    let s = record_inbound s now_ms in
                    if ls_remote_identity_hash s \<noteq> None then (Inr RcIgnored, s, plaintext)
                    else (Inr (RcIdentified public_key),
                          s\<lparr>ls_remote_identity_hash := Some (identity_hash C public_key)\<rparr>, plaintext)))
      | CtxLinkClose \<Rightarrow>
          (case link_decrypt C (ls_keys s) payload plaintext of
             (Inl e, plaintext) \<Rightarrow> (Inl (SeCrypto e), s, plaintext)
           | (Inr len, plaintext) \<Rightarrow>
               if len < 16 \<or> take 16 plaintext \<noteq> ls_link_id s then (Inr RcIgnored, s, plaintext)
               else (Inr RcClosed, s\<lparr>ls_state := SsClosed\<rparr>, plaintext))
      | CtxNone \<Rightarrow>
          if ls_state s = SsHandshake then (Inl SeState, s, plaintext)
          else (case link_decrypt C (ls_keys s) payload plaintext of
             (Inl e, plaintext) \<Rightarrow> (Inl (SeCrypto e), s, plaintext)
           | (Inr len, plaintext) \<Rightarrow> (Inr (RcData len), record_inbound s now_ms, plaintext))
      | _ \<Rightarrow> (Inr RcIgnored, s, plaintext))"

definition session_seal ::
  "crypto \<Rightarrow> responder_session \<Rightarrow> bytes \<Rightarrow> bytes \<Rightarrow> bytes \<Rightarrow> u64
   \<Rightarrow> (session_error + nat) \<times> responder_session \<times> bytes" where
  "session_seal C s plaintext iv out now_ms =
     (if ls_state s \<notin> {SsActive, SsStale} then (Inl SeState, s, out)
      else case link_encrypt C (ls_keys s) plaintext iv out of
        (Inl e, out) \<Rightarrow> (Inl (SeCrypto e), s, out)
      | (Inr len, out) \<Rightarrow> (Inr len, s\<lparr>ls_last_outbound_ms := Some now_ms\<rparr>, out))"

definition keepalive_response :: "responder_session \<Rightarrow> u64 \<Rightarrow> bytes \<times> responder_session" where
  "keepalive_response s now_ms = ([KEEPALIVE_RESPONSE], s\<lparr>ls_last_outbound_ms := Some now_ms\<rparr>)"

definition session_teardown ::
  "crypto \<Rightarrow> responder_session \<Rightarrow> bytes \<Rightarrow> bytes \<Rightarrow> nat option \<times> responder_session \<times> bytes" where
  "session_teardown C s iv out =
     (if ls_state s = SsClosed then (None, s, out)
      else case link_encrypt C (ls_keys s) (ls_link_id s) iv out of
        (res, out) \<Rightarrow> (case res of Inl _ \<Rightarrow> None | Inr len \<Rightarrow> Some len, s\<lparr>ls_state := SsClosed\<rparr>, out))"

definition session_tick :: "responder_session \<Rightarrow> u64 \<Rightarrow> tick_action \<times> responder_session" where
  "session_tick s now_ms =
     (case ls_state s of
        SsHandshake \<Rightarrow>
          if sat_sub now_ms (ls_request_ms s) > ls_establishment_timeout_ms s
          then (TkExpired, s\<lparr>ls_state := SsClosed\<rparr>) else (TkNone, s)
      | SsActive \<Rightarrow>
          let latest = (case ls_activated_ms s of
                None \<Rightarrow> ls_last_inbound_ms s | Some activated \<Rightarrow> max activated (ls_last_inbound_ms s))
          in if sat_sub now_ms latest \<ge> ls_stale_ms s
             then (TkStale, s\<lparr>ls_state := SsStale, ls_stale_since_ms := Some now_ms\<rparr>) else (TkNone, s)
      | SsStale \<Rightarrow>
          let grace = sat_add (sat_mul (case ls_rtt_ms s of None \<Rightarrow> 1000 | Some rtt \<Rightarrow> rtt) KEEPALIVE_TIMEOUT_FACTOR) STALE_GRACE_MS
          in if is_some_and (ls_stale_since_ms s) (\<lambda>since. sat_sub now_ms since \<ge> grace)
             then (TkTeardown, s) else (TkNone, s)
      | SsClosed \<Rightarrow> (TkNone, s))"

section \<open>Runs\<close>

datatype session_event =
    EvReceive packet_context bytes u64 bytes
  | EvSeal bytes bytes bytes u64
  | EvKeepalive u64
  | EvTeardown bytes bytes
  | EvTick u64

definition session_step :: "crypto \<Rightarrow> responder_session \<Rightarrow> session_event \<Rightarrow> responder_session" where
  "session_step C s ev =
     (case ev of
        EvReceive context payload now buf \<Rightarrow> fst (snd (session_receive C s context payload now buf))
      | EvSeal p iv out now \<Rightarrow> fst (snd (session_seal C s p iv out now))
      | EvKeepalive now \<Rightarrow> snd (keepalive_response s now)
      | EvTeardown iv out \<Rightarrow> fst (snd (session_teardown C s iv out))
      | EvTick now \<Rightarrow> snd (session_tick s now))"

definition session_run :: "crypto \<Rightarrow> responder_session \<Rightarrow> session_event list \<Rightarrow> responder_session" where
  "session_run C s evs = foldl (session_step C) s evs"

lemma session_run_simps [simp]:
  "session_run C s [] = s" "session_run C s (ev # evs) = session_run C (session_step C s ev) evs"
  "session_run C s (evs @ [ev]) = session_step C (session_run C s evs) ev"
  by (simp_all add: session_run_def)

text \<open>A well-formed session: timers fit the state, and a recorded identity has proved itself on the link.\<close>

definition identity_proved :: "crypto \<Rightarrow> hash16 \<Rightarrow> hash16 \<Rightarrow> bool" where
  "identity_proved C link_id h \<longleftrightarrow>
     (\<exists>pk sig. length pk = 64 \<and> h = identity_hash C pk \<and> cr_ed_verify C (drop 32 pk) (link_id @ pk) sig)"

definition session_inv :: "crypto \<Rightarrow> responder_session \<Rightarrow> bool" where
  "session_inv C s \<longleftrightarrow>
     (ls_state s = SsHandshake \<longrightarrow> ls_rtt_ms s = None \<and> ls_activated_ms s = None) \<and>
     (ls_state s \<in> {SsActive, SsStale} \<longrightarrow> ls_rtt_ms s \<noteq> None \<and> ls_activated_ms s \<noteq> None) \<and>
     (ls_state s \<in> {SsHandshake, SsActive} \<longrightarrow> ls_stale_since_ms s = None) \<and>
     (ls_state s = SsStale \<longrightarrow> ls_stale_since_ms s \<noteq> None) \<and>
     KEEPALIVE_MIN_MS \<le> ls_keepalive_ms s \<and> ls_keepalive_ms s \<le> KEEPALIVE_DEFAULT_MS \<and>
     ls_stale_ms s = 2 * ls_keepalive_ms s \<and>
     (\<forall>h. ls_remote_identity_hash s = Some h \<longrightarrow> identity_proved C (ls_link_id s) h)"

lemma sat_mul_keepalive:
  assumes "k \<le> KEEPALIVE_DEFAULT_MS" shows "sat_mul k STALE_FACTOR = 2 * k"
proof -
  have "unat k \<le> 360000" using assms by (simp add: session_consts word_le_nat_alt)
  then show ?thesis by (simp add: sat_mul_def STALE_FACTOR_def mult.commute)
qed

lemma keepalive_clamped:
  "KEEPALIVE_MIN_MS \<le> min (max x KEEPALIVE_MIN_MS) KEEPALIVE_DEFAULT_MS"
  "min (max x KEEPALIVE_MIN_MS) KEEPALIVE_DEFAULT_MS \<le> KEEPALIVE_DEFAULT_MS"
  by (simp_all add: session_consts)

lemma verify_identification_proved:
  "verify_identification C link_id p = Some pk \<Longrightarrow> identity_proved C link_id (identity_hash C pk)"
  unfolding identity_proved_def verify_identification_def Let_def
  by (intro exI [of _ pk] exI [of _ "drop 64 p"]) (auto simp: link_consts split: if_splits)

lemma record_inbound_inv: "session_inv C s \<Longrightarrow> session_inv C (record_inbound s now)"
  by (auto simp: session_inv_def record_inbound_def Let_def)

lemma record_inbound_fields [simp]:
  "ls_link_id (record_inbound s now) = ls_link_id s" "ls_keys (record_inbound s now) = ls_keys s"
  "ls_remote_identity_hash (record_inbound s now) = ls_remote_identity_hash s"
  "ls_state (record_inbound s now) = (if ls_state s = SsStale then SsActive else ls_state s)"
  by (simp_all add: record_inbound_def Let_def)

lemma activate_inv:
  assumes "session_inv C s" "ls_state s = SsHandshake"
  shows "session_inv C (activate s now p)"
proof -
  let ?k = "ls_keepalive_ms (activate s now p)"
  have k: "?k \<le> KEEPALIVE_DEFAULT_MS" "KEEPALIVE_MIN_MS \<le> ?k"
    using keepalive_clamped by (simp_all add: activate_def Let_def)
  have "ls_stale_ms (activate s now p) = 2 * ?k" using sat_mul_keepalive [OF k(1)] by (simp add: activate_def Let_def)
  then show ?thesis using assms k by (simp add: session_inv_def) (simp add: activate_def Let_def)
qed

lemma activate_fields [simp]:
  "ls_link_id (activate s now p) = ls_link_id s" "ls_keys (activate s now p) = ls_keys s"
  "ls_remote_identity_hash (activate s now p) = ls_remote_identity_hash s" "ls_state (activate s now p) = SsActive"
  by (simp_all add: activate_def Let_def)

lemma session_receive_inv:
  assumes "session_inv C s" shows "session_inv C (fst (snd (session_receive C s context payload now buf)))"
proof -
  have r: "session_inv C (record_inbound s now)" using assms by (rule record_inbound_inv)
  have idn: "session_inv C ((record_inbound s now)\<lparr>ls_remote_identity_hash := Some (identity_hash C pk)\<rparr>)"
    if "verify_identification C (ls_link_id s) p = Some pk" for p pk
    using r verify_identification_proved [OF that] by (simp add: session_inv_def)
  have closed: "session_inv C (s\<lparr>ls_state := SsClosed\<rparr>)" using assms by (auto simp: session_inv_def)
  show ?thesis
    unfolding session_receive_def Let_def
    by (simp add: assms r idn closed activate_inv split_beta split: packet_context.split sum.split option.split)
qed

lemma session_step_inv:
  assumes "session_inv C s" shows "session_inv C (session_step C s ev)"
proof (cases ev)
  case (EvReceive ctx payload now buf)
  then show ?thesis using session_receive_inv [OF assms] by (simp add: session_step_def)
next
  case (EvSeal p iv out now)
  then show ?thesis using assms
    by (auto simp: session_step_def session_seal_def session_inv_def split_beta split: sum.split)
next
  case (EvKeepalive now)
  then show ?thesis using assms by (auto simp: session_step_def keepalive_response_def session_inv_def)
next
  case (EvTeardown iv out)
  then show ?thesis using assms
    by (auto simp: session_step_def session_teardown_def session_inv_def split_beta)
next
  case (EvTick now)
  then show ?thesis using assms
    by (auto simp: session_step_def session_tick_def session_inv_def Let_def split: session_state.split)
qed

lemma session_run_inv: "session_inv C s \<Longrightarrow> session_inv C (session_run C s evs)"
  by (induction evs arbitrary: s) (simp_all add: session_step_inv)

section \<open>What one step can change\<close>

definition session_edge :: "session_state \<Rightarrow> session_state \<Rightarrow> bool" where
  "session_edge a b \<longleftrightarrow> a = b \<or> a \<noteq> SsClosed \<and>
     (b = SsClosed \<or> (a, b) \<in> {(SsHandshake, SsActive), (SsActive, SsStale), (SsStale, SsActive)})"

text \<open>The evidence for the two transitions a peer causes: activation and closing.\<close>

definition decrypts :: "crypto \<Rightarrow> bytes \<Rightarrow> bytes \<Rightarrow> bytes \<Rightarrow> bytes \<Rightarrow> bool" where
  "decrypts C keys payload buf p \<longleftrightarrow> (\<exists>len buf'. link_decrypt C keys payload buf = (Inr len, buf') \<and> p = take len buf')"

definition step_ok :: "crypto \<Rightarrow> responder_session \<Rightarrow> session_event \<Rightarrow> responder_session \<Rightarrow> bool" where
  "step_ok C s ev s' \<longleftrightarrow>
     ls_link_id s' = ls_link_id s \<and> ls_keys s' = ls_keys s \<and> session_edge (ls_state s) (ls_state s') \<and>
     (ls_remote_identity_hash s \<noteq> None \<longrightarrow> ls_remote_identity_hash s' = ls_remote_identity_hash s) \<and>
     (ls_state s = SsHandshake \<and> ls_state s' = SsActive \<longrightarrow>
        (\<exists>payload now buf p. ev = EvReceive CtxLrrtt payload now buf \<and> decrypts C (ls_keys s) payload buf p)) \<and>
     (ls_state s \<noteq> SsClosed \<and> ls_state s' = SsClosed \<longrightarrow>
        (\<exists>iv out. ev = EvTeardown iv out) \<or> (\<exists>now. ev = EvTick now \<and> ls_state s = SsHandshake) \<or>
        (\<exists>payload now buf p. ev = EvReceive CtxLinkClose payload now buf \<and>
           decrypts C (ls_keys s) payload buf p \<and> take 16 p = ls_link_id s))"

lemma step_okI:
  assumes "ls_link_id s' = ls_link_id s" "ls_keys s' = ls_keys s"
    "ls_remote_identity_hash s \<noteq> None \<longrightarrow> ls_remote_identity_hash s' = ls_remote_identity_hash s"
    and "ls_state s' = ls_state s \<or> ls_state s = SsStale \<and> ls_state s' = SsActive \<or>
      ls_state s = SsActive \<and> ls_state s' = SsStale"
  shows "step_ok C s ev s'"
  using assms by (auto simp: step_ok_def session_edge_def)

lemma step_ok_record: "step_ok C s ev (record_inbound s now)"
  by (rule step_okI) simp_all

lemma step_ok_identify:
  "ls_remote_identity_hash s = None \<Longrightarrow> step_ok C s ev ((record_inbound s now)\<lparr>ls_remote_identity_hash := h\<rparr>)"
  by (rule step_okI) simp_all

lemma step_ok_same: "step_ok C s ev s"
  by (rule step_okI) simp_all

lemma step_ok_activate:
  "ls_state s = SsHandshake \<Longrightarrow> link_decrypt C (ls_keys s) payload buf = (Inr len, buf') \<Longrightarrow>
   step_ok C s (EvReceive CtxLrrtt payload now buf) (activate s now p)"
  by (auto simp: step_ok_def session_edge_def decrypts_def)

lemma step_ok_close:
  assumes "ls_state s \<noteq> SsClosed" "link_decrypt C (ls_keys s) payload buf = (Inr len, buf')" "16 \<le> len"
    "take 16 buf' = ls_link_id s"
  shows "step_ok C s (EvReceive CtxLinkClose payload now buf) (s\<lparr>ls_state := SsClosed\<rparr>)"
  using assms
  by (auto simp: step_ok_def session_edge_def decrypts_def min_def intro!: exI [of _ "take len buf'"])

lemma step_ok_receive:
  "step_ok C s (EvReceive ctx payload now buf) (fst (snd (session_receive C s ctx payload now buf)))"
proof (cases "ls_state s = SsClosed")
  case True
  then show ?thesis by (simp add: session_receive_def step_ok_same)
next
  case False
  obtain res buf' where d: "link_decrypt C (ls_keys s) payload buf = (res, buf')" by fastforce
  show ?thesis
  proof (cases res)
    case (Inl e)
    then show ?thesis
      using False unfolding session_receive_def d Inl prod.case sum.case
      by (simp add: step_ok_same step_ok_record Let_def split: packet_context.split)
  next
    case (Inr len)
    note act = step_ok_activate [OF _ d [unfolded Inr]] and close = step_ok_close [OF _ d [unfolded Inr]]
    show ?thesis
      using False unfolding session_receive_def d Inr prod.case sum.case
      by (cases ctx) (simp_all add: act close step_ok_same step_ok_record step_ok_identify Let_def not_less
          split: option.split)
  qed
qed

lemma step_ok_step: "step_ok C s ev (session_step C s ev)"
proof (cases ev)
  case (EvReceive ctx payload now buf)
  then show ?thesis using step_ok_receive by (simp add: session_step_def)
next
  case (EvSeal p iv out now)
  then show ?thesis
    by (simp add: session_step_def session_seal_def split_beta step_ok_same split: sum.split) (simp add: step_okI)
next
  case (EvKeepalive now)
  then show ?thesis by (simp add: session_step_def keepalive_response_def step_okI)
next
  case (EvTeardown iv out)
  then show ?thesis
    by (simp add: session_step_def session_teardown_def split_beta step_ok_same)
      (simp add: step_ok_def session_edge_def)
next
  case (EvTick now)
  have expire: "ls_state s = SsHandshake \<Longrightarrow> step_ok C s (EvTick now) (s\<lparr>ls_state := SsClosed\<rparr>)"
    by (simp add: step_ok_def session_edge_def)
  have stale: "ls_state s = SsActive \<Longrightarrow> step_ok C s (EvTick now) (s\<lparr>ls_state := SsStale, ls_stale_since_ms := x\<rparr>)" for x
    by (rule step_okI) simp_all
  show ?thesis
    using EvTick expire stale
    by (simp add: session_step_def session_tick_def Let_def step_ok_same split: session_state.split)
qed

lemma session_run_fields:
  "ls_link_id (session_run C s evs) = ls_link_id s \<and> ls_keys (session_run C s evs) = ls_keys s"
  using step_ok_step by (induction evs arbitrary: s) (simp_all add: step_ok_def)

lemma session_accept_InrD:
  assumes "session_accept C ident d r hops x now proof = (Inr (s, n), proof')"
  shows "session_inv C s" "ls_state s = SsHandshake" "ls_link_id s = compute_link_id C d r"
    "\<exists>view. link_request_parse r = Inr view \<and>
       ls_keys s = link_keys_derive C x (lrv_peer_x25519_pub view) (ls_link_id s)"
  using assms
  by (auto simp: session_accept_def Let_def session_inv_def session_consts split: sum.splits if_splits prod.splits)

text \<open>C11. The life of a responder session: from acceptance on, whatever packets, timers and local calls
  follow, its timers fit its state, the keepalive interval stays within its bounds, and a recorded peer
  identity has signed the link id. Each step keeps link id and keys, moves only along the state
  machine's edges, and never replaces a recorded identity; the session becomes active only by a packet
  that decrypts under its keys, and the peer can close it only by one that decrypts to its link id.\<close>

theorem session_lifecycle:
  assumes "session_accept C ident d r hops x now proof = (Inr (s0, n), proof')"
    and "s = session_run C s0 evs"
  shows "session_inv C s \<and> ls_link_id s = compute_link_id C d r \<and> ls_keys s = ls_keys s0 \<and>
    step_ok C s ev (session_step C s ev)"
  using session_accept_InrD(1,3) [OF assms(1)] session_run_inv [of C s0 evs] session_run_fields [of C s0 evs]
    step_ok_step assms(2) by simp

section \<open>Timers\<close>

text \<open>A reported round trip time counts up to the default stale time only, and one in whole or binary
  fractions of seconds is converted exactly.\<close>

lemma peer_rtt_bounded: "peer_rtt_ms p = Some r \<Longrightarrow> r \<le> STALE_TIME_DEFAULT_MS"
proof -
  have "unat (of_nat n :: u64) \<le> 720000" if "n < 720000" for n
    using that by (simp add: unat_of_nat)
  then show "peer_rtt_ms p = Some r \<Longrightarrow> r \<le> STALE_TIME_DEFAULT_MS"
    by (auto simp: peer_rtt_ms_def rtt_millis_def Let_def session_consts word_le_nat_alt not_le
        split: list.splits if_splits ieee.splits)
qed

lemma bit_length_le: "n < 2 ^ k \<Longrightarrow> bit_length n \<le> k"
proof (induction n arbitrary: k rule: bit_length.induct)
  case (1 n)
  show ?case
  proof (cases "n = 0")
    case False
    then obtain j where "k = Suc j" using 1(2) by (cases k) auto
    then show ?thesis using 1(1) [OF False, of j] 1(2) False by (simp add: bit_length.simps [of n] less_mult_imp_div_less)
  qed (simp add: bit_length.simps)
qed

lemma round_53_exact: "p < 2 ^ 53 \<Longrightarrow> round_53 p = p"
  using bit_length_le [of p 53] by (simp add: round_53_def)

lemma rtt_quarter_second: "peer_rtt_ms [0xCB, 0x3F, 0xD0, 0, 0, 0, 0, 0, 0] = Some 250"
proof -
  have "(from_be_bytes [0x3F, 0xD0, 0, 0, 0, 0, 0, 0 :: u8] :: u64) = 0x3FD0000000000000"
    by (simp add: from_be_bytes_def)
  moreover have "bit_length 4503599627370496000 = 62" by (simp add: bit_length.simps)
  then have "round_53 4503599627370496000 = 4503599627370496000" by (simp add: round_53_def)
  ultimately show ?thesis
    by (simp add: peer_rtt_ms_def f64_from_be_bytes_def ieee_decode_def Let_def rtt_millis_def scale_def session_consts)
qed

text \<open>An active session that hears nothing for its stale time goes stale at the next tick, and after the
  grace period every tick asks for the teardown until the peer is heard again.\<close>

lemma idle_session_goes_stale:
  assumes "session_inv C s" "ls_state s = SsActive" "ls_activated_ms s = Some a"
    and "ls_stale_ms s \<le> sat_sub now (max a (ls_last_inbound_ms s))"
    and "sat_add (sat_mul (the (ls_rtt_ms s)) KEEPALIVE_TIMEOUT_FACTOR) STALE_GRACE_MS \<le> sat_sub later now"
  shows "\<exists>s'. session_tick s now = (TkStale, s') \<and> ls_state s' = SsStale \<and> session_tick s' later = (TkTeardown, s')"
  using assms by (auto simp: session_tick_def session_inv_def is_some_and_def)

section \<open>Both ends of a session\<close>

lemma link_decrypt_encrypt:
  assumes "hmac_law C" "aes_law C" "length iv = 16" "link_encrypt C k p iv out = (Inr m, o')" "length p \<le> length buf"
  shows "link_decrypt C k (take m o') buf = (Inr (length p), overwrite buf 0 p)"
proof -
  have e: "length (padded p) \<le> LINK_PADDED_MAX" "m = length (token_of C k iv p)" "o' = overwrite out 0 (token_of C k iv p)"
    using assms(4) length_token_of [OF assms(1-3)] by (auto simp: link_encrypt_def token_encrypt_eq split: if_splits)
  then have "take m o' = token_of C k iv p" by (simp add: take_overwrite)
  then show ?thesis
    using token_decrypt_token_of [OF assms(1-3) e(1)] assms(5) by (simp add: link_decrypt_def)
qed

lemma session_accept_ok:
  assumes laws: "x_law C" "ed_law C" and self: "self = from_private_key C sk"
    and r: "r = cr_x_public C xi @ cr_ed_public C ei @ signalling_pack default_signalling" and room: "99 \<le> length proof"
  obtains s proof' pv where "session_accept C self d r hops xr now proof = (Inr (s, 99), proof')"
    "link_proof_parse (take 99 proof') = Inr pv" "link_proof_validate C pv (li_public_key self) (ls_link_id s)"
    "link_keys_derive C xi (lpv_responder_x25519_pub pv) (ls_link_id s) = ls_keys s"
proof -
  let ?lid = "compute_link_id C d r"
  obtain proof' sig where p: "build_link_proof C self xr ?lid default_signalling proof = (Inr 99, proof')"
      "take 99 proof' = sig @ cr_x_public C xr @ signalling_pack default_signalling" "length sig = 64"
      "link_proof_validate C \<lparr>lpv_signature = sig, lpv_responder_x25519_pub = cr_x_public C xr,
         lpv_signalling = default_signalling, lpv_signalling_present = True\<rparr> (li_public_key self) ?lid"
    by (rule build_link_proof_ok [OF room laws self])
  have rv: "link_request_parse r = Inr \<lparr>lrv_peer_x25519_pub = cr_x_public C xi,
      lrv_peer_ed25519_pub = cr_ed_public C ei, lrv_signalling = default_signalling\<rparr>"
    unfolding r by (rule link_request_parse_built) (use laws in \<open>simp_all add: x_law_def ed_lawD\<close>)
  have sg: "signalling_try_new MODE_AES256_CBC (of_nat MTU) = Inr default_signalling"
    by (simp add: signalling_try_new_def effective_mtu_def default_signalling_eq MODE_AES256_CBC_def MTU_def MTU_BYTEMASK_def)
  have mode: "sg_mode default_signalling = MODE_AES256_CBC" by (simp add: default_signalling_eq MODE_AES256_CBC_def)
  obtain s where s: "session_accept C self d r hops xr now proof = (Inr (s, 99), proof')" "ls_link_id s = ?lid"
      "ls_keys s = link_keys_derive C xr (cr_x_public C xi) ?lid"
    using p(1) mode by (simp add: session_accept_def rv sg Let_def)
  have pv: "link_proof_parse (take 99 proof') = Inr \<lparr>lpv_signature = sig,
      lpv_responder_x25519_pub = cr_x_public C xr, lpv_signalling = default_signalling, lpv_signalling_present = True\<rparr>"
    unfolding p(2) by (rule link_proof_parse_built) (use laws p(3) in \<open>simp_all add: x_law_def\<close>)
  have "cr_x_shared C xi (cr_x_public C xr) = cr_x_shared C xr (cr_x_public C xi)" using laws(1) by (simp add: x_law_def)
  then have "link_keys_derive C xi (cr_x_public C xr) ?lid = link_keys_derive C xr (cr_x_public C xi) ?lid"
    by (simp add: link_keys_derive_def)
  then show thesis by (intro that [OF s(1) pv]) (simp_all only: s(2,3) p(4) link_proof_view.select_convs)
qed

text \<open>A key serves a session when what is encrypted under it activates the session in handshake, reaches it
  unchanged as data afterwards, and opens what the session seals.\<close>

definition key_serves :: "crypto \<Rightarrow> responder_session \<Rightarrow> bytes \<Rightarrow> bool" where
  "key_serves C s k \<longleftrightarrow>
     (\<forall>p iv out m o' buf t. length iv = 16 \<and> length p \<le> length buf \<longrightarrow>
       (link_encrypt C k p iv out = (Inr m, o') \<longrightarrow>
         (ls_state s = SsHandshake \<longrightarrow> fst (session_receive C s CtxLrrtt (take m o') t buf) = Inr RcActivated) \<and>
         (ls_state s \<in> {SsActive, SsStale} \<longrightarrow>
           (\<exists>s'. session_receive C s CtxNone (take m o') t buf = (Inr (RcData (length p)), s', overwrite buf 0 p) \<and>
              ls_state s' = SsActive))) \<and>
       (\<forall>s'. session_seal C s p iv out t = (Inr m, s', o') \<longrightarrow>
          link_decrypt C k (take m o') buf = (Inr (length p), overwrite buf 0 p)))"

lemma own_key_serves:
  assumes laws: "hmac_law C" "aes_law C" shows "key_serves C s (ls_keys s)"
  unfolding key_serves_def
proof (intro allI impI)
  fix p iv out o' buf :: bytes and m and t :: u64
  assume l: "length iv = 16 \<and> length p \<le> length buf"
  have enc: "link_decrypt C (ls_keys s) (take m o') buf = (Inr (length p), overwrite buf 0 p)"
    if "link_encrypt C (ls_keys s) p iv out = (Inr m, o')"
    using link_decrypt_encrypt [OF laws _ that] l by blast
  have seal: "link_encrypt C (ls_keys s) p iv out = (Inr m, o')" if "session_seal C s p iv out t = (Inr m, s', o')" for s'
    using that by (auto simp: session_seal_def split: if_splits prod.splits sum.splits)
  show "(link_encrypt C (ls_keys s) p iv out = (Inr m, o') \<longrightarrow>
         (ls_state s = SsHandshake \<longrightarrow> fst (session_receive C s CtxLrrtt (take m o') t buf) = Inr RcActivated) \<and>
         (ls_state s \<in> {SsActive, SsStale} \<longrightarrow>
           (\<exists>s'. session_receive C s CtxNone (take m o') t buf = (Inr (RcData (length p)), s', overwrite buf 0 p) \<and>
              ls_state s' = SsActive))) \<and>
       (\<forall>s'. session_seal C s p iv out t = (Inr m, s', o') \<longrightarrow>
          link_decrypt C (ls_keys s) (take m o') buf = (Inr (length p), overwrite buf 0 p))"
    using enc seal by (auto simp: session_receive_def)
qed


text \<open>A concrete exchange.\<close>

definition sample_request :: "(link_error + nat) \<times> bytes" where
  "sample_request = build_link_request toy_crypto (replicate 32 1) (replicate 32 2) default_signalling (replicate 70 0)"

definition sample_accept :: "(session_error + responder_session \<times> nat) \<times> bytes" where
  "sample_accept = session_accept toy_crypto (from_private_key toy_crypto (replicate 64 3)) (replicate 16 5)
     (take 67 (snd sample_request)) 2 (replicate 32 4) 1000 (replicate 100 0)"

lemma sample_request_ok:
  "sample_request = (Inr 67, snd sample_request)"
  "take 67 (snd sample_request) = cr_x_public toy_crypto (replicate 32 1) @ cr_ed_public toy_crypto (replicate 32 2) @
     signalling_pack default_signalling"
  by (rule build_link_request_ok [OF default_signalling_ok(1), of "replicate 70 0" toy_crypto "replicate 32 1" "replicate 32 2"];
      simp add: sample_request_def)+


theorem session_lifecycle_witness:
  "\<exists>s0 proof'. sample_accept = (Inr (s0, 99), proof') \<and>
    session_inv toy_crypto (session_run toy_crypto s0 [EvTick 2000, EvReceive CtxKeepalive [0xFF] 3000 []])"
proof -
  obtain s0 proof' pv where a: "sample_accept = (Inr (s0, 99), proof')"
    by (rule session_accept_ok [of toy_crypto "from_private_key toy_crypto (replicate 64 3)" "replicate 64 3"
        "take 67 (snd sample_request)" "replicate 32 1" "replicate 32 2" "replicate 100 0" "replicate 16 5" 2 "replicate 32 4" 1000])
      (use sample_request_ok in \<open>simp_all add: sample_accept_def\<close>)
  then show ?thesis using session_lifecycle [OF a [unfolded sample_accept_def] refl] by blast
qed

end
