(* ===== verification/Ratchet.thy ===== *)
theory Ratchet
  imports Token Ring_Queue
begin

text \<open>
  Storage and rotation of ratchet keys (\<^verbatim>\<open>src/ratchet.rs\<close>): the ring of own private keys with its
  two-phase rotation, and the table of peer ratchets, both with their persisted blobs. The fixed arrays
  of the source are lists of the array's length beside an explicit count; the loops that shift or scan
  them are kept.
\<close>

section \<open>Clocks and ages\<close>

definition RATCHET_RING_MAX :: nat where "RATCHET_RING_MAX = 64"
definition RATCHET_INTERVAL_SECS :: u64 where "RATCHET_INTERVAL_SECS = 60 * 60 * 12"
definition RATCHET_EXPIRY_SECS :: u64 where "RATCHET_EXPIRY_SECS = 60 * 60 * 24 * 30"
definition PEER_RATCHETS_MAX :: nat where "PEER_RATCHETS_MAX = 32"
definition RING_BLOB_VERSION :: u8 where "RING_BLOB_VERSION = 2"
definition LEGACY_RING_BLOB_VERSION :: u8 where "LEGACY_RING_BLOB_VERSION = 1"
definition PEER_BLOB_VERSION :: u8 where "PEER_BLOB_VERSION = 2"
definition LEGACY_PEER_BLOB_VERSION :: u8 where "LEGACY_PEER_BLOB_VERSION = 1"
definition AGE_UNKNOWN :: u8 where "AGE_UNKNOWN = 0"
definition AGE_WALL :: u8 where "AGE_WALL = 1"
definition AGE_UPTIME :: u8 where "AGE_UPTIME = 2"

lemmas blob_consts = RATCHET_RING_MAX_def PEER_RATCHETS_MAX_def RING_BLOB_VERSION_def LEGACY_RING_BLOB_VERSION_def
  PEER_BLOB_VERSION_def LEGACY_PEER_BLOB_VERSION_def AGE_UNKNOWN_def AGE_WALL_def AGE_UPTIME_def

datatype ratchet_error = InvalidBlob | RatchetOutputTooSmall | InvalidCandidate

record ratchet_clock =
  rc_wall_secs :: "u64 option"
  rc_uptime_secs :: u64

definition clock_from_host :: "u64 \<Rightarrow> u64 \<Rightarrow> ratchet_clock" where
  "clock_from_host wall_secs uptime_secs =
     \<lparr>rc_wall_secs = (if wall_secs = 0 then None else Some wall_secs), rc_uptime_secs = uptime_secs\<rparr>"

definition clock_anchor :: "ratchet_clock \<Rightarrow> u8 \<times> u64" where
  "clock_anchor clock =
     (case rc_wall_secs clock of
        Some wall \<Rightarrow> (AGE_WALL, wall)
      | None \<Rightarrow> (AGE_UPTIME, rc_uptime_secs clock))"

definition age_kind_valid :: "u8 \<Rightarrow> bool" where
  "age_kind_valid kind \<longleftrightarrow> kind = AGE_UNKNOWN \<or> kind = AGE_WALL \<or> kind = AGE_UPTIME"

definition age_comparable :: "u8 \<Rightarrow> u64 \<Rightarrow> ratchet_clock \<Rightarrow> bool" where
  "age_comparable kind since clock =
     (if kind = AGE_WALL then is_some_and (rc_wall_secs clock) (\<lambda>now. now \<ge> since)
      else if kind = AGE_UPTIME then rc_uptime_secs clock \<ge> since
      else False)"

definition age_elapsed_at_least :: "u8 \<Rightarrow> u64 \<Rightarrow> ratchet_clock \<Rightarrow> u64 \<Rightarrow> bool" where
  "age_elapsed_at_least kind since clock interval =
     (if kind = AGE_WALL
      then is_some_and (rc_wall_secs clock) (\<lambda>now. now \<ge> since \<and> sat_sub now since \<ge> interval)
      else if kind = AGE_UPTIME
      then rc_uptime_secs clock \<ge> since \<and> sat_sub (rc_uptime_secs clock) since \<ge> interval
      else False)"

definition age_expired :: "u8 \<Rightarrow> u64 \<Rightarrow> ratchet_clock \<Rightarrow> bool" where
  "age_expired kind since clock =
     (if kind = AGE_WALL
      then is_some_and (rc_wall_secs clock) (\<lambda>now. now \<ge> since \<and> sat_sub now since > RATCHET_EXPIRY_SECS)
      else if kind = AGE_UPTIME
      then rc_uptime_secs clock \<ge> since \<and> sat_sub (rc_uptime_secs clock) since > RATCHET_EXPIRY_SECS
      else False)"

definition effective_age :: "u8 \<Rightarrow> u64 \<Rightarrow> ratchet_clock \<Rightarrow> u8 \<times> u64" where
  "effective_age kind since clock = (if age_comparable kind since clock then (kind, since) else clock_anchor clock)"

section \<open>The ring of own keys\<close>

datatype rotation_action = RaUnchanged | RaPersistMetadata | RaRotate | RaFullRingProtected

datatype ratchet_preparation = RpUnchanged | RpPersistMetadata nat | RpRotated nat bytes | RpFullRingProtected

record ratchet_ring =
  rr_keys :: "bytes list"
  rr_age_kinds :: "u8 list"
  rr_age_secs :: "u64 list"
  rr_len :: nat

definition ring_new :: ratchet_ring where
  "ring_new = \<lparr>rr_keys = replicate RATCHET_RING_MAX (replicate 32 0),
     rr_age_kinds = replicate RATCHET_RING_MAX AGE_UNKNOWN, rr_age_secs = replicate RATCHET_RING_MAX 0, rr_len = 0\<rparr>"

definition ratchet_public_bytes :: "crypto \<Rightarrow> bytes \<Rightarrow> bytes" where
  "ratchet_public_bytes C ratchet_private = cr_x_public C ratchet_private"

definition ring_private_keys :: "ratchet_ring \<Rightarrow> bytes list" where
  "ring_private_keys r = take (rr_len r) (rr_keys r)"

definition ring_private_key :: "ratchet_ring \<Rightarrow> nat \<Rightarrow> bytes option" where
  "ring_private_key r index = (if index < rr_len r then Some (rr_keys r ! index) else None)"

definition current_public_key :: "crypto \<Rightarrow> ratchet_ring \<Rightarrow> bytes option" where
  "current_public_key C r = map_option (ratchet_public_bytes C) (ring_private_key r 0)"

definition rotation_action :: "ratchet_ring \<Rightarrow> ratchet_clock \<Rightarrow> rotation_action" where
  "rotation_action r clock =
     (if rr_len r = 0 then RaRotate
      else
        let needs_anchor =
              list_ex (\<lambda>i. \<not> age_comparable (rr_age_kinds r ! i) (rr_age_secs r ! i) clock) [0..<rr_len r];
            rotation_due =
              age_elapsed_at_least (rr_age_kinds r ! 0) (rr_age_secs r ! 0) clock RATCHET_INTERVAL_SECS in
        if \<not> rotation_due then (if needs_anchor then RaPersistMetadata else RaUnchanged)
        else if rr_len r < RATCHET_RING_MAX \<or>
                age_expired (rr_age_kinds r ! (rr_len r - 1)) (rr_age_secs r ! (rr_len r - 1)) clock
        then RaRotate
        else if needs_anchor then RaPersistMetadata
        else RaFullRingProtected)"

definition ring_blob_len :: "nat \<Rightarrow> nat" where
  "ring_blob_len len = 2 + len * 41"

definition ring_blob_key :: "bytes \<Rightarrow> nat \<Rightarrow> bytes" where
  "ring_blob_key blob index = (let pos = 2 + index * 41 in slice (pos + 9) (pos + 41) blob)"

text \<open>One record of a ring blob; the loops that write a blob put these one after another.\<close>

definition ring_record :: "u8 \<Rightarrow> u64 \<Rightarrow> bytes \<Rightarrow> bytes" where
  "ring_record kind secs key = [kind] @ to_be_bytes 8 secs @ key"

definition ring_serialize_into :: "ratchet_ring \<Rightarrow> bytes \<Rightarrow> (ratchet_error + nat) \<times> bytes" where
  "ring_serialize_into r out =
     (let need = ring_blob_len (rr_len r) in
      if length out < need then (Inl RatchetOutputTooSmall, out)
      else (Inr need, overwrite out 0 ([RING_BLOB_VERSION, of_nat (rr_len r)] @
             concat (map (\<lambda>i. ring_record (rr_age_kinds r ! i) (rr_age_secs r ! i) (rr_keys r ! i)) [0..<rr_len r]))))"

text \<open>The candidate record at \<open>candidate_index\<close>: the fresh key first when rotating, then the live keys
  with their ages re-anchored where the clock cannot compare them.\<close>

definition candidate_record :: "ratchet_ring \<Rightarrow> bytes \<Rightarrow> ratchet_clock \<Rightarrow> bool \<Rightarrow> nat \<Rightarrow> bytes" where
  "candidate_record r fresh_private clock rotating candidate_index =
     (let source_index =
            (if rotating then (if candidate_index < 1 then None else Some (candidate_index - 1))
             else Some candidate_index) in
      case source_index of
        Some source \<Rightarrow>
          (case effective_age (rr_age_kinds r ! source) (rr_age_secs r ! source) clock of
             (kind, seconds) \<Rightarrow> ring_record kind seconds (rr_keys r ! source))
      | None \<Rightarrow> (case clock_anchor clock of (kind, seconds) \<Rightarrow> ring_record kind seconds fresh_private))"

definition prepare_rotation_into ::
  "crypto \<Rightarrow> ratchet_ring \<Rightarrow> bytes \<Rightarrow> ratchet_clock \<Rightarrow> bytes \<Rightarrow> (ratchet_error + ratchet_preparation) \<times> bytes" where
  "prepare_rotation_into C r fresh_private clock out =
     (let action = rotation_action r clock in
      if action = RaUnchanged then (Inr RpUnchanged, out)
      else if action = RaFullRingProtected then (Inr RpFullRingProtected, out)
      else
        let rotating = (action = RaRotate);
            candidate_len = (if rotating then min (rr_len r + 1) RATCHET_RING_MAX else rr_len r);
            need = ring_blob_len candidate_len in
        if length out < need then (Inl RatchetOutputTooSmall, out)
        else
          let out = overwrite out 0 ([RING_BLOB_VERSION, of_nat candidate_len] @
                concat (map (candidate_record r fresh_private clock rotating) [0..<candidate_len])) in
          (Inr (if rotating then RpRotated need (ratchet_public_bytes C fresh_private)
                else RpPersistMetadata need), out))"

definition validate_ring_blob :: "bytes \<Rightarrow> bool \<Rightarrow> ratchet_error + unit" where
  "validate_ring_blob blob allow_legacy =
     (if length blob < 2 then Inl InvalidBlob
      else let len = unat (blob ! 1) in
        if len > RATCHET_RING_MAX then Inl InvalidBlob
        else if blob ! 0 = RING_BLOB_VERSION then
          (if length blob \<noteq> ring_blob_len len then Inl InvalidBlob
           else if list_ex (\<lambda>index. let pos = 2 + index * 41 in
                  \<not> age_kind_valid (blob ! pos) \<or>
                  (blob ! pos = AGE_UNKNOWN \<and> list_ex (\<lambda>byte. byte \<noteq> 0) (slice (pos + 1) (pos + 9) blob))) [0..<len]
           then Inl InvalidBlob else Inr ())
        else if blob ! 0 = LEGACY_RING_BLOB_VERSION \<and> allow_legacy \<and> length blob = 10 + len * 32 then Inr ()
        else Inl InvalidBlob)"

definition is_valid_candidate :: "ratchet_ring \<Rightarrow> bytes \<Rightarrow> bool" where
  "is_valid_candidate r blob =
     (let candidate_len = unat (blob ! 1) in
      if rr_len r = 0 then candidate_len = 1
      else if candidate_len = rr_len r \<and> list_all (\<lambda>i. ring_blob_key blob i = rr_keys r ! i) [0..<rr_len r] then True
      else let expected_len = min (rr_len r + 1) RATCHET_RING_MAX in
        candidate_len = expected_len \<and> list_all (\<lambda>i. ring_blob_key blob i = rr_keys r ! (i - 1)) [1..<candidate_len])"

text \<open>What a record of a v2 blob holds once it is applied: persisted uptime ages are forgotten.\<close>

definition stored_kind :: "bytes \<Rightarrow> bool \<Rightarrow> nat \<Rightarrow> u8" where
  "stored_kind blob persisted index =
     (let kind = blob ! (2 + index * 41) in if persisted \<and> kind = AGE_UPTIME then AGE_UNKNOWN else kind)"

definition stored_secs :: "bytes \<Rightarrow> bool \<Rightarrow> nat \<Rightarrow> u64" where
  "stored_secs blob persisted index =
     (let pos = 2 + index * 41 in
      if stored_kind blob persisted index = AGE_UNKNOWN then 0 else from_be_bytes (slice (pos + 1) (pos + 9) blob))"

text \<open>The array with its first \<open>len\<close> elements given by \<open>f\<close>, the rest as zeroized.\<close>

definition fill :: "nat \<Rightarrow> (nat \<Rightarrow> 'a) \<Rightarrow> 'a \<Rightarrow> 'a list" where
  "fill len f z = map f [0..<len] @ replicate (RATCHET_RING_MAX - len) z"

definition apply_blob :: "bytes \<Rightarrow> bool \<Rightarrow> ratchet_ring" where
  "apply_blob blob persisted =
     (let version = blob ! 0; len = unat (blob ! 1) in
      if version = LEGACY_RING_BLOB_VERSION then
        let last_rotation = from_be_bytes (slice 2 10 blob); anchored = (len > 0 \<and> last_rotation \<noteq> 0) in
        \<lparr>rr_keys = fill len (\<lambda>i. slice (10 + i * 32) (10 + i * 32 + 32) blob) (replicate 32 0),
         rr_age_kinds = fill len (\<lambda>i. if i = 0 \<and> anchored then AGE_WALL else AGE_UNKNOWN) AGE_UNKNOWN,
         rr_age_secs = fill len (\<lambda>i. if i = 0 \<and> anchored then last_rotation else 0) 0, rr_len = len\<rparr>
      else
        \<lparr>rr_keys = fill len (ring_blob_key blob) (replicate 32 0),
         rr_age_kinds = fill len (stored_kind blob persisted) AGE_UNKNOWN,
         rr_age_secs = fill len (stored_secs blob persisted) 0, rr_len = len\<rparr>)"

definition commit_prepared_blob :: "ratchet_ring \<Rightarrow> bytes \<Rightarrow> (ratchet_error + unit) \<times> ratchet_ring" where
  "commit_prepared_blob r blob =
     (case validate_ring_blob blob False of
        Inl e \<Rightarrow> (Inl e, r)
      | Inr _ \<Rightarrow>
          if blob ! 0 \<noteq> RING_BLOB_VERSION \<or> \<not> is_valid_candidate r blob then (Inl InvalidCandidate, r)
          else (Inr (), apply_blob blob False))"

definition ring_load_persisted :: "ratchet_ring \<Rightarrow> bytes \<Rightarrow> (ratchet_error + unit) \<times> ratchet_ring" where
  "ring_load_persisted r blob =
     (case validate_ring_blob blob True of
        Inl e \<Rightarrow> (Inl e, r)
      | Inr _ \<Rightarrow> (Inr (), apply_blob blob True))"

definition ring_deserialize :: "bytes \<Rightarrow> ratchet_error + ratchet_ring" where
  "ring_deserialize blob =
     (case ring_load_persisted ring_new blob of (Inl e, _) \<Rightarrow> Inl e | (Inr _, r) \<Rightarrow> Inr r)"

section \<open>Peer ratchets\<close>

record peer_ratchet =
  pr_dest_hash :: hash16
  pr_ratchet :: bytes
  pr_age_kind :: u8
  pr_age_secs :: u64

definition PEER_EMPTY :: peer_ratchet where
  "PEER_EMPTY = \<lparr>pr_dest_hash = replicate 16 0, pr_ratchet = replicate 32 0, pr_age_kind = AGE_UNKNOWN, pr_age_secs = 0\<rparr>"

definition peer_is_expired :: "peer_ratchet \<Rightarrow> ratchet_clock \<Rightarrow> bool" where
  "peer_is_expired p clock = age_expired (pr_age_kind p) (pr_age_secs p) clock"

record peer_ratchets =
  pt_entries :: "peer_ratchet list"
  pt_len :: nat

definition peers_new :: peer_ratchets where
  "peers_new = \<lparr>pt_entries = replicate PEER_RATCHETS_MAX PEER_EMPTY, pt_len = 0\<rparr>"

definition peers_remove :: "peer_ratchets \<Rightarrow> nat \<Rightarrow> peer_ratchets" where
  "peers_remove t index =
     (let es = fold (\<lambda>cursor es. es[cursor := es ! (cursor + 1)]) [index..<pt_len t - 1] (pt_entries t);
          len = pt_len t - 1
      in \<lparr>pt_entries = es[len := PEER_EMPTY], pt_len = len\<rparr>)"

function purge_loop :: "ratchet_clock \<Rightarrow> nat \<Rightarrow> peer_ratchets \<Rightarrow> peer_ratchets" where
  "purge_loop clock index t =
     (if index < pt_len t then
        if peer_is_expired (pt_entries t ! index) clock then purge_loop clock index (peers_remove t index)
        else purge_loop clock (index + 1) t
      else t)"
  by pat_completeness auto
termination
  by (relation "measure (\<lambda>(clock, index, t). pt_len t - index)") (auto simp: peers_remove_def Let_def)

declare purge_loop.simps [simp del]

definition purge_expired :: "peer_ratchets \<Rightarrow> ratchet_clock \<Rightarrow> peer_ratchets" where
  "purge_expired t clock = purge_loop clock 0 t"

text \<open>Insertion at the front: the entries shift up by one, last first.\<close>

definition peers_push_front :: "peer_ratchets \<Rightarrow> peer_ratchet \<Rightarrow> peer_ratchets" where
  "peers_push_front t p =
     (let es = fold (\<lambda>index es. es[index := es ! (index - 1)]) (rev [1..<pt_len t + 1]) (pt_entries t)
      in \<lparr>pt_entries = es[0 := p], pt_len = pt_len t + 1\<rparr>)"

definition peers_remember ::
  "peer_ratchets \<Rightarrow> hash16 \<Rightarrow> bytes \<Rightarrow> ratchet_clock \<Rightarrow> bool \<times> peer_ratchets" where
  "peers_remember t dest_hash ratchet clock =
     (let found = List.find (\<lambda>i. pr_dest_hash (pt_entries t ! i) = dest_hash) [0..<pt_len t];
          insert = (\<lambda>t.
            let t = purge_expired t clock;
                t = (if pt_len t = PEER_RATCHETS_MAX then peers_remove t (pt_len t - 1) else t);
                (age_kind, age_secs) = clock_anchor clock
            in (True, peers_push_front t \<lparr>pr_dest_hash = dest_hash, pr_ratchet = ratchet,
                  pr_age_kind = age_kind, pr_age_secs = age_secs\<rparr>)) in
      case found of
        Some index \<Rightarrow>
          if pr_ratchet (pt_entries t ! index) = ratchet then (False, t) else insert (peers_remove t index)
      | None \<Rightarrow> insert t)"

definition anchor_unknown_ages :: "peer_ratchets \<Rightarrow> ratchet_clock \<Rightarrow> bool \<times> peer_ratchets" where
  "anchor_unknown_ages t clock =
     (let incomparable = (\<lambda>e. \<not> age_comparable (pr_age_kind e) (pr_age_secs e) clock);
          anchor = clock_anchor clock in
      (list_ex incomparable (take (pt_len t) (pt_entries t)),
       t\<lparr>pt_entries :=
           map (\<lambda>e. if incomparable e then e\<lparr>pr_age_kind := fst anchor, pr_age_secs := snd anchor\<rparr> else e)
             (take (pt_len t) (pt_entries t)) @ drop (pt_len t) (pt_entries t)\<rparr>))"

definition peers_get :: "peer_ratchets \<Rightarrow> hash16 \<Rightarrow> ratchet_clock \<Rightarrow> bytes option" where
  "peers_get t dest_hash clock =
     map_option pr_ratchet (List.find (\<lambda>e. pr_dest_hash e = dest_hash \<and> \<not> peer_is_expired e clock)
       (take (pt_len t) (pt_entries t)))"

definition peer_blob_len :: "nat \<Rightarrow> nat" where
  "peer_blob_len len = 2 + len * 57"

definition peer_record :: "peer_ratchet \<Rightarrow> bytes" where
  "peer_record e = pr_dest_hash e @ pr_ratchet e @ [pr_age_kind e] @ to_be_bytes 8 (pr_age_secs e)"

definition peers_serialize_into :: "peer_ratchets \<Rightarrow> bytes \<Rightarrow> (ratchet_error + nat) \<times> bytes" where
  "peers_serialize_into t out =
     (let need = peer_blob_len (pt_len t) in
      if length out < need then (Inl RatchetOutputTooSmall, out)
      else (Inr need, overwrite out 0 ([PEER_BLOB_VERSION, of_nat (pt_len t)] @
             concat (map peer_record (take (pt_len t) (pt_entries t))))))"

definition validate_peer_blob :: "bytes \<Rightarrow> ratchet_error + unit" where
  "validate_peer_blob blob =
     (if length blob < 2 then Inl InvalidBlob
      else let count = unat (blob ! 1) in
        if count > PEER_RATCHETS_MAX then Inl InvalidBlob
        else if blob ! 0 = PEER_BLOB_VERSION then
          (if length blob \<noteq> peer_blob_len count then Inl InvalidBlob
           else if list_ex (\<lambda>index. let pos = 2 + index * 57 in
                  \<not> age_kind_valid (blob ! (pos + 48)) \<or>
                  (blob ! (pos + 48) = AGE_UNKNOWN \<and>
                   list_ex (\<lambda>byte. byte \<noteq> 0) (slice (pos + 49) (pos + 57) blob))) [0..<count]
           then Inl InvalidBlob else Inr ())
        else if blob ! 0 = LEGACY_PEER_BLOB_VERSION \<and> length blob = 2 + count * 56 then Inr ()
        else Inl InvalidBlob)"

definition peer_of_blob :: "bytes \<Rightarrow> nat \<Rightarrow> peer_ratchet" where
  "peer_of_blob blob index =
     (if blob ! 0 = LEGACY_PEER_BLOB_VERSION then
        let pos = 2 + index * 56; seconds = from_be_bytes (slice (pos + 48) (pos + 56) blob) in
        \<lparr>pr_dest_hash = slice pos (pos + 16) blob, pr_ratchet = slice (pos + 16) (pos + 48) blob,
         pr_age_kind = (if seconds = 0 then AGE_UNKNOWN else AGE_WALL), pr_age_secs = seconds\<rparr>
      else
        let pos = 2 + index * 57; kind = blob ! (pos + 48);
            seconds = from_be_bytes (slice (pos + 49) (pos + 57) blob) in
        \<lparr>pr_dest_hash = slice pos (pos + 16) blob, pr_ratchet = slice (pos + 16) (pos + 48) blob,
         pr_age_kind = (if kind = AGE_UPTIME then AGE_UNKNOWN else kind),
         pr_age_secs = (if kind = AGE_UPTIME then 0 else seconds)\<rparr>)"

definition peers_load_persisted :: "peer_ratchets \<Rightarrow> bytes \<Rightarrow> (ratchet_error + unit) \<times> peer_ratchets" where
  "peers_load_persisted t blob =
     (case validate_peer_blob blob of
        Inl e \<Rightarrow> (Inl e, t)
      | Inr _ \<Rightarrow>
          let len = unat (blob ! 1) in
          (Inr (), \<lparr>pt_entries = map (peer_of_blob blob) [0..<len] @ replicate (PEER_RATCHETS_MAX - len) PEER_EMPTY,
                    pt_len = len\<rparr>))"

definition peers_deserialize :: "bytes \<Rightarrow> ratchet_error + peer_ratchets" where
  "peers_deserialize blob =
     (case peers_load_persisted peers_new blob of (Inl e, _) \<Rightarrow> Inl e | (Inr _, t) \<Rightarrow> Inr t)"

end
