(* ===== verification/Ratchet_Props.thy ===== *)
theory Ratchet_Props
  imports Ratchet
begin

text \<open>
  The ring of own ratchet keys and the table of peer ratchets are correct: blobs are sequences of records
  of one width, a prepared rotation commits and survives a restart, and the peer table, whose loops shift
  its entries in place, is a list kept newest first.
\<close>

section \<open>Blobs\<close>

definition ring_blob :: "nat \<Rightarrow> (nat \<Rightarrow> u8 \<times> u64) \<Rightarrow> (nat \<Rightarrow> bytes) \<Rightarrow> bytes" where
  "ring_blob n age key =
     [RING_BLOB_VERSION, of_nat n] @ concat (map (\<lambda>i. ring_record (fst (age i)) (snd (age i)) (key i)) [0..<n])"

definition age_ok :: "u8 \<times> u64 \<Rightarrow> bool" where
  "age_ok a \<longleftrightarrow> age_kind_valid (fst a) \<and> (fst a = AGE_UNKNOWN \<longrightarrow> snd a = 0)"

lemma to_be_bytes_zero: "to_be_bytes n (0 :: 'a::len word) = replicate n 0"
proof -
  have "to_le_bytes n (0 :: 'a word) = replicate n 0" by (induction n) simp_all
  then show ?thesis by (simp add: to_be_bytes_def)
qed

lemma ring_blob_fields:
  assumes n: "n \<le> 64" and k: "\<forall>i<n. length (key i) = 32"
  shows "length (ring_blob n age key) = ring_blob_len n" "ring_blob n age key ! 0 = RING_BLOB_VERSION"
    "unat (ring_blob n age key ! 1) = n"
    "i < n \<Longrightarrow> ring_blob_key (ring_blob n age key) i = key i"
    "i < n \<Longrightarrow> ring_blob n age key ! (2 + i * 41) = fst (age i)"
    "i < n \<Longrightarrow> slice (2 + i * 41 + 1) (2 + i * 41 + 9) (ring_blob n age key) = to_be_bytes 8 (snd (age i))"
proof -
  let ?f = "\<lambda>i. ring_record (fst (age i)) (snd (age i)) (key i)"
  have f: "\<forall>i \<in> set [0..<n]. length (?f i) = 41" using k by (simp add: ring_record_def)
  show "length (ring_blob n age key) = ring_blob_len n"
    using length_concat_const [OF f] by (simp add: ring_blob_def ring_blob_len_def)
  show "ring_blob n age key ! 0 = RING_BLOB_VERSION" by (simp add: ring_blob_def)
  show "unat (ring_blob n age key ! 1) = n" using n by (simp add: ring_blob_def unat_of_nat)
  assume i: "i < n"
  have "slice 9 41 (?f i) = key i" "slice 1 9 (?f i) = to_be_bytes 8 (snd (age i))" "?f i ! 0 = fst (age i)"
    using k i by (simp_all add: ring_record_def slice_def)
  then show "ring_blob_key (ring_blob n age key) i = key i"
    "slice (2 + i * 41 + 1) (2 + i * 41 + 9) (ring_blob n age key) = to_be_bytes 8 (snd (age i))"
    "ring_blob n age key ! (2 + i * 41) = fst (age i)"
    using slice_record [where h = "[RING_BLOB_VERSION, of_nat n]" and k = 2, OF _ f, of i 41 9]
      slice_record [where h = "[RING_BLOB_VERSION, of_nat n]" and k = 2, OF _ f, of i 9 1]
      nth_record [where h = "[RING_BLOB_VERSION, of_nat n]" and k = 2, OF _ f, of i 0] i
    by (simp_all add: ring_blob_def ring_blob_key_def Let_def)
qed

lemma ring_blob_valid:
  assumes n: "n \<le> 64" and k: "\<forall>i<n. length (key i) = 32" and a: "\<forall>i<n. age_ok (age i)"
  shows "validate_ring_blob (ring_blob n age key) legacy = Inr ()"
proof -
  let ?b = "ring_blob n age key"
  note B = ring_blob_fields [OF n k, where age = age]
  have "age_kind_valid (?b ! (2 + i * 41)) \<and>
      (?b ! (2 + i * 41) = AGE_UNKNOWN \<longrightarrow> slice (2 + i * 41 + 1) (2 + i * 41 + 9) ?b = replicate 8 0)" if "i < n" for i
    unfolding B(5,6) [OF that] using a that by (auto simp: age_ok_def to_be_bytes_zero)
  then have "\<not> list_ex (\<lambda>i. let pos = 2 + i * 41 in \<not> age_kind_valid (?b ! pos) \<or>
      (?b ! pos = AGE_UNKNOWN \<and> list_ex (\<lambda>byte. byte \<noteq> 0) (slice (pos + 1) (pos + 9) ?b))) [0..<n]"
    by (simp add: list_ex_iff Let_def)
  then show ?thesis
    using B(1-3) n unfolding validate_ring_blob_def Let_def B(2,3)
    by (simp add: ring_blob_len_def RATCHET_RING_MAX_def)
qed

definition ring_ages :: "ratchet_ring \<Rightarrow> nat \<Rightarrow> u8 \<times> u64" where
  "ring_ages r i = (rr_age_kinds r ! i, rr_age_secs r ! i)"

definition ring_inv :: "ratchet_ring \<Rightarrow> bool" where
  "ring_inv r \<longleftrightarrow> rr_len r \<le> 64 \<and> length (rr_keys r) = 64 \<and> length (rr_age_kinds r) = 64 \<and>
     length (rr_age_secs r) = 64 \<and> (\<forall>k \<in> set (rr_keys r). length k = 32) \<and>
     (\<forall>i < rr_len r. age_ok (ring_ages r i))"

definition forget :: "bool \<Rightarrow> u8 \<times> u64 \<Rightarrow> u8 \<times> u64" where
  "forget persisted a = (if persisted \<and> fst a = AGE_UPTIME then (AGE_UNKNOWN, 0) else a)"

lemma apply_ring_blob:
  assumes n: "n \<le> 64" and k: "\<forall>i<n. length (key i) = 32" and a: "\<forall>i<n. age_ok (age i)"
  shows "ring_inv (apply_blob (ring_blob n age key) persisted)"
    "rr_len (apply_blob (ring_blob n age key) persisted) = n"
    "ring_private_keys (apply_blob (ring_blob n age key) persisted) = map key [0..<n]"
    "i < n \<Longrightarrow> ring_ages (apply_blob (ring_blob n age key) persisted) i = forget persisted (age i)"
proof -
  let ?b = "ring_blob n age key" and ?r = "apply_blob (ring_blob n age key) persisted"
  note B = ring_blob_fields [OF n k, where age = age]
  have v: "?b ! 0 \<noteq> LEGACY_RING_BLOB_VERSION" using B(2) by (simp add: blob_consts)
  have keys: "rr_keys ?r = map key [0..<n] @ replicate (64 - n) (replicate 32 0)"
    using v B(3,4) by (simp add: apply_blob_def Let_def fill_def RATCHET_RING_MAX_def)
  have ages: "ring_ages ?r i = forget persisted (age i)" if "i < n" for i
  proof -
    have s: "(from_be_bytes (to_be_bytes 8 (snd (age i))) :: u64) = snd (age i)" by (simp add: from_to_be_bytes take_bit_word_eq_self)
    have kind: "stored_kind ?b persisted i = fst (forget persisted (age i))"
      unfolding stored_kind_def Let_def B(5) [OF that] by (simp add: forget_def)
    have secs: "stored_secs ?b persisted i = snd (forget persisted (age i))"
      using a that unfolding stored_secs_def kind Let_def B(6) [OF that]
      by (auto simp: s forget_def age_ok_def AGE_UNKNOWN_def AGE_UPTIME_def)
    have "rr_age_kinds ?r ! i = stored_kind ?b persisted i" "rr_age_secs ?r ! i = stored_secs ?b persisted i"
      using v B(3) that by (simp_all add: apply_blob_def Let_def fill_def nth_append)
    then show ?thesis using kind secs by (simp add: ring_ages_def)
  qed
  then show "i < n \<Longrightarrow> ring_ages ?r i = forget persisted (age i)" .
  show len: "rr_len ?r = n" using v B(3) by (simp add: apply_blob_def Let_def)
  then show "ring_private_keys ?r = map key [0..<n]" by (simp add: ring_private_keys_def keys)
  have "age_ok (forget persisted (age i))" if "i < n" for i
    using a that by (auto simp: forget_def age_ok_def age_kind_valid_def)
  moreover have "length (rr_age_kinds ?r) = 64" "length (rr_age_secs ?r) = 64"
    using v B(3) n by (simp_all add: apply_blob_def Let_def fill_def RATCHET_RING_MAX_def)
  ultimately show "ring_inv ?r" using n k keys len ages by (auto simp: ring_inv_def)
qed


section \<open>Rotation\<close>

definition candidate_ages :: "ratchet_ring \<Rightarrow> ratchet_clock \<Rightarrow> bool \<Rightarrow> nat \<Rightarrow> u8 \<times> u64" where
  "candidate_ages r clock rotating i =
     (if rotating \<and> i = 0 then clock_anchor clock
      else let j = (if rotating then i - 1 else i) in effective_age (rr_age_kinds r ! j) (rr_age_secs r ! j) clock)"

definition candidate_key :: "ratchet_ring \<Rightarrow> bytes \<Rightarrow> bool \<Rightarrow> nat \<Rightarrow> bytes" where
  "candidate_key r fresh rotating i = (if rotating then (fresh # rr_keys r) ! i else rr_keys r ! i)"

lemma candidate_record_eq:
  "candidate_record r fresh clock rotating i =
   ring_record (fst (candidate_ages r clock rotating i)) (snd (candidate_ages r clock rotating i)) (candidate_key r fresh rotating i)"
  by (cases i) (simp_all add: candidate_record_def candidate_ages_def candidate_key_def Let_def split: prod.split)

lemma anchor_ok: "age_ok (clock_anchor clock)"
  by (simp add: age_ok_def clock_anchor_def age_kind_valid_def blob_consts split: option.split)

lemma candidate_ok:
  assumes "ring_inv r" "length fresh = 32"
    and "i < (if rotating then min (rr_len r + 1) 64 else rr_len r)"
  shows "length (candidate_key r fresh rotating i) = 32" "age_ok (candidate_ages r clock rotating i)"
proof -
  show "length (candidate_key r fresh rotating i) = 32"
    using assms by (cases i) (auto simp: candidate_key_def ring_inv_def split: if_splits)
  have "age_ok (effective_age (rr_age_kinds r ! j) (rr_age_secs r ! j) clock)" if "j < rr_len r" for j
    using assms(1) that anchor_ok by (auto simp: effective_age_def ring_inv_def ring_ages_def)
  then show "age_ok (candidate_ages r clock rotating i)"
    using assms(3) anchor_ok by (cases i) (auto simp: candidate_ages_def Let_def split: if_splits)
qed

text \<open>A prepared candidate is accepted by the ring it was prepared for, becomes its new keys, and the same
  bytes restore these keys after a restart.\<close>

lemma candidate_commits:
  assumes r: "ring_inv r" and f: "length fresh = 32"
    and n: "n = (if rotating then min (rr_len r + 1) 64 else rr_len r)" and live: "rr_len r = 0 \<Longrightarrow> rotating"
    and b_def: "b = ring_blob n (candidate_ages r clock rotating) (candidate_key r fresh rotating)"
  shows "commit_prepared_blob r b = (Inr (), apply_blob b False)" "ring_inv (apply_blob b False)"
    "ring_private_keys (apply_blob b False) = (if rotating then fresh # take 63 (ring_private_keys r) else ring_private_keys r)"
    "\<exists>r'. ring_deserialize b = Inr r' \<and> ring_inv r' \<and> ring_private_keys r' = ring_private_keys (apply_blob b False)"
proof -
  have l: "rr_len r \<le> 64" "length (rr_keys r) = 64" using r by (simp_all add: ring_inv_def)
  have n64: "n \<le> 64" using n l by simp
  have c: "\<forall>i<n. length (candidate_key r fresh rotating i) = 32" "\<forall>i<n. age_ok (candidate_ages r clock rotating i)"
    using candidate_ok [OF r f] n by auto
  note B = ring_blob_fields [OF n64 c(1), where age = "candidate_ages r clock rotating", folded b_def]
  note V = ring_blob_valid [OF n64 c, folded b_def]
  note A = apply_ring_blob [OF n64 c, folded b_def]
  have "is_valid_candidate r b"
  proof (cases rotating)
    case True
    then show ?thesis
      using B(3,4) n by (auto simp: is_valid_candidate_def Let_def list_all_iff candidate_key_def RATCHET_RING_MAX_def nth_Cons')
  next
    case False
    then show ?thesis using B(3,4) n live by (auto simp: is_valid_candidate_def Let_def list_all_iff candidate_key_def)
  qed
  then show "commit_prepared_blob r b = (Inr (), apply_blob b False)"
    using V B(2) by (simp add: commit_prepared_blob_def)
  show "ring_inv (apply_blob b False)" by (rule A(1))
  show k: "ring_private_keys (apply_blob b False) = (if rotating then fresh # take 63 (ring_private_keys r) else ring_private_keys r)"
    unfolding A(3) unfolding ring_private_keys_def
    by (rule nth_equalityI) (use n l in \<open>auto simp: candidate_key_def nth_Cons' min_def split: if_splits\<close>)
  show "\<exists>r'. ring_deserialize b = Inr r' \<and> ring_inv r' \<and> ring_private_keys r' = ring_private_keys (apply_blob b False)"
    using V A(1,3) by (simp add: ring_deserialize_def ring_load_persisted_def)
qed

lemma prepare_cases:
  assumes "prepare_rotation_into C r fresh clock out = (Inr p, out')"
  obtains (unchanged) "p = RpUnchanged" "rotation_action r clock = RaUnchanged" "out' = out"
  | (protected) "p = RpFullRingProtected" "rotation_action r clock = RaFullRingProtected" "out' = out"
  | (prepared) rotating n b where "rotating = (rotation_action r clock = RaRotate)"
      "rotation_action r clock \<in> {RaRotate, RaPersistMetadata}"
      "n = (if rotating then min (rr_len r + 1) 64 else rr_len r)"
      "b = ring_blob n (candidate_ages r clock rotating) (candidate_key r fresh rotating)"
      "p = (if rotating then RpRotated (ring_blob_len n) (ratchet_public_bytes C fresh) else RpPersistMetadata (ring_blob_len n))"
      "out' = overwrite out 0 b"
proof (cases "rotation_action r clock")
  case RaUnchanged
  then show thesis using assms by (intro unchanged) (simp_all add: prepare_rotation_into_def)
next
  case RaFullRingProtected
  then show thesis using assms by (intro protected) (simp_all add: prepare_rotation_into_def)
next
  case RaPersistMetadata
  then show thesis
    using assms
    by (intro prepared [of False]) (auto simp: prepare_rotation_into_def Let_def ring_blob_def candidate_record_eq [abs_def] split: if_splits)
next
  case RaRotate
  then show thesis
    using assms
    by (intro prepared [of True])
      (auto simp: prepare_rotation_into_def Let_def ring_blob_def candidate_record_eq [abs_def] RATCHET_RING_MAX_def split: if_splits)
qed

lemma rotate_keeps_live_keys:
  assumes "rotation_action r clock = RaRotate" "ring_inv r" "rr_len r = 64"
  shows "age_expired (rr_age_kinds r ! 63) (rr_age_secs r ! 63) clock"
  using assms by (auto simp: rotation_action_def Let_def RATCHET_RING_MAX_def split: if_splits)

text \<open>C13. Rotating the own ratchet key is safe and durable: for every well-formed ring, fresh key and
  clock, a prepared blob is accepted by the ring, and afterwards the ring holds the fresh key followed by
  its previous keys (or just its previous keys, when only ages are re-anchored); a key is given up only
  when the ring is full and the clock shows that the oldest key has expired; the public key reported is
  the one of the new first key; and the stored bytes restore exactly these keys after a restart.\<close>

theorem ratchet_rotation_durable:
  assumes "ring_inv r" "length fresh = 32" "prepare_rotation_into C r fresh clock out = (Inr p, out')"
  shows "case p of
      RpRotated n pk \<Rightarrow> (\<exists>r' r''. commit_prepared_blob r (take n out') = (Inr (), r') \<and> ring_inv r' \<and>
        ring_private_keys r' = fresh # take 63 (ring_private_keys r) \<and> current_public_key C r' = Some pk \<and>
        (length (ring_private_keys r) = 64 \<longrightarrow> age_expired (rr_age_kinds r ! 63) (rr_age_secs r ! 63) clock) \<and>
        ring_deserialize (take n out') = Inr r'' \<and> ring_inv r'' \<and> ring_private_keys r'' = ring_private_keys r')
    | RpPersistMetadata n \<Rightarrow> (\<exists>r' r''. commit_prepared_blob r (take n out') = (Inr (), r') \<and> ring_inv r' \<and>
        ring_private_keys r' = ring_private_keys r \<and>
        ring_deserialize (take n out') = Inr r'' \<and> ring_inv r'' \<and> ring_private_keys r'' = ring_private_keys r)
    | _ \<Rightarrow> out' = out"
  using assms(3)
proof (rule prepare_cases)
  fix rotating n b
  assume p: "rotating = (rotation_action r clock = RaRotate)" "rotation_action r clock \<in> {RaRotate, RaPersistMetadata}"
    "n = (if rotating then min (rr_len r + 1) 64 else rr_len r)"
    "b = ring_blob n (candidate_ages r clock rotating) (candidate_key r fresh rotating)"
    "p = (if rotating then RpRotated (ring_blob_len n) (ratchet_public_bytes C fresh) else RpPersistMetadata (ring_blob_len n))"
    "out' = overwrite out 0 b"
  have live: "rr_len r = 0 \<Longrightarrow> rotating" using p(1) by (simp add: rotation_action_def)
  have n64: "n \<le> 64" "\<forall>i<n. length (candidate_key r fresh rotating i) = 32"
    using p(3) assms(1) candidate_ok(1) [OF assms(1,2)] by (auto simp: ring_inv_def)
  have t: "take (ring_blob_len n) out' = b"
    using ring_blob_fields(1) [OF n64, where age = "candidate_ages r clock rotating", folded p(4)] take_overwrite [of b out]
    by (simp add: p(6))
  note K = candidate_commits [OF assms(1,2) p(3) live p(4)]
  obtain r'' where r'': "ring_deserialize b = Inr r''" "ring_inv r''" "ring_private_keys r'' = ring_private_keys (apply_blob b False)"
    using K(4) by blast
  show ?thesis
  proof (cases rotating)
    case True
    have "current_public_key C (apply_blob b False) = Some (ratchet_public_bytes C fresh)"
      using K(3) True
      by (cases "rr_keys (apply_blob b False)"; cases "rr_len (apply_blob b False)")
        (simp_all add: current_public_key_def ring_private_key_def ring_private_keys_def)
    moreover have "length (ring_private_keys r) = 64 \<longrightarrow> age_expired (rr_age_kinds r ! 63) (rr_age_secs r ! 63) clock"
      using rotate_keeps_live_keys [OF _ assms(1)] p(1) True assms(1) by (auto simp: ring_private_keys_def ring_inv_def)
    ultimately show ?thesis using True p(5) t K r'' by simp
  next
    case False
    then show ?thesis using p(5) t K r'' by simp
  qed
qed simp_all

lemma ring_inv_new: "ring_inv ring_new"
  by (simp add: ring_inv_def ring_new_def RATCHET_RING_MAX_def)

theorem ratchet_rotation_durable_witness:
  "\<exists>out' r'. prepare_rotation_into toy_crypto ring_new (replicate 32 7) \<lparr>rc_wall_secs = Some 5, rc_uptime_secs = 1\<rparr>
      (replicate 43 0) = (Inr (RpRotated 43 (ratchet_public_bytes toy_crypto (replicate 32 7))), out') \<and>
    commit_prepared_blob ring_new (take 43 out') = (Inr (), r') \<and> ring_private_keys r' = [replicate 32 7]"
proof -
  let ?c = "\<lparr>rc_wall_secs = Some 5, rc_uptime_secs = 1\<rparr> :: ratchet_clock"
  have a: "rotation_action ring_new ?c = RaRotate" by (simp add: rotation_action_def ring_new_def)
  have l: "rr_len ring_new = 0" by (simp add: ring_new_def)
  obtain out' where o: "prepare_rotation_into toy_crypto ring_new (replicate 32 7) ?c (replicate 43 0) =
      (Inr (RpRotated 43 (ratchet_public_bytes toy_crypto (replicate 32 7))), out')"
    by (simp add: prepare_rotation_into_def a Let_def l RATCHET_RING_MAX_def ring_blob_len_def)
  show ?thesis
    using ratchet_rotation_durable [OF ring_inv_new _ o] o by (auto simp: ring_private_keys_def ring_new_def)
qed

text \<open>A serialized ring restores its keys and the ages that outlive a restart.\<close>

lemma ring_serialize_roundtrip:
  assumes "ring_inv r" "ring_blob_len (rr_len r) \<le> length out"
  shows "\<exists>out' r'. ring_serialize_into r out = (Inr (ring_blob_len (rr_len r)), out') \<and>
    ring_deserialize (take (ring_blob_len (rr_len r)) out') = Inr r' \<and> ring_inv r' \<and>
    ring_private_keys r' = ring_private_keys r \<and> (\<forall>i < rr_len r. ring_ages r' i = forget True (ring_ages r i))"
proof -
  let ?n = "rr_len r" and ?b = "ring_blob (rr_len r) (ring_ages r) ((!) (rr_keys r))"
  have n: "?n \<le> 64" "\<forall>i<?n. length (rr_keys r ! i) = 32" "\<forall>i<?n. age_ok (ring_ages r i)"
    using assms(1) by (auto simp: ring_inv_def)
  have s: "ring_serialize_into r out = (Inr (ring_blob_len ?n), overwrite out 0 ?b)"
    using assms(2) by (simp add: ring_serialize_into_def Let_def ring_blob_def ring_ages_def)
  have t: "take (ring_blob_len ?n) (overwrite out 0 ?b) = ?b"
    using ring_blob_fields(1) [OF n(1,2), where age = "ring_ages r"] take_overwrite [of ?b out] by simp
  have "ring_private_keys (apply_blob ?b True) = ring_private_keys r"
    unfolding apply_ring_blob(3) [OF n] unfolding ring_private_keys_def
    by (rule nth_equalityI) (use assms(1) in \<open>simp_all add: ring_inv_def\<close>)
  then show ?thesis
    using s t ring_blob_valid [OF n] apply_ring_blob(1,4) [OF n]
    by (simp add: ring_deserialize_def ring_load_persisted_def)
qed

section \<open>The peer table is a list, newest first\<close>

definition peers_view :: "peer_ratchets \<Rightarrow> peer_ratchet list" where
  "peers_view t = take (pt_len t) (pt_entries t)"

definition peers_inv :: "peer_ratchets \<Rightarrow> bool" where
  "peers_inv t \<longleftrightarrow> pt_len t \<le> 32 \<and> length (pt_entries t) = 32"

lemma length_peers_view: "peers_inv t \<Longrightarrow> length (peers_view t) = pt_len t"
  by (simp add: peers_view_def peers_inv_def)

lemma fold_shift_down:
  "length (fold (\<lambda>c es. es[c := es ! (c + 1)]) [i..<j] es) = length es \<and>
   (k < length es \<longrightarrow> j < length es \<longrightarrow> fold (\<lambda>c es. es[c := es ! (c + 1)]) [i..<j] es ! k =
      (if i \<le> k \<and> k < j then es ! (k + 1) else es ! k))"
proof (induction j arbitrary: k)
  case (Suc j)
  then show ?case by (cases "i \<le> j") (auto simp: nth_list_update less_Suc_eq)
qed simp

lemma nth_list_remove: "k < length xs - 1 \<Longrightarrow> list_remove i xs ! k = (if k < i then xs ! k else xs ! (k + 1))"
  by (auto simp: list_remove_def nth_append min_def)

lemma length_list_remove: "i < length xs \<Longrightarrow> length (list_remove i xs) = length xs - 1"
  by (simp add: list_remove_def)

lemma peers_remove_view:
  assumes "peers_inv t" "i < pt_len t"
  shows "peers_inv (peers_remove t i)" "peers_view (peers_remove t i) = list_remove i (peers_view t)"
    "pt_len (peers_remove t i) = pt_len t - 1"
proof -
  let ?n = "pt_len t" and ?es = "pt_entries t"
  let ?f = "fold (\<lambda>c es. es[c := es ! (c + 1)]) [i..<?n - 1] ?es"
  have b: "?n \<le> 32" "length ?es = 32" using assms(1) by (simp_all add: peers_inv_def)
  have f: "length ?f = 32" "k < ?n - 1 \<Longrightarrow> ?f ! k = (if i \<le> k then ?es ! (k + 1) else ?es ! k)" for k
    using fold_shift_down [of i "?n - 1" ?es k] b assms(2) by auto
  show "peers_inv (peers_remove t i)" "pt_len (peers_remove t i) = ?n - 1"
    using f(1) b by (simp_all add: peers_remove_def peers_inv_def Let_def)
  show "peers_view (peers_remove t i) = list_remove i (peers_view t)"
  proof (rule nth_equalityI)
    show "length (peers_view (peers_remove t i)) = length (list_remove i (peers_view t))"
      using f(1) b assms(2) by (simp add: peers_remove_def peers_view_def Let_def length_list_remove)
    fix k assume "k < length (peers_view (peers_remove t i))"
    then have k: "k < ?n - 1" using f(1) b by (simp add: peers_remove_def peers_view_def Let_def)
    show "peers_view (peers_remove t i) ! k = list_remove i (peers_view t) ! k"
      using k f(2) [OF k] b
      by (simp add: peers_remove_def peers_view_def Let_def nth_list_remove nth_list_update)
  qed
qed

text \<open>The loop that purges is a filter.\<close>

lemma list_remove_filter: "i < length xs \<Longrightarrow> take i xs @ filter P (drop i (list_remove i xs)) =
    take i xs @ filter P (drop (Suc i) xs)"
  by (simp add: list_remove_def)

lemma purge_loop_view:
  "peers_inv t \<Longrightarrow> index \<le> pt_len t \<Longrightarrow> peers_inv (purge_loop clock index t) \<and>
   peers_view (purge_loop clock index t) =
     take index (peers_view t) @ filter (\<lambda>e. \<not> peer_is_expired e clock) (drop index (peers_view t))"
proof (induction clock index t rule: purge_loop.induct)
  case (1 clock index t)
  let ?v = "peers_view t"
  have l: "length ?v = pt_len t" using 1(3) by (rule length_peers_view)
  show ?case
  proof (cases "index < pt_len t")
    case True
    have e: "pt_entries t ! index = ?v ! index" using True by (simp add: peers_view_def)
    have d: "drop index ?v = ?v ! index # drop (Suc index) ?v" using True l by (simp add: Cons_nth_drop_Suc)
    show ?thesis
    proof (cases "peer_is_expired (pt_entries t ! index) clock")
      case x: True
      note R = peers_remove_view [OF 1(3) True]
      have "drop index (list_remove index ?v) = drop (Suc index) ?v" "take index (list_remove index ?v) = take index ?v"
        using True l by (simp_all add: list_remove_def)
      then show ?thesis
        using 1(1) [OF True x R(1)] R(2,3) True x d e by (simp add: purge_loop.simps [of clock index t])
    next
      case False
      then show ?thesis
        using 1(2) [OF True False 1(3)] True d e l
        by (simp add: purge_loop.simps [of clock index t] take_Suc_conv_app_nth)
    qed
  next
    case False
    then have "purge_loop clock index t = t" by (simp add: purge_loop.simps [of clock index t])
    then show ?thesis using 1(3,4) l False by simp
  qed
qed

lemma fold_shift_up:
  "length (fold (\<lambda>c es. es[c := es ! (c - 1)]) (rev [1..<Suc n]) es) = length es \<and>
   (n < length es \<longrightarrow> k < length es \<longrightarrow> fold (\<lambda>c es. es[c := es ! (c - 1)]) (rev [1..<Suc n]) es ! k =
      (if 1 \<le> k \<and> k \<le> n then es ! (k - 1) else es ! k))"
proof (induction n arbitrary: es k)
  case (Suc n)
  then show ?case by (auto simp: nth_list_update le_Suc_eq)
qed simp

lemma peers_push_front_view:
  assumes "peers_inv t" "pt_len t < 32"
  shows "peers_inv (peers_push_front t p)" "peers_view (peers_push_front t p) = p # peers_view t"
proof -
  let ?n = "pt_len t" and ?es = "pt_entries t"
  let ?f = "fold (\<lambda>c es. es[c := es ! (c - 1)]) (rev [1..<?n + 1]) ?es"
  have b: "length ?es = 32" using assms(1) by (simp add: peers_inv_def)
  have f: "length ?f = 32" "1 \<le> k \<Longrightarrow> k \<le> ?n \<Longrightarrow> ?f ! k = ?es ! (k - 1)" for k
    using fold_shift_up [of ?n ?es k] b assms(2) by auto
  show "peers_inv (peers_push_front t p)" using f(1) assms(2) by (simp add: peers_push_front_def peers_inv_def Let_def)
  show "peers_view (peers_push_front t p) = p # peers_view t"
    by (rule nth_equalityI)
      (use f b assms(2) in \<open>auto simp: peers_push_front_def peers_view_def Let_def nth_Cons' nth_list_update\<close>)
qed

text \<open>Remembering on the list: the destination's previous ratchet and expired ones go, the new one comes
  first, and the oldest makes room when the table is full.\<close>

definition peer_now :: "hash16 \<Rightarrow> bytes \<Rightarrow> ratchet_clock \<Rightarrow> peer_ratchet" where
  "peer_now d ratchet clock = \<lparr>pr_dest_hash = d, pr_ratchet = ratchet,
     pr_age_kind = fst (clock_anchor clock), pr_age_secs = snd (clock_anchor clock)\<rparr>"

lemma insert_peer_view:
  assumes "peers_inv t" and p_def: "p = purge_expired t clock"
    and q_def: "q = (if pt_len p = PEER_RATCHETS_MAX then peers_remove p (pt_len p - 1) else p)"
  shows "peers_inv (peers_push_front q x) \<and> peers_view (peers_push_front q x) =
    x # take 31 (filter (\<lambda>e. \<not> peer_is_expired e clock) (peers_view t))"
proof -
  have p: "peers_inv p" "peers_view p = filter (\<lambda>e. \<not> peer_is_expired e clock) (peers_view t)"
    using purge_loop_view [OF assms(1), of 0 clock] by (simp_all add: p_def purge_expired_def)
  have l: "length (peers_view p) = pt_len p" "pt_len p \<le> 32"
    using length_peers_view [OF p(1)] p(1) by (simp_all add: peers_inv_def)
  have "peers_inv q \<and> peers_view q = take 31 (peers_view p) \<and> pt_len q < 32"
  proof (cases "pt_len p = 32")
    case True
    then show ?thesis
      using peers_remove_view [OF p(1), of 31] l
      by (simp add: q_def PEER_RATCHETS_MAX_def list_remove_def)
  next
    case False
    then show ?thesis using p(1) l by (simp add: q_def PEER_RATCHETS_MAX_def)
  qed
  then show ?thesis using peers_push_front_view [of q x] p(2) by simp
qed

lemma peers_remember_cases:
  assumes inv: "peers_inv t" and r: "peers_remember t d ratchet clock = (changed, t')"
  obtains (known) e where "\<not> changed" "t' = t" "List.find (\<lambda>e. pr_dest_hash e = d) (peers_view t) = Some e" "pr_ratchet e = ratchet"
  | (stored) old where "changed" "peers_inv t'" "set old \<subseteq> set (peers_view t)"
      "\<forall>e \<in> set (peers_view t). pr_dest_hash e \<noteq> d \<longrightarrow> e \<in> set old"
      "filter (\<lambda>e. pr_dest_hash e \<noteq> d) old = filter (\<lambda>e. pr_dest_hash e \<noteq> d) (peers_view t)"
      "length (filter (\<lambda>e. \<not> peer_is_expired e clock) old) \<le> length (filter (\<lambda>e. \<not> peer_is_expired e clock) (peers_view t))"
      "peers_view t' = peer_now d ratchet clock # take 31 (filter (\<lambda>e. \<not> peer_is_expired e clock) old)"
proof -
  have nth: "i < pt_len t \<Longrightarrow> pt_entries t ! i = peers_view t ! i" for i by (simp add: peers_view_def)
  have l: "length (peers_view t) = pt_len t" using inv by (rule length_peers_view)
  have ins: "peers_inv t'" "changed" "peers_view t' = peer_now d ratchet clock #
      take 31 (filter (\<lambda>e. \<not> peer_is_expired e clock) (peers_view t0))"
    if "peers_inv t0" "(let t = purge_expired t0 clock;
                t = (if pt_len t = PEER_RATCHETS_MAX then peers_remove t (pt_len t - 1) else t);
                (age_kind, age_secs) = clock_anchor clock
            in (True, peers_push_front t \<lparr>pr_dest_hash = d, pr_ratchet = ratchet,
                  pr_age_kind = age_kind, pr_age_secs = age_secs\<rparr>)) = (changed, t')" for t0
    using insert_peer_view [OF that(1) refl refl, of clock "peer_now d ratchet clock"] that(2)
    by (auto simp: Let_def split_beta peer_now_def)
  show thesis
  proof (cases "List.find (\<lambda>i. pr_dest_hash (pt_entries t ! i) = d) [0..<pt_len t]")
    case None
    then show thesis
      using ins [OF inv] r by (intro stored [of "peers_view t"]) (simp_all add: peers_remember_def Let_def)
  next
    case (Some i)
    then have i: "i < pt_len t" "pr_dest_hash (peers_view t ! i) = d" "\<forall>j<i. pr_dest_hash (peers_view t ! j) \<noteq> d"
      by (auto simp: find_Some_iff nth)
    show thesis
    proof (cases "pr_ratchet (pt_entries t ! i) = ratchet")
      case True
      have "List.find (\<lambda>e. pr_dest_hash e = d) (peers_view t) = Some (peers_view t ! i)"
        using i l by (auto simp: find_Some_iff)
      then show thesis using True r Some i nth by (intro known) (auto simp: peers_remember_def Let_def)
    next
      case False
      have rm: "(let t = purge_expired (peers_remove t i) clock;
                t = (if pt_len t = PEER_RATCHETS_MAX then peers_remove t (pt_len t - 1) else t);
                (age_kind, age_secs) = clock_anchor clock
            in (True, peers_push_front t \<lparr>pr_dest_hash = d, pr_ratchet = ratchet,
                  pr_age_kind = age_kind, pr_age_secs = age_secs\<rparr>)) = (changed, t')"
        using r Some False by (simp add: peers_remember_def Let_def)
      note R = peers_remove_view [OF inv i(1)] and I = ins [OF peers_remove_view(1) [OF inv i(1)] rm]
      have s: "peers_view t = take i (peers_view t) @ peers_view t ! i # drop (Suc i) (peers_view t)"
        using i(1) l by (simp add: id_take_nth_drop)
      have f: "filter (\<lambda>e. pr_dest_hash e \<noteq> d) (list_remove i (peers_view t)) = filter (\<lambda>e. pr_dest_hash e \<noteq> d) (peers_view t)"
        using arg_cong [OF s, of "filter (\<lambda>e. pr_dest_hash e \<noteq> d)"] by (simp add: list_remove_def i(2))
      show thesis
      proof (rule stored [of "list_remove i (peers_view t)"])
        show "set (list_remove i (peers_view t)) \<subseteq> set (peers_view t)"
          by (auto simp: list_remove_def dest: in_set_takeD in_set_dropD)
        show "\<forall>e \<in> set (peers_view t). pr_dest_hash e \<noteq> d \<longrightarrow> e \<in> set (list_remove i (peers_view t))"
          using arg_cong [OF f, of set] by auto
        show "length (filter (\<lambda>e. \<not> peer_is_expired e clock) (list_remove i (peers_view t))) \<le>
            length (filter (\<lambda>e. \<not> peer_is_expired e clock) (peers_view t))"
          using arg_cong [OF s, of "\<lambda>xs. length (filter (\<lambda>e. \<not> peer_is_expired e clock) xs)"] by (simp add: list_remove_def)
      qed (use I R f in simp_all)
    qed
  qed
qed

lemma anchor_not_expired: "\<not> age_expired (fst (clock_anchor clock)) (snd (clock_anchor clock)) clock"
  by (simp add: age_expired_def clock_anchor_def is_some_and_def blob_consts sat_sub_def RATCHET_EXPIRY_SECS_def split: option.split)

lemma find_filter: "(\<And>x. P x \<Longrightarrow> Q x) \<Longrightarrow> List.find P (filter Q xs) = List.find P xs"
  by (induction xs) auto



text \<open>A serialized peer table restores its entries, uptime ages apart.\<close>

definition peer_ok :: "peer_ratchet \<Rightarrow> bool" where
  "peer_ok e \<longleftrightarrow> length (pr_dest_hash e) = 16 \<and> length (pr_ratchet e) = 32 \<and> age_ok (pr_age_kind e, pr_age_secs e)"

definition forget_peer :: "peer_ratchet \<Rightarrow> peer_ratchet" where
  "forget_peer e = (let a = forget True (pr_age_kind e, pr_age_secs e) in e\<lparr>pr_age_kind := fst a, pr_age_secs := snd a\<rparr>)"

lemma peers_serialize_roundtrip:
  assumes inv: "peers_inv t" and ok: "\<forall>e \<in> set (peers_view t). peer_ok e" and out: "peer_blob_len (pt_len t) \<le> length out"
  shows "\<exists>out' t'. peers_serialize_into t out = (Inr (peer_blob_len (pt_len t)), out') \<and>
    peers_deserialize (take (peer_blob_len (pt_len t)) out') = Inr t' \<and> peers_inv t' \<and>
    peers_view t' = map forget_peer (peers_view t)"
proof -
  let ?h = "[PEER_BLOB_VERSION, of_nat (pt_len t)]" and ?v = "peers_view t" and ?n = "pt_len t"
  let ?b = "?h @ concat (map peer_record ?v)"
  have l: "length ?v = ?n" "?n \<le> 32" using inv length_peers_view [OF inv] by (simp_all add: peers_inv_def)
  have f: "\<forall>e \<in> set ?v. length (peer_record e) = 57" using ok by (simp add: peer_record_def peer_ok_def)
  have len: "length ?b = peer_blob_len ?n" using length_concat_const [OF f] l by (simp add: peer_blob_len_def)
  have cnt: "?b ! 0 = PEER_BLOB_VERSION" "unat (?b ! 1) = ?n" using l by (simp_all add: unat_of_nat)
  have rec: "slice (2 + i * 57 + a) (2 + i * 57 + b) ?b = slice a b (peer_record (?v ! i))" if "i < ?n" "b \<le> 57" for i a b
    using slice_record [where h = ?h and k = 2, OF _ f, of i b a] that l by simp
  have kind: "?b ! (2 + i * 57 + 48) = pr_age_kind (?v ! i)" if "i < ?n" for i
  proof -
    have "?b ! (2 + i * 57 + 48) = peer_record (?v ! i) ! 48"
      using nth_record [where h = ?h and k = 2, OF _ f, of i 48] that l by simp
    moreover have "peer_ok (?v ! i)" using ok l that by simp
    ultimately show ?thesis by (simp add: peer_record_def peer_ok_def nth_append)
  qed
  have e: "peer_ok (?v ! i)" if "i < ?n" for i using ok l that by simp
  have parts: "slice 0 16 (peer_record x) = pr_dest_hash x" "slice 16 48 (peer_record x) = pr_ratchet x"
    "slice 49 57 (peer_record x) = to_be_bytes 8 (pr_age_secs x)" if "peer_ok x" for x
    using that by (simp_all add: peer_record_def peer_ok_def slice_def)
  have "\<not> list_ex (\<lambda>i. let pos = 2 + i * 57 in \<not> age_kind_valid (?b ! (pos + 48)) \<or>
      (?b ! (pos + 48) = AGE_UNKNOWN \<and> list_ex (\<lambda>byte. byte \<noteq> 0) (slice (pos + 49) (pos + 57) ?b))) [0..<?n]"
    unfolding Let_def list_ex_iff
  proof (intro notI, elim bexE)
    fix i assume i: "i \<in> set [0..<?n]"
      and bad: "\<not> age_kind_valid (?b ! (2 + i * 57 + 48)) \<or> (?b ! (2 + i * 57 + 48) = AGE_UNKNOWN \<and>
        (\<exists>x \<in> set (slice (2 + i * 57 + 49) (2 + i * 57 + 57) ?b). x \<noteq> 0))"
    then have i: "i < ?n" by simp
    show False
      using bad e [OF i] unfolding kind [OF i] rec [OF i order_refl] parts(3) [OF e [OF i]]
      by (auto simp: peer_ok_def age_ok_def to_be_bytes_zero)
  qed
  then have valid: "validate_peer_blob ?b = Inr ()"
    using len l unfolding validate_peer_blob_def Let_def cnt by (simp add: peer_blob_len_def PEER_RATCHETS_MAX_def)
  have "peer_of_blob ?b i = forget_peer (?v ! i)" if i: "i < ?n" for i
  proof -
    have s: "(from_be_bytes (to_be_bytes 8 x) :: u64) = x" for x by (simp add: from_to_be_bytes take_bit_word_eq_self)
    have d: "slice (2 + i * 57) (2 + i * 57 + 16) ?b = pr_dest_hash (?v ! i)"
      using rec [OF i, of 16 0] parts(1) [OF e [OF i]] by (simp only: add_0_right)
    have r: "slice (2 + i * 57 + 16) (2 + i * 57 + 48) ?b = pr_ratchet (?v ! i)"
      using rec [OF i, of 48 16] parts(2) [OF e [OF i]] by (simp only:)
    show ?thesis
      unfolding peer_of_blob_def Let_def cnt kind [OF i] d r rec [OF i order_refl] parts(3) [OF e [OF i]] s
      by (cases "?v ! i") (simp add: forget_peer_def forget_def Let_def blob_consts)
  qed
  then have "map (peer_of_blob ?b) [0..<?n] = map forget_peer ?v"
    using l by (intro nth_equalityI) simp_all
  then have "peers_deserialize ?b = Inr \<lparr>pt_entries = map forget_peer ?v @ replicate (32 - ?n) PEER_EMPTY, pt_len = ?n\<rparr>"
    by (simp only: peers_deserialize_def peers_load_persisted_def valid sum.case cnt Let_def PEER_RATCHETS_MAX_def prod.case)
  moreover have "peers_serialize_into t out = (Inr (peer_blob_len ?n), overwrite out 0 ?b)"
    using out by (simp add: peers_serialize_into_def Let_def peers_view_def)
  moreover have "take (peer_blob_len ?n) (overwrite out 0 ?b) = ?b" using take_overwrite [of ?b out] len by simp
  ultimately show ?thesis using l by (simp add: peers_inv_def peers_view_def)
qed

end
