(* ===== verification/Resource_Adv.thy ===== *)
theory Resource_Adv
  imports Token Codec
begin

text \<open>
  Advertisements of resource transfers (\<^verbatim>\<open>resource.rs\<close>): the small msgpack writer and reader, resource
  flags, and the eleven-field map an advertisement is packed into and parsed from. The writer is the
  output slice with its position; the reader's input is an argument and its position is threaded
  through, since no caller sees the position of a failed read.
\<close>

definition MAPHASH_LEN :: nat where "MAPHASH_LEN = 4"
definition RANDOM_HASH_SIZE :: nat where "RANDOM_HASH_SIZE = 4"
definition REQUEST_ID_MAX :: nat where "REQUEST_ID_MAX = 32"
definition MAX_PARTS :: nat where "MAX_PARTS = 8"

lemmas adv_consts = MAPHASH_LEN_def RANDOM_HASH_SIZE_def REQUEST_ID_MAX_def MAX_PARTS_def

datatype resource_error =
    ResTooLarge | InvalidAdvertisement | CompressedUnsupported | SplitUnsupported | MetadataUnsupported
  | RequestResponseUnsupported | EncryptionRequired | MapHashCollision | InvalidRequest | Incomplete
  | HashMismatch | ResCorrupt | InvalidState | ResOutputTooSmall | ResCrypto crypto_error

text \<open>The operator \<^verbatim>\<open>?\<close> on results.\<close>

definition and_then :: "'e + 'a \<Rightarrow> ('a \<Rightarrow> 'e + 'b) \<Rightarrow> 'e + 'b" where
  "and_then r f = (case r of Inl e \<Rightarrow> Inl e | Inr x \<Rightarrow> f x)"

section \<open>Flags\<close>

record resource_flags =
  rf_encrypted :: bool
  rf_compressed :: bool
  rf_split :: bool
  rf_is_request :: bool
  rf_is_response :: bool
  rf_has_metadata :: bool

definition RESOURCE_FLAGS_DEFAULT :: resource_flags where
  "RESOURCE_FLAGS_DEFAULT = \<lparr>rf_encrypted = False, rf_compressed = False, rf_split = False,
     rf_is_request = False, rf_is_response = False, rf_has_metadata = False\<rparr>"

definition resource_flags_to_byte :: "resource_flags \<Rightarrow> u8" where
  "resource_flags_to_byte f =
     of_bool (rf_encrypted f) OR push_bit 1 (of_bool (rf_compressed f)) OR push_bit 2 (of_bool (rf_split f)) OR
     push_bit 3 (of_bool (rf_is_request f)) OR push_bit 4 (of_bool (rf_is_response f)) OR
     push_bit 5 (of_bool (rf_has_metadata f))"

definition resource_flags_from_byte :: "u8 \<Rightarrow> resource_flags" where
  "resource_flags_from_byte b = \<lparr>rf_encrypted = (b AND 0x01 \<noteq> 0), rf_compressed = (b AND 0x02 \<noteq> 0),
     rf_split = (b AND 0x04 \<noteq> 0), rf_is_request = (b AND 0x08 \<noteq> 0), rf_is_response = (b AND 0x10 \<noteq> 0),
     rf_has_metadata = (b AND 0x20 \<noteq> 0)\<rparr>"

section \<open>The msgpack writer\<close>

type_synonym mp_writer = "bytes \<times> nat"
type_synonym mp_write = "mp_writer \<Rightarrow> (resource_error + unit) \<times> mp_writer"

definition mp_put :: "bytes \<Rightarrow> mp_write" where
  "mp_put bs w = (case w of (out, pos) \<Rightarrow>
     (case usize_checked_add pos (length bs) of
        None \<Rightarrow> (Inl ResOutputTooSmall, w)
      | Some fin \<Rightarrow> if fin > length out then (Inl ResOutputTooSmall, w)
          else (Inr (), overwrite out pos bs, fin)))"

text \<open>Writes in sequence, up to the first that fails.\<close>

fun mp_all :: "mp_write list \<Rightarrow> mp_write" where
  "mp_all [] w = (Inr (), w)"
| "mp_all (f # fs) w = (case f w of (Inl e, w) \<Rightarrow> (Inl e, w) | (Inr _, w) \<Rightarrow> mp_all fs w)"

definition mp_key :: "u8 \<Rightarrow> mp_write" where
  "mp_key k = mp_put [0xA1, k]"

definition mp_uint :: "u32 \<Rightarrow> mp_write" where
  "mp_uint v =
     (if v < 0x80 then mp_put [ucast v]
      else if v \<le> 0xFF then mp_put [0xCC, ucast v]
      else if v \<le> 0xFFFF then mp_put (0xCD # to_be_bytes 2 (ucast v :: u16))
      else mp_put (0xCE # to_be_bytes 4 v))"

definition mp_bin :: "bytes \<Rightarrow> mp_write" where
  "mp_bin d w =
     (if length d \<le> 0xFF then mp_all [mp_put [0xC4, of_nat (length d)], mp_put d] w
      else if length d \<le> 0xFFFF then mp_all [mp_put (0xC5 # to_be_bytes 2 (of_nat (length d) :: u16)), mp_put d] w
      else (Inl ResTooLarge, w))"

definition mp_nil :: mp_write where
  "mp_nil = mp_put [0xC0]"

section \<open>The msgpack reader\<close>

definition rd_byte :: "bytes \<Rightarrow> nat \<Rightarrow> resource_error + u8 \<times> nat" where
  "rd_byte d pos = (if pos < length d then Inr (d ! pos, pos + 1) else Inl InvalidAdvertisement)"

definition rd_peek :: "bytes \<Rightarrow> nat \<Rightarrow> u8 option" where
  "rd_peek d pos = (if pos < length d then Some (d ! pos) else None)"

definition rd_take :: "bytes \<Rightarrow> nat \<Rightarrow> nat \<Rightarrow> resource_error + bytes \<times> nat" where
  "rd_take d n pos =
     (case usize_checked_add pos n of
        None \<Rightarrow> Inl InvalidAdvertisement
      | Some fin \<Rightarrow> if fin > length d then Inl InvalidAdvertisement else Inr (slice pos fin d, fin))"

definition rd_uint :: "bytes \<Rightarrow> nat \<Rightarrow> resource_error + u32 \<times> nat" where
  "rd_uint d pos = and_then (rd_byte d pos) (\<lambda>(b, pos).
     if b \<le> 0x7F then Inr (ucast b, pos)
     else if b = 0xCC then and_then (rd_byte d pos) (\<lambda>(v, pos). Inr (ucast v, pos))
     else if b = 0xCD then and_then (rd_take d 2 pos) (\<lambda>(s, pos). Inr (ucast (from_be_bytes s :: u16), pos))
     else if b = 0xCE then and_then (rd_take d 4 pos) (\<lambda>(s, pos). Inr (from_be_bytes s, pos))
     else if b = 0xCF then and_then (rd_take d 8 pos) (\<lambda>(s, pos).
       let v = from_be_bytes s :: u64 in if v \<le> 0xFFFFFFFF then Inr (ucast v, pos) else Inl ResTooLarge)
     else Inl InvalidAdvertisement)"

definition rd_bin :: "bytes \<Rightarrow> nat \<Rightarrow> resource_error + bytes \<times> nat" where
  "rd_bin d pos = and_then (rd_byte d pos) (\<lambda>(b, pos).
     if b = 0xC4 then and_then (rd_byte d pos) (\<lambda>(n, pos). rd_take d (unat n) pos)
     else if b = 0xC5 then and_then (rd_take d 2 pos) (\<lambda>(s, pos). rd_take d (unat (from_be_bytes s :: u16)) pos)
     else Inl InvalidAdvertisement)"

section \<open>Advertisements\<close>

record resource_adv =
  ra_transfer_size :: u32
  ra_data_size :: u32
  ra_num_parts :: u32
  ra_resource_hash :: hash32
  ra_random_hash :: bytes
  ra_original_hash :: hash32
  ra_segment_index :: u32
  ra_total_segments :: u32
  ra_request_id_len :: nat
  ra_request_id :: bytes
  ra_flags :: resource_flags
  ra_hashmap_len :: nat
  ra_hashmap :: bytes

definition ADV_DEFAULT :: resource_adv where
  "ADV_DEFAULT = \<lparr>ra_transfer_size = 0, ra_data_size = 0, ra_num_parts = 0, ra_resource_hash = replicate 32 0,
     ra_random_hash = replicate 4 0, ra_original_hash = replicate 32 0, ra_segment_index = 0,
     ra_total_segments = 0, ra_request_id_len = 0, ra_request_id = replicate 32 0,
     ra_flags = RESOURCE_FLAGS_DEFAULT, ra_hashmap_len = 0, ra_hashmap = replicate 32 0\<rparr>"

definition adv_pack :: "resource_adv \<Rightarrow> bytes \<Rightarrow> (resource_error + nat) \<times> bytes" where
  "adv_pack a out =
     (if ra_hashmap_len a > length (ra_hashmap a) \<or> ra_request_id_len a > length (ra_request_id a)
      then (Inl InvalidAdvertisement, out)
      else case mp_all
        [mp_put [0x8B],
         mp_key 0x74, mp_uint (ra_transfer_size a),
         mp_key 0x64, mp_uint (ra_data_size a),
         mp_key 0x6E, mp_uint (ra_num_parts a),
         mp_key 0x68, mp_bin (ra_resource_hash a),
         mp_key 0x72, mp_bin (ra_random_hash a),
         mp_key 0x6F, mp_bin (ra_original_hash a),
         mp_key 0x69, mp_uint (ra_segment_index a),
         mp_key 0x6C, mp_uint (ra_total_segments a),
         mp_key 0x71,
         (if ra_request_id_len a = 0 then mp_nil else mp_bin (take (ra_request_id_len a) (ra_request_id a))),
         mp_key 0x66, mp_uint (ucast (resource_flags_to_byte (ra_flags a))),
         mp_key 0x6D, mp_bin (take (ra_hashmap_len a) (ra_hashmap a))] (out, 0) of
        (Inl e, out, _) \<Rightarrow> (Inl e, out) | (Inr _, out, pos) \<Rightarrow> (Inr pos, out))"

definition key_bit :: "u8 \<Rightarrow> u16 option" where
  "key_bit k =
     (if k = 0x74 then Some 0x001 else if k = 0x64 then Some 0x002 else if k = 0x6E then Some 0x004
      else if k = 0x68 then Some 0x008 else if k = 0x72 then Some 0x010 else if k = 0x6F then Some 0x020
      else if k = 0x69 then Some 0x040 else if k = 0x6C then Some 0x080 else if k = 0x71 then Some 0x100
      else if k = 0x66 then Some 0x200 else if k = 0x6D then Some 0x400 else None)"

text \<open>A binary field of one length.\<close>

definition rd_exact :: "nat \<Rightarrow> bytes \<Rightarrow> nat \<Rightarrow> resource_error + bytes \<times> nat" where
  "rd_exact n d pos = and_then (rd_bin d pos) (\<lambda>(s, pos).
     if length s \<noteq> n then Inl InvalidAdvertisement else Inr (s, pos))"

definition parse_value :: "bytes \<Rightarrow> u8 \<Rightarrow> resource_adv \<Rightarrow> nat \<Rightarrow> resource_error + resource_adv \<times> nat" where
  "parse_value d k a pos =
     (if k = 0x74 then and_then (rd_uint d pos) (\<lambda>(v, pos). Inr (a\<lparr>ra_transfer_size := v\<rparr>, pos))
      else if k = 0x64 then and_then (rd_uint d pos) (\<lambda>(v, pos). Inr (a\<lparr>ra_data_size := v\<rparr>, pos))
      else if k = 0x6E then and_then (rd_uint d pos) (\<lambda>(v, pos). Inr (a\<lparr>ra_num_parts := v\<rparr>, pos))
      else if k = 0x68 then and_then (rd_exact 32 d pos) (\<lambda>(s, pos). Inr (a\<lparr>ra_resource_hash := s\<rparr>, pos))
      else if k = 0x72 then and_then (rd_exact RANDOM_HASH_SIZE d pos) (\<lambda>(s, pos). Inr (a\<lparr>ra_random_hash := s\<rparr>, pos))
      else if k = 0x6F then and_then (rd_exact 32 d pos) (\<lambda>(s, pos). Inr (a\<lparr>ra_original_hash := s\<rparr>, pos))
      else if k = 0x69 then and_then (rd_uint d pos) (\<lambda>(v, pos). Inr (a\<lparr>ra_segment_index := v\<rparr>, pos))
      else if k = 0x6C then and_then (rd_uint d pos) (\<lambda>(v, pos). Inr (a\<lparr>ra_total_segments := v\<rparr>, pos))
      else if k = 0x71 then
        if rd_peek d pos = Some 0xC0 then Inr (a, pos + 1)
        else and_then (rd_bin d pos) (\<lambda>(s, pos).
          if length s > REQUEST_ID_MAX then Inl InvalidAdvertisement
          else Inr (a\<lparr>ra_request_id := overwrite (ra_request_id a) 0 s, ra_request_id_len := length s\<rparr>, pos))
      else if k = 0x66 then and_then (rd_uint d pos) (\<lambda>(f, pos).
        if f > 0xFF then Inl InvalidAdvertisement
        else Inr (a\<lparr>ra_flags := resource_flags_from_byte (ucast f)\<rparr>, pos))
      else and_then (rd_bin d pos) (\<lambda>(s, pos).
        if length s mod MAPHASH_LEN \<noteq> 0 then Inl InvalidAdvertisement
        else Inr ((if length s \<le> MAX_PARTS * MAPHASH_LEN
                   then a\<lparr>ra_hashmap := overwrite (ra_hashmap a) 0 s\<rparr> else a)\<lparr>ra_hashmap_len := length s\<rparr>, pos)))"

definition parse_field :: "bytes \<Rightarrow> resource_adv \<times> u16 \<times> nat \<Rightarrow> resource_error + resource_adv \<times> u16 \<times> nat" where
  "parse_field d st = (case st of (a, seen, pos) \<Rightarrow>
     and_then (rd_byte d pos) (\<lambda>(b, pos).
       if b \<noteq> 0xA1 then Inl InvalidAdvertisement
       else and_then (rd_byte d pos) (\<lambda>(k, pos).
         case key_bit k of
           None \<Rightarrow> Inl InvalidAdvertisement
         | Some bt \<Rightarrow>
             if seen AND bt \<noteq> 0 then Inl InvalidAdvertisement
             else and_then (parse_value d k a pos) (\<lambda>(a, pos). Inr (a, seen OR bt, pos)))))"

primrec parse_fields :: "bytes \<Rightarrow> nat \<Rightarrow> resource_adv \<times> u16 \<times> nat \<Rightarrow> resource_error + resource_adv" where
  "parse_fields d 0 st = Inr (fst st)"
| "parse_fields d (Suc n) st = and_then (parse_field d st) (parse_fields d n)"

definition parse_bounded :: "bytes \<Rightarrow> resource_error + resource_adv" where
  "parse_bounded d = and_then (rd_byte d 0) (\<lambda>(b, pos).
     if \<not> (0x80 \<le> b \<and> b \<le> 0x8F) \<or> b AND 0x0F \<noteq> 11 then Inl InvalidAdvertisement
     else parse_fields d 11 (ADV_DEFAULT, 0, pos))"

definition adv_parse :: "bytes \<Rightarrow> resource_error + resource_adv" where
  "adv_parse d = and_then (parse_bounded d) (\<lambda>a.
     if ra_hashmap_len a > MAX_PARTS * MAPHASH_LEN then Inl ResTooLarge else Inr a)"

definition rejection_hash :: "bytes \<Rightarrow> resource_error + hash32" where
  "rejection_hash d = and_then (parse_bounded d) (\<lambda>a. Inr (ra_resource_hash a))"

definition response_id :: "bytes \<Rightarrow> resource_error + hash16" where
  "response_id d = and_then (parse_bounded d) (\<lambda>a.
     if \<not> rf_is_response (ra_flags a) \<or> rf_is_request (ra_flags a) \<or> ra_request_id_len a \<noteq> 16
     then Inl InvalidAdvertisement else Inr (take 16 (ra_request_id a)))"

section \<open>What the writer writes\<close>

text \<open>\<open>writes f e\<close>: the write \<open>f\<close> appends exactly the bytes \<open>e\<close>, or reports that they do not fit.\<close>

definition writes :: "mp_write \<Rightarrow> bytes \<Rightarrow> bool" where
  "writes f e \<longleftrightarrow> (\<forall>out b. length b \<le> length out \<longrightarrow> length b + length e \<le> USIZE_MAX \<longrightarrow>
     (if length b + length e \<le> length out
      then f (overwrite out 0 b, length b) = (Inr (), overwrite out 0 (b @ e), length (b @ e))
      else \<exists>w. f (overwrite out 0 b, length b) = (Inl ResOutputTooSmall, w)))"

lemma overwrite_append_at:
  "length b + length e \<le> length out \<Longrightarrow> overwrite (overwrite out 0 b) (length b) e = overwrite out 0 (b @ e)"
  by (simp add: overwrite_def add.commute)

lemma writes_put: "writes (mp_put e) e"
  by (auto simp: writes_def mp_put_def usize_checked_add_def overwrite_append_at)

lemma writesD:
  assumes "writes f e" "length b \<le> length out" "length b + length e \<le> USIZE_MAX"
  shows "length b + length e \<le> length out \<Longrightarrow> f (overwrite out 0 b, length b) = (Inr (), overwrite out 0 (b @ e), length (b @ e))"
    and "\<not> length b + length e \<le> length out \<Longrightarrow> \<exists>w. f (overwrite out 0 b, length b) = (Inl ResOutputTooSmall, w)"
  using assms unfolding writes_def by (metis)+

lemma writes_all: "list_all2 writes fs es \<Longrightarrow> writes (mp_all fs) (concat es)"
proof (induction fs es rule: list_all2_induct)
  case Nil
  then show ?case by (simp add: writes_def)
next
  case (Cons f fs e es)
  show ?case unfolding writes_def
  proof (intro allI impI)
    fix out b :: bytes
    assume b: "length b \<le> length out" "length b + length (concat (e # es)) \<le> USIZE_MAX"
    then have u: "length b + length e \<le> USIZE_MAX" "length (b @ e) + length (concat es) \<le> USIZE_MAX" by simp_all
    show "if length b + length (concat (e # es)) \<le> length out
      then mp_all (f # fs) (overwrite out 0 b, length b) =
        (Inr (), overwrite out 0 (b @ concat (e # es)), length (b @ concat (e # es)))
      else \<exists>w. mp_all (f # fs) (overwrite out 0 b, length b) = (Inl ResOutputTooSmall, w)"
    proof (cases "length b + length e \<le> length out")
      case True
      note f = writesD(1) [OF Cons.hyps(1) b(1) u(1) True]
      show ?thesis
        using writesD [OF Cons.IH _ u(2), of out] True f by (auto simp: add.assoc)
    next
      case False
      then show ?thesis using writesD(2) [OF Cons.hyps(1) b(1) u(1) False] by auto
    qed
  qed
qed

definition uint_bytes :: "u32 \<Rightarrow> bytes" where
  "uint_bytes v =
     (if v < 0x80 then [ucast v] else if v \<le> 0xFF then [0xCC, ucast v]
      else if v \<le> 0xFFFF then 0xCD # to_be_bytes 2 (ucast v :: u16) else 0xCE # to_be_bytes 4 v)"

definition bin_bytes :: "bytes \<Rightarrow> bytes" where
  "bin_bytes d = [0xC4, of_nat (length d)] @ d"

lemma writes_key: "writes (mp_key k) [0xA1, k]"
  by (simp add: mp_key_def writes_put)

lemma writes_uint: "writes (mp_uint v) (uint_bytes v)"
  by (simp add: mp_uint_def uint_bytes_def writes_put)

lemma writes_nil: "writes mp_nil [0xC0]"
  by (simp add: mp_nil_def writes_put)

lemma writes_bin:
  assumes "length d \<le> 0xFF" shows "writes (mp_bin d) (bin_bytes d)"
proof -
  have "list_all2 writes [mp_put [0xC4, of_nat (length d)], mp_put d] [[0xC4, of_nat (length d)], d]"
    by (simp add: writes_put)
  note w = writes_all [OF this]
  have "mp_bin d = mp_all [mp_put [0xC4, of_nat (length d)], mp_put d]"
    using assms by (intro ext) (simp only: mp_bin_def if_True)
  then show ?thesis using w by (simp only: bin_bytes_def concat.simps append_Nil2)
qed

section \<open>What the reader reads back\<close>

text \<open>\<open>at d pos xs\<close>: from position \<open>pos\<close> on, the input \<open>d\<close> is \<open>xs\<close>.\<close>

definition at :: "bytes \<Rightarrow> nat \<Rightarrow> bytes \<Rightarrow> bool" where
  "at d pos xs \<longleftrightarrow> pos \<le> length d \<and> drop pos d = xs \<and> length d \<le> USIZE_MAX"

lemma at_length: "at d pos xs \<Longrightarrow> length d = pos + length xs"
  by (auto simp: at_def)

lemma at_append: "at d pos (e @ xs) \<Longrightarrow> at d (pos + length e) xs"
proof -
  assume a: "at d pos (e @ xs)"
  have "drop (length e) (drop pos d) = xs" using a by (simp only: at_def) simp
  then show "at d (pos + length e) xs" using a at_length [OF a] by (simp add: at_def add.commute)
qed

lemma at_Cons: "at d pos (x # xs) \<Longrightarrow> at d (pos + 1) xs"
  using at_append [of d pos "[x]" xs] by simp

lemma rd_byte_at: assumes "at d pos (x # xs)" shows "rd_byte d pos = Inr (x, pos + 1)"
proof -
  have "pos < length d" using at_length [OF assms] by simp
  then show ?thesis using assms by (simp add: at_def rd_byte_def flip: Cons_nth_drop_Suc)
qed

lemma rd_peek_at: "at d pos (x # xs) \<Longrightarrow> rd_peek d pos = Some x"
  using rd_byte_at [of d pos x xs] by (auto simp: rd_byte_def rd_peek_def split: if_splits)

lemma rd_take_at:
  assumes "at d pos (s @ xs)" shows "rd_take d (length s) pos = Inr (s, pos + length s)"
  using assms at_length [OF assms] by (simp add: at_def rd_take_def usize_checked_add_def slice_def)

lemma and_then_Inr [simp]: "and_then (Inr x) f = f x" "and_then (Inl e) f = Inl e"
  by (simp_all add: and_then_def)

lemma ucast_u8_back: "(v :: u32) \<le> 0xFF \<Longrightarrow> ucast (ucast v :: u8) = v"
  by (simp add: word_unat_eq_iff unsigned_ucast_eq unsigned_take_bit_eq take_bit_nat_eq_self word_le_nat_alt)

lemma ucast_u16_back: "(v :: u32) \<le> 0xFFFF \<Longrightarrow> ucast (ucast v :: u16) = v"
  by (simp add: word_unat_eq_iff unsigned_ucast_eq unsigned_take_bit_eq take_bit_nat_eq_self word_le_nat_alt)

lemma ucast_small: "(v :: u32) < 0x80 \<Longrightarrow> (ucast v :: u8) \<le> 0x7F"
  by (simp add: unsigned_ucast_eq take_bit_nat_eq_self word_le_nat_alt word_less_nat_alt)

lemma rd_uint_at:
  assumes "at d pos (uint_bytes v @ xs)" shows "rd_uint d pos = Inr (v, pos + length (uint_bytes v))"
proof -
  consider "v < 0x80" | "0x80 \<le> v" "v \<le> 0xFF" | "0xFF < v" "v \<le> 0xFFFF" | "0xFFFF < v" by (meson not_le)
  then show ?thesis
  proof cases
    case 1
    then have b: "uint_bytes v = [ucast v]" "v \<le> 0xFF"
      by (simp_all add: uint_bytes_def word_less_nat_alt word_le_nat_alt)
    have "rd_byte d pos = Inr (ucast v, pos + 1)" using assms rd_byte_at [of d pos] by (simp add: b)
    then show ?thesis using ucast_small [OF 1] ucast_u8_back [OF b(2)] by (simp add: rd_uint_def b)
  next
    case 2
    note c = ucast_u8_back [OF 2(2)]
    have b: "uint_bytes v = [0xCC, ucast v]" using 2 by (simp add: uint_bytes_def)
    have a: "at d pos (0xCC # ucast v # xs)" using assms by (simp add: b)
    show ?thesis using rd_byte_at [OF a] rd_byte_at [OF at_Cons [OF a]] by (simp add: rd_uint_def b c)
  next
    case 3
    note c = ucast_u16_back [OF 3(2)]
    have b: "uint_bytes v = 0xCD # to_be_bytes 2 (ucast v :: u16)" using 3 by (auto simp: uint_bytes_def word_less_nat_alt word_le_nat_alt)
    have t: "rd_take d 2 (pos + 1) = Inr (to_be_bytes 2 (ucast v :: u16), pos + 3)"
      using rd_take_at [of d "pos + 1" "to_be_bytes 2 (ucast v :: u16)" xs] at_Cons [of d pos] assms by (simp add: b)
    have "rd_byte d pos = Inr (0xCD, pos + 1)" using assms rd_byte_at [of d pos] by (simp add: b)
    then show ?thesis using t by (simp add: rd_uint_def b c from_to_be_bytes take_bit_word_eq_self)
  next
    case 4
    have b: "uint_bytes v = 0xCE # to_be_bytes 4 v" using 4 by (auto simp: uint_bytes_def word_less_nat_alt word_le_nat_alt)
    have t: "rd_take d 4 (pos + 1) = Inr (to_be_bytes 4 v, pos + 5)"
      using rd_take_at [of d "pos + 1" "to_be_bytes 4 v" xs] at_Cons [of d pos] assms by (simp add: b)
    have "rd_byte d pos = Inr (0xCE, pos + 1)" using assms rd_byte_at [of d pos] by (simp add: b)
    then show ?thesis using t by (simp add: rd_uint_def b from_to_be_bytes take_bit_word_eq_self)
  qed
qed

lemma rd_bin_at:
  assumes "at d pos (bin_bytes s @ xs)" "length s \<le> 0xFF"
  shows "rd_bin d pos = Inr (s, pos + length (bin_bytes s))"
proof -
  have a: "at d pos (0xC4 # of_nat (length s) # s @ xs)" using assms(1) by (simp add: bin_bytes_def)
  have l: "unat (of_nat (length s) :: u8) = length s" using assms(2) by (simp add: unat_of_nat)
  have "rd_take d (length s) (pos + 1 + 1) = Inr (s, pos + 1 + 1 + length s)"
    by (rule rd_take_at [OF at_Cons [OF at_Cons [OF a]]])
  then show ?thesis
    using rd_byte_at [OF a] rd_byte_at [OF at_Cons [OF a]] by (simp add: rd_bin_def bin_bytes_def l)
qed

section \<open>Advertisements survive packing\<close>

lemma resource_flags_roundtrip: "resource_flags_from_byte (resource_flags_to_byte f) = f"
proof (cases f)
  case (fields a b c d e g)
  then show ?thesis
    unfolding fields resource_flags_from_byte_def resource_flags_to_byte_def
    by (cases a; cases b; cases c; cases d; cases e; cases g; simp)
qed

lemma resource_flags_small: "(ucast (resource_flags_to_byte f) :: u32) < 0x80"
proof (cases f)
  case (fields a b c d e g)
  then show ?thesis
    unfolding fields resource_flags_to_byte_def
    by (cases a; cases b; cases c; cases d; cases e; cases g; simp)
qed

text \<open>Advertisements as the code holds them: arrays of their lengths, zero beyond the lengths in use.\<close>

definition adv_wf :: "resource_adv \<Rightarrow> bool" where
  "adv_wf a \<longleftrightarrow> length (ra_resource_hash a) = 32 \<and> length (ra_random_hash a) = 4 \<and> length (ra_original_hash a) = 32 \<and>
     length (ra_request_id a) = 32 \<and> ra_request_id_len a \<le> 32 \<and>
     drop (ra_request_id_len a) (ra_request_id a) = replicate (32 - ra_request_id_len a) 0 \<and>
     length (ra_hashmap a) = 32 \<and> ra_hashmap_len a \<le> 32 \<and> ra_hashmap_len a mod 4 = 0 \<and>
     drop (ra_hashmap_len a) (ra_hashmap a) = replicate (32 - ra_hashmap_len a) 0"

definition adv_fields :: "resource_adv \<Rightarrow> (u8 \<times> bytes) list" where
  "adv_fields a =
     [(0x74, uint_bytes (ra_transfer_size a)), (0x64, uint_bytes (ra_data_size a)), (0x6E, uint_bytes (ra_num_parts a)),
      (0x68, bin_bytes (ra_resource_hash a)), (0x72, bin_bytes (ra_random_hash a)), (0x6F, bin_bytes (ra_original_hash a)),
      (0x69, uint_bytes (ra_segment_index a)), (0x6C, uint_bytes (ra_total_segments a)),
      (0x71, if ra_request_id_len a = 0 then [0xC0] else bin_bytes (take (ra_request_id_len a) (ra_request_id a))),
      (0x66, uint_bytes (ucast (resource_flags_to_byte (ra_flags a)))),
      (0x6D, bin_bytes (take (ra_hashmap_len a) (ra_hashmap a)))]"

definition field_bytes :: "(u8 \<times> bytes) list \<Rightarrow> bytes" where
  "field_bytes fs = concat (map (\<lambda>(k, e). 0xA1 # k # e) fs)"

definition adv_bytes :: "resource_adv \<Rightarrow> bytes" where
  "adv_bytes a = 0x8B # field_bytes (adv_fields a)"

lemma adv_bytes_bound:
  assumes "adv_wf a" shows "length (adv_bytes a) \<le> 191"
proof -
  have u: "length (uint_bytes v) \<le> 5" for v by (simp add: uint_bytes_def)
  have f: "length (uint_bytes (ucast (resource_flags_to_byte (ra_flags a)))) = 1"
    using resource_flags_small by (simp add: uint_bytes_def)
  show ?thesis
    using assms u [of "ra_transfer_size a"] u [of "ra_data_size a"] u [of "ra_num_parts a"] u [of "ra_segment_index a"]
      u [of "ra_total_segments a"] f
    by (simp add: adv_bytes_def field_bytes_def adv_fields_def bin_bytes_def adv_wf_def)
qed

lemma adv_pack_eq:
  assumes "adv_wf a"
  shows "length (adv_bytes a) \<le> length out \<Longrightarrow> adv_pack a out = (Inr (length (adv_bytes a)), overwrite out 0 (adv_bytes a))"
    and "length out < length (adv_bytes a) \<Longrightarrow> \<exists>out'. adv_pack a out = (Inl ResOutputTooSmall, out')"
proof -
  let ?fs = "[mp_put [0x8B], mp_key 0x74, mp_uint (ra_transfer_size a), mp_key 0x64, mp_uint (ra_data_size a),
         mp_key 0x6E, mp_uint (ra_num_parts a), mp_key 0x68, mp_bin (ra_resource_hash a),
         mp_key 0x72, mp_bin (ra_random_hash a), mp_key 0x6F, mp_bin (ra_original_hash a),
         mp_key 0x69, mp_uint (ra_segment_index a), mp_key 0x6C, mp_uint (ra_total_segments a), mp_key 0x71,
         (if ra_request_id_len a = 0 then mp_nil else mp_bin (take (ra_request_id_len a) (ra_request_id a))),
         mp_key 0x66, mp_uint (ucast (resource_flags_to_byte (ra_flags a))),
         mp_key 0x6D, mp_bin (take (ra_hashmap_len a) (ra_hashmap a))]"
  let ?es = "[0x8B] # concat (map (\<lambda>(k, e). [[0xA1, k], e]) (adv_fields a))"
  have "list_all2 writes ?fs ?es"
    using assms by (auto simp: adv_fields_def writes_put writes_key writes_uint writes_nil adv_wf_def intro!: writes_bin)
  from writes_all [OF this] have w: "writes (mp_all ?fs) (concat ?es)" .
  have c: "concat ?es = adv_bytes a"
    by (simp add: adv_bytes_def field_bytes_def adv_fields_def)
  have u: "length [] + length (concat ?es) \<le> USIZE_MAX"
    using adv_bytes_bound [OF assms] unfolding c by (simp add: USIZE_MAX_def)
  have o: "overwrite out 0 [] = out" for out :: bytes by (simp add: overwrite_def)
  have g: "\<not> (ra_hashmap_len a > length (ra_hashmap a) \<or> ra_request_id_len a > length (ra_request_id a))"
    using assms by (simp add: adv_wf_def)
  note d = writesD [OF w _ u, of out, unfolded o c]
  show "length (adv_bytes a) \<le> length out \<Longrightarrow> adv_pack a out = (Inr (length (adv_bytes a)), overwrite out 0 (adv_bytes a))"
    using d(1) g unfolding adv_pack_def by (simp only: if_False list.size append_Nil) simp
  show "length out < length (adv_bytes a) \<Longrightarrow> \<exists>out'. adv_pack a out = (Inl ResOutputTooSmall, out')"
    using d(2) g unfolding adv_pack_def by (simp only: if_False list.size append_Nil) fastforce
qed

text \<open>\<open>reads k e a a'\<close>: under key \<open>k\<close>, the bytes \<open>e\<close> turn the advertisement \<open>a\<close> into \<open>a'\<close>.\<close>

definition reads :: "u8 \<Rightarrow> bytes \<Rightarrow> resource_adv \<Rightarrow> resource_adv \<Rightarrow> bool" where
  "reads k e a a' \<longleftrightarrow> (\<forall>d pos xs. at d pos (e @ xs) \<longrightarrow> parse_value d k a pos = Inr (a', pos + length e))"

lemma reads_uint:
  "reads 0x74 (uint_bytes v) a (a\<lparr>ra_transfer_size := v\<rparr>)" "reads 0x64 (uint_bytes v) a (a\<lparr>ra_data_size := v\<rparr>)"
  "reads 0x6E (uint_bytes v) a (a\<lparr>ra_num_parts := v\<rparr>)" "reads 0x69 (uint_bytes v) a (a\<lparr>ra_segment_index := v\<rparr>)"
  "reads 0x6C (uint_bytes v) a (a\<lparr>ra_total_segments := v\<rparr>)"
  by (simp_all add: reads_def parse_value_def rd_uint_at)

lemma reads_hash:
  "length s = 32 \<Longrightarrow> reads 0x68 (bin_bytes s) a (a\<lparr>ra_resource_hash := s\<rparr>)"
  "length s = 4 \<Longrightarrow> reads 0x72 (bin_bytes s) a (a\<lparr>ra_random_hash := s\<rparr>)"
  "length s = 32 \<Longrightarrow> reads 0x6F (bin_bytes s) a (a\<lparr>ra_original_hash := s\<rparr>)"
  by (simp_all add: reads_def parse_value_def rd_exact_def RANDOM_HASH_SIZE_def rd_bin_at)

lemma reads_request_id:
  assumes "length s \<le> 32" "ra_request_id a = replicate 32 0" "ra_request_id_len a = 0"
  shows "reads 0x71 (if s = [] then [0xC0] else bin_bytes s) a
    (a\<lparr>ra_request_id := s @ replicate (32 - length s) 0, ra_request_id_len := length s\<rparr>)"
proof (cases "s = []")
  case True
  then show ?thesis using assms rd_peek_at by (simp add: reads_def parse_value_def)
next
  case False
  have "rd_peek d pos = Some 0xC4" if "at d pos (bin_bytes s @ xs)" for d pos xs
    using that rd_peek_at [of d pos "0xC4"] by (simp add: bin_bytes_def)
  then show ?thesis
    using False rd_bin_at assms by (simp add: reads_def parse_value_def REQUEST_ID_MAX_def overwrite_def)
qed

lemma reads_flags: "reads 0x66 (uint_bytes (ucast (resource_flags_to_byte f))) a (a\<lparr>ra_flags := f\<rparr>)"
proof -
  let ?v = "ucast (resource_flags_to_byte f) :: u32"
  have "\<not> ?v > 0xFF" using resource_flags_small [of f] by (simp add: word_less_nat_alt)
  moreover have "(ucast ?v :: u8) = resource_flags_to_byte f" by (rule bit_word_eqI) (simp add: bit_simps)
  ultimately show ?thesis
    using rd_uint_at [of _ _ ?v] resource_flags_roundtrip [of f] by (simp add: reads_def parse_value_def)
qed

lemma reads_hashmap:
  assumes "length s \<le> 32" "length s mod 4 = 0" "ra_hashmap a = replicate 32 0"
  shows "reads 0x6D (bin_bytes s) a (a\<lparr>ra_hashmap := s @ replicate (32 - length s) 0, ra_hashmap_len := length s\<rparr>)"
  using rd_bin_at assms by (simp add: reads_def parse_value_def adv_consts overwrite_def)

text \<open>Fields with what each makes of the advertisement: they are taken up one after the other.\<close>

fun fields_ok :: "(u8 \<times> bytes \<times> (resource_adv \<Rightarrow> resource_adv)) list \<Rightarrow> resource_adv \<Rightarrow> u16 \<Rightarrow> bool" where
  "fields_ok [] a seen = True"
| "fields_ok ((k, e, f) # fs) a seen \<longleftrightarrow>
     (case key_bit k of None \<Rightarrow> False | Some bt \<Rightarrow> seen AND bt = 0 \<and> reads k e a (f a) \<and> fields_ok fs (f a) (seen OR bt))"

lemma parse_fields_step:
  assumes "at d pos (0xA1 # k # e @ xs)" "key_bit k = Some bt" "seen AND bt = 0" "reads k e a a'"
  shows "parse_field d (a, seen, pos) = Inr (a', seen OR bt, pos + 2 + length e)" "at d (pos + 2 + length e) xs"
proof -
  have at: "at d (pos + 1) (k # e @ xs)" "at d (pos + 2) (e @ xs)"
    using at_Cons [OF assms(1)] at_Cons [OF at_Cons [OF assms(1)]] by simp_all
  then show "at d (pos + 2 + length e) xs" using at_append by blast
  have "parse_value d k a (pos + 2) = Inr (a', pos + 2 + length e)" using assms(4) at(2) unfolding reads_def by blast
  then show "parse_field d (a, seen, pos) = Inr (a', seen OR bt, pos + 2 + length e)"
    using rd_byte_at [OF assms(1)] rd_byte_at [OF at(1)] assms(2,3) by (simp add: parse_field_def)
qed

lemma parse_fields_ok:
  assumes "fields_ok fs a seen" "at d pos (field_bytes (map (\<lambda>(k, e, f). (k, e)) fs) @ xs)"
  shows "parse_fields d (length fs) (a, seen, pos) = Inr (fold (\<lambda>(k, e, f). f) fs a)"
  using assms
proof (induction fs arbitrary: a seen pos)
  case (Cons t fs)
  obtain k e f where t: "t = (k, e, f)" by (rule prod_cases3)
  with Cons.prems(1) obtain bt where bt: "key_bit k = Some bt" "seen AND bt = 0" "reads k e a (f a)"
      "fields_ok fs (f a) (seen OR bt)"
    by (auto split: option.splits)
  have "at d pos (0xA1 # k # e @ field_bytes (map (\<lambda>(k, e, f). (k, e)) fs) @ xs)"
    using Cons.prems(2) by (simp add: field_bytes_def t)
  from parse_fields_step [OF this bt(1-3)] show ?case
    using Cons.IH [OF bt(4)] by (simp add: t)
qed simp

lemma parse_adv_bytes:
  assumes "adv_wf a" shows "adv_parse (adv_bytes a) = Inr a"
proof -
  let ?id = "take (ra_request_id_len a) (ra_request_id a)" and ?hm = "take (ra_hashmap_len a) (ra_hashmap a)"
  define e where "e = (if ?id = [] then [0xC0] else bin_bytes ?id)"
  define fs :: "(u8 \<times> bytes \<times> (resource_adv \<Rightarrow> resource_adv)) list" where "fs =
     [(0x74, uint_bytes (ra_transfer_size a), ra_transfer_size_update (\<lambda>_. ra_transfer_size a)),
      (0x64, uint_bytes (ra_data_size a), ra_data_size_update (\<lambda>_. ra_data_size a)),
      (0x6E, uint_bytes (ra_num_parts a), ra_num_parts_update (\<lambda>_. ra_num_parts a)),
      (0x68, bin_bytes (ra_resource_hash a), ra_resource_hash_update (\<lambda>_. ra_resource_hash a)),
      (0x72, bin_bytes (ra_random_hash a), ra_random_hash_update (\<lambda>_. ra_random_hash a)),
      (0x6F, bin_bytes (ra_original_hash a), ra_original_hash_update (\<lambda>_. ra_original_hash a)),
      (0x69, uint_bytes (ra_segment_index a), ra_segment_index_update (\<lambda>_. ra_segment_index a)),
      (0x6C, uint_bytes (ra_total_segments a), ra_total_segments_update (\<lambda>_. ra_total_segments a)),
      (0x71, e, \<lambda>x. x\<lparr>ra_request_id := ?id @ replicate (32 - length ?id) 0, ra_request_id_len := length ?id\<rparr>),
      (0x66, uint_bytes (ucast (resource_flags_to_byte (ra_flags a))), ra_flags_update (\<lambda>_. ra_flags a)),
      (0x6D, bin_bytes ?hm, \<lambda>x. x\<lparr>ra_hashmap := ?hm @ replicate (32 - length ?hm) 0, ra_hashmap_len := length ?hm\<rparr>)]"
  have w: "length (ra_resource_hash a) = 32" "length (ra_random_hash a) = 4" "length (ra_original_hash a) = 32"
      "length ?id = ra_request_id_len a" "length ?id \<le> 32" "length ?hm = ra_hashmap_len a" "length ?hm \<le> 32"
      "length ?hm mod 4 = 0" "?id @ replicate (32 - length ?id) 0 = ra_request_id a"
      "?hm @ replicate (32 - length ?hm) 0 = ra_hashmap a"
    using assms append_take_drop_id [of "ra_request_id_len a" "ra_request_id a"]
      append_take_drop_id [of "ra_hashmap_len a" "ra_hashmap a"]
    by (simp_all add: adv_wf_def)
  have ok: "fields_ok fs ADV_DEFAULT 0"
  proof -
    have "ra_request_id ADV_DEFAULT = replicate 32 0" "ra_request_id_len ADV_DEFAULT = 0" "ra_hashmap ADV_DEFAULT = replicate 32 0"
      by (simp_all add: ADV_DEFAULT_def)
    then show ?thesis
      unfolding fs_def fields_ok.simps key_bit_def
      by (simp add: reads_uint reads_hash reads_flags w(1-3) reads_request_id [OF w(5), folded e_def] reads_hashmap [OF w(7,8)]
          del: length_take take_eq_Nil)
  qed
  have "map (\<lambda>(k, e, f). (k, e)) fs = adv_fields a"
    using w(4) by (auto simp: fs_def adv_fields_def e_def)
  moreover have "length fs = 11" by (simp add: fs_def)
  moreover have "fold (\<lambda>(k, e, f). f) fs ADV_DEFAULT = a"
    using w(9,10) w(4,6) by (intro resource_adv.equality) (simp_all add: fs_def ADV_DEFAULT_def)
  moreover have at: "at (adv_bytes a) 0 (0x8B # field_bytes (adv_fields a))"
    using adv_bytes_bound [OF assms] by (simp add: at_def adv_bytes_def USIZE_MAX_def)
  ultimately have "parse_fields (adv_bytes a) 11 (ADV_DEFAULT, 0, 0 + 1) = Inr a"
    using parse_fields_ok [OF ok, of "adv_bytes a" "0 + 1" "[]"] at_Cons [OF at] by simp
  then have "parse_bounded (adv_bytes a) = Inr a"
    using rd_byte_at [OF at] by (simp add: parse_bounded_def del: parse_fields.simps)
  then show ?thesis using w(6,7) by (simp add: adv_parse_def adv_consts)
qed

interpretation adv: codec adv_wf adv_bytes "\<lambda>d. case adv_parse d of Inl e \<Rightarrow> None | Inr a \<Rightarrow> Some a"
  by unfold_locales (simp add: parse_adv_bytes)

interpretation res_flags: codec "\<lambda>f. True" resource_flags_to_byte "\<lambda>b. Some (resource_flags_from_byte b)"
  by unfold_locales (simp add: resource_flags_roundtrip)



end
