(* ===== verification/Resource.thy ===== *)
theory Resource
  imports Resource_Adv Link
begin

text \<open>
  Resource transfers (\<^verbatim>\<open>resource.rs\<close>): the sender with its encrypted parts, the receiver that collects,
  reassembles and proves them, part requests, the receive window and the sender's advertisement watchdog.
  Arrays are lists of their fixed length; \<^verbatim>\<open>usize\<close> and the small counters are natural numbers, with the
  casts of the source written out.
\<close>

definition HASHMAP_IS_NOT_EXHAUSTED :: u8 where "HASHMAP_IS_NOT_EXHAUSTED = 0x00"
definition HASHMAP_IS_EXHAUSTED :: u8 where "HASHMAP_IS_EXHAUSTED = 0xFF"
definition PROOF_LEN :: nat where "PROOF_LEN = 64"
definition WINDOW_INITIAL :: nat where "WINDOW_INITIAL = 4"
definition WINDOW_MIN :: nat where "WINDOW_MIN = 2"
definition WINDOW_MAX_SLOW :: nat where "WINDOW_MAX_SLOW = 10"
definition WINDOW_MAX_VERY_SLOW :: nat where "WINDOW_MAX_VERY_SLOW = 4"
definition WINDOW_MAX_FAST :: nat where "WINDOW_MAX_FAST = 75"
definition FAST_RATE_THRESHOLD :: nat where "FAST_RATE_THRESHOLD = 4"
definition VERY_SLOW_RATE_THRESHOLD :: nat where "VERY_SLOW_RATE_THRESHOLD = 2"
definition RATE_FAST :: nat where "RATE_FAST = 6250"
definition RATE_VERY_SLOW :: nat where "RATE_VERY_SLOW = 250"
definition WINDOW_FLEXIBILITY :: nat where "WINDOW_FLEXIBILITY = 4"

definition resource_sdu :: "nat \<Rightarrow> nat" where
  "resource_sdu mtu = mtu - (HEADER_MAXSIZE + 1)"

definition SDU :: nat where "SDU = resource_sdu MTU"
definition TRANSFER_MAX :: nat where "TRANSFER_MAX = MAX_PARTS * SDU"
definition DATA_MAX :: nat where "DATA_MAX = (TRANSFER_MAX - TOKEN_OVERHEAD) - 1 - RANDOM_HASH_SIZE"

definition ADV_OVERHEAD :: nat where "ADV_OVERHEAD = 134"

definition hashmap_max_len :: "nat \<Rightarrow> nat" where
  "hashmap_max_len mdu = (if mdu > ADV_OVERHEAD then (mdu - ADV_OVERHEAD) div MAPHASH_LEN else 0)"

lemma size_values: "SDU = 464" "TRANSFER_MAX = 3712" "DATA_MAX = 3659" "MAX_PARTS = 8" "MAPHASH_LEN = 4"
  "RANDOM_HASH_SIZE = 4" "TOKEN_OVERHEAD = 48"
  by (simp_all add: SDU_def resource_sdu_def TRANSFER_MAX_def DATA_MAX_def adv_consts size_consts TOKEN_OVERHEAD_def)

text \<open>The assertions the source makes at compile time.\<close>

lemma static_assertions: "hashmap_max_len LINK_MDU = 74" "MAX_PARTS \<le> hashmap_max_len LINK_MDU" "TRANSFER_MAX mod 16 = 0"
  by (simp_all add: hashmap_max_len_def ADV_OVERHEAD_def LINK_MDU_def link_mdu_def size_values size_consts)

lemmas window_consts = WINDOW_INITIAL_def WINDOW_MIN_def WINDOW_MAX_SLOW_def WINDOW_MAX_VERY_SLOW_def
  WINDOW_MAX_FAST_def FAST_RATE_THRESHOLD_def VERY_SLOW_RATE_THRESHOLD_def RATE_FAST_def RATE_VERY_SLOW_def
  WINDOW_FLEXIBILITY_def

definition token_len :: "nat \<Rightarrow> nat" where
  "token_len pt_len = 16 + (pt_len div 16 + 1) * 16 + 32"

definition nat_div_ceil :: "nat \<Rightarrow> nat \<Rightarrow> nat" where
  "nat_div_ceil a b = (if a mod b > 0 then a div b + 1 else a div b)"

section \<open>Hashes\<close>

definition get_map_hash :: "crypto \<Rightarrow> bytes \<Rightarrow> bytes \<Rightarrow> bytes" where
  "get_map_hash C part random_hash = take MAPHASH_LEN (cr_sha256 C (part @ random_hash))"

definition compute_resource_hash :: "crypto \<Rightarrow> bytes \<Rightarrow> bytes \<Rightarrow> hash32" where
  "compute_resource_hash C d random_hash = cr_sha256 C (d @ random_hash)"

definition compute_expected_proof :: "crypto \<Rightarrow> bytes \<Rightarrow> hash32 \<Rightarrow> hash32" where
  "compute_expected_proof C d resource_hash = cr_sha256 C (d @ resource_hash)"

section \<open>Part requests\<close>

record part_request =
  pq_wants_more_hashmap :: bool
  pq_last_map_hash :: "bytes option"
  pq_resource_hash :: hash32
  pq_requested :: bytes

definition part_request_parse :: "bytes \<Rightarrow> resource_error + part_request" where
  "part_request_parse d =
     (case d of
        [] \<Rightarrow> Inl InvalidRequest
      | flag # _ \<Rightarrow>
          let wants_more_hashmap = (flag = HASHMAP_IS_EXHAUSTED);
              offset = (if wants_more_hashmap then 1 + MAPHASH_LEN else 1);
              hash_end = offset + 32 in
          if length d < hash_end then Inl InvalidRequest
          else Inr \<lparr>pq_wants_more_hashmap = wants_more_hashmap,
                 pq_last_map_hash = (if wants_more_hashmap then Some (slice 1 (1 + MAPHASH_LEN) d) else None),
                 pq_resource_hash = slice offset hash_end d, pq_requested = drop hash_end d\<rparr>)"

definition chunks_exact :: "nat \<Rightarrow> 'a list \<Rightarrow> 'a list list" where
  "chunks_exact n xs = map (\<lambda>i. slice (i * n) (i * n + n) xs) [0..<length xs div n]"

definition requested_hashes :: "part_request \<Rightarrow> bytes list" where
  "requested_hashes q = chunks_exact MAPHASH_LEN (pq_requested q)"

definition requested_count :: "part_request \<Rightarrow> nat" where
  "requested_count q = length (pq_requested q) div MAPHASH_LEN"

section \<open>The receive window\<close>

record window_state =
  ws_window :: nat
  ws_window_min :: nat
  ws_window_max :: nat
  ws_fast_rate_rounds :: nat
  ws_very_slow_rate_rounds :: nat

definition window_new :: window_state where
  "window_new = \<lparr>ws_window = WINDOW_INITIAL, ws_window_min = WINDOW_MIN, ws_window_max = WINDOW_MAX_SLOW,
     ws_fast_rate_rounds = 0, ws_very_slow_rate_rounds = 0\<rparr>"

definition window_grow :: "window_state \<Rightarrow> nat \<Rightarrow> window_state" where
  "window_grow w rate =
     (let w = (if ws_window w < ws_window_max w
               then let w = w\<lparr>ws_window := ws_window w + 1\<rparr> in
                 if ws_window w - ws_window_min w > WINDOW_FLEXIBILITY - 1
                 then w\<lparr>ws_window_min := ws_window_min w + 1\<rparr> else w
               else w) in
      if rate = 0 then w
      else if rate > RATE_FAST then
        let w = w\<lparr>ws_fast_rate_rounds := ws_fast_rate_rounds w + 1, ws_very_slow_rate_rounds := 0\<rparr> in
        if ws_fast_rate_rounds w \<ge> FAST_RATE_THRESHOLD then w\<lparr>ws_window_max := WINDOW_MAX_FAST\<rparr> else w
      else if rate < RATE_VERY_SLOW then
        let w = w\<lparr>ws_very_slow_rate_rounds := ws_very_slow_rate_rounds w + 1, ws_fast_rate_rounds := 0\<rparr> in
        if ws_very_slow_rate_rounds w \<ge> VERY_SLOW_RATE_THRESHOLD
        then let w = w\<lparr>ws_window_max := WINDOW_MAX_VERY_SLOW\<rparr> in
          if ws_window w > ws_window_max w then w\<lparr>ws_window := ws_window_max w\<rparr> else w
        else w
      else w\<lparr>ws_fast_rate_rounds := 0, ws_very_slow_rate_rounds := 0\<rparr>)"

definition window_shrink :: "window_state \<Rightarrow> window_state" where
  "window_shrink w =
     (let w = (if ws_window w > ws_window_min w then w\<lparr>ws_window := ws_window w - 1\<rparr> else w);
          w = (if ws_window_max w > ws_window_min w then w\<lparr>ws_window_max := ws_window_max w - 1\<rparr> else w) in
      if ws_window_max w - ws_window w > WINDOW_FLEXIBILITY - 1 then w\<lparr>ws_window_max := ws_window_max w - 1\<rparr> else w)"

section \<open>The sender\<close>

definition has_map_hash_collision :: "bytes list \<Rightarrow> bool" where
  "has_map_hash_collision hs = list_ex (\<lambda>i. hs ! i \<in> set (take i hs)) [0..<length hs]"

record outbound_resource =
  or_buf :: bytes
  or_total_size :: u32
  or_data_size :: u32
  or_num_parts :: nat
  or_resource_hash :: hash32
  or_expected_proof :: hash32
  or_random_hash :: bytes
  or_map_hashes :: "bytes list"

definition outbound_zeroed :: outbound_resource where
  "outbound_zeroed = \<lparr>or_buf = replicate TRANSFER_MAX 0, or_total_size = 0, or_data_size = 0, or_num_parts = 0,
     or_resource_hash = replicate 32 0, or_expected_proof = replicate 32 0, or_random_hash = replicate 4 0,
     or_map_hashes = replicate MAX_PARTS (replicate 4 0)\<rparr>"

definition build_into ::
  "crypto \<Rightarrow> outbound_resource \<Rightarrow> bytes \<Rightarrow> bytes \<Rightarrow> bytes \<Rightarrow> bytes \<Rightarrow> (resource_error + unit) \<times> outbound_resource" where
  "build_into C r d keys random_hash iv =
     (if length d > DATA_MAX then (Inl ResTooLarge, r)
      else
        let resource_hash = compute_resource_hash C d random_hash;
            expected_proof = compute_expected_proof C d resource_hash;
            buf = overwrite (overwrite (replicate TRANSFER_MAX 0) 16 random_hash) (16 + RANDOM_HASH_SIZE) d;
            r = r\<lparr>or_buf := buf, or_total_size := 0, or_data_size := 0, or_num_parts := 0\<rparr> in
        case token_encrypt_in_place C keys iv buf (RANDOM_HASH_SIZE + length d) of
          (Inl e, buf) \<Rightarrow> (Inl (ResCrypto e), r\<lparr>or_buf := buf\<rparr>)
        | (Inr tot, buf) \<Rightarrow>
            let r = r\<lparr>or_buf := buf\<rparr>;
                num_parts = nat_div_ceil tot SDU;
                map_hashes = map (\<lambda>i. get_map_hash C (slice (i * SDU) (min ((i + 1) * SDU) tot) buf) random_hash)
                               [0..<num_parts] @ replicate (MAX_PARTS - num_parts) (replicate 4 0) in
            if has_map_hash_collision (take num_parts map_hashes) then (Inl MapHashCollision, r)
            else (Inr (), r\<lparr>or_total_size := of_nat tot, or_data_size := of_nat (length d),
                    or_num_parts := num_parts, or_resource_hash := resource_hash, or_expected_proof := expected_proof,
                    or_random_hash := random_hash, or_map_hashes := map_hashes\<rparr>))"

definition outbound_build :: "crypto \<Rightarrow> bytes \<Rightarrow> bytes \<Rightarrow> bytes \<Rightarrow> bytes \<Rightarrow> resource_error + outbound_resource" where
  "outbound_build C d keys random_hash iv =
     (case build_into C outbound_zeroed d keys random_hash iv of (Inl e, _) \<Rightarrow> Inl e | (Inr _, r) \<Rightarrow> Inr r)"

definition or_part :: "outbound_resource \<Rightarrow> nat \<Rightarrow> bytes option" where
  "or_part r i =
     (if i \<ge> or_num_parts r then None
      else Some (slice (i * SDU) (min ((i + 1) * SDU) (unat (or_total_size r))) (or_buf r)))"

definition advertisement :: "outbound_resource \<Rightarrow> resource_adv" where
  "advertisement r =
     ADV_DEFAULT\<lparr>ra_transfer_size := or_total_size r, ra_data_size := or_data_size r,
       ra_num_parts := of_nat (or_num_parts r), ra_resource_hash := or_resource_hash r,
       ra_random_hash := or_random_hash r, ra_original_hash := or_resource_hash r,
       ra_segment_index := 1, ra_total_segments := 1, ra_flags := RESOURCE_FLAGS_DEFAULT\<lparr>rf_encrypted := True\<rparr>,
       ra_hashmap_len := or_num_parts r * MAPHASH_LEN,
       ra_hashmap := overwrite (ra_hashmap ADV_DEFAULT) 0 (concat (take (or_num_parts r) (or_map_hashes r)))\<rparr>"

definition requested_parts :: "outbound_resource \<Rightarrow> part_request \<Rightarrow> nat list \<times> nat" where
  "requested_parts r q =
     (if pq_resource_hash q \<noteq> or_resource_hash r then (replicate MAX_PARTS 0, 0)
      else let hits = filter (\<lambda>i. or_map_hashes r ! i \<in> set (requested_hashes q)) [0..<or_num_parts r]
           in (overwrite (replicate MAX_PARTS 0) 0 hits, length hits))"

definition outbound_validate_proof :: "outbound_resource \<Rightarrow> bytes \<Rightarrow> bool" where
  "outbound_validate_proof r proof \<longleftrightarrow>
     length proof = PROOF_LEN \<and> take 32 proof = or_resource_hash r \<and> drop 32 proof = or_expected_proof r"

section \<open>The receiver\<close>

datatype inbound_state = Transferring | Assembled | InCorrupt

record inbound_resource =
  in_buf :: bytes
  in_resource_hash :: hash32
  in_random_hash :: bytes
  in_proof :: hash32
  in_transfer_size :: u32
  in_data_size :: u32
  in_data_len :: nat
  in_num_parts :: nat
  in_consecutive_completed :: nat
  in_received :: "bool list"
  in_map_hashes :: "bytes list"
  in_state :: inbound_state
  in_window :: window_state

definition validate_adv :: "resource_adv \<Rightarrow> hash16 option \<Rightarrow> resource_error + bytes list \<times> nat" where
  "validate_adv a expected_response =
     (let f = ra_flags a in
      if rf_compressed f then Inl CompressedUnsupported
      else if rf_has_metadata f then Inl MetadataUnsupported
      else if rf_split f \<or> ra_total_segments a \<noteq> 1 \<or> ra_segment_index a \<noteq> 1 then Inl SplitUnsupported
      else
        let purpose_valid = (case expected_response of
              None \<Rightarrow> \<not> rf_is_request f \<and> \<not> rf_is_response f \<and> ra_request_id_len a = 0
            | Some i \<Rightarrow> \<not> rf_is_request f \<and> rf_is_response f \<and> ra_request_id_len a = 16 \<and> take 16 (ra_request_id a) = i) in
      if \<not> purpose_valid then Inl RequestResponseUnsupported
      else if \<not> rf_encrypted f then Inl EncryptionRequired
      else
        let transfer = unat (ra_transfer_size a); dsize = unat (ra_data_size a) in
      if transfer > TRANSFER_MAX \<or> dsize > DATA_MAX then Inl ResTooLarge
      else if transfer < TOKEN_OVERHEAD + 16 then Inl InvalidAdvertisement
      else if token_len (RANDOM_HASH_SIZE + dsize) \<noteq> transfer then Inl InvalidAdvertisement
      else
        let num_parts = nat_div_ceil transfer SDU in
      if unat (ra_num_parts a) \<noteq> num_parts then Inl InvalidAdvertisement
      else if ra_hashmap_len a \<noteq> num_parts * MAPHASH_LEN then Inl InvalidAdvertisement
      else Inr (map (\<lambda>i. slice (i * MAPHASH_LEN) ((i + 1) * MAPHASH_LEN) (ra_hashmap a)) [0..<num_parts] @
                replicate (MAX_PARTS - num_parts) (replicate 4 0), num_parts))"

definition accept_into :: "inbound_resource \<Rightarrow> resource_adv \<Rightarrow> hash16 option \<Rightarrow> (resource_error + unit) \<times> inbound_resource" where
  "accept_into r a expected =
     (case validate_adv a expected of
        Inl e \<Rightarrow> (Inl e, r)
      | Inr (map_hashes, num_parts) \<Rightarrow>
          (Inr (), r\<lparr>in_buf := replicate TRANSFER_MAX 0, in_resource_hash := ra_resource_hash a,
             in_random_hash := ra_random_hash a, in_proof := replicate 32 0, in_transfer_size := ra_transfer_size a,
             in_data_size := ra_data_size a, in_data_len := 0, in_num_parts := num_parts mod 256,
             in_consecutive_completed := 0, in_received := replicate MAX_PARTS False, in_map_hashes := map_hashes,
             in_state := Transferring, in_window := window_new\<rparr>))"

definition from_advertisement_into :: "inbound_resource \<Rightarrow> resource_adv \<Rightarrow> (resource_error + unit) \<times> inbound_resource" where
  "from_advertisement_into r a = accept_into r a None"

definition from_response_into ::
  "inbound_resource \<Rightarrow> resource_adv \<Rightarrow> hash16 \<Rightarrow> (resource_error + unit) \<times> inbound_resource" where
  "from_response_into r a expected_request_id = accept_into r a (Some expected_request_id)"

definition from_advertisement :: "resource_adv \<Rightarrow> resource_error + inbound_resource" where
  "from_advertisement a =
     (case validate_adv a None of
        Inl e \<Rightarrow> Inl e
      | Inr (map_hashes, num_parts) \<Rightarrow>
          Inr \<lparr>in_buf = replicate TRANSFER_MAX 0, in_resource_hash = ra_resource_hash a,
             in_random_hash = ra_random_hash a, in_proof = replicate 32 0, in_transfer_size = ra_transfer_size a,
             in_data_size = ra_data_size a, in_data_len = 0, in_num_parts = num_parts mod 256,
             in_consecutive_completed = 0, in_received = replicate MAX_PARTS False, in_map_hashes = map_hashes,
             in_state = Transferring, in_window = window_new\<rparr>)"

definition expected_part_len :: "inbound_resource \<Rightarrow> nat \<Rightarrow> nat" where
  "expected_part_len r i =
     (if i + 1 = in_num_parts r then unat (in_transfer_size r) - i * SDU else SDU)"

text \<open>The parts the window covers: from the first missing one on.\<close>

definition window_end :: "inbound_resource \<Rightarrow> nat" where
  "window_end r = min (in_consecutive_completed r + ws_window (in_window r)) (in_num_parts r)"

definition matches_part :: "crypto \<Rightarrow> inbound_resource \<Rightarrow> bytes \<Rightarrow> bool" where
  "matches_part C r part \<longleftrightarrow>
     in_state r \<in> {Transferring, Assembled} \<and>
     list_ex (\<lambda>i. (in_received r ! i \<or> (i \<ge> in_consecutive_completed r \<and> i < window_end r)) \<and>
         in_map_hashes r ! i = get_map_hash C part (in_random_hash r) \<and> length part = expected_part_len r i)
       [0..<in_num_parts r]"

text \<open>The loop that moves the first missing part past the parts received.\<close>

function advance :: "bool list \<Rightarrow> nat \<Rightarrow> nat \<Rightarrow> nat" where
  "advance received tot completed =
     (if completed < tot \<and> received ! completed then advance received tot (completed + 1) else completed)"
  by pat_completeness auto
termination
  by (relation "measure (\<lambda>(received, tot, completed). tot - completed)") auto

declare advance.simps [simp del]

definition receive_part :: "crypto \<Rightarrow> inbound_resource \<Rightarrow> bytes \<Rightarrow> bool \<times> inbound_resource" where
  "receive_part C r part =
     (if in_state r \<noteq> Transferring then (False, r)
      else
        let mh = get_map_hash C part (in_random_hash r) in
        case List.find (\<lambda>i. \<not> in_received r ! i \<and> in_map_hashes r ! i = mh \<and> length part = expected_part_len r i)
               [in_consecutive_completed r..<window_end r] of
          None \<Rightarrow> (False, r)
        | Some i \<Rightarrow>
            let received = (in_received r)[i := True] in
            (True, r\<lparr>in_buf := overwrite (in_buf r) (i * SDU) part, in_received := received,
               in_consecutive_completed := advance received (in_num_parts r) (in_consecutive_completed r)\<rparr>))"

definition is_complete :: "inbound_resource \<Rightarrow> bool" where
  "is_complete r \<longleftrightarrow> in_consecutive_completed r = in_num_parts r"

text \<open>Both loops of the request stop after as many missing parts as the window is wide.\<close>

definition missing_parts :: "inbound_resource \<Rightarrow> nat list" where
  "missing_parts r = take (ws_window (in_window r))
     (filter (\<lambda>i. \<not> in_received r ! i) [in_consecutive_completed r..<window_end r])"

definition build_part_request :: "inbound_resource \<Rightarrow> bytes \<Rightarrow> (resource_error + nat) \<times> bytes" where
  "build_part_request r out =
     (if in_state r \<noteq> Transferring \<or> is_complete r then (Inl InvalidState, out)
      else
        let needed = 1 + 32 + length (missing_parts r) * MAPHASH_LEN in
        if length out < needed then (Inl ResOutputTooSmall, out)
        else (Inr needed, overwrite out 0
               (HASHMAP_IS_NOT_EXHAUSTED # in_resource_hash r @ concat (map (\<lambda>i. in_map_hashes r ! i) (missing_parts r)))))"

definition assemble :: "crypto \<Rightarrow> inbound_resource \<Rightarrow> bytes \<Rightarrow> (resource_error + nat) \<times> inbound_resource" where
  "assemble C r keys =
     (if in_state r \<noteq> Transferring then (Inl InvalidState, r)
      else if \<not> is_complete r then (Inl Incomplete, r)
      else
        let tot = unat (in_transfer_size r) in
        case token_decrypt_in_place C keys (take tot (in_buf r)) of
          (Inl e, blob) \<Rightarrow> (Inl (ResCrypto e), r\<lparr>in_buf := blob @ drop tot (in_buf r), in_state := InCorrupt\<rparr>)
        | (Inr n, blob) \<Rightarrow>
            let r = r\<lparr>in_buf := blob @ drop tot (in_buf r)\<rparr> in
            if n < RANDOM_HASH_SIZE then (Inl ResCorrupt, r\<lparr>in_state := InCorrupt\<rparr>)
            else
              let data_off = 16 + RANDOM_HASH_SIZE; data_len = n - RANDOM_HASH_SIZE;
                  payload = slice data_off (data_off + data_len) (in_buf r) in
              if compute_resource_hash C payload (in_random_hash r) \<noteq> in_resource_hash r
              then (Inl HashMismatch, r\<lparr>in_state := InCorrupt\<rparr>)
              else (Inr data_len, r\<lparr>in_proof := compute_expected_proof C payload (in_resource_hash r),
                      in_data_len := data_len mod 65536, in_state := Assembled\<rparr>))"

definition in_data :: "inbound_resource \<Rightarrow> bytes option" where
  "in_data r =
     (if in_state r \<noteq> Assembled then None
      else let off = 16 + RANDOM_HASH_SIZE in Some (slice off (off + in_data_len r) (in_buf r)))"

definition inbound_build_proof :: "inbound_resource \<Rightarrow> bytes \<Rightarrow> (resource_error + nat) \<times> bytes" where
  "inbound_build_proof r out =
     (if in_state r \<noteq> Assembled then (Inl InvalidState, out)
      else if length out < PROOF_LEN then (Inl ResOutputTooSmall, out)
      else (Inr PROOF_LEN, overwrite out 0 (in_resource_hash r @ in_proof r)))"

section \<open>The advertisement watchdog\<close>

definition MAX_ADV_RETRIES :: nat where "MAX_ADV_RETRIES = 4"
definition ADV_PROCESSING_GRACE_MS :: u64 where "ADV_PROCESSING_GRACE_MS = 1000"
definition TRAFFIC_TIMEOUT_FACTOR :: u64 where "TRAFFIC_TIMEOUT_FACTOR = 6"

datatype watchdog_action = WdWait | WdResend | WdFailed

record adv_watchdog =
  aw_marked_ms :: u64
  aw_retries :: nat
  aw_concluded :: bool

definition watchdog_new :: "u64 \<Rightarrow> adv_watchdog" where
  "watchdog_new sent_at_ms = \<lparr>aw_marked_ms = sent_at_ms, aw_retries = 0, aw_concluded = False\<rparr>"

definition deadline_ms :: "u64 \<Rightarrow> u64" where
  "deadline_ms rtt_ms = sat_add (sat_mul rtt_ms TRAFFIC_TIMEOUT_FACTOR) ADV_PROCESSING_GRACE_MS"

definition request_seen :: "adv_watchdog \<Rightarrow> adv_watchdog" where
  "request_seen w = w\<lparr>aw_concluded := True\<rparr>"

definition watchdog_poll :: "adv_watchdog \<Rightarrow> u64 \<Rightarrow> u64 \<Rightarrow> watchdog_action \<times> adv_watchdog" where
  "watchdog_poll w now_ms rtt_ms =
     (if aw_concluded w \<or> sat_sub now_ms (aw_marked_ms w) \<le> deadline_ms rtt_ms then (WdWait, w)
      else if aw_retries w < MAX_ADV_RETRIES
      then (WdResend, w\<lparr>aw_retries := aw_retries w + 1, aw_marked_ms := now_ms\<rparr>)
      else (WdFailed, w\<lparr>aw_concluded := True\<rparr>))"

end
