(* ===== verification/Resource_Props.thy ===== *)
theory Resource_Props
  imports Resource
begin

text \<open>
  Resource transfers work: the receive window stays within its bounds, advertisement retries end, a
  transfer completes and delivers its payload whatever has arrived before, and no payload is exposed that
  does not carry the advertised hash.
\<close>

section \<open>The window\<close>

text \<open>The window never closes and never outgrows its ceiling.\<close>

definition window_inv :: "window_state \<Rightarrow> bool" where
  "window_inv w \<longleftrightarrow> 2 \<le> ws_window w \<and> ws_window w \<le> ws_window_max w \<and> ws_window_max w \<le> 75 \<and>
     2 \<le> ws_window_min w \<and> ws_window_min w \<le> 72"

datatype window_event = WGrow nat | WShrink

fun window_step :: "window_state \<Rightarrow> window_event \<Rightarrow> window_state" where
  "window_step w (WGrow rate) = window_grow w rate"
| "window_step w WShrink = window_shrink w"

lemma window_inv_step: "window_inv w \<Longrightarrow> window_inv (window_step w e)"
  by (cases e) (auto simp: window_inv_def window_grow_def window_shrink_def Let_def window_consts)

lemma window_inv_run: "window_inv w \<Longrightarrow> window_inv (foldl window_step w es)"
  by (induction es arbitrary: w) (simp_all add: window_inv_step)

text \<open>C18. The receive window stays usable: from its initial value on, however the host grows it at whatever
  rates and shrinks it after timeouts, it always covers at least two parts and never more than its
  ceiling, which never exceeds the fast ceiling of 75.\<close>

theorem receive_window_bounded:
  "let w = foldl window_step window_new es in
     2 \<le> ws_window w \<and> ws_window w \<le> ws_window_max w \<and> ws_window_max w \<le> WINDOW_MAX_FAST \<and> ws_window_min w \<le> 72"
  using window_inv_run [of window_new es] by (simp add: window_inv_def window_new_def window_consts Let_def)

section \<open>The watchdog\<close>

fun watchdog_run :: "adv_watchdog \<Rightarrow> (u64 \<times> u64) list \<Rightarrow> watchdog_action list" where
  "watchdog_run w [] = []"
| "watchdog_run w ((now, rtt) # ps) = (case watchdog_poll w now rtt of (a, w) \<Rightarrow> a # watchdog_run w ps)"

lemma watchdog_concluded: "aw_concluded w \<Longrightarrow> set (watchdog_run w ps) \<subseteq> {WdWait}"
  by (induction ps) (auto simp: watchdog_poll_def)

lemma watchdog_counts:
  "aw_retries w \<le> 4 \<Longrightarrow>
   length (filter (\<lambda>a. a = WdResend) (watchdog_run w ps)) \<le> 4 - aw_retries w \<and>
   length (filter (\<lambda>a. a = WdFailed) (watchdog_run w ps)) \<le> 1"
proof (induction ps arbitrary: w)
  case (Cons p ps)
  obtain now rtt where p: "p = (now, rtt)" by fastforce
  let ?w = "w\<lparr>aw_concluded := True\<rparr>"
  have c: "filter (\<lambda>a. a = WdResend) (watchdog_run ?w ps) = []" "filter (\<lambda>a. a = WdFailed) (watchdog_run ?w ps) = []"
    using watchdog_concluded [of ?w ps] by (auto simp: filter_empty_conv)
  show ?case
    using Cons.IH [of w] Cons.IH [of "w\<lparr>aw_retries := aw_retries w + 1, aw_marked_ms := now\<rparr>"] Cons.prems c
    by (auto simp: p watchdog_poll_def MAX_ADV_RETRIES_def)
qed simp

text \<open>Polls spaced beyond the deadline.\<close>

fun overdue :: "u64 \<Rightarrow> (u64 \<times> u64) list \<Rightarrow> bool" where
  "overdue marked [] \<longleftrightarrow> True"
| "overdue marked ((now, rtt) # ps) \<longleftrightarrow> deadline_ms rtt < sat_sub now marked \<and> overdue now ps"

lemma watchdog_overdue:
  "overdue (aw_marked_ms w) ps \<Longrightarrow> \<not> aw_concluded w \<Longrightarrow> aw_retries w \<le> 4 \<Longrightarrow> length ps = 5 - aw_retries w \<Longrightarrow>
   watchdog_run w ps = replicate (4 - aw_retries w) WdResend @ [WdFailed]"
proof (induction ps arbitrary: w)
  case (Cons p ps)
  obtain now rtt where p: "p = (now, rtt)" by fastforce
  show ?case
  proof (cases "aw_retries w < 4")
    case True
    then have "4 - aw_retries w = Suc (4 - Suc (aw_retries w))" by simp
    then show ?thesis
      using Cons.IH [of "w\<lparr>aw_retries := aw_retries w + 1, aw_marked_ms := now\<rparr>"] Cons.prems True
      by (simp add: p watchdog_poll_def MAX_ADV_RETRIES_def not_le)
  next
    case False
    then show ?thesis using Cons.prems by (simp add: p watchdog_poll_def MAX_ADV_RETRIES_def not_le)
  qed
qed simp

text \<open>C19. The sender's advertisement retries end: whatever the polls, at most four resends are asked for and
  failure is reported at most once; and when no request is ever seen and each poll comes after its
  deadline, five polls give exactly four resends and then the failure.\<close>

theorem watchdog_gives_up:
  "length (filter (\<lambda>a. a = WdResend) (watchdog_run (watchdog_new t) ps)) \<le> MAX_ADV_RETRIES \<and>
   length (filter (\<lambda>a. a = WdFailed) (watchdog_run (watchdog_new t) ps)) \<le> 1 \<and>
   (overdue t qs \<and> length qs = MAX_ADV_RETRIES + 1 \<longrightarrow>
      watchdog_run (watchdog_new t) qs = replicate MAX_ADV_RETRIES WdResend @ [WdFailed])"
  using watchdog_counts [of "watchdog_new t" ps] watchdog_overdue [of "watchdog_new t" qs]
  by (simp add: watchdog_new_def MAX_ADV_RETRIES_def)

theorem watchdog_gives_up_witness:
  "watchdog_run (watchdog_new 0) [(2000, 0), (4000, 0), (6000, 0), (8000, 0), (10000, 0)] =
     [WdResend, WdResend, WdResend, WdResend, WdFailed]"
proof -
  have "overdue 0 [(2000, 0), (4000, 0), (6000, 0), (8000, 0), (10000, 0)]"
    by (simp add: deadline_ms_def ADV_PROCESSING_GRACE_MS_def TRAFFIC_TIMEOUT_FACTOR_def sat_sub_def sat_mul_def sat_add_def)
  then show ?thesis
    using watchdog_gives_up [of 0 "[]" "[(2000, 0), (4000, 0), (6000, 0), (8000, 0), (10000, 0)]"]
    by (simp add: MAX_ADV_RETRIES_def numeral_eq_Suc)
qed

section \<open>What the sender holds\<close>

lemma nat_div_ceil_bounds:
  assumes "0 < b" shows "a \<le> nat_div_ceil a b * b" "0 < a \<Longrightarrow> (nat_div_ceil a b - 1) * b < a" "0 < a \<Longrightarrow> 0 < nat_div_ceil a b"
proof -
  have a: "a = a div b * b + a mod b" by simp
  have m: "a mod b < b" using assms by simp
  show "a \<le> nat_div_ceil a b * b"
  proof (cases "a mod b = 0")
    case False
    then have "nat_div_ceil a b * b = a div b * b + b" by (simp add: nat_div_ceil_def)
    then show ?thesis using a m by linarith
  qed (use a in \<open>simp add: nat_div_ceil_def\<close>)
  show "0 < a \<Longrightarrow> 0 < nat_div_ceil a b"
    by (cases "a mod b = 0") (use a in \<open>auto simp: nat_div_ceil_def div_greater_zero_iff dvd_imp_le\<close>)
  show "(nat_div_ceil a b - 1) * b < a" if "0 < a"
  proof (cases "a mod b = 0")
    case True
    then have "a = a div b * b" using a by simp
    moreover have "0 < a div b" using calculation that by (cases "a div b") auto
    ultimately show ?thesis using True assms by (cases "a div b") (auto simp: nat_div_ceil_def)
  next
    case False
    then have "(nat_div_ceil a b - 1) * b = a div b * b" "0 < a mod b" by (simp_all add: nat_div_ceil_def)
    then show ?thesis using a by linarith
  qed
qed

definition piece :: "bytes \<Rightarrow> nat \<Rightarrow> bytes" where
  "piece blob i = slice (i * 464) (min ((i + 1) * 464) (length blob)) blob"

text \<open>The sender of the blob \<open>blob\<close> for the payload \<open>d\<close>.\<close>

definition sends :: "crypto \<Rightarrow> bytes \<Rightarrow> bytes \<Rightarrow> bytes \<Rightarrow> outbound_resource \<Rightarrow> bool" where
  "sends C blob d rh s \<longleftrightarrow> length d \<le> 3659 \<and> length rh = 4 \<and> length blob = token_len (4 + length d) \<and>
     take (length blob) (or_buf s) = blob \<and> or_total_size s = of_nat (length blob) \<and> or_data_size s = of_nat (length d) \<and>
     or_num_parts s = nat_div_ceil (length blob) 464 \<and> or_resource_hash s = compute_resource_hash C d rh \<and>
     or_expected_proof s = compute_expected_proof C d (or_resource_hash s) \<and> or_random_hash s = rh \<and>
     take (or_num_parts s) (or_map_hashes s) = map (\<lambda>i. get_map_hash C (piece blob i) rh) [0..<or_num_parts s] \<and>
     distinct (take (or_num_parts s) (or_map_hashes s))"

lemma sendsD:
  assumes "sends C blob d rh s"
  shows "length d \<le> 3659" "length rh = 4" "length blob = token_len (4 + length d)" "take (length blob) (or_buf s) = blob"
    "or_num_parts s = nat_div_ceil (length blob) 464" "or_resource_hash s = compute_resource_hash C d rh"
    "or_expected_proof s = compute_expected_proof C d (or_resource_hash s)" "or_random_hash s = rh"
    "take (or_num_parts s) (or_map_hashes s) = map (\<lambda>i. get_map_hash C (piece blob i) rh) [0..<or_num_parts s]"
    "distinct (take (or_num_parts s) (or_map_hashes s))"
  using assms unfolding sends_def by - (elim conjE, assumption)+

lemma token_len_padded: "48 + length (padded p) = token_len (length p)"
proof -
  have "n + (16 - n mod 16) = (n div 16 + 1) * 16" for n :: nat by presburger
  then show ?thesis by (simp add: length_padded token_len_def)
qed

lemma token_len_bounds: "n \<le> 3663 \<Longrightarrow> token_len n \<le> 3712 \<and> 64 \<le> token_len n"
  by (simp add: token_len_def)

lemma sends_bounds:
  assumes "sends C blob d rh s"
  shows "64 \<le> length blob" "length blob \<le> 3712" "1 \<le> or_num_parts s" "or_num_parts s \<le> 8" "unat (or_total_size s) = length blob"
    "length blob \<le> or_num_parts s * 464" "(or_num_parts s - 1) * 464 < length blob" "unat (or_data_size s) = length d"
proof -
  have l: "64 \<le> length blob" "length blob \<le> 3712" "length d \<le> 3659"
    using assms token_len_bounds [of "4 + length d"] by (simp_all add: sends_def)
  have n: "or_num_parts s = nat_div_ceil (length blob) 464" using assms by (simp add: sends_def)
  show "64 \<le> length blob" "length blob \<le> 3712" by (fact l)+
  show b: "length blob \<le> or_num_parts s * 464" "(or_num_parts s - 1) * 464 < length blob" "1 \<le> or_num_parts s"
    unfolding n using nat_div_ceil_bounds [of 464 "length blob"] l(1) by linarith+
  show "or_num_parts s \<le> 8" using b l by linarith
  show "unat (or_total_size s) = length blob" "unat (or_data_size s) = length d"
    using assms l by (simp_all add: sends_def unat_of_nat)
qed

lemma no_collision_distinct: "\<not> has_map_hash_collision hs \<Longrightarrow> distinct hs"
proof -
  assume a: "\<not> has_map_hash_collision hs"
  have "hs ! i \<noteq> hs ! j" if "i < length hs" "j < i" for i j
  proof
    assume "hs ! i = hs ! j"
    then have "hs ! i \<in> set (take i hs)" using that by (auto simp: in_set_conv_nth intro!: exI [of _ j])
    then show False using a that by (auto simp: has_map_hash_collision_def list_ex_iff)
  qed
  then show "distinct hs" unfolding distinct_conv_nth by (metis linorder_neqE_nat)
qed

lemma build_encrypts:
  assumes laws: "hmac_law C" "aes_law C" and len: "length rh = 4" "length iv = 16" and d: "length d \<le> 3659"
  shows "length (token_of C keys iv (rh @ d)) = token_len (4 + length d)"
    "\<exists>rest. token_encrypt_in_place C keys iv (overwrite (overwrite (replicate 3712 0) 16 rh) (16 + 4) d) (4 + length d) =
      (Inr (length (token_of C keys iv (rh @ d))), token_of C keys iv (rh @ d) @ rest)"
proof -
  let ?p = "rh @ d" and ?blob = "token_of C keys iv (rh @ d)"
  let ?buf = "overwrite (overwrite (replicate 3712 0) 16 rh) (16 + 4) d"
  show bl: "length ?blob = token_len (4 + length d)"
    using length_token_of [OF laws len(2), of keys ?p] token_len_padded [of ?p] len(1) by simp
  have b: "length ?buf = 3712" "slice 16 (16 + length ?p) ?buf = ?p"
    using len(1) d by (simp_all add: overwrite_def slice_def min_def)
  have "token_encrypt_in_place C keys iv ?buf (length ?p) = token_encrypt C 3712 ?p keys iv ?buf"
    by (rule token_in_place_equivalent [OF b(2) refl])
      (use padded_blocks(3) [of ?p] len(1) d in \<open>simp_all add: USIZE_MAX_def\<close>)
  also have "\<dots> = (Inr (length ?blob), overwrite ?buf 0 ?blob)"
    using length_token_of [OF laws len(2), of keys ?p] bl b(1) token_len_bounds [of "4 + length d"] d by (simp add: token_encrypt_eq)
  finally show "\<exists>rest. token_encrypt_in_place C keys iv ?buf (4 + length d) = (Inr (length ?blob), ?blob @ rest)"
    using len(1) by (simp add: overwrite_def [of _ 0])
qed

lemma build_into_sends:
  assumes laws: "hmac_law C" "aes_law C" and len: "length rh = 4" "length iv = 16"
    and ok: "build_into C s0 d keys rh iv = (Inr (), s)"
  shows "sends C (token_of C keys iv (rh @ d)) d rh s"
proof -
  let ?blob = "token_of C keys iv (rh @ d)"
  have d: "length d \<le> 3659" using ok by (auto simp: build_into_def size_values split: if_splits)
  note bl = build_encrypts(1) [OF laws len d]
  obtain rest where e: "token_encrypt_in_place C keys iv (overwrite (overwrite (replicate 3712 0) 16 rh) (16 + 4) d) (4 + length d) =
      (Inr (length ?blob), ?blob @ rest)"
    using build_encrypts(2) [OF laws len d] by blast
  let ?n = "nat_div_ceil (length ?blob) 464"
  have part: "slice (i * 464) (min ((i + 1) * 464) (length ?blob)) (?blob @ rest) = piece ?blob i" for i
    by (simp add: piece_def)
  have t: "take ?n (map (\<lambda>i. get_map_hash C (piece ?blob i) rh) [0..<?n] @ replicate (8 - ?n) (replicate 4 0)) =
      map (\<lambda>i. get_map_hash C (piece ?blob i) rh) [0..<?n]" by simp
  have tk: "take (token_len (4 + length d)) (?blob @ rest) = ?blob" unfolding bl [of keys, symmetric] by simp
  show ?thesis
    using ok d no_collision_distinct unfolding build_into_def size_values Let_def e prod.case sum.case part t
    by (auto simp: sends_def tk len(1) bl split: if_splits)
qed

text \<open>A payload that fits one part has no map hashes that could collide, so that building cannot fail.\<close>

lemma build_into_one_part:
  assumes laws: "hmac_law C" "aes_law C" and len: "length rh = 4" "length iv = 16" and d: "length d \<le> 396"
  shows "fst (build_into C s0 d keys rh iv) = Inr () \<and> or_num_parts (snd (build_into C s0 d keys rh iv)) = 1"
proof -
  let ?blob = "token_of C keys iv (rh @ d)"
  have d': "length d \<le> 3659" using d by simp
  obtain rest where e: "token_encrypt_in_place C keys iv (overwrite (overwrite (replicate 3712 0) 16 rh) (16 + 4) d) (4 + length d) =
      (Inr (length ?blob), ?blob @ rest)"
    using build_encrypts(2) [OF laws len d'] by blast
  have "64 \<le> length ?blob" "length ?blob \<le> 464" using build_encrypts(1) [OF laws len d'] d by (simp_all add: token_len_def)
  then have "nat_div_ceil (length ?blob) 464 = 1" by (cases "length ?blob = 464") (auto simp: nat_div_ceil_def)
  then show ?thesis
    unfolding build_into_def size_values Let_def e prod.case sum.case using d by (simp add: has_map_hash_collision_def)
qed

lemma sends_part:
  assumes "sends C blob d rh s" "i < or_num_parts s"
  shows "or_part s i = Some (piece blob i)" "or_map_hashes s ! i = get_map_hash C (piece blob i) rh"
proof -
  have "piece (take n xs) i = slice (i * 464) (min ((i + 1) * 464) n) xs" if "n \<le> length xs" for n and xs :: bytes
    using that by (simp add: piece_def slice_def drop_take min_def)
  moreover note sendsD(4) [OF assms(1)]
  moreover have "length blob \<le> length (or_buf s)" using arg_cong [OF calculation(2), of length] by simp
  ultimately have "piece blob i = slice (i * 464) (min ((i + 1) * 464) (length blob)) (or_buf s)" by metis
  then show "or_part s i = Some (piece blob i)"
    using assms(2) sends_bounds(5) [OF assms(1)] by (simp add: or_part_def size_values)
  from arg_cong [OF sendsD(9) [OF assms(1)], of "\<lambda>xs. xs ! i"] show "or_map_hashes s ! i = get_map_hash C (piece blob i) rh"
    using assms(2) by simp
qed

lemma sends_hashes_differ:
  assumes "sends C blob d rh s" "i < or_num_parts s" "j < or_num_parts s"
  shows "get_map_hash C (piece blob i) rh = get_map_hash C (piece blob j) rh \<longleftrightarrow> i = j"
proof -
  have "distinct (map (\<lambda>i. get_map_hash C (piece blob i) rh) [0..<or_num_parts s])"
    using sendsD(9,10) [OF assms(1)] by simp
  then have "inj_on (\<lambda>i. get_map_hash C (piece blob i) rh) {0..<or_num_parts s}" by (simp add: distinct_map)
  then show ?thesis using assms(2,3) by (auto dest: inj_onD)
qed

lemma length_piece:
  assumes "sends C blob d rh s" "i < or_num_parts s"
  shows "length (piece blob i) = (if i + 1 = or_num_parts s then length blob - i * 464 else 464)"
    "i * 464 + length (piece blob i) \<le> length blob"
proof -
  have "i * 464 < length blob" "i + 1 < or_num_parts s \<Longrightarrow> (i + 1) * 464 < length blob"
    "i + 1 = or_num_parts s \<Longrightarrow> length blob \<le> (i + 1) * 464"
    using sends_bounds(6,7) [OF assms(1)] assms(2) mult_le_mono1 [of i "or_num_parts s - 1" 464]
      mult_le_mono1 [of "i + 1" "or_num_parts s - 1" 464] by auto
  then show "length (piece blob i) = (if i + 1 = or_num_parts s then length blob - i * 464 else 464)"
      "i * 464 + length (piece blob i) \<le> length blob"
    using assms(2) by (auto simp: piece_def)
qed

section \<open>The receiver collects the sender's parts\<close>

definition collects :: "crypto \<Rightarrow> bytes \<Rightarrow> bytes \<Rightarrow> bytes \<Rightarrow> outbound_resource \<Rightarrow> inbound_resource \<Rightarrow> bool" where
  "collects C blob d rh s r \<longleftrightarrow>
     in_state r = Transferring \<and> length (in_buf r) = 3712 \<and> in_resource_hash r = or_resource_hash s \<and> in_random_hash r = rh \<and>
     in_transfer_size r = or_total_size s \<and> in_num_parts r = or_num_parts s \<and> length (in_received r) = 8 \<and>
     (\<forall>i < or_num_parts s. in_map_hashes r ! i = get_map_hash C (piece blob i) rh) \<and> window_inv (in_window r) \<and>
     in_consecutive_completed r \<le> or_num_parts s \<and>
     (\<forall>i < in_consecutive_completed r. in_received r ! i) \<and>
     (in_consecutive_completed r < or_num_parts s \<longrightarrow> \<not> in_received r ! in_consecutive_completed r) \<and>
     (\<forall>i < or_num_parts s. in_received r ! i \<longrightarrow> slice (i * 464) (i * 464 + length (piece blob i)) (in_buf r) = piece blob i)"

lemma advance_spec:
  "c \<le> n \<Longrightarrow> \<forall>i < c. rs ! i \<Longrightarrow> c \<le> advance rs n c \<and> advance rs n c \<le> n \<and> (\<forall>i < advance rs n c. rs ! i) \<and>
     (advance rs n c < n \<longrightarrow> \<not> rs ! advance rs n c)"
proof (induction rs n c rule: advance.induct)
  case (1 rs n c)
  show ?case
  proof (cases "c < n \<and> rs ! c")
    case True
    then have "advance rs n c = advance rs n (c + 1)" by (simp add: advance.simps [of rs n c])
    then show ?thesis using 1 True less_Suc_eq by force
  next
    case False
    then have "advance rs n c = c" using advance.simps [of rs n c] by metis
    then show ?thesis using 1 False by auto
  qed
qed

lemma slice_overwrite_same: "i + length p \<le> length b \<Longrightarrow> slice i (i + length p) (overwrite b i p) = p"
  by (simp add: slice_def overwrite_def)

lemma slice_overwrite_other:
  assumes "i + length p \<le> length b" "x \<le> y" "y \<le> i \<or> i + length p \<le> x"
  shows "slice x y (overwrite b i p) = slice x y b"
  using assms(3)
proof
  assume "y \<le> i"
  then show ?thesis using assms by (simp add: slice_def overwrite_def min_def drop_take)
next
  assume "i + length p \<le> x"
  then show ?thesis using assms by (simp add: slice_def overwrite_def)
qed

lemma find_one: "List.find (\<lambda>i. i = j \<and> p) xs = (if j \<in> set xs \<and> p then Some j else None)"
  by (induction xs) auto

lemma receive_part_sent:
  assumes s: "sends C blob d rh s" and c: "collects C blob d rh s r" and j: "j < or_num_parts s"
  shows "receive_part C r (piece blob j) =
    (if in_consecutive_completed r \<le> j \<and> j < window_end r \<and> \<not> in_received r ! j
     then (True, r\<lparr>in_buf := overwrite (in_buf r) (j * 464) (piece blob j), in_received := (in_received r)[j := True],
       in_consecutive_completed := advance ((in_received r)[j := True]) (or_num_parts s) (in_consecutive_completed r)\<rparr>)
     else (False, r))"
proof -
  let ?P = "\<lambda>i. \<not> in_received r ! i \<and> in_map_hashes r ! i = get_map_hash C (piece blob j) (in_random_hash r) \<and>
    length (piece blob j) = expected_part_len r i"
  have r: "in_state r = Transferring" "in_num_parts r = or_num_parts s" "in_random_hash r = rh"
      "in_transfer_size r = or_total_size s" "\<And>i. i < or_num_parts s \<Longrightarrow> in_map_hashes r ! i = get_map_hash C (piece blob i) rh"
    using c by (simp_all add: collects_def)
  have "?P i \<longleftrightarrow> i = j \<and> \<not> in_received r ! j" if "i \<in> set [in_consecutive_completed r..<window_end r]" for i
  proof -
    have i: "i < or_num_parts s" using that r(2) by (simp add: window_end_def)
    show ?thesis
      using sends_hashes_differ [OF s i j] r(5) [OF i] length_piece(1) [OF s j] sends_bounds(5) [OF s]
      by (auto simp: expected_part_len_def r size_values)
  qed
  then have "List.find ?P [in_consecutive_completed r..<window_end r] =
      List.find (\<lambda>i. i = j \<and> \<not> in_received r ! j) [in_consecutive_completed r..<window_end r]"
    by (intro find_cong) simp_all
  then show ?thesis
    unfolding find_one receive_part_def Let_def by (simp add: r(1,2) size_values)
qed

lemma receive_part_collects:
  assumes s: "sends C blob d rh s" and c: "collects C blob d rh s r" and j: "j < or_num_parts s"
  shows "collects C blob d rh s (snd (receive_part C r (piece blob j)))"
    "in_consecutive_completed r \<le> in_consecutive_completed (snd (receive_part C r (piece blob j)))"
    "in_window (snd (receive_part C r (piece blob j))) = in_window r"
    "j = in_consecutive_completed r \<Longrightarrow> in_consecutive_completed r < in_consecutive_completed (snd (receive_part C r (piece blob j)))"
proof -
  let ?r = "snd (receive_part C r (piece blob j))" and ?c = "in_consecutive_completed r"
  let ?rs = "(in_received r)[j := True]"
  have n: "or_num_parts s \<le> 8" "length blob \<le> 3712" using sends_bounds [OF s] by simp_all
  have l: "length (in_received r) = 8" "length (in_buf r) = 3712" using c by (simp_all add: collects_def)
  have a: "?c \<le> advance ?rs (or_num_parts s) ?c" "advance ?rs (or_num_parts s) ?c \<le> or_num_parts s"
      "\<forall>i < advance ?rs (or_num_parts s) ?c. ?rs ! i"
      "advance ?rs (or_num_parts s) ?c < or_num_parts s \<longrightarrow> \<not> ?rs ! advance ?rs (or_num_parts s) ?c"
    using advance_spec [of ?c "or_num_parts s" ?rs] c j l n by (auto simp: collects_def nth_list_update)
  have buf: "slice (i * 464) (i * 464 + length (piece blob i)) (overwrite (in_buf r) (j * 464) (piece blob j)) = piece blob i"
    if i: "i < or_num_parts s" "?rs ! i" for i
  proof (cases "i = j")
    case True
    then show ?thesis using length_piece(2) [OF s j] n l by (simp add: slice_overwrite_same)
  next
    case False
    then have "in_received r ! i" using i l n by (simp add: nth_list_update)
    moreover have "length (piece blob i) \<le> 464" "length (piece blob j) \<le> 464" by (simp_all add: piece_def)
    moreover have "(i + 1) * 464 \<le> j * 464 \<or> (j + 1) * 464 \<le> i * 464" using False by (cases "i < j") auto
    ultimately show ?thesis
      using slice_overwrite_other [of "j * 464" "piece blob j" "in_buf r" "i * 464" "i * 464 + length (piece blob i)"]
        length_piece(2) [OF s j] n l c i(1) by (auto simp: collects_def)
  qed
  have "length (overwrite (in_buf r) (j * 464) (piece blob j)) = 3712" using length_piece(2) [OF s j] n l by simp
  then show "collects C blob d rh s ?r"
    using c a buf n l j unfolding receive_part_sent [OF s c j] by (auto simp: collects_def)
  show "?c \<le> in_consecutive_completed ?r" "in_window ?r = in_window r"
    using a(1) unfolding receive_part_sent [OF s c j] by simp_all
  show "?c < in_consecutive_completed ?r" if e: "j = ?c"
  proof -
    have "\<not> in_received r ! j" "j < window_end r" using c j e by (auto simp: collects_def window_end_def window_inv_def)
    moreover have "?rs ! j" using j l n by simp
    then have "advance ?rs (or_num_parts s) ?c \<noteq> ?c" using a(4) j e by auto
    ultimately show ?thesis using a(1) e unfolding receive_part_sent [OF s c j] by simp
  qed
qed

text \<open>What a receiver can go through: parts of the sender arriving in any order, lost or repeated, and the
  host changing its window.\<close>

datatype transfer_event = TPart nat | TWindow window_event

definition deliver :: "crypto \<Rightarrow> outbound_resource \<Rightarrow> inbound_resource \<Rightarrow> nat \<Rightarrow> inbound_resource" where
  "deliver C s r i = (case or_part s i of None \<Rightarrow> r | Some p \<Rightarrow> snd (receive_part C r p))"

fun transfer_step :: "crypto \<Rightarrow> outbound_resource \<Rightarrow> inbound_resource \<Rightarrow> transfer_event \<Rightarrow> inbound_resource" where
  "transfer_step C s r (TPart i) = deliver C s r i"
| "transfer_step C s r (TWindow e) = r\<lparr>in_window := window_step (in_window r) e\<rparr>"

text \<open>One round of the protocol: the receiver asks for what is missing, the sender answers with these parts.\<close>

definition transfer_round :: "crypto \<Rightarrow> outbound_resource \<Rightarrow> inbound_resource \<Rightarrow> inbound_resource" where
  "transfer_round C s r =
     (case build_part_request r (replicate 65 0) of
        (Inl e, out) \<Rightarrow> r
      | (Inr n, out) \<Rightarrow>
          (case part_request_parse (take n out) of
             Inl e \<Rightarrow> r
           | Inr q \<Rightarrow> (case requested_parts s q of (idx, k) \<Rightarrow> foldl (deliver C s) r (take k idx))))"

lemma deliver_collects:
  assumes s: "sends C blob d rh s" and c: "collects C blob d rh s r"
  shows "collects C blob d rh s (deliver C s r i)" "in_consecutive_completed r \<le> in_consecutive_completed (deliver C s r i)"
    "i = in_consecutive_completed r \<Longrightarrow> i < or_num_parts s \<Longrightarrow> in_consecutive_completed r < in_consecutive_completed (deliver C s r i)"
proof -
  have n: "or_part s i = None" if "\<not> i < or_num_parts s" using that by (simp add: or_part_def)
  show "collects C blob d rh s (deliver C s r i)" "in_consecutive_completed r \<le> in_consecutive_completed (deliver C s r i)"
    "i = in_consecutive_completed r \<Longrightarrow> i < or_num_parts s \<Longrightarrow> in_consecutive_completed r < in_consecutive_completed (deliver C s r i)"
    using sends_part(1) [OF s, of i] receive_part_collects [OF s c, of i] c n
    by (cases "i < or_num_parts s"; simp add: deliver_def)+
qed

lemma foldl_deliver:
  assumes s: "sends C blob d rh s" and c: "collects C blob d rh s r"
  shows "collects C blob d rh s (foldl (deliver C s) r is)" "in_consecutive_completed r \<le> in_consecutive_completed (foldl (deliver C s) r is)"
    "i \<in> set is \<Longrightarrow> i = in_consecutive_completed r \<Longrightarrow> i < or_num_parts s \<Longrightarrow> i < in_consecutive_completed (foldl (deliver C s) r is)"
proof -
  have "collects C blob d rh s (foldl (deliver C s) r is) \<and> in_consecutive_completed r \<le> in_consecutive_completed (foldl (deliver C s) r is) \<and>
    (i \<in> set is \<longrightarrow> i \<le> in_consecutive_completed r \<longrightarrow> i < or_num_parts s \<longrightarrow> i < in_consecutive_completed (foldl (deliver C s) r is))"
    using c
  proof (induction "is" arbitrary: r)
    case (Cons j js)
    note d = deliver_collects [OF s Cons.prems, of j]
    have "i < in_consecutive_completed (deliver C s r j)" if "i = j" "i \<le> in_consecutive_completed r" "i < or_num_parts s"
      using d(2,3) that by (cases "j = in_consecutive_completed r") auto
    then show ?case using Cons.IH [OF d(1)] d(2) by auto
  qed simp
  then show "collects C blob d rh s (foldl (deliver C s) r is)" "in_consecutive_completed r \<le> in_consecutive_completed (foldl (deliver C s) r is)"
    "i \<in> set is \<Longrightarrow> i = in_consecutive_completed r \<Longrightarrow> i < or_num_parts s \<Longrightarrow> i < in_consecutive_completed (foldl (deliver C s) r is)"
    by auto
qed

lemma chunks_exact_concat:
  assumes "\<forall>x \<in> set xs. length (f x) = n" "0 < n" shows "chunks_exact n (concat (map f xs)) = map f xs"
  using slice_concat_const [OF assms(1)] length_concat_const [OF assms(1)] assms(2)
  by (intro nth_equalityI) (simp_all add: chunks_exact_def)

lemma round_request:
  assumes sha: "sha_law C" and s: "sends C blob d rh s" and c: "collects C blob d rh s r"
    and more: "in_consecutive_completed r < or_num_parts s"
  obtains n out q where "build_part_request r (replicate 65 0) = (Inr n, out)" "part_request_parse (take n out) = Inr q"
    "pq_resource_hash q = or_resource_hash s"
    "requested_hashes q = map (\<lambda>i. get_map_hash C (piece blob i) rh) (missing_parts r)"
    "in_consecutive_completed r \<in> set (missing_parts r)"
proof -
  let ?m = "missing_parts r" and ?h = "\<lambda>i. in_map_hashes r ! i" and ?g = "\<lambda>i. get_map_hash C (piece blob i) rh"
  have r: "in_state r = Transferring" "in_num_parts r = or_num_parts s" "in_resource_hash r = or_resource_hash s"
      "\<And>i. i < or_num_parts s \<Longrightarrow> in_map_hashes r ! i = ?g i" "window_inv (in_window r)"
      "\<not> in_received r ! in_consecutive_completed r"
    using c more by (simp_all add: collects_def)
  have m: "set ?m \<subseteq> {in_consecutive_completed r..<or_num_parts s}" "length ?m \<le> 8"
  proof -
    have "set ?m \<subseteq> {in_consecutive_completed r..<window_end r}"
      using set_take_subset unfolding missing_parts_def by fastforce
    then show "set ?m \<subseteq> {in_consecutive_completed r..<or_num_parts s}" using r(2) by (auto simp: window_end_def)
    have "length ?m \<le> window_end r - in_consecutive_completed r"
      using length_filter_le [of "\<lambda>i. \<not> in_received r ! i" "[in_consecutive_completed r..<window_end r]"]
      by (simp add: missing_parts_def min.coboundedI2)
    then show "length ?m \<le> 8" using sends_bounds(4) [OF s] r(2) by (simp add: window_end_def)
  qed
  have h: "map ?h ?m = map ?g ?m" using m(1) r(4) by auto
  have g: "\<forall>i \<in> set ?m. length (?g i) = 4"
    using sha by (simp add: get_map_hash_def size_values sha_lawD)
  have rhl: "length (or_resource_hash s) = 32" using s sha by (simp add: sends_def compute_resource_hash_def sha_lawD)
  let ?b = "HASHMAP_IS_NOT_EXHAUSTED # or_resource_hash s @ concat (map ?g ?m)"
  have len: "length ?b = 33 + length ?m * 4" using length_concat_const [OF g] rhl by simp
  have "build_part_request r (replicate 65 0) = (Inr (33 + length ?m * 4), overwrite (replicate 65 0) 0 ?b)"
    using m(2) more r(1,2) unfolding build_part_request_def h r(3) by (simp add: is_complete_def size_values)
  moreover have "take (33 + length ?m * 4) (overwrite (replicate 65 0) 0 ?b) = ?b"
    using take_overwrite [of ?b "replicate 65 0"] len by simp
  moreover have "part_request_parse ?b = Inr \<lparr>pq_wants_more_hashmap = False, pq_last_map_hash = None,
      pq_resource_hash = or_resource_hash s, pq_requested = concat (map ?g ?m)\<rparr>"
    using rhl by (simp add: part_request_parse_def HASHMAP_IS_NOT_EXHAUSTED_def HASHMAP_IS_EXHAUSTED_def Let_def slice_def)
  moreover have "in_consecutive_completed r \<in> set ?m"
  proof -
    have "in_consecutive_completed r < window_end r" "0 < ws_window (in_window r)"
      using more r(2,5) by (auto simp: window_end_def window_inv_def)
    then show ?thesis using r(6) by (cases "ws_window (in_window r)") (simp_all add: missing_parts_def upt_conv_Cons)
  qed
  ultimately show ?thesis
    using that chunks_exact_concat [OF g] by (simp add: requested_hashes_def size_values)
qed

lemma transfer_round_progress:
  assumes sha: "sha_law C" and s: "sends C blob d rh s" and c: "collects C blob d rh s r"
  shows "collects C blob d rh s (transfer_round C s r)"
    "min (or_num_parts s) (in_consecutive_completed r + 1) \<le> in_consecutive_completed (transfer_round C s r)"
proof -
  have le: "in_consecutive_completed r \<le> or_num_parts s" "in_num_parts r = or_num_parts s" using c by (simp_all add: collects_def)
  have "collects C blob d rh s (transfer_round C s r) \<and>
    min (or_num_parts s) (in_consecutive_completed r + 1) \<le> in_consecutive_completed (transfer_round C s r)"
  proof (cases "in_consecutive_completed r < or_num_parts s")
    case True
    obtain n out q where q: "build_part_request r (replicate 65 0) = (Inr n, out)" "part_request_parse (take n out) = Inr q"
      "pq_resource_hash q = or_resource_hash s" "requested_hashes q = map (\<lambda>i. get_map_hash C (piece blob i) rh) (missing_parts r)"
      "in_consecutive_completed r \<in> set (missing_parts r)"
      by (rule round_request [OF sha s c True])
    let ?hits = "filter (\<lambda>i. or_map_hashes s ! i \<in> set (requested_hashes q)) [0..<or_num_parts s]"
    have "requested_parts s q = (overwrite (replicate 8 0) 0 ?hits, length ?hits)"
      using q(3) by (simp add: requested_parts_def Let_def size_values)
    then have r: "transfer_round C s r = foldl (deliver C s) r ?hits"
      using q(1,2) by (simp add: transfer_round_def take_overwrite)
    have "in_consecutive_completed r \<in> set ?hits" using True q(4,5) sends_part(2) [OF s True] by simp
    then have "in_consecutive_completed r < in_consecutive_completed (foldl (deliver C s) r ?hits)"
      using foldl_deliver(3) [OF s c] True by blast
    then show ?thesis using foldl_deliver(1) [OF s c] unfolding r by auto
  next
    case False
    then have "transfer_round C s r = r"
      using le by (simp add: transfer_round_def build_part_request_def is_complete_def)
    then show ?thesis using False le c by simp
  qed
  then show "collects C blob d rh s (transfer_round C s r)"
    "min (or_num_parts s) (in_consecutive_completed r + 1) \<le> in_consecutive_completed (transfer_round C s r)" by blast+
qed

lemma transfer_rounds_complete:
  assumes sha: "sha_law C" and s: "sends C blob d rh s" and c: "collects C blob d rh s r"
  shows "collects C blob d rh s ((transfer_round C s ^^ k) r) \<and>
    min (or_num_parts s) k \<le> in_consecutive_completed ((transfer_round C s ^^ k) r)"
proof (induction k)
  case (Suc k)
  then show ?case using transfer_round_progress [OF sha s, of "(transfer_round C s ^^ k) r"] by fastforce
qed (simp add: c)

lemma transfer_steps_collects:
  assumes s: "sends C blob d rh s" and c: "collects C blob d rh s r"
  shows "collects C blob d rh s (foldl (transfer_step C s) r evs)"
  using c
proof (induction evs arbitrary: r)
  case (Cons e evs)
  have "collects C blob d rh s (transfer_step C s r e)"
    using Cons.prems deliver_collects(1) [OF s Cons.prems] window_inv_step
    by (cases e) (auto simp: collects_def)
  then show ?case using Cons.IH by simp
qed simp

section \<open>Acceptance and assembly\<close>

lemma advertisement_wf:
  assumes sha: "sha_law C" and s: "sends C blob d rh s" shows "adv_wf (advertisement s)"
    "take (or_num_parts s * 4) (ra_hashmap (advertisement s)) = concat (map (\<lambda>i. get_map_hash C (piece blob i) rh) [0..<or_num_parts s])"
proof -
  let ?hs = "map (\<lambda>i. get_map_hash C (piece blob i) rh) [0..<or_num_parts s]"
  note hs = sendsD(9,2,8,6) [OF s]
  have l: "length (concat ?hs) = or_num_parts s * 4"
    using length_concat_const [of "[0..<or_num_parts s]" "\<lambda>i. get_map_hash C (piece blob i) rh" 4] sha
    by (simp add: get_map_hash_def size_values sha_lawD)
  have n: "or_num_parts s \<le> 8" using sends_bounds [OF s] by simp
  have m: "ra_hashmap (advertisement s) = concat ?hs @ replicate (32 - or_num_parts s * 4) 0"
    unfolding advertisement_def hs(1) using l by (simp add: overwrite_def ADV_DEFAULT_def)
  show "take (or_num_parts s * 4) (ra_hashmap (advertisement s)) = concat ?hs" unfolding m using l by simp
  have "length (or_resource_hash s) = 32" unfolding hs(4) using sha by (simp add: compute_resource_hash_def sha_lawD)
  then show "adv_wf (advertisement s)"
    using m l n hs(2,3) by (simp add: adv_wf_def) (simp add: advertisement_def ADV_DEFAULT_def size_values)
qed

lemma accepts_advertisement:
  assumes sha: "sha_law C" and s: "sends C blob d rh s"
  obtains r where "from_advertisement (advertisement s) = Inr r" "collects C blob d rh s r" "in_consecutive_completed r = 0"
proof -
  let ?a = "advertisement s" and ?g = "\<lambda>i. get_map_hash C (piece blob i) rh"
  note b = sends_bounds [OF s]
  note n = sendsD(5,3,1,8) [OF s]
  have g: "\<forall>i \<in> set [0..<or_num_parts s]. length (?g i) = 4" using sha by (simp add: get_map_hash_def size_values sha_lawD)
  have h: "slice (i * 4) ((i + 1) * 4) (ra_hashmap ?a) = ?g i" if "i < or_num_parts s" for i
  proof -
    have "(i + 1) * 4 \<le> or_num_parts s * 4" using that by simp
    then have "slice (i * 4) ((i + 1) * 4) (ra_hashmap ?a) = slice (i * 4) ((i + 1) * 4) (take (or_num_parts s * 4) (ra_hashmap ?a))"
      by (simp add: slice_def drop_take min_def)
    then show ?thesis
      using slice_concat_const [OF g, of i] that unfolding advertisement_wf(2) [OF sha s] by (simp add: add.commute)
  qed
  let ?hs = "map (\<lambda>i. slice (i * 4) ((i + 1) * 4) (ra_hashmap ?a)) [0..<or_num_parts s] @ replicate (8 - or_num_parts s) (replicate 4 0)"
  have v: "validate_adv ?a None = Inr (?hs, or_num_parts s)"
  proof -
    have f: "rf_encrypted (ra_flags ?a)" "\<not> rf_compressed (ra_flags ?a)" "\<not> rf_has_metadata (ra_flags ?a)" "\<not> rf_split (ra_flags ?a)"
        "\<not> rf_is_request (ra_flags ?a)" "\<not> rf_is_response (ra_flags ?a)" "ra_request_id_len ?a = 0" "ra_total_segments ?a = 1"
        "ra_segment_index ?a = 1" "ra_transfer_size ?a = or_total_size s" "ra_data_size ?a = or_data_size s"
        "ra_num_parts ?a = of_nat (or_num_parts s)" "ra_hashmap_len ?a = or_num_parts s * 4"
      by (simp_all add: advertisement_def ADV_DEFAULT_def RESOURCE_FLAGS_DEFAULT_def size_values)
    have "unat (of_nat (or_num_parts s) :: u32) = or_num_parts s" using b(4) by (simp add: unat_of_nat)
    then show ?thesis
      unfolding validate_adv_def Let_def f(10-13) b(5,8) size_values using f(1-9) b(1,2) n
      by (simp add: option.case)
  qed
  show ?thesis
  proof (rule that)
    show "from_advertisement ?a = Inr \<lparr>in_buf = replicate 3712 0, in_resource_hash = or_resource_hash s,
       in_random_hash = rh, in_proof = replicate 32 0, in_transfer_size = or_total_size s,
       in_data_size = or_data_size s, in_data_len = 0, in_num_parts = or_num_parts s,
       in_consecutive_completed = 0, in_received = replicate 8 False, in_map_hashes = ?hs,
       in_state = Transferring, in_window = window_new\<rparr>" (is "_ = Inr ?r")
      unfolding from_advertisement_def v sum.case prod.case using b(4) n(4) by (simp add: advertisement_def size_values)
    show "collects C blob d rh s ?r"
      using b(3,4) h by (simp add: collects_def window_inv_def window_new_def window_consts nth_append)
  qed simp
qed

lemma pieces_determine:
  assumes s: "sends C blob d rh s" and l: "length blob \<le> length b"
    and p: "\<And>i. i < or_num_parts s \<Longrightarrow> slice (i * 464) (i * 464 + length (piece blob i)) b = piece blob i"
  shows "take (length blob) b = blob"
proof (rule nth_equalityI)
  fix k assume "k < length (take (length blob) b)"
  then have k: "k < length blob" by simp
  define i j where "i = k div 464" and "j = k mod 464"
  then have ij: "i * 464 + j = k" "j < 464" by simp_all
  have "k < or_num_parts s * 464" using k sends_bounds(6) [OF s] by simp
  then have i: "i < or_num_parts s" by (simp add: less_mult_imp_div_less \<open>i = k div 464\<close>)
  have j: "j < length (piece blob i)" using k ij by (auto simp: piece_def min_def)
  have "piece blob i ! j = blob ! (i * 464 + j)" using j by (simp add: piece_def nth_slice)
  moreover have "slice (i * 464) (i * 464 + length (piece blob i)) b ! j = b ! (i * 464 + j)"
    using j k l ij(1) by (intro nth_slice) simp_all
  ultimately show "take (length blob) b ! k = blob ! k" using p [OF i] k ij(1) by simp
qed (use l in simp)

lemma token_in_place_of:
  assumes "hmac_law C" "aes_law C" "length iv = 16"
  obtains blob where "token_decrypt_in_place C keys (token_of C keys iv p) = (Inr (length p), blob)"
    "slice 16 (16 + length p) blob = p" "length blob = length (token_of C keys iv p)"
proof -
  let ?t = "token_of C keys iv p" and ?out = "replicate (length (token_of C keys iv p)) (0 :: u8)"
  have l: "length p \<le> length ?out" "length ?t \<le> length (padded p) + 48"
    using length_token_of [OF assms] padded_blocks(2) [of p] by simp_all
  have "token_decrypt C (length (padded p)) ?t keys ?out = (Inr (length p), overwrite ?out 0 p)"
    using token_decrypt_token_of [OF assms order_refl, of p keys ?out] l(1) by simp
  then obtain blob where b: "token_decrypt_in_place C keys ?t = (Inr (length p), blob)" "slice 16 (16 + length p) blob = take (length p) (overwrite ?out 0 p)"
    using token_decrypt_in_place_agrees [OF assms(2) _ l(2), of ?out keys] by auto
  have "length blob = length ?t"
  proof -
    have "length (cr_aes_cbc_decrypt C k v (slice 16 (length ?t - 32) ?t)) = length ?t - 48" for k v
      using aes_lawD(2) [OF assms(2), of "slice 16 (length ?t - 32) ?t"] length_token_of [OF assms, of keys p] padded_blocks(1) [of p] by simp
    then show ?thesis
      using b(1) length_token_of [OF assms, of keys p] padded_blocks(4) [of p]
      unfolding token_decrypt_in_place_def Let_def by (auto split: if_splits sum.splits)
  qed
  then show ?thesis using that b take_overwrite [of p ?out] by simp
qed

lemma assemble_collected:
  assumes laws: "hmac_law C" "aes_law C" and len: "length rh = 4" "length iv = 16"
    and s: "sends C (token_of C keys iv (rh @ d)) d rh s" and c: "collects C (token_of C keys iv (rh @ d)) d rh s r"
    and full: "is_complete r"
  obtains r' where "assemble C r keys = (Inr (length d), r')" "in_data r' = Some d" "in_state r' = Assembled"
    "in_proof r' = or_expected_proof s" "in_resource_hash r' = or_resource_hash s"
proof -
  let ?p = "rh @ d" and ?blob = "token_of C keys iv (rh @ d)"
  have r: "in_state r = Transferring" "length (in_buf r) = 3712" "unat (in_transfer_size r) = length ?blob" "in_random_hash r = rh"
      "in_resource_hash r = or_resource_hash s"
      "\<And>i. i < or_num_parts s \<Longrightarrow> slice (i * 464) (i * 464 + length (piece ?blob i)) (in_buf r) = piece ?blob i"
    using c full sends_bounds(5) [OF s] by (simp_all add: collects_def is_complete_def)
  have t: "take (length ?blob) (in_buf r) = ?blob"
    using pieces_determine [OF s _ r(6)] sends_bounds(2) [OF s] r(2) by simp
  obtain blob where b: "token_decrypt_in_place C keys ?blob = (Inr (length ?p), blob)" "slice 16 (16 + length ?p) blob = ?p"
      "length blob = length ?blob"
    by (rule token_in_place_of [OF laws len(2)])
  have "slice 20 (20 + length d) (blob @ x) = d" for x
  proof -
    have "16 + length ?p \<le> length blob"
      using length_token_of [OF laws len(2), of keys ?p] padded_blocks(2) [of ?p] b(3) by simp
    then have "slice 20 (20 + length d) (blob @ x) = slice 4 (4 + length d) (slice 16 (16 + length ?p) blob)"
      using len(1) by (simp add: slice_slice)
    then show ?thesis unfolding b(2) using len(1) by (simp add: slice_def)
  qed
  then have e: "assemble C r keys = (Inr (length d), r\<lparr>in_buf := blob @ drop (length ?blob) (in_buf r),
      in_proof := compute_expected_proof C d (or_resource_hash s), in_data_len := length d, in_state := Assembled\<rparr>)"
    using full len(1) sendsD(1,6) [OF s] unfolding assemble_def Let_def r(3) t b(1) prod.case sum.case
    by (simp add: r(1,4,5) size_values)
  show ?thesis
    by (rule that [OF e]) (use \<open>\<And>x. slice 20 (20 + length d) (blob @ x) = d\<close> sendsD(7) [OF s] r(5) in \<open>simp_all add: in_data_def size_values\<close>)
qed

section \<open>Transfers complete\<close>

text \<open>C15. A resource transfer delivers its payload: once a sender has built a transfer, its advertisement
  packs, parses and is accepted by a receiver; whatever parts of the transfer have arrived before, in any
  order, repeated or partly lost, and however the window has been changed, one round of request and
  answer per part completes the transfer; the receiver then reassembles exactly the payload, and the
  proof it builds is the one the sender accepts.\<close>

theorem resource_transfer_delivers:
  assumes laws: "sha_law C" "hmac_law C" "aes_law C" and len: "length rh = 4" "length iv = 16"
    and built: "build_into C s0 d keys rh iv = (Inr (), s)"
    and room: "191 \<le> length o1" "64 \<le> length o2" and rounds: "or_num_parts s \<le> k"
  shows "\<exists>n o1' a r0. adv_pack (advertisement s) o1 = (Inr n, o1') \<and> adv_parse (take n o1') = Inr a \<and>
    from_advertisement a = Inr r0 \<and>
    (\<exists>r' m o2'. assemble C ((transfer_round C s ^^ k) (foldl (transfer_step C s) r0 evs)) keys = (Inr (length d), r') \<and>
       in_data r' = Some d \<and> inbound_build_proof r' o2 = (Inr m, o2') \<and> outbound_validate_proof s (take m o2'))"
proof -
  let ?blob = "token_of C keys iv (rh @ d)"
  have s: "sends C ?blob d rh s" by (rule build_into_sends [OF laws(2,3) len built])
  have wf: "adv_wf (advertisement s)" by (rule advertisement_wf(1) [OF laws(1) s])
  obtain r0 where r0: "from_advertisement (advertisement s) = Inr r0" "collects C ?blob d rh s r0"
    using accepts_advertisement [OF laws(1) s] by blast
  let ?r = "(transfer_round C s ^^ k) (foldl (transfer_step C s) r0 evs)"
  note c = transfer_rounds_complete [OF laws(1) s transfer_steps_collects [OF s r0(2)], of k evs]
  then have full: "is_complete ?r" using rounds by (auto simp: is_complete_def collects_def)
  obtain r' where a: "assemble C ?r keys = (Inr (length d), r')" "in_data r' = Some d" "in_state r' = Assembled"
    "in_proof r' = or_expected_proof s" "in_resource_hash r' = or_resource_hash s"
    using assemble_collected [OF laws(2,3) len s conjunct1 [OF c] full] by blast
  have h: "length (or_resource_hash s) = 32" "length (or_expected_proof s) = 32"
    using sendsD(6,7) [OF s] laws(1) by (simp_all add: compute_resource_hash_def compute_expected_proof_def sha_lawD)
  have "inbound_build_proof r' o2 = (Inr 64, overwrite o2 0 (or_resource_hash s @ or_expected_proof s))"
    using a(3-5) room(2) by (simp add: inbound_build_proof_def PROOF_LEN_def)
  moreover have "take 64 (overwrite o2 0 (or_resource_hash s @ or_expected_proof s)) = or_resource_hash s @ or_expected_proof s"
    using take_overwrite [of "or_resource_hash s @ or_expected_proof s" o2] h by simp
  moreover have "outbound_validate_proof s (or_resource_hash s @ or_expected_proof s)"
    using h by (simp add: outbound_validate_proof_def PROOF_LEN_def)
  moreover have "\<exists>n o1'. adv_pack (advertisement s) o1 = (Inr n, o1') \<and> adv_parse (take n o1') = Inr (advertisement s)"
    using adv_pack_eq(1) [OF wf, of o1] adv_bytes_bound [OF wf] parse_adv_bytes [OF wf] take_overwrite [of "adv_bytes (advertisement s)" o1]
      room(1) by simp
  ultimately show ?thesis using r0(1) a(1,2) by (metis (no_types, lifting))
qed

theorem resource_transfer_delivers_witness:
  "\<exists>s. build_into toy_crypto outbound_zeroed [1, 2, 3] (replicate 64 7) (replicate 4 5) (replicate 16 9) = (Inr (), s) \<and>
    (\<exists>n o1' a r0 r'. adv_pack (advertisement s) (replicate 192 0) = (Inr n, o1') \<and> adv_parse (take n o1') = Inr a \<and>
      from_advertisement a = Inr r0 \<and>
      assemble toy_crypto (transfer_round toy_crypto s (transfer_step toy_crypto s r0 (TPart 7))) (replicate 64 7) = (Inr 3, r') \<and>
      in_data r' = Some [1, 2, 3])"
proof -
  let ?b = "build_into toy_crypto outbound_zeroed [1, 2, 3] (replicate 64 7) (replicate 4 5) (replicate 16 9)"
  obtain s where s: "?b = (Inr (), s)" "or_num_parts s = 1"
    using build_into_one_part [of toy_crypto "replicate 4 5" "replicate 16 9" "[1, 2, 3]" outbound_zeroed "replicate 64 7"]
    by (cases ?b) simp
  show ?thesis
    using resource_transfer_delivers [of toy_crypto "replicate 4 5" "replicate 16 9" outbound_zeroed "[1, 2, 3]" "replicate 64 7" s
        "replicate 192 0" "replicate 64 0" 1 "[TPart 7]"] s by fastforce
qed

section \<open>Integrity\<close>

lemma token_decrypt_in_place_InrD:
  assumes "token_decrypt_in_place C keys buf = (Inr n, blob)" "aes_law C"
  shows "length blob = length buf" "16 + n \<le> length buf"
proof -
  let ?region = "cr_aes_cbc_decrypt C (drop 32 keys) (take 16 buf) (slice 16 (length buf - 32) buf)"
  have g: "64 \<le> length buf" "(length buf - 48) mod 16 = 0"
    using assms(1) unfolding token_decrypt_in_place_def Let_def by (auto split: if_splits)
  then have l: "length ?region = length buf - 48" using aes_lawD(2) [OF assms(2)] by simp
  obtain p where p: "pkcs7_unpad ?region = Inr p" "n = length p" "blob = overwrite buf 16 ?region"
    using assms(1) unfolding token_decrypt_in_place_def Let_def by (auto split: if_splits sum.splits)
  show "length blob = length buf" using p(3) l g by simp
  have "length p \<le> length buf - 48" using pkcs7_unpad_prefix [OF p(1)] l by simp
  then show "16 + n \<le> length buf" using p(2) g(1) by linarith
qed

text \<open>C16. What a receiver exposes is what was advertised: whatever parts it was fed, reassembly succeeds only
  when the payload hashes to the advertised resource hash, and that payload is then what it hands out and
  proves; a transfer that fails the check exposes nothing, and no further attempt can turn it into
  data.\<close>

theorem assembled_data_is_advertised:
  assumes "assemble C r keys = (res, r')" "length (in_buf r) = 3712" "unat (in_transfer_size r) \<le> 3712" "aes_law C"
  shows "case res of
      Inr n \<Rightarrow> (\<exists>payload. in_data r' = Some payload \<and> length payload = n \<and>
        compute_resource_hash C payload (in_random_hash r) = in_resource_hash r \<and>
        in_proof r' = compute_expected_proof C payload (in_resource_hash r))
    | Inl e \<Rightarrow> e \<in> {InvalidState, Incomplete} \<and> r' = r \<or>
        in_data r' = None \<and> in_state r' = InCorrupt \<and> (\<forall>keys' part. assemble C r' keys' = (Inl InvalidState, r') \<and>
          receive_part C r' part = (False, r'))"
proof (cases "in_state r = Transferring \<and> is_complete r")
  case False
  then have "assemble C r keys = (Inl InvalidState, r) \<or> assemble C r keys = (Inl Incomplete, r)" by (simp add: assemble_def)
  then show ?thesis using assms(1) by auto
next
  case True
  let ?t = "unat (in_transfer_size r)"
  have dead: "in_data x = None \<and> in_state x = InCorrupt \<and> (\<forall>keys' part. assemble C x keys' = (Inl InvalidState, x) \<and>
      receive_part C x part = (False, x))" if "in_state x = InCorrupt" for x
    using that by (simp add: in_data_def assemble_def receive_part_def)
  obtain q blob where q: "token_decrypt_in_place C keys (take ?t (in_buf r)) = (q, blob)" by fastforce
  show ?thesis
  proof (cases q)
    case (Inl e)
    then show ?thesis using assms(1) True q dead by (auto simp: assemble_def Let_def)
  next
    case (Inr n)
    note l = token_decrypt_in_place_InrD [OF q [unfolded Inr] assms(4)]
    have b: "n \<le> 3696" "length (blob @ drop ?t (in_buf r)) = 3712" "16 + n \<le> ?t" using l assms(2,3) by auto
    show ?thesis
      using assms(1) True b dead unfolding assemble_def Let_def q Inr size_values
      by (auto simp: in_data_def size_values min_def split: if_splits)
  qed
qed

theorem assembled_data_is_advertised_witness:
  "case assemble toy_crypto \<lparr>in_buf = replicate 3712 0, in_resource_hash = [], in_random_hash = [], in_proof = [],
      in_transfer_size = 0, in_data_size = 0, in_data_len = 0, in_num_parts = 0, in_consecutive_completed = 0,
      in_received = [], in_map_hashes = [], in_state = Transferring, in_window = window_new\<rparr> [] of
    (res, r') \<Rightarrow> is_ok res \<or> in_data r' = None"
proof -
  let ?r = "\<lparr>in_buf = replicate 3712 0, in_resource_hash = [], in_random_hash = [], in_proof = [],
      in_transfer_size = 0, in_data_size = 0, in_data_len = 0, in_num_parts = 0, in_consecutive_completed = 0,
      in_received = [], in_map_hashes = [], in_state = Transferring, in_window = window_new\<rparr> :: inbound_resource"
  obtain res r' where a: "assemble toy_crypto ?r [] = (res, r')" by fastforce
  from assembled_data_is_advertised [OF a] show ?thesis
    unfolding a prod.case by (cases res) (auto simp: in_data_def)
qed

end
