(* ===== verification/Auto.thy ===== *)
theory Auto
  imports Crypto_Env
begin

text \<open>
  AutoInterface discovery (\<^verbatim>\<open>auto.rs\<close>): the multicast group of a group id, the canonical IPv6 text and
  the beacon token over it. The text is what \<^verbatim>\<open>Ipv6Addr\<close> writes, as the sequence of strings it hands to
  its writer: the longest run of at least two zero segments, the first of equal length, becomes a double
  colon, and mapped IPv4 addresses keep their dotted form.
\<close>

section \<open>IPv6 text\<close>

definition hex_digit :: "nat \<Rightarrow> u8" where
  "hex_digit n = of_nat (if n < 10 then 48 + n else 87 + n)"

fun digits :: "nat \<Rightarrow> nat \<Rightarrow> bytes" where
  "digits base n = (if n < base \<or> base < 2 then [hex_digit n] else digits base (n div base) @ [hex_digit (n mod base)])"

declare digits.simps [simp del]

definition ipv6_segments :: "bytes \<Rightarrow> nat list" where
  "ipv6_segments a = map (\<lambda>i. unat (from_be_bytes (slice (2 * i) (2 * i + 2) a) :: u16)) [0..<8]"

definition is_ipv4_mapped :: "bytes \<Rightarrow> bool" where
  "is_ipv4_mapped a \<longleftrightarrow> take 12 a = replicate 10 0 @ [0xFF, 0xFF]"

text \<open>The spans are pairs of start and length: the longest so far and the current one.\<close>

definition span_step :: "(nat \<times> nat) \<times> nat \<times> nat \<Rightarrow> nat \<times> nat \<Rightarrow> (nat \<times> nat) \<times> nat \<times> nat" where
  "span_step st x = (case st of (longest, current) \<Rightarrow> case x of (i, segment) \<Rightarrow>
     if segment = 0 then
       let current = (if snd current = 0 then i else fst current, snd current + 1) in
       (if snd current > snd longest then current else longest, current)
     else (longest, 0, 0))"

definition zero_span :: "nat list \<Rightarrow> nat \<times> nat" where
  "zero_span segments = fst (foldl span_step ((0, 0), 0, 0) (enumerate 0 segments))"

fun subslice_pieces :: "nat list \<Rightarrow> bytes list" where
  "subslice_pieces [] = []"
| "subslice_pieces (x # xs) = digits 16 x # concat (map (\<lambda>y. [[58], digits 16 y]) xs)"

definition ipv6_pieces :: "bytes \<Rightarrow> bytes list" where
  "ipv6_pieces a =
     (if is_ipv4_mapped a
      then [[58, 58, 102, 102, 102, 102, 58], digits 10 (unat (a ! 12)), [46], digits 10 (unat (a ! 13)), [46],
            digits 10 (unat (a ! 14)), [46], digits 10 (unat (a ! 15))]
      else let segments = ipv6_segments a in case zero_span segments of (start, len) \<Rightarrow>
        if len > 1
        then subslice_pieces (take start segments) @ [[58, 58]] @ subslice_pieces (drop (start + len) segments)
        else subslice_pieces segments)"

section \<open>Writers\<close>

datatype auto_error = AutoOutputTooSmall

definition slice_write_str :: "bytes \<times> nat \<Rightarrow> bytes \<Rightarrow> (unit + unit) \<times> bytes \<times> nat" where
  "slice_write_str w v = (case w of (out, len) \<Rightarrow>
     (case usize_checked_add len (length v) of
        None \<Rightarrow> (Inl (), w)
      | Some fin \<Rightarrow> if fin > length out then (Inl (), w) else (Inr (), overwrite out len v, fin)))"

fun write_pieces :: "bytes list \<Rightarrow> bytes \<times> nat \<Rightarrow> (unit + unit) \<times> bytes \<times> nat" where
  "write_pieces [] w = (Inr (), w)"
| "write_pieces (v # vs) w = (case slice_write_str w v of (Inl e, w) \<Rightarrow> (Inl e, w) | (Inr _, w) \<Rightarrow> write_pieces vs w)"

definition format_ipv6 :: "bytes \<Rightarrow> bytes \<Rightarrow> (auto_error + nat) \<times> bytes" where
  "format_ipv6 address out =
     (case write_pieces (ipv6_pieces address) (out, 0) of
        (Inl _, out, _) \<Rightarrow> (Inl AutoOutputTooSmall, out) | (Inr _, out, len) \<Rightarrow> (Inr len, out))"

definition multicast_group_for :: "crypto \<Rightarrow> bytes \<Rightarrow> bytes" where
  "multicast_group_for C group_id = [0xFF, 0x12, 0, 0] @ slice 2 14 (cr_sha256 C group_id)"

definition beacon_token :: "crypto \<Rightarrow> bytes \<Rightarrow> bytes \<Rightarrow> hash32" where
  "beacon_token C group_id address = cr_sha256 C (group_id @ concat (ipv6_pieces address))"

section \<open>The text fits its documented bound\<close>

definition IPV6_TEXT_MAX :: nat where "IPV6_TEXT_MAX = 39"

lemma length_digits: "2 \<le> base \<Longrightarrow> n < base ^ Suc k \<Longrightarrow> length (digits base n) \<le> Suc k"
proof (induction k arbitrary: n)
  case (Suc k)
  have "n div base < base ^ Suc k" using Suc.prems by (simp add: less_mult_imp_div_less mult.commute)
  then show ?case using Suc.IH Suc.prems(1) by (subst digits.simps) auto
qed (simp add: digits.simps)

lemma subslice_length:
  assumes "\<forall>x \<in> set xs. x < 65536" shows "length (concat (subslice_pieces xs)) \<le> 5 * length xs - 1"
proof -
  have d: "length (digits 16 x) \<le> 4" if "x < 65536" for x using length_digits [of 16 x 3] that by simp
  have r: "length (concat (concat (map (\<lambda>y. [[58 :: u8], digits 16 y]) ys))) \<le> 5 * length ys" if "\<forall>y \<in> set ys. y < 65536" for ys
    using that d by (induction ys) fastforce+
  show ?thesis
  proof (cases xs)
    case (Cons x ys)
    then show ?thesis using assms d [of x] r [of ys] by fastforce
  qed simp
qed

lemma span_step_inv:
  "fst l + snd l \<le> i \<Longrightarrow> (snd c = 0 \<or> fst c + snd c = i) \<Longrightarrow> span_step (l, c) (i, x) = (l', c') \<Longrightarrow>
   fst l' + snd l' \<le> Suc i \<and> (snd c' = 0 \<or> fst c' + snd c' = Suc i)"
  by (auto simp: span_step_def Let_def split: if_splits)

lemma zero_span_bound: "fst (zero_span xs) + snd (zero_span xs) \<le> length xs"
proof -
  have "fst (fst (foldl span_step (l, c) (enumerate i xs))) + snd (fst (foldl span_step (l, c) (enumerate i xs))) \<le> i + length xs"
    if "fst l + snd l \<le> i" "snd c = 0 \<or> fst c + snd c = i" for l c i
    using that
  proof (induction xs arbitrary: l c i)
    case (Cons x xs)
    obtain l' c' where s: "span_step (l, c) (i, x) = (l', c')" by (rule prod.exhaust)
    show ?case using Cons.IH [of l' "Suc i" c'] span_step_inv [OF Cons.prems s] s by simp
  qed simp
  from this [of "(0, 0)" 0 "(0, 0)"] show ?thesis by (simp add: zero_span_def)
qed

lemma ipv6_text_bound: "length (concat (ipv6_pieces a)) \<le> IPV6_TEXT_MAX"
proof (cases "is_ipv4_mapped a")
  case True
  have "length (digits 10 (unat (b :: u8))) \<le> 3" for b
    using length_digits [of 10 "unat b" 2] unat_bound [of b] by simp
  from this [of "a ! 12"] this [of "a ! 13"] this [of "a ! 14"] this [of "a ! 15"] show ?thesis
    using True by (simp add: ipv6_pieces_def IPV6_TEXT_MAX_def)
next
  case False
  let ?s = "ipv6_segments a"
  have s: "length ?s = 8" "\<forall>x \<in> set ?s. x < 65536"
    using unat_bound [where 'a = 16] by (auto simp: ipv6_segments_def)
  obtain st n where z: "zero_span ?s = (st, n)" by (rule prod.exhaust)
  have b: "st + n \<le> 8" using zero_span_bound [of ?s] z s(1) by simp
  have "length (concat (subslice_pieces (take st ?s))) \<le> 5 * st - 1"
      "length (concat (subslice_pieces (drop (st + n) ?s))) \<le> 5 * (8 - (st + n)) - 1"
      "length (concat (subslice_pieces ?s)) \<le> 39"
    using subslice_length [of "take st ?s"] subslice_length [of "drop (st + n) ?s"] subslice_length [of ?s] s b
    by (auto dest: in_set_takeD in_set_dropD)
  then show ?thesis using False b by (auto simp: ipv6_pieces_def z Let_def IPV6_TEXT_MAX_def)
qed

lemma write_pieces_eq:
  assumes "length b + length (concat vs) \<le> length out" "length b + length (concat vs) \<le> USIZE_MAX"
  shows "write_pieces vs (overwrite out 0 b, length b) = (Inr (), overwrite out 0 (b @ concat vs), length b + length (concat vs))"
  using assms
proof (induction vs arbitrary: b)
  case (Cons v vs)
  have "overwrite (overwrite out 0 b) (length b) v = overwrite out 0 (b @ v)"
    using Cons.prems by (simp add: overwrite_def add.commute)
  then show ?case
    using Cons.IH [of "b @ v"] Cons.prems by (simp add: slice_write_str_def usize_checked_add_def)
qed simp

text \<open>A buffer of the documented size holds the text of every address, and the token of a beacon is the
  hash of the group id followed by that text.\<close>

lemma format_ipv6_fits:
  assumes "IPV6_TEXT_MAX \<le> length out"
  shows "\<exists>n out'. format_ipv6 a out = (Inr n, out') \<and> n \<le> IPV6_TEXT_MAX \<and> drop n out' = drop n out \<and>
    beacon_token C g a = cr_sha256 C (g @ take n out')"
proof -
  let ?t = "concat (ipv6_pieces a)"
  note b = ipv6_text_bound [of a]
  have "write_pieces (ipv6_pieces a) (overwrite out 0 [], length ([] :: bytes)) = (Inr (), overwrite out 0 ([] @ ?t), length ([] :: bytes) + length ?t)"
    using assms b by (intro write_pieces_eq) (simp_all add: IPV6_TEXT_MAX_def USIZE_MAX_def)
  then have "format_ipv6 a out = (Inr (length ?t), overwrite out 0 ?t)"
    by (simp add: format_ipv6_def overwrite_def [of out 0 "[]"])
  then show ?thesis using b take_overwrite [of ?t out] by (simp add: beacon_token_def overwrite_def)
qed

lemma multicast_group_shape:
  assumes "sha_law C" shows "length (multicast_group_for C g) = 16" "take 4 (multicast_group_for C g) = [0xFF, 0x12, 0, 0]"
  using assms by (simp_all add: multicast_group_for_def sha_lawD)

text \<open>The first of two longest runs is chosen, and segments are written without leading zeros.\<close>

lemma ipv6_text_examples:
  "zero_span [1, 0, 0, 2, 0, 0, 3, 4] = (1, 2)" "zero_span [0x2001, 0xdb8, 0, 1, 0, 1, 1, 1] = (2, 1)"
  "concat (subslice_pieces [0x2001, 0xdb8]) = [50, 48, 48, 49, 58, 100, 98, 56]"
  by (simp_all add: zero_span_def span_step_def Let_def hex_digit_def digits.simps)

end
