(* ===== verification/Spec2Isabelle.thy ===== *)
theory Spec2Isabelle
  imports Hash_Tables Ring_Queue Reverse_Table Link_Table Lora Announce_Tables Discovery Known_Destinations Config Link
    Node_Announce Receipts Link_Session Ratchet_Props Resource_Props Auto
begin

text \<open>
  \<^bold>\<open>rsReticulumLite in Isabelle/HOL.\<close> The crate under \<^verbatim>\<open>src/src\<close> is a bounded, allocation-free Reticulum
  transport for microcontrollers. A node receives frames from its interfaces, learns routes from signed
  announces, forwards packets, proofs and links, suppresses duplicates and queues frames that its host
  polls; beside the node stand the endpoint protocols a host drives itself: encryption, links and their
  sessions, ratchets, receipts, resource transfers and interface discovery. This library models these parts
  as executable functions and proves what makes them correct. This theory only gathers the others.

  \<^bold>\<open>How the code is represented.\<close> Machine integers are words (\<^verbatim>\<open>u8\<close> to \<^verbatim>\<open>u64\<close>, with the saturating and checked
  operations of \<^verbatim>\<open>core::num\<close> in \<^verbatim>\<open>Prelude\<close>); \<^verbatim>\<open>usize\<close> is a natural number, with its 32-bit bound wherever the
  code checks for overflow. A struct is a record, an enum a datatype, an array with const-generic capacity a
  list whose length an operation keeps. An operation on \<^verbatim>\<open>&mut self\<close> returns the new state beside its result
  on every path, so that what an error path has already changed stays visible; \<^verbatim>\<open>Result\<close> is a sum with the
  error on the left; an output slice is passed in and returned. Loops are structural recursion or functions
  with a termination proof: no function of the model has fuel. The cryptographic crates (SHA-256, Ed25519,
  X25519, HKDF, HMAC, AES-CBC) are the record \<^verbatim>\<open>crypto\<close> of \<^verbatim>\<open>Crypto_Env\<close>, an argument of every definition that
  uses them; what the code relies on of them is stated as the named laws \<^verbatim>\<open>sha_law\<close>, \<^verbatim>\<open>ed_law\<close>, \<^verbatim>\<open>x_law\<close>,
  \<^verbatim>\<open>hkdf_law\<close>, \<^verbatim>\<open>hmac_law\<close> and \<^verbatim>\<open>aes_law\<close>, which a concrete instance satisfies. They state correctness of the
  primitives (a signature made with a key verifies under it, decryption undoes encryption), never secrecy.

  \<^bold>\<open>Wire formats and storage.\<close>
  \<^item> \<^verbatim>\<open>Packet_Buffer\<close> (\<^verbatim>\<open>packet_buffer.rs\<close>), \<^verbatim>\<open>Wire\<close> (\<^verbatim>\<open>wire.rs\<close>), \<^verbatim>\<open>Codec\<close>: the fixed-capacity buffer refines a list behind
    the interface \<^verbatim>\<open>byte_sink\<close>; headers and packets survive writing and parsing, an accepted packet is
    reproduced by rewriting it up to the reserved bit, and packet hash and link id do not depend on the
    fields a transport node changes. \<^verbatim>\<open>codec\<close> and \<^verbatim>\<open>canonical_codec\<close> are the contracts of encoders, interpreted
    on contexts, signalling, lifetime tokens, ordering blobs, advertisements and resource flags.
  \<^item> \<^verbatim>\<open>Ring_Queue\<close>, \<^verbatim>\<open>Slots\<close>, \<^verbatim>\<open>Gen_Insert\<close>, \<^verbatim>\<open>Hash_Tables\<close>, \<^verbatim>\<open>Path_Table\<close>, \<^verbatim>\<open>Announce_Tables\<close>, \<^verbatim>\<open>Reverse_Table\<close>, \<^verbatim>\<open>Link_Table\<close>
    (\<^verbatim>\<open>tables.rs\<close>): the ring buffer is a bounded FIFO (\<^verbatim>\<open>fifo_queue\<close>); every keyed table implements
    \<^verbatim>\<open>expiring_table\<close>, those with incarnations also \<^verbatim>\<open>generation_table\<close>, whose law is that a generation once issued
    is never honoured for another entry. A live route yields only to a strictly newer announce.
  \<^item> \<^verbatim>\<open>Lora\<close> (\<^verbatim>\<open>lora.rs\<close>), \<^verbatim>\<open>Announce_Control\<close> (\<^verbatim>\<open>announce_cap.rs\<close>, \<^verbatim>\<open>announce_admission.rs\<close>, \<^verbatim>\<open>announce_state.rs\<close>), \<^verbatim>\<open>Discovery\<close>
    (\<^verbatim>\<open>discovery.rs\<close>), \<^verbatim>\<open>Config\<close> (\<^verbatim>\<open>config.rs\<close>), \<^verbatim>\<open>Known_Destinations\<close> (\<^verbatim>\<open>known_destinations.rs\<close>): split frames reassemble to the
    packet, airtime and announce budgets are kept, committed ordering values increase, the registry refines
    a finite map, a known key is never replaced and always hashes to its destination.

  \<^bold>\<open>Cryptographic protocols.\<close>
  \<^item> \<^verbatim>\<open>Identity\<close> (\<^verbatim>\<open>identity.rs\<close>), \<^verbatim>\<open>Ifac\<close> (\<^verbatim>\<open>ifac.rs\<close>), \<^verbatim>\<open>Token\<close> (\<^verbatim>\<open>crypto.rs\<close>): announces an identity creates validate; access
    codes and Tokens round-trip, in place and by copy alike; an accepted access-coded frame is exactly the
    one a holder of the key writes; a ratchet scan uses the first key that decrypts.
  \<^item> \<^verbatim>\<open>Link\<close> (\<^verbatim>\<open>link.rs\<close>), \<^verbatim>\<open>Link_Session\<close> (\<^verbatim>\<open>link_session.rs\<close>): request, proof and key derivation fit together; the
    responder session is a state machine driven by packets, ticks and calls, whose invariant, edges and
    recorded identity are proved over every sequence of events, and which serves the initiator's key end to
    end. The round-trip time is read from the IEEE bits of the wire; its product with 1000 is rounded to 53
    bits as the code's floating point does.
  \<^item> \<^verbatim>\<open>Ratchet\<close>, \<^verbatim>\<open>Ratchet_Props\<close> (\<^verbatim>\<open>ratchet.rs\<close>): prepare, persist, commit: a prepared blob always commits, keeps every key
    in use and restores the same keys; the peer table is a list kept newest first, its blob round-trips.
  \<^item> \<^verbatim>\<open>Receipts\<close> (\<^verbatim>\<open>proof.rs\<close>, \<^verbatim>\<open>tunnel.rs\<close>): receipts of both forms validate; the memory of message ids is a bounded
    FIFO list without duplicates; the synthesis packet parses with a valid signature.
  \<^item> \<^verbatim>\<open>Resource_Adv\<close>, \<^verbatim>\<open>Resource\<close>, \<^verbatim>\<open>Resource_Props\<close> (\<^verbatim>\<open>resource.rs\<close>): advertisements survive the msgpack codec; after any history
    of parts and window changes one round per part completes a transfer, delivers the payload and proves it
    to the sender; nothing is exposed whose hash was not advertised; window and retries are bounded.
  \<^item> \<^verbatim>\<open>Auto\<close> (\<^verbatim>\<open>auto.rs\<close>): every IPv6 text fits 39 bytes, and a beacon token is the hash over it.

  \<^bold>\<open>The node\<close> (\<^verbatim>\<open>model.rs\<close>, \<^verbatim>\<open>transport.rs\<close>, \<^verbatim>\<open>transport/router.rs\<close>).
  \<^item> \<^verbatim>\<open>Model\<close>, \<^verbatim>\<open>Outbound\<close>, \<^verbatim>\<open>Node\<close>: the two interface models as one datatype, queue rows with their lifetimes and tokens, the
    node's record \<^verbatim>\<open>lite_node\<close> with construction, reset and own destinations.
  \<^item> \<^verbatim>\<open>Egress\<close>, \<^verbatim>\<open>Handlers\<close>, \<^verbatim>\<open>Ingest\<close>, \<^verbatim>\<open>Tick\<close>, \<^verbatim>\<open>Node_Ops\<close>: one definition per operation, composed as in the source, a
    long handler cut at its branches; the loops of \<^verbatim>\<open>tick\<close> terminate since each pass removes a due announce
    or an obligation.
  \<^item> \<^verbatim>\<open>Egress_Props\<close>, \<^verbatim>\<open>Node_Inv\<close>, \<^verbatim>\<open>Node_Steps\<close>, \<^verbatim>\<open>Node_Reach\<close>, \<^verbatim>\<open>Node_System\<close>, \<^verbatim>\<open>Node_Frames\<close>: the invariant \<^verbatim>\<open>node_inv\<close> of all tables and
    of the queue, its preservation by every operation, the step relation \<^verbatim>\<open>node_step\<close> with the nodes it reaches,
    and what each handler leaves alone.
  \<^item> \<^verbatim>\<open>Node_Queue\<close>, \<^verbatim>\<open>Node_Traffic\<close>, \<^verbatim>\<open>Node_Announce\<close>: the properties that span components. Reachable nodes are well formed;
    routes come only from valid announces, and an announce that is heard is learned; a link is validated
    only by its destination's signature; a repeated packet is a duplicate; queues of different interfaces
    are isolated and polling hands out every live frame; a queued packet crosses a LoRa hop unchanged; a
    failed path request leaves no trace; \<^verbatim>\<open>tick\<close> leaves nothing due.

  \<^bold>\<open>Not modelled.\<close> Wiping of secrets on drop and the redacting \<^verbatim>\<open>Debug\<close> output have no observable counterpart in a
  functional model. Getters that return a field are the record's selectors, and the read-only wrappers of
  the node that forward to one component are that component's functions. Timing of constant-time comparisons
  is not modelled. \<^verbatim>\<open>lib.rs\<close> only re-exports; the tests, vectors and scripts of the repository, and the host's
  drivers, clocks, entropy and persistence, are outside the crate. Packet buffers inside the node are
  represented by their visible bytes; \<^verbatim>\<open>Packet_Buffer\<close> justifies this.
\<close>

end
